(* ===== verification/Prelude.thy ===== *)
theory Prelude
  imports Main "HOL-Library.Word"
begin

unbundle bit_operations_syntax

text \<open>
  What the components share: the names of the C integer types of include/gb_types.h, the
  theorem collections of the development, arrays as functions from indices to bytes, and
  the word lemmas the component proofs need.

  A C array \<open>T x[N]\<close> is a function \<open>nat \<Rightarrow> T\<close>. Reading or writing at an index of \<open>N\<close> or
  more is not stopped by that type, so the components prove it separately: reads do not
  depend on the cells outside the array (\<open>agree\<close>) and writes leave them alone (\<open>untouched\<close>).
\<close>

type_synonym u8 = "8 word"
type_synonym u16 = "16 word"
type_synonym u32 = "32 word"
type_synonym u64 = "64 word"

type_synonym 'a array = "nat \<Rightarrow> 'a"

named_theorems bits \<comment> \<open>facts that evaluate masks and bit fields\<close>
named_theorems frame \<comment> \<open>what an operation leaves unchanged\<close>
named_theorems wf \<comment> \<open>preservation of the well-formedness invariants\<close>

section \<open>Arrays\<close>

definition agree :: "nat \<Rightarrow> 'a array \<Rightarrow> 'a array \<Rightarrow> bool" where
  "agree n x y \<longleftrightarrow> (\<forall>i<n. x i = y i)"

definition untouched :: "nat \<Rightarrow> 'a array \<Rightarrow> 'a array \<Rightarrow> bool" where
  "untouched n x y \<longleftrightarrow> (\<forall>i\<ge>n. y i = x i)"

lemma agreeD: "agree n x y \<Longrightarrow> i < n \<Longrightarrow> x i = y i"
  by (simp add: agree_def)

lemma agree_refl [simp, intro!]: "agree n x x"
  by (simp add: agree_def)

lemma agree_upd [intro]: "agree n x y \<Longrightarrow> agree n (x(i := v)) (y(i := v))"
  by (simp add: agree_def)

lemma untouched_refl [simp, intro!]: "untouched n x x"
  by (simp add: untouched_def)

lemma untouched_upd [intro]: "untouched n x y \<Longrightarrow> i < n \<Longrightarrow> untouched n x (y(i := v))"
  by (auto simp: untouched_def)

lemma untouched_trans [trans]: "untouched n x y \<Longrightarrow> untouched n y z \<Longrightarrow> untouched n x z"
  by (simp add: untouched_def)

section \<open>C conversions\<close>

text \<open>\<open>(u8)(lo | (hi << 8))\<close> and its parts; a C \<open>bool\<close> used as an integer.\<close>

definition mk16 :: "u8 \<Rightarrow> u8 \<Rightarrow> u16" where
  "mk16 lo hi = ucast lo OR push_bit 8 (ucast hi)"

definition lo8 :: "u16 \<Rightarrow> u8" where
  "lo8 w = ucast (w AND 0xFF)"

definition hi8 :: "u16 \<Rightarrow> u8" where
  "hi8 w = ucast (drop_bit 8 w)"

definition of_flag :: "bool \<Rightarrow> 'a::len word" where
  "of_flag b = (if b then 1 else 0)"

lemma of_flag_simps [simp]: "of_flag True = 1" "of_flag False = 0"
  by (simp_all add: of_flag_def)

lemma bit_numeral_word8_high [simp]: "8 \<le> n \<Longrightarrow> \<not> bit (w :: u8) n"
  by (rule impossible_bit) simp

lemma low_mask8 [bits]: "(w :: 'a::len word) AND 0xFF = take_bit 8 w"
  by (simp add: take_bit_eq_mask mask_eq_exp_minus_1)

lemma low_mask4 [bits]: "(w :: 'a::len word) AND 0xF = take_bit 4 w"
  by (simp add: take_bit_eq_mask mask_eq_exp_minus_1)

lemma lo8_mk16 [simp]: "lo8 (mk16 lo hi) = lo"
  by (rule bit_word_eqI) (auto simp: lo8_def mk16_def low_mask8 bit_simps)

lemma hi8_mk16 [simp]: "hi8 (mk16 lo hi) = hi"
  by (rule bit_word_eqI) (auto simp: hi8_def mk16_def bit_simps)

lemma mk16_lo8_hi8 [simp]: "mk16 (lo8 w) (hi8 w) = w"
proof (rule bit_word_eqI)
  fix n assume "n < LENGTH(16)"
  then show "bit (mk16 (lo8 w) (hi8 w)) n = bit w n"
    by (cases "n < 8") (auto simp: lo8_def hi8_def mk16_def low_mask8 bit_simps)
qed

section \<open>Bytes, one by one\<close>

lemma unat_u8 [simp]: "unat (w :: u8) < 256"
  using unsigned_less [where ?'a = nat, of w] by simp

lemma unat_of_nat_u8: "unat (of_nat n :: u8) = n mod 256"
  by (simp only: unat_of_nat take_bit_eq_mod) simp

lemma unat_of_nat_u16: "unat (of_nat n :: u16) = n mod 65536"
  by (simp only: unat_of_nat take_bit_eq_mod) simp

lemma unat_of_nat_u32: "unat (of_nat n :: u32) = n mod 4294967296"
  by (simp only: unat_of_nat take_bit_eq_mod) simp

lemma unat_ucast_u8 [simp]: "unat (ucast (b :: u8) :: u16) = unat b"
  "unat (ucast (b :: u8) :: u32) = unat b"
  "unat (ucast (b :: u8) :: u64) = unat b"
  by (simp_all add: unsigned_ucast_eq unsigned_take_bit_eq take_bit_nat_eq_self_iff less_trans [OF unat_u8])

lemma unat_ucast_u16 [simp]: "unat (ucast (b :: u16) :: u32) = unat b"
  using unsigned_less [where ?'a = nat, of b]
  by (simp add: unsigned_ucast_eq unsigned_take_bit_eq take_bit_nat_eq_self_iff)

lemma unat_add_u8: "unat ((a :: u8) + b) = (unat a + unat b) mod 256"
  by (simp add: unat_word_ariths)

lemma unat_low3: "unat ((w :: u8) AND 7) = unat w mod 8"
proof -
  have "w AND 7 = take_bit 3 w" by (simp add: take_bit_eq_mask mask_eq_exp_minus_1)
  then show ?thesis by (simp add: take_bit_eq_mod unat_mod)
qed

lemma unat_low4: "unat ((w :: u8) AND 0xF) = unat w mod 16"
  by (simp add: low_mask4 take_bit_eq_mod unat_mod)

lemma ucast_of_nat_down:
  "ucast (of_nat n :: u16) = (of_nat n :: u8)" "ucast (of_nat n :: u32) = (of_nat n :: u8)"
  "ucast (of_nat n :: u32) = (of_nat n :: u16)" "ucast (of_nat n :: u64) = (of_nat n :: u32)"
  by (simp_all add: unsigned_of_nat word_of_nat_eq_iff)

lemma ucast_plus_of_nat: "ucast ((ucast (w :: u8) :: u32) + of_nat n) = w + of_nat n"
  using ucast_of_nat_down(2) [of "unat w + n"] by simp

lemma unat_add_u16: "unat a + unat b < 65536 \<Longrightarrow> unat (a + b :: u16) = unat a + unat b"
  by (simp add: unat_word_ariths)

lemma unat_ucast_u32: "unat (ucast (w :: u32) :: u64) = unat w"
  using unsigned_less [where ?'a = nat, of w]
  by (simp add: unsigned_ucast_eq unsigned_take_bit_eq take_bit_nat_eq_self_iff)

lemma ucast_of_nat_up: "n < 65536 \<Longrightarrow> ucast (of_nat n :: u32) = (of_nat n :: u64)"
  by (simp only: word_unat_eq_iff unat_ucast_u32 unat_of_nat take_bit_eq_mod) simp

text \<open>A property of a range of bytes, checked at each numeral.\<close>

lemma u8_range:
  assumes "\<forall>i\<in>set [a..<b]. P (of_nat i)" "a \<le> unat op" "unat op < b"
  shows "P (op :: u8)"
proof -
  have "unat op \<in> set [a..<b]" using assms by simp
  with assms(1) have "P (of_nat (unat op))" by blast
  then show ?thesis by simp
qed

section \<open>Iteration and division\<close>

lemma funpow_commute: "(\<And>m. f (g m) = g (f m)) \<Longrightarrow> (f ^^ n) (g m) = g ((f ^^ n) m)"
  by (induction n) simp_all

lemma funpow_keeps: "(\<And>m. g (f m) = g m) \<Longrightarrow> g ((f ^^ n) m) = g m"
  by (induction n) simp_all

lemma funpow_funpow: "(f ^^ i) ((f ^^ j) x) = (f ^^ (i + j)) x"
  by (simp add: funpow_add)

lemma div_mod_split:
  assumes "0 < (p :: nat)"
  shows "((t + a) mod p + b) div p + (t + a) div p = (t + (a + b)) div p"
    "((t + a) mod p + b) mod p = (t + (a + b)) mod p"
proof -
  define q where "q = (t + a) div p"
  have e: "t + (a + b) = ((t + a) mod p + b) + q * p" by (simp add: q_def)
  show "((t + a) mod p + b) div p + (t + a) div p = (t + (a + b)) div p"
    unfolding e q_def [symmetric] using assms by simp
  show "((t + a) mod p + b) mod p = (t + (a + b)) mod p" unfolding e by simp
qed

end
