(* ===== verification/Interfaces.thy ===== *)
theory Interfaces
  imports Prelude
begin

text \<open>
  The interfaces between the components, as locales: a byte bus with read-after-write laws
  (the memory behind the stack and the 16-bit accesses), a sink of bytes (the emit buffer of the
  code generator), an allocator that never hands out a byte twice (the code cache), a machine whose steps advance a cycle
  counter by a bounded amount (what the run loops rely on), and a counter that may be advanced
  in one go or in parts (what lets the clocks of the machine be brought up to date lazily).
\<close>

section \<open>A byte bus\<close>

text \<open>
  \<open>plain\<close> are the addresses that behave as memory, \<open>cell\<close> names the byte an address stands for:
  two addresses alias exactly when their cells agree.
\<close>

locale byte_bus =
  fixes rd :: "'m \<Rightarrow> u16 \<Rightarrow> u8"
    and wr :: "u16 \<Rightarrow> u8 \<Rightarrow> 'm \<Rightarrow> 'm"
    and plain :: "u16 \<Rightarrow> bool"
    and cell :: "u16 \<Rightarrow> u16"
  assumes read_write: "plain a \<Longrightarrow> plain b \<Longrightarrow> rd (wr a v m) b = (if cell b = cell a then v else rd m b)"
    and cell_next: "plain a \<Longrightarrow> plain (a + 1) \<Longrightarrow> cell (a + 1) \<noteq> cell a"
begin

lemma read_write_same: "plain a \<Longrightarrow> rd (wr a v m) a = v"
  by (simp add: read_write)

lemma read_write_word:
  assumes "plain a" "plain (a + 1)"
  shows "mk16 (rd (wr (a + 1) (hi8 v) (wr a (lo8 v) m)) a)
              (rd (wr (a + 1) (hi8 v) (wr a (lo8 v) m)) (a + 1)) = v"
  using assms cell_next [OF assms] cell_next [OF assms, symmetric] by (simp add: read_write)

lemma write_word_frame:
  assumes "plain a" "plain (a + 1)" "plain b" "cell b \<noteq> cell a" "cell b \<noteq> cell (a + 1)"
  shows "rd (wr (a + 1) h (wr a l m)) b = rd m b"
  using assms by (simp add: read_write)

lemma overwrite:
  assumes "plain a" "plain b"
  shows "rd (wr a w (wr a v m)) b = rd (wr a w m) b"
  using assms by (simp add: read_write)

lemma write_commute:
  assumes "plain a" "plain b" "plain c" "cell a \<noteq> cell b"
  shows "rd (wr a v (wr b w m)) c = rd (wr b w (wr a v m)) c"
  using assms by (auto simp: read_write)

end

section \<open>A sink of bytes\<close>

text \<open>
  Bytes are put one at a time; \<open>contents\<close> is what has been put so far, \<open>room\<close> how many more fit,
  and \<open>ok\<close> the invariant of the sink.
\<close>

locale byte_sink =
  fixes put :: "u8 \<Rightarrow> 's \<Rightarrow> 's"
    and contents :: "'s \<Rightarrow> u8 list"
    and ok :: "'s \<Rightarrow> bool"
    and room :: "'s \<Rightarrow> nat"
  assumes put_contents: "ok s \<Longrightarrow> 0 < room s \<Longrightarrow> contents (put b s) = contents s @ [b]"
    and put_ok: "ok s \<Longrightarrow> 0 < room s \<Longrightarrow> ok (put b s)"
    and put_room: "ok s \<Longrightarrow> 0 < room s \<Longrightarrow> room (put b s) = room s - 1"
begin

lemma put_list:
  assumes "ok s" "length bs \<le> room s"
  shows "ok (fold put bs s)" "contents (fold put bs s) = contents s @ bs"
    "room (fold put bs s) = room s - length bs"
  using assms by (induction bs arbitrary: s) (auto simp: put_contents put_ok put_room)

end

section \<open>An allocator\<close>

text \<open>
  \<open>allocs n s r s'\<close>: a request for \<open>n\<close> bytes takes the state \<open>s\<close> to \<open>s'\<close> and returns \<open>r\<close>. \<open>inv s A\<close> says that
  \<open>s\<close> is well formed and counts the bytes \<open>A\<close> as handed out, \<open>top\<close> is the size of the arena.
\<close>

fun block_bytes :: "u32 \<times> u32 option \<Rightarrow> nat set" where
  "block_bytes (n, None) = {}"
| "block_bytes (n, Some p) = {unat p..<unat p + unat n}"

inductive alloc_run :: "(u32 \<Rightarrow> 's \<Rightarrow> u32 option \<Rightarrow> 's \<Rightarrow> bool) \<Rightarrow> 's \<Rightarrow> (u32 \<times> u32 option) list \<Rightarrow> 's \<Rightarrow> bool"
  for allocs where
  alloc_none: "alloc_run allocs s [] s"
| alloc_one: "allocs n s r s' \<Longrightarrow> alloc_run allocs s' bs s'' \<Longrightarrow> alloc_run allocs s ((n, r) # bs) s''"

inductive_cases alloc_run_NilE: "alloc_run allocs s [] s'"
inductive_cases alloc_run_ConsE: "alloc_run allocs s (b # bs) s'"

locale allocator =
  fixes allocs :: "u32 \<Rightarrow> 's \<Rightarrow> u32 option \<Rightarrow> 's \<Rightarrow> bool"
    and inv :: "'s \<Rightarrow> nat set \<Rightarrow> bool"
    and top :: "'s \<Rightarrow> nat"
    and fits :: "u32 \<Rightarrow> bool"
  assumes alloc: "inv s A \<Longrightarrow> fits n \<Longrightarrow> allocs n s r s' \<Longrightarrow>
      block_bytes (n, r) \<inter> A = {} \<and> block_bytes (n, r) \<subseteq> {..<top s}
      \<and> inv s' (A \<union> block_bytes (n, r)) \<and> top s' = top s"
begin

lemma run_disjoint:
  assumes "alloc_run allocs s bs s'" "inv s A" "\<forall>b\<in>set bs. fits (fst b)"
  shows "sorted_wrt (\<lambda>b c. block_bytes b \<inter> block_bytes c = {}) bs
    \<and> (\<forall>b\<in>set bs. block_bytes b \<inter> A = {} \<and> block_bytes b \<subseteq> {..<top s})
    \<and> inv s' (A \<union> (\<Union>b\<in>set bs. block_bytes b)) \<and> top s' = top s"
  using assms
proof (induction arbitrary: A rule: alloc_run.induct)
  case (alloc_none s)
  then show ?case by simp
next
  case (alloc_one n s r s' bs s'')
  have a: "block_bytes (n, r) \<inter> A = {} \<and> block_bytes (n, r) \<subseteq> {..<top s}
      \<and> inv s' (A \<union> block_bytes (n, r)) \<and> top s' = top s"
    using alloc [OF alloc_one.prems(1) _ alloc_one.hyps(1)] alloc_one.prems(2) by simp
  moreover have "A \<union> block_bytes (n, r) \<union> (\<Union>b\<in>set bs. block_bytes b) = A \<union> (\<Union>b\<in>set ((n, r) # bs). block_bytes b)"
    by auto
  ultimately show ?case
    using alloc_one.IH [of "A \<union> block_bytes (n, r)"] alloc_one.prems(2) by (simp add: Int_Un_distrib) blast
qed

end

section \<open>A machine driven by a cycle counter\<close>

locale clocked =
  fixes step :: "'s \<Rightarrow> 's"
    and clock :: "'s \<Rightarrow> u64"
    and longest :: nat
  assumes advance: "\<exists>k. 0 < k \<and> k \<le> longest \<and> clock (step s) = clock s + of_nat k"
begin

lemma clock_step:
  assumes "unat (clock s) + longest < 2 ^ 64"
  shows "clock s < clock (step s)" "unat (clock (step s)) \<le> unat (clock s) + longest"
proof -
  obtain k where k: "0 < k" "k \<le> longest" "clock (step s) = clock s + of_nat k"
    using advance by blast
  then have "unat (clock (step s)) = unat (clock s) + k"
    using assms by (simp add: unat_word_ariths unat_of_nat take_bit_eq_mod)
  with k show "clock s < clock (step s)" "unat (clock (step s)) \<le> unat (clock s) + longest"
    by (simp_all add: word_less_nat_alt)
qed

lemma reaches:
  assumes "unat until + longest \<le> 2 ^ 64"
  shows "\<exists>n. (\<forall>i<n. clock ((step ^^ i) s) < until) \<and> until \<le> clock ((step ^^ n) s)
    \<and> (clock s < until \<longrightarrow> unat (clock ((step ^^ n) s)) < unat until + longest)"
proof (induction "unat until - unat (clock s)" arbitrary: s rule: less_induct)
  case less
  show ?case
  proof (cases "clock s < until")
    case False
    then show ?thesis by (intro exI [of _ 0]) simp
  next
    case True
    then have lt: "unat (clock s) < unat until" by (simp add: word_less_nat_alt)
    with assms have "unat (clock s) + longest < 2 ^ 64" by linarith
    note up = clock_step [OF this]
    from up lt have "unat until - unat (clock (step s)) < unat until - unat (clock s)"
      by (simp add: word_less_nat_alt)
    from less [OF this] obtain n where
      n: "\<forall>i<n. clock ((step ^^ i) (step s)) < until" "until \<le> clock ((step ^^ n) (step s))"
        "clock (step s) < until \<longrightarrow> unat (clock ((step ^^ n) (step s))) < unat until + longest"
      by blast
    have "unat (clock ((step ^^ n) (step s))) < unat until + longest"
    proof (cases "clock (step s) < until")
      case True
      with n show ?thesis by simp
    next
      case False
      with n(1) have "n = 0" by force
      with up(2) lt show ?thesis by simp
    qed
    moreover have "\<forall>i<Suc n. clock ((step ^^ i) s) < until"
      using n(1) True by (auto simp: less_Suc_eq_0_disj funpow_swap1)
    ultimately show ?thesis
      using n(2) by (intro exI [of _ "Suc n"]) (simp add: funpow_swap1)
  qed
qed

end

section \<open>A clock that may be advanced in parts\<close>

text \<open>
  \<open>adv d s\<close> lets \<open>d\<close> cycles pass, \<open>room d s\<close> says that they fit the counters of \<open>s\<close>. Advancing in
  parts is the same as advancing once, so it does not matter how often the owner of the clock is
  asked to catch up.
\<close>

locale divisible_clock =
  fixes adv :: "nat \<Rightarrow> 's \<Rightarrow> 's"
    and room :: "nat \<Rightarrow> 's \<Rightarrow> bool"
  assumes adv_adv: "room (a + b) s \<Longrightarrow> adv b (adv a s) = adv (a + b) s"
    and room_less: "room (a + b) s \<Longrightarrow> room a s"
    and room_adv: "room (a + b) s \<Longrightarrow> room b (adv a s)"
begin

lemma adv_parts:
  "room (d + sum_list ds) s \<Longrightarrow> foldl (\<lambda>s d. adv d s) (adv d s) ds = adv (d + sum_list ds) s"
proof (induction ds arbitrary: d)
  case Nil
  then show ?case by simp
next
  case (Cons e ds)
  then have r: "room ((d + e) + sum_list ds) s" by (simp add: add.assoc)
  from Cons.IH [OF this] adv_adv [OF room_less [OF r]] show ?case by (simp add: add.assoc)
qed

end

end
