(* ===== verification/Mmu_State.thy ===== *)
theory Mmu_State
  imports Prelude
begin

text \<open>
  The state of core/memory.h: \<open>struct mmu\<close> with the cartridge, the RAM areas, the IO page, the
  MBC1 banking state, the self-modifying-code flags the JIT polls, the PPU and timer registers
  and the framebuffer. The file-static lookup tables of core/ppu.c are a field of their own.

  The back pointer \<open>m->cpu\<close> is only ever compared with NULL and followed to \<open>cpu->cycles\<close>; it is
  the flag \<open>attached\<close>, and the operations that follow it take the cycle counter as an argument.
  \<open>serial_sink\<close> is a callback into the host; the model keeps whether it is set and the bytes it
  has been given. \<open>frame_complete_cb\<close> is NULL, as on the host port.
\<close>

section \<open>Sizes\<close>

definition ROM_SIZE_MAX :: nat where "ROM_SIZE_MAX = 256 * 1024"
definition ROM_BANK_SIZE :: nat where "ROM_BANK_SIZE = 16 * 1024"
definition ROM_DEFAULT_BYTES :: nat where "ROM_DEFAULT_BYTES = 32 * 1024"
definition VRAM_SIZE :: nat where "VRAM_SIZE = 8 * 1024"
definition WRAM_SIZE :: nat where "WRAM_SIZE = 8 * 1024"
definition OAM_SIZE :: nat where "OAM_SIZE = 160"
definition HRAM_SIZE :: nat where "HRAM_SIZE = 127"
definition IO_SIZE :: nat where "IO_SIZE = 0x80"
definition PAGE_COUNT :: nat where "PAGE_COUNT = 256"
definition FB_SIZE :: nat where "FB_SIZE = 160 * 144"

lemmas sizes = ROM_SIZE_MAX_def ROM_BANK_SIZE_def ROM_DEFAULT_BYTES_def VRAM_SIZE_def
  WRAM_SIZE_def OAM_SIZE_def HRAM_SIZE_def IO_SIZE_def PAGE_COUNT_def FB_SIZE_def

section \<open>The structure\<close>

datatype mbc_type = MBC_NONE | MBC_1

text \<open>The file-static tables of the tile-row renderer (core/ppu.c).\<close>

record ppu_luts =
  bg_cid_lut :: "nat \<Rightarrow> nat \<Rightarrow> u32"
  bg_shade_lut :: "nat \<Rightarrow> nat \<Rightarrow> u32"
  bg_shade_lut_bgp :: u8
  bg_lut_inited :: bool

record mmu =
  rom :: "u8 array"
  rom_capacity :: u32
  vram :: "u8 array"
  wram :: "u8 array"
  oam :: "u8 array"
  hram :: "u8 array"
  io :: "u8 array"
  ie :: u8
  boot_rom_disabled :: u8
  mbc :: mbc_type
  rom_bank :: u8
  rom_banks :: u16
  buttons :: u8
  rom_bank_dirty :: u8
  jit_smc_dirty :: u8
  jit_page_state :: "u8 array"
  attached :: bool
  ppu_lcd_mode :: u8
  ppu_stat_line :: u8
  ppu_last_lcdc :: u8
  ppu_latched_wy :: u8
  ppu_lcd_count :: u16
  ppu_mode3_cycles :: u16
  ppu_mode0_cycles :: u16
  ppu_lcd_off_count :: u32
  ppu_last_cpu_cycles :: u64
  timer_last_cycles :: u64
  timer_div_acc :: u32
  timer_tima_acc :: u32
  ppu_next_event_cycles :: u64
  framebuffer :: "u8 array"
  window_line :: u8
  frame_seq :: u32
  serial_sink :: bool
  serial_log :: "u8 list"
  luts :: ppu_luts

section \<open>IO registers\<close>

abbreviation (input) JOYP_REG :: nat where "JOYP_REG \<equiv> 0x00"
abbreviation (input) SB_REG :: nat where "SB_REG \<equiv> 0x01"
abbreviation (input) SC_REG :: nat where "SC_REG \<equiv> 0x02"
abbreviation (input) DIV_REG :: nat where "DIV_REG \<equiv> 0x04"
abbreviation (input) TIMA_REG :: nat where "TIMA_REG \<equiv> 0x05"
abbreviation (input) TMA_REG :: nat where "TMA_REG \<equiv> 0x06"
abbreviation (input) TAC_REG :: nat where "TAC_REG \<equiv> 0x07"
abbreviation (input) IF_REG :: nat where "IF_REG \<equiv> 0x0F"
abbreviation (input) LCDC_REG :: nat where "LCDC_REG \<equiv> 0x40"
abbreviation (input) STAT_REG :: nat where "STAT_REG \<equiv> 0x41"
abbreviation (input) SCY_REG :: nat where "SCY_REG \<equiv> 0x42"
abbreviation (input) SCX_REG :: nat where "SCX_REG \<equiv> 0x43"
abbreviation (input) LY_REG :: nat where "LY_REG \<equiv> 0x44"
abbreviation (input) LYC_REG :: nat where "LYC_REG \<equiv> 0x45"
abbreviation (input) BGP_REG :: nat where "BGP_REG \<equiv> 0x47"
abbreviation (input) OBP0_REG :: nat where "OBP0_REG \<equiv> 0x48"
abbreviation (input) OBP1_REG :: nat where "OBP1_REG \<equiv> 0x49"
abbreviation (input) WY_REG :: nat where "WY_REG \<equiv> 0x4A"
abbreviation (input) WX_REG :: nat where "WX_REG \<equiv> 0x4B"

abbreviation io_put :: "nat \<Rightarrow> u8 \<Rightarrow> mmu \<Rightarrow> mmu" where
  "io_put r v m \<equiv> m\<lparr>io := (io m)(r := v)\<rparr>"

text \<open>Interrupt request bits (core/cpu_state.h).\<close>

abbreviation (input) INT_VBLANK :: u8 where "INT_VBLANK \<equiv> 0x01"
abbreviation (input) INT_LCD :: u8 where "INT_LCD \<equiv> 0x02"
abbreviation (input) INT_TIMER :: u8 where "INT_TIMER \<equiv> 0x04"
abbreviation (input) INT_SERIAL :: u8 where "INT_SERIAL \<equiv> 0x08"
abbreviation (input) INT_JOYPAD :: u8 where "INT_JOYPAD \<equiv> 0x10"

text \<open>
  \<open>gb_cycles_reached\<close>: the wrap-safe comparison of two cycle stamps by the sign of their
  32-bit difference.
\<close>

definition gb_cycles_reached :: "u64 \<Rightarrow> u64 \<Rightarrow> bool" where
  "gb_cycles_reached now deadline \<longleftrightarrow> 0 \<le> sint ((ucast now :: u32) - ucast deadline)"

end
