(* ===== verification/Ppu_Render.thy ===== *)
theory Ppu_Render
  imports Mmu_State
begin

text \<open>
  The scanline renderer of core/ppu.c: the tile-row lookup tables, the background in its
  table-driven and its per-pixel form, the window, the sprites, and \<open>ppu_draw_line\<close> over them.

  A scanline is drawn into two arrays: the framebuffer from \<open>base = ly * 160\<close> on, and
  \<open>bg_color_id\<close>, the colour numbers before the palette that sprite priority looks at. The
  column crop has its default bounds 0 and 160, and the renderer default
  \<open>GBJIT_PPU_FAST_BG_RENDERER\<close> is 1; the per-pixel form is the code of the other setting.
\<close>

abbreviation (input) MIN_X :: nat where "MIN_X \<equiv> 0"
abbreviation (input) MAX_X :: nat where "MAX_X \<equiv> 160"

abbreviation (input) LCDC_ENABLE :: u8 where "LCDC_ENABLE \<equiv> 0x80"
abbreviation (input) LCDC_WINDOW_TILEMAP_HI :: u8 where "LCDC_WINDOW_TILEMAP_HI \<equiv> 0x40"
abbreviation (input) LCDC_WINDOW_ENABLE :: u8 where "LCDC_WINDOW_ENABLE \<equiv> 0x20"
abbreviation (input) LCDC_BG_TILEDATA_LO :: u8 where "LCDC_BG_TILEDATA_LO \<equiv> 0x10"
abbreviation (input) LCDC_BG_TILEMAP_HI :: u8 where "LCDC_BG_TILEMAP_HI \<equiv> 0x08"
abbreviation (input) LCDC_OBJ_SIZE :: u8 where "LCDC_OBJ_SIZE \<equiv> 0x04"
abbreviation (input) LCDC_OBJ_ENABLE :: u8 where "LCDC_OBJ_ENABLE \<equiv> 0x02"
abbreviation (input) LCDC_BG_ENABLE :: u8 where "LCDC_BG_ENABLE \<equiv> 0x01"

abbreviation (input) OAM_BG_PRIO :: u8 where "OAM_BG_PRIO \<equiv> 0x80"
abbreviation (input) OAM_FLIP_Y :: u8 where "OAM_FLIP_Y \<equiv> 0x40"
abbreviation (input) OAM_FLIP_X :: u8 where "OAM_FLIP_X \<equiv> 0x20"
abbreviation (input) OAM_PAL_1 :: u8 where "OAM_PAL_1 \<equiv> 0x10"

definition has :: "u8 \<Rightarrow> u8 \<Rightarrow> bool" where
  "has v bits \<longleftrightarrow> v AND bits \<noteq> 0"

section \<open>Pixels and palettes\<close>

text \<open>The colour number of one pixel of a tile row, from its two bitplane bytes.\<close>

definition cid_of :: "u8 \<Rightarrow> u8 \<Rightarrow> nat \<Rightarrow> u8" where
  "cid_of b0 b1 bt = push_bit 1 (drop_bit bt b1 AND 1) OR (drop_bit bt b0 AND 1)"

definition shade :: "u8 \<Rightarrow> nat \<Rightarrow> u8" where
  "shade pal i = drop_bit (2 * i) pal AND 3"

text \<open>\<open>fetch_tile_pixel\<close>, the per-pixel fetch the tile-row code replaces.\<close>

definition fetch_tile_pixel :: "u8 array \<Rightarrow> u16 \<Rightarrow> u8 \<Rightarrow> u8 \<Rightarrow> u8" where
  "fetch_tile_pixel v tile_addr_vram_rel row col =
     (let line_addr = unat (tile_addr_vram_rel + ucast row * 2);
          b0 = v line_addr;
          b1 = v (line_addr + 1)
      in cid_of b0 b1 (unat (7 - col)))"

section \<open>Lookup tables\<close>

definition bg_cid_entry :: "nat \<Rightarrow> nat \<Rightarrow> u32" where
  "bg_cid_entry b0 b1 =
     foldl (\<lambda>packed p.
       let bt = 3 - p;
           cid = ucast (push_bit 1 (drop_bit bt (of_nat b1) AND 1)
                        OR (drop_bit bt (of_nat b0) AND 1) :: u32) :: u8
       in packed OR push_bit (p * 8) (ucast cid)) 0 [0..<4]"

definition build_bg_cid_lut :: "ppu_luts \<Rightarrow> ppu_luts" where
  "build_bg_cid_lut L =
     L\<lparr>bg_cid_lut := (\<lambda>b0 b1. if b0 < 16 \<and> b1 < 16 then bg_cid_entry b0 b1 else bg_cid_lut L b0 b1),
       bg_lut_inited := True\<rparr>"

definition bg_shade_entry :: "u8 \<Rightarrow> u32 \<Rightarrow> u32" where
  "bg_shade_entry bgp cids =
     (let sh = (\<lambda>k. ucast (shade bgp (unat (drop_bit k cids AND 3))) :: u32)
      in sh 0 OR push_bit 8 (sh 8) OR push_bit 16 (sh 16) OR push_bit 24 (sh 24))"

definition rebuild_shade_lut :: "u8 \<Rightarrow> ppu_luts \<Rightarrow> ppu_luts" where
  "rebuild_shade_lut bgp L =
     L\<lparr>bg_shade_lut := (\<lambda>b0 b1. if b0 < 16 \<and> b1 < 16 then bg_shade_entry bgp (bg_cid_lut L b0 b1)
                               else bg_shade_lut L b0 b1),
       bg_shade_lut_bgp := bgp\<rparr>"

definition ensure_bg_luts :: "u8 \<Rightarrow> ppu_luts \<Rightarrow> ppu_luts" where
  "ensure_bg_luts bgp L =
     (let L = (if \<not> bg_lut_inited L then build_bg_cid_lut L else L)
      in if bgp \<noteq> bg_shade_lut_bgp L then rebuild_shade_lut bgp L else L)"

text \<open>The static initialisers of the tables.\<close>

definition luts_init :: ppu_luts where
  "luts_init = \<lparr>bg_cid_lut = (\<lambda>_ _. 0), bg_shade_lut = (\<lambda>_ _. 0),
                bg_shade_lut_bgp = 0xFF, bg_lut_inited = False\<rparr>"

section \<open>Tiles\<close>

definition tile_addr :: "bool \<Rightarrow> u8 \<Rightarrow> u16" where
  "tile_addr unsigned_tiles tile_id =
     (if unsigned_tiles then ucast tile_id * 16 else 0x1000 + scast tile_id * 16)"

text \<open>The bitplane bytes of the tile row that column \<open>col\<close> of a tilemap row shows.\<close>

definition tile_row_bytes :: "u8 array \<Rightarrow> nat \<Rightarrow> bool \<Rightarrow> u16 \<Rightarrow> nat \<Rightarrow> u8 \<times> u8" where
  "tile_row_bytes v tilemap_row unsigned_tiles row_off tile_col =
     (let tile_id = v (tilemap_row + tile_col);
          a = unat (tile_addr unsigned_tiles tile_id) + unat row_off
      in (v a, v (a + 1)))"

definition bg_bytes :: "mmu \<Rightarrow> u8 \<Rightarrow> u8 \<Rightarrow> u8 \<times> u8" where
  "bg_bytes m ly bg_x =
     (let lcdc = io m LCDC_REG;
          tilemap_base = (if has lcdc LCDC_BG_TILEMAP_HI then 0x1C00 else 0x1800);
          bg_y = ly + io m SCY_REG;
          tile_row = drop_bit 3 bg_y;
          pixel_row = bg_y AND 7;
          tilemap_row = tilemap_base + unat tile_row * 32
      in tile_row_bytes (vram m) tilemap_row (has lcdc LCDC_BG_TILEDATA_LO)
           (ucast pixel_row * 2) (unat (drop_bit 3 bg_x AND 0x1F)))"

definition win_bytes :: "mmu \<Rightarrow> nat \<Rightarrow> u8 \<times> u8" where
  "win_bytes m win_x =
     (let lcdc = io m LCDC_REG;
          tilemap_base = (if has lcdc LCDC_WINDOW_TILEMAP_HI then 0x1C00 else 0x1800);
          wy_internal = window_line m;
          tile_row = drop_bit 3 wy_internal;
          pixel_row = wy_internal AND 7;
          tilemap_row = tilemap_base + unat tile_row * 32
      in tile_row_bytes (vram m) tilemap_row (has lcdc LCDC_BG_TILEDATA_LO)
           (ucast pixel_row * 2) ((win_x div 8) mod 32))"

section \<open>Background\<close>

text \<open>A scanline in progress: the framebuffer and the colour numbers.\<close>

type_synonym scan = "u8 array \<times> u8 array"

text \<open>
  The inner pixel loop \<open>for (; pc < 8 && x < max_x; pc++, x++, bg_x++)\<close>. The counter that runs
  along (\<open>bg_x\<close> or \<open>win_x\<close>) is the argument \<open>c\<close>.
\<close>

function px_span :: "u8 \<Rightarrow> u8 \<Rightarrow> u8 \<Rightarrow> nat \<Rightarrow> nat \<Rightarrow> nat \<Rightarrow> 'c::{plus,one} \<Rightarrow> scan \<Rightarrow> nat \<times> 'c \<times> scan" where
  "px_span b0 b1 bgp base pc x c (fb, cids) =
     (if pc < 8 \<and> x < MAX_X then
        let cid = cid_of b0 b1 (7 - pc)
        in px_span b0 b1 bgp base (pc + 1) (x + 1) (c + 1)
             (fb(base + x := shade bgp (unat cid)), cids(x := cid))
      else (x, c, (fb, cids)))"
  by pat_completeness auto
termination
  by (relation "measure (\<lambda>(b0, b1, bgp, base, pc, x, c, s). 8 - pc)") auto

declare px_span.simps [simp del]

text \<open>The span loop advances \<open>x\<close> when it is entered with room; the outer loops end by this.\<close>

lemma px_span_x: "fst (px_span b0 b1 bgp base pc x c s) = x + min (8 - pc) (MAX_X - x)"
  by (induction b0 b1 bgp base pc x c s rule: px_span.induct)
    (subst px_span.simps, auto simp: Let_def min_def)

text \<open>
  The per-pixel form: one tile per iteration, entered inside a tile the first time. After the
  first tile \<open>pc\<close> is 0.
\<close>

function bg_slow :: "mmu \<Rightarrow> u8 \<Rightarrow> nat \<Rightarrow> nat \<Rightarrow> nat \<Rightarrow> u8 \<Rightarrow> scan \<Rightarrow> scan" where
  "bg_slow m ly base pc x bg_x s =
     (if x < MAX_X then
        (case bg_bytes m ly bg_x of (b0, b1) \<Rightarrow>
         case px_span b0 b1 (io m BGP_REG) base pc x bg_x s of (x', bg_x', s') \<Rightarrow>
           bg_slow m ly base 0 x' bg_x' s')
      else s)"
  by pat_completeness auto
termination
  by (relation "measures [\<lambda>(m, ly, base, pc, x, bg_x, s). MAX_X - x, \<lambda>(m, ly, base, pc, x, bg_x, s). pc]")
    (auto simp: case_prod_beta px_span_x min_def)

declare bg_slow.simps [simp del]

text \<open>A little-endian 32-bit store by \<open>memcpy\<close>.\<close>

definition memcpy4 :: "u8 array \<Rightarrow> nat \<Rightarrow> u32 \<Rightarrow> u8 array" where
  "memcpy4 a i w = a(i := ucast w, i + 1 := ucast (drop_bit 8 w),
                     i + 2 := ucast (drop_bit 16 w), i + 3 := ucast (drop_bit 24 w))"

text \<open>The aligned loop of the table-driven form: eight pixels by two 4-bit lookups each.\<close>

function bg_aligned :: "mmu \<Rightarrow> ppu_luts \<Rightarrow> u8 \<Rightarrow> nat \<Rightarrow> nat \<Rightarrow> u8 \<Rightarrow> scan \<Rightarrow> nat \<times> u8 \<times> scan" where
  "bg_aligned m L ly base x bg_x (fb, cids) =
     (if x + 8 \<le> MAX_X then
        (case bg_bytes m ly bg_x of (b0, b1) \<Rightarrow>
         let h0 = unat (drop_bit 4 b0); h1 = unat (drop_bit 4 b1);
             l0 = unat (b0 AND 0xF); l1 = unat (b1 AND 0xF);
             cids = memcpy4 (memcpy4 cids x (bg_cid_lut L h0 h1)) (x + 4) (bg_cid_lut L l0 l1);
             fb = memcpy4 (memcpy4 fb (base + x) (bg_shade_lut L h0 h1))
                    (base + (x + 4)) (bg_shade_lut L l0 l1)
         in bg_aligned m L ly base (x + 8) (bg_x + 8) (fb, cids))
      else (x, bg_x, (fb, cids)))"
  by pat_completeness auto
termination
  by (relation "measure (\<lambda>(m, L, ly, base, x, bg_x, s). MAX_X - x)") auto

declare bg_aligned.simps [simp del]

text \<open>The leading partial tile, the aligned loop, then the trailing tile pixel by pixel.\<close>

definition bg_fast :: "mmu \<Rightarrow> ppu_luts \<Rightarrow> u8 \<Rightarrow> nat \<Rightarrow> scan \<Rightarrow> scan" where
  "bg_fast m L ly base s =
     (let x = MIN_X; bg_x = io m SCX_REG + of_nat MIN_X; pc = unat (bg_x AND 7);
          (x, bg_x, s) = (if pc \<noteq> 0
             then (case bg_bytes m ly bg_x of (b0, b1) \<Rightarrow>
                     px_span b0 b1 (io m BGP_REG) base pc x bg_x s)
             else (x, bg_x, s));
          (x, bg_x, s) = bg_aligned m L ly base x bg_x s
      in bg_slow m ly base 0 x bg_x s)"

text \<open>\<open>LCDC_BG_ENABLE\<close> clear: the line is filled with shade 0 of the palette.\<close>

function bg_blank :: "u8 \<Rightarrow> nat \<Rightarrow> nat \<Rightarrow> scan \<Rightarrow> scan" where
  "bg_blank bgp base x (fb, cids) =
     (if x < MAX_X then bg_blank bgp base (x + 1) (fb(base + x := shade bgp 0), cids(x := 0))
      else (fb, cids))"
  by pat_completeness auto
termination
  by (relation "measure (\<lambda>(bgp, base, x, s). MAX_X - x)") auto

declare bg_blank.simps [simp del]

section \<open>Window\<close>

function win_loop :: "mmu \<Rightarrow> nat \<Rightarrow> nat \<Rightarrow> nat \<Rightarrow> nat \<Rightarrow> scan \<Rightarrow> scan" where
  "win_loop m base pc x win_x s =
     (if x < MAX_X then
        (case win_bytes m win_x of (b0, b1) \<Rightarrow>
         case px_span b0 b1 (io m BGP_REG) base pc x win_x s of (x', win_x', s') \<Rightarrow>
           win_loop m base 0 x' win_x' s')
      else s)"
  by pat_completeness auto
termination
  by (relation "measures [\<lambda>(m, base, pc, x, win_x, s). MAX_X - x, \<lambda>(m, base, pc, x, win_x, s). pc]")
    (auto simp: case_prod_beta px_span_x min_def)

declare win_loop.simps [simp del]

definition win_active :: "mmu \<Rightarrow> u8 \<Rightarrow> bool" where
  "win_active m ly \<longleftrightarrow> has (io m LCDC_REG) LCDC_WINDOW_ENABLE \<and> has (io m LCDC_REG) LCDC_BG_ENABLE
     \<and> ppu_latched_wy m \<le> ly \<and> io m WX_REG < 167"

definition draw_window :: "mmu \<Rightarrow> u8 \<Rightarrow> nat \<Rightarrow> scan \<Rightarrow> scan" where
  "draw_window m ly base s =
     (if win_active m ly then
        let wx = unat (io m WX_REG);
            start_x = (if 7 \<le> wx then wx - 7 else 0);
            win_x = start_x + 7 - wx
        in win_loop m base (win_x mod 8) start_x win_x s
      else s)"

section \<open>Sprites\<close>

record visible_obj =
  obj_y :: u8
  obj_x :: u8
  obj_tile :: u8
  obj_attr :: u8
  obj_oam_idx :: u8

definition obj_height :: "u8 \<Rightarrow> int" where
  "obj_height lcdc = (if has lcdc LCDC_OBJ_SIZE then 16 else 8)"

definition obj_top :: "u8 \<Rightarrow> int" where
  "obj_top sy = uint sy - 16"

definition obj_on_line :: "u8 \<Rightarrow> int \<Rightarrow> u8 \<Rightarrow> bool" where
  "obj_on_line ly obj_h sy \<longleftrightarrow> \<not> (uint ly < obj_top sy \<or> obj_top sy + obj_h \<le> uint ly)"

definition oam_entry :: "u8 array \<Rightarrow> nat \<Rightarrow> visible_obj" where
  "oam_entry oa i = \<lparr>obj_y = oa (i * 4), obj_x = oa (i * 4 + 1), obj_tile = oa (i * 4 + 2),
                     obj_attr = oa (i * 4 + 3), obj_oam_idx = of_nat i\<rparr>"

text \<open>The OAM walk: at most ten objects on the line, in OAM order.\<close>

function oam_scan :: "u8 array \<Rightarrow> u8 \<Rightarrow> int \<Rightarrow> nat \<Rightarrow> visible_obj list \<Rightarrow> visible_obj list" where
  "oam_scan oa ly obj_h i vis =
     (if i < 40 \<and> length vis < 10 then
        (if \<not> obj_on_line ly obj_h (oa (i * 4)) then oam_scan oa ly obj_h (i + 1) vis
         else oam_scan oa ly obj_h (i + 1) (vis @ [oam_entry oa i]))
      else vis)"
  by pat_completeness auto
termination
  by (relation "measure (\<lambda>(oa, ly, obj_h, i, vis). 40 - i)") auto

declare oam_scan.simps [simp del]

text \<open>The insertion sort by \<open>x\<close>: the inner loop swaps element \<open>j\<close> towards the front.\<close>

fun sift :: "nat \<Rightarrow> visible_obj list \<Rightarrow> visible_obj list" where
  "sift 0 vis = vis"
| "sift (Suc j) vis =
     (if obj_x (vis ! Suc j) < obj_x (vis ! j)
      then sift j (vis[Suc j := vis ! j, j := vis ! Suc j]) else vis)"

definition sort_objs :: "visible_obj list \<Rightarrow> visible_obj list" where
  "sort_objs vis = foldl (\<lambda>v i. sift i v) vis [1..<length vis]"

text \<open>One object: its row bytes, then eight pixels.\<close>

definition obj_row_bytes :: "mmu \<Rightarrow> u8 \<Rightarrow> visible_obj \<Rightarrow> u8 \<times> u8" where
  "obj_row_bytes m ly ob =
     (let obj_h = obj_height (io m LCDC_REG);
          row = uint ly - obj_top (obj_y ob);
          row_in_sprite = (if has (obj_attr ob) OAM_FLIP_Y then obj_h - 1 - row else row);
          tile = (if obj_h = 16 then obj_tile ob AND 0xFE else obj_tile ob);
          addr = ucast tile * 16 :: u16;
          row_addr = unat (addr + word_of_int (row_in_sprite * 2))
      in (vram m row_addr, vram m (row_addr + 1)))"

definition obj_cid :: "u8 \<times> u8 \<Rightarrow> visible_obj \<Rightarrow> nat \<Rightarrow> u8" where
  "obj_cid b ob px =
     (let col_in_sprite = (if has (obj_attr ob) OAM_FLIP_X then 7 - px else px)
      in cid_of (fst b) (snd b) (7 - col_in_sprite))"

definition obj_shade :: "mmu \<Rightarrow> visible_obj \<Rightarrow> u8 \<Rightarrow> u8" where
  "obj_shade m ob cid =
     (let pal = (if has (obj_attr ob) OAM_PAL_1 then io m OBP1_REG else io m OBP0_REG)
      in if cid = 0 then 0 else shade pal (unat cid))"

function draw_obj_px :: "mmu \<Rightarrow> u8 \<times> u8 \<Rightarrow> visible_obj \<Rightarrow> nat \<Rightarrow> nat \<Rightarrow> scan \<Rightarrow> scan" where
  "draw_obj_px m b ob base px (fb, cids) =
     (if px < 8 then
        let x = uint (obj_x ob) - 8 + int px; cid = obj_cid b ob px
        in draw_obj_px m b ob base (px + 1)
             (if x < int MIN_X \<or> int MAX_X \<le> x \<or> cid = 0
                 \<or> (has (obj_attr ob) OAM_BG_PRIO \<and> cids (nat x) \<noteq> 0)
              then (fb, cids)
              else (fb(base + nat x := obj_shade m ob cid), cids))
      else (fb, cids))"
  by pat_completeness auto
termination
  by (relation "measure (\<lambda>(m, b, ob, base, px, s). 8 - px)") auto

declare draw_obj_px.simps [simp del]

definition draw_obj :: "mmu \<Rightarrow> u8 \<Rightarrow> nat \<Rightarrow> visible_obj \<Rightarrow> scan \<Rightarrow> scan" where
  "draw_obj m ly base ob s =
     (let left = uint (obj_x ob) - 8
      in if int MAX_X \<le> left \<or> left + 8 \<le> int MIN_X then s
         else draw_obj_px m (obj_row_bytes m ly ob) ob base 0 s)"

definition draw_sprites :: "mmu \<Rightarrow> u8 \<Rightarrow> nat \<Rightarrow> scan \<Rightarrow> scan" where
  "draw_sprites m ly base s =
     (if has (io m LCDC_REG) LCDC_OBJ_ENABLE then
        let vis = sort_objs (oam_scan (oam m) ly (obj_height (io m LCDC_REG)) 0 [])
        in foldr (draw_obj m ly base) vis s
      else s)"

section \<open>The scanline\<close>

definition draw_bg :: "mmu \<Rightarrow> ppu_luts \<Rightarrow> u8 \<Rightarrow> nat \<Rightarrow> scan \<Rightarrow> scan" where
  "draw_bg m L ly base s =
     (if has (io m LCDC_REG) LCDC_BG_ENABLE then bg_fast m L ly base s
      else bg_blank (io m BGP_REG) base MIN_X s)"

text \<open>
  \<open>bg_color_id\<close> is an uninitialised local array in C; \<open>garbage\<close> is its content, and
  \<open>ppu_draw_line\<close> does not depend on it.
\<close>

definition ppu_draw_line_from :: "u8 array \<Rightarrow> u8 \<Rightarrow> mmu \<Rightarrow> mmu" where
  "ppu_draw_line_from garbage ly m =
     (let base = unat ly * 160;
          bg_on = has (io m LCDC_REG) LCDC_BG_ENABLE;
          L = (if bg_on then ensure_bg_luts (io m BGP_REG) (luts m) else luts m);
          s = draw_bg m L ly base (framebuffer m, garbage);
          s = draw_window m ly base s;
          (fb, _) = draw_sprites m ly base s
      in m\<lparr>framebuffer := fb, luts := L,
           window_line := (if win_active m ly then window_line m + 1 else window_line m)\<rparr>)"

definition ppu_draw_line :: "u8 \<Rightarrow> mmu \<Rightarrow> mmu" where
  "ppu_draw_line = ppu_draw_line_from (\<lambda>_. 0)"

text \<open>An MMU of static storage duration: zero, with the initialisers of the tables.\<close>

definition static_mmu :: mmu where
  "static_mmu =
     \<lparr>rom = (\<lambda>_. 0), rom_capacity = 0, vram = (\<lambda>_. 0), wram = (\<lambda>_. 0), oam = (\<lambda>_. 0),
      hram = (\<lambda>_. 0), io = (\<lambda>_. 0), ie = 0, boot_rom_disabled = 0, mbc = MBC_NONE, rom_bank = 0,
      rom_banks = 0, buttons = 0, rom_bank_dirty = 0, jit_smc_dirty = 0, jit_page_state = (\<lambda>_. 0),
      attached = False, ppu_lcd_mode = 0, ppu_stat_line = 0, ppu_last_lcdc = 0, ppu_latched_wy = 0,
      ppu_lcd_count = 0, ppu_mode3_cycles = 0, ppu_mode0_cycles = 0, ppu_lcd_off_count = 0,
      ppu_last_cpu_cycles = 0, timer_last_cycles = 0, timer_div_acc = 0, timer_tima_acc = 0,
      ppu_next_event_cycles = 0, framebuffer = (\<lambda>_. 0), window_line = 0, frame_seq = 0,
      serial_sink = False, serial_log = [], luts = luts_init\<rparr>"

end
