(* ===== verification/Ppu.thy ===== *)
theory Ppu
  imports Ppu_Render
begin

text \<open>
  The PPU state machine and the timer of core/ppu.c: the STAT and LY helpers, the mode-3
  length, the next-event deadline, the LCDC edge, the mode walk that drains the cycles since
  the last call, and the entry points \<open>ppu_tick\<close> and \<open>ppu_flush\<close>. Everything takes the value
  of \<open>cpu->cycles\<close> as \<open>now\<close>. Writes to IF are the plain ones of the single-core build.
\<close>

abbreviation (input) STAT_LYC_INTR :: u8 where "STAT_LYC_INTR \<equiv> 0x40"
abbreviation (input) STAT_MODE_2_INTR :: u8 where "STAT_MODE_2_INTR \<equiv> 0x20"
abbreviation (input) STAT_MODE_1_INTR :: u8 where "STAT_MODE_1_INTR \<equiv> 0x10"
abbreviation (input) STAT_MODE_0_INTR :: u8 where "STAT_MODE_0_INTR \<equiv> 0x08"
abbreviation (input) STAT_LYC_COINC :: u8 where "STAT_LYC_COINC \<equiv> 0x04"
abbreviation (input) STAT_MODE :: u8 where "STAT_MODE \<equiv> 0x03"

abbreviation (input) LCD_HBLANK :: u8 where "LCD_HBLANK \<equiv> 0"
abbreviation (input) LCD_VBLANK :: u8 where "LCD_VBLANK \<equiv> 1"
abbreviation (input) LCD_SEARCH_OAM :: u8 where "LCD_SEARCH_OAM \<equiv> 2"
abbreviation (input) LCD_TRANSFER :: u8 where "LCD_TRANSFER \<equiv> 3"

abbreviation (input) LCD_LINE_CYCLES :: "'a::numeral" where "LCD_LINE_CYCLES \<equiv> 456"
abbreviation (input) LCD_FRAME_CYCLES :: "'a::numeral" where "LCD_FRAME_CYCLES \<equiv> 70224"
abbreviation (input) PPU_MODE_2_OAM_CYCLES :: "'a::numeral" where "PPU_MODE_2_OAM_CYCLES \<equiv> 80"
abbreviation (input) PPU_MODE_3_VRAM_MIN_CYCLES :: u16 where "PPU_MODE_3_VRAM_MIN_CYCLES \<equiv> 172"
abbreviation (input) PPU_MODE_3_VRAM_MAX_CYCLES :: u16 where "PPU_MODE_3_VRAM_MAX_CYCLES \<equiv> 289"
abbreviation (input) LCD_HEIGHT :: u8 where "LCD_HEIGHT \<equiv> 144"

section \<open>STAT and LY\<close>

definition ppu_check_lyc :: "mmu \<Rightarrow> mmu" where
  "ppu_check_lyc m =
     (if io m LY_REG = io m LYC_REG then io_put STAT_REG (io m STAT_REG OR STAT_LYC_COINC) m
      else io_put STAT_REG (io m STAT_REG AND NOT STAT_LYC_COINC) m)"

definition stat_line_high :: "mmu \<Rightarrow> bool" where
  "stat_line_high m \<longleftrightarrow>
     (let st = io m STAT_REG in
        has st STAT_MODE_0_INTR \<and> ppu_lcd_mode m = LCD_HBLANK
      \<or> has st STAT_MODE_1_INTR \<and> ppu_lcd_mode m = LCD_VBLANK
      \<or> has st STAT_MODE_2_INTR \<and> ppu_lcd_mode m = LCD_SEARCH_OAM
      \<or> has st STAT_LYC_INTR \<and> has st STAT_LYC_COINC)"

definition ppu_update_stat_irq :: "mmu \<Rightarrow> mmu" where
  "ppu_update_stat_irq m =
     (if \<not> has (io m LCDC_REG) LCDC_ENABLE then m\<lparr>ppu_stat_line := 0\<rparr>
      else
        let high = stat_line_high m;
            m = (if ppu_stat_line m = 0 \<and> high then io_put IF_REG (io m IF_REG OR INT_LCD) m else m)
        in m\<lparr>ppu_stat_line := of_flag high\<rparr>)"

text \<open>\<open>io[STAT] = (io[STAT] & ~STAT_MODE) | mode\<close>, with the mode it mirrors.\<close>

definition set_mode :: "u8 \<Rightarrow> mmu \<Rightarrow> mmu" where
  "set_mode md m = io_put STAT_REG (io m STAT_REG AND NOT STAT_MODE OR md) (m\<lparr>ppu_lcd_mode := md\<rparr>)"

definition compute_mode3_cycles :: "mmu \<Rightarrow> u16" where
  "compute_mode3_cycles m =
     (let cycles = PPU_MODE_3_VRAM_MIN_CYCLES + ucast (io m SCX_REG AND 7);
          win_visible = (has (io m LCDC_REG) LCDC_WINDOW_ENABLE \<and> io m WX_REG \<le> 166
                         \<and> ppu_latched_wy m \<le> io m LY_REG);
          cycles = (if win_visible then cycles + 6 else cycles);
          cycles = cycles + 24
      in if PPU_MODE_3_VRAM_MAX_CYCLES < cycles then PPU_MODE_3_VRAM_MAX_CYCLES else cycles)"

section \<open>The next event\<close>

text \<open>
  The length of the current mode, and the cycles left in it. The C subtraction is on \<open>int\<close> and
  the result is converted to \<open>u32\<close>; a result that is not positive as \<open>i32\<close> becomes 1.
\<close>

definition ppu_remaining :: "mmu \<Rightarrow> u32" where
  "ppu_remaining m =
     (let remaining =
        (if \<not> has (io m LCDC_REG) LCDC_ENABLE then LCD_FRAME_CYCLES - ppu_lcd_off_count m
         else if ppu_lcd_mode m = LCD_HBLANK then ucast (ppu_mode0_cycles m) - ucast (ppu_lcd_count m)
         else if ppu_lcd_mode m = LCD_VBLANK then LCD_LINE_CYCLES - ucast (ppu_lcd_count m)
         else if ppu_lcd_mode m = LCD_SEARCH_OAM then PPU_MODE_2_OAM_CYCLES - ucast (ppu_lcd_count m)
         else if ppu_lcd_mode m = LCD_TRANSFER then ucast (ppu_mode3_cycles m) - ucast (ppu_lcd_count m)
         else 1)
      in if sint remaining \<le> 0 then 1 else remaining)"

definition ppu_recompute_next_event :: "u64 \<Rightarrow> mmu \<Rightarrow> mmu" where
  "ppu_recompute_next_event base_cycles m =
     m\<lparr>ppu_next_event_cycles := base_cycles + ucast (ppu_remaining m)\<rparr>"

section \<open>LCDC edge\<close>

definition ppu_lcdc_edge :: "u8 \<Rightarrow> u8 \<Rightarrow> mmu \<Rightarrow> mmu" where
  "ppu_lcdc_edge prev cur m =
     (let was_on = has prev LCDC_ENABLE; is_on = has cur LCDC_ENABLE in
      if was_on \<and> \<not> is_on then
        ppu_check_lyc
          (io_put STAT_REG (io m STAT_REG AND NOT (STAT_MODE OR STAT_LYC_COINC))
            (io_put LY_REG 0 (m\<lparr>ppu_lcd_off_count := 0, ppu_lcd_count := 0,
                                ppu_lcd_mode := LCD_HBLANK, ppu_stat_line := 0\<rparr>)))
      else if \<not> was_on \<and> is_on then
        ppu_update_stat_irq (ppu_check_lyc
          ((set_mode LCD_SEARCH_OAM (io_put LY_REG 0 (m\<lparr>ppu_lcd_count := 4\<rparr>)))\<lparr>ppu_stat_line := 0\<rparr>))
      else m)"

section \<open>Timer\<close>

definition tima_period :: "u8 \<Rightarrow> u16" where
  "tima_period tac =
     (let i = tac AND 3 in if i = 0 then 1024 else if i = 1 then 16 else if i = 2 then 64 else 256)"

lemma tima_period_pos: "0 < unat (tima_period tac)"
  by (simp add: tima_period_def Let_def)

function tima_loop :: "mmu \<Rightarrow> mmu" where
  "tima_loop m =
     (let period = ucast (tima_period (io m TAC_REG)) :: u32 in
      if period \<le> timer_tima_acc m then
        let m = m\<lparr>timer_tima_acc := timer_tima_acc m - period\<rparr> in
        tima_loop
          (if io m TIMA_REG = 0xFF
           then io_put IF_REG (io m IF_REG OR INT_TIMER) (io_put TIMA_REG (io m TMA_REG) m)
           else io_put TIMA_REG (io m TIMA_REG + 1) m)
      else m)"
  by pat_completeness auto
termination
proof (relation "measure (\<lambda>m. unat (timer_tima_acc m))")
qed (auto simp: unat_sub word_le_nat_alt tima_period_pos less_le_trans [OF tima_period_pos])

declare tima_loop.simps [simp del]

definition timer_tick :: "u64 \<Rightarrow> mmu \<Rightarrow> mmu" where
  "timer_tick cycles_now m =
     (let delta = ucast (cycles_now - timer_last_cycles m) :: u32;
          m = m\<lparr>timer_last_cycles := cycles_now\<rparr>
      in if delta = 0 then m else
      let m = m\<lparr>timer_div_acc := timer_div_acc m + delta\<rparr>;
          m = (if 64 \<le> timer_div_acc m then
                 let ticks = timer_div_acc m div 64
                 in io_put DIV_REG (ucast ((ucast (io m DIV_REG) :: u32) + ticks))
                      (m\<lparr>timer_div_acc := timer_div_acc m mod 64\<rparr>)
               else m)
      in if has (io m TAC_REG) 4 then tima_loop (m\<lparr>timer_tima_acc := timer_tima_acc m + delta\<rparr>)
         else m)"

section \<open>The mode walk\<close>

text \<open>One iteration of the state-machine loop: \<open>None\<close> when no transition is due.\<close>

definition ppu_transition :: "mmu \<Rightarrow> mmu option" where
  "ppu_transition m =
     (if ppu_lcd_mode m = LCD_SEARCH_OAM then
        if PPU_MODE_2_OAM_CYCLES \<le> ppu_lcd_count m then
          let m = set_mode LCD_TRANSFER (m\<lparr>ppu_lcd_count := ppu_lcd_count m - PPU_MODE_2_OAM_CYCLES\<rparr>);
              m = m\<lparr>ppu_mode3_cycles := compute_mode3_cycles m\<rparr>;
              m = m\<lparr>ppu_mode0_cycles := LCD_LINE_CYCLES - PPU_MODE_2_OAM_CYCLES - ppu_mode3_cycles m\<rparr>
          in Some (ppu_update_stat_irq m)
        else None
      else if ppu_lcd_mode m = LCD_TRANSFER then
        if ppu_mode3_cycles m \<le> ppu_lcd_count m then
          let m = set_mode LCD_HBLANK (m\<lparr>ppu_lcd_count := ppu_lcd_count m - ppu_mode3_cycles m\<rparr>);
              m = (if io m LY_REG < LCD_HEIGHT then ppu_draw_line (io m LY_REG) m else m)
          in Some (ppu_update_stat_irq m)
        else None
      else if ppu_lcd_mode m = LCD_HBLANK then
        if ppu_mode0_cycles m \<le> ppu_lcd_count m then
          let m = io_put LY_REG (io m LY_REG + 1)
                    (m\<lparr>ppu_lcd_count := ppu_lcd_count m - ppu_mode0_cycles m\<rparr>)
          in if io m LY_REG = LCD_HEIGHT then
               let m = set_mode LCD_VBLANK m;
                   m = io_put IF_REG (io m IF_REG OR INT_VBLANK) m;
                   m = m\<lparr>frame_seq := frame_seq m + 1\<rparr>
               in Some (ppu_update_stat_irq (ppu_check_lyc (ppu_update_stat_irq m)))
             else Some (ppu_update_stat_irq (ppu_check_lyc (set_mode LCD_SEARCH_OAM m)))
        else None
      else if ppu_lcd_mode m = LCD_VBLANK then
        if LCD_LINE_CYCLES \<le> ppu_lcd_count m then
          let m = m\<lparr>ppu_lcd_count := ppu_lcd_count m - LCD_LINE_CYCLES\<rparr>
          in if io m LY_REG = 0 then
               let m = m\<lparr>ppu_latched_wy := io m WY_REG, window_line := 0\<rparr>
               in Some (ppu_update_stat_irq (ppu_check_lyc (set_mode LCD_SEARCH_OAM m)))
             else Some (ppu_update_stat_irq (ppu_check_lyc (io_put LY_REG (io m LY_REG + 1) m)))
        else None
      else None)"

lemma ppu_draw_line_core [simp]:
  "ppu_lcd_count (ppu_draw_line ly m) = ppu_lcd_count m"
  "ppu_lcd_mode (ppu_draw_line ly m) = ppu_lcd_mode m"
  "ppu_stat_line (ppu_draw_line ly m) = ppu_stat_line m"
  "io (ppu_draw_line ly m) = io m"
  "ppu_mode0_cycles (ppu_draw_line ly m) = ppu_mode0_cycles m"
  "ppu_mode3_cycles (ppu_draw_line ly m) = ppu_mode3_cycles m"
  by (simp_all add: ppu_draw_line_def ppu_draw_line_from_def Let_def case_prod_beta)

lemma ppu_check_lyc_core [simp]:
  "ppu_lcd_count (ppu_check_lyc m) = ppu_lcd_count m"
  "ppu_lcd_mode (ppu_check_lyc m) = ppu_lcd_mode m"
  by (simp_all add: ppu_check_lyc_def)

lemma ppu_update_stat_irq_core [simp]:
  "ppu_lcd_count (ppu_update_stat_irq m) = ppu_lcd_count m"
  "ppu_lcd_mode (ppu_update_stat_irq m) = ppu_lcd_mode m"
  by (simp_all add: ppu_update_stat_irq_def Let_def)

lemma set_mode_core [simp]:
  "ppu_lcd_count (set_mode md m) = ppu_lcd_count m"
  "ppu_lcd_mode (set_mode md m) = md"
  by (simp_all add: set_mode_def)

text \<open>
  The loop ends on every state: the modes that may cost no cycles only lead towards modes
  that take at least 80.
\<close>

definition mode_rank :: "mmu \<Rightarrow> nat" where
  "mode_rank m = 4 * unat (ppu_lcd_count m)
     + (if ppu_lcd_mode m = LCD_TRANSFER then 2 else if ppu_lcd_mode m = LCD_HBLANK then 1 else 0)"

lemma ppu_transition_rank: "ppu_transition m = Some m' \<Longrightarrow> mode_rank m' < mode_rank m"
  by (auto simp: ppu_transition_def mode_rank_def Let_def unat_sub word_le_nat_alt split: if_splits)

function ppu_loop :: "mmu \<Rightarrow> mmu" where
  "ppu_loop m = (case ppu_transition m of None \<Rightarrow> m | Some m' \<Rightarrow> ppu_loop m')"
  by pat_completeness auto
termination
  by (relation "measure mode_rank") (auto dest: ppu_transition_rank)

declare ppu_loop.simps [simp del]

section \<open>Entry points\<close>

text \<open>The off-period counter, reduced frame by frame.\<close>

function off_loop :: "u32 \<Rightarrow> u32" where
  "off_loop c = (if LCD_FRAME_CYCLES \<le> c then off_loop (c - LCD_FRAME_CYCLES) else c)"
  by pat_completeness auto
termination
  by (relation "measure unat") (auto simp: unat_sub word_le_nat_alt)

declare off_loop.simps [simp del]

definition ppu_advance :: "u64 \<Rightarrow> mmu \<Rightarrow> mmu" where
  "ppu_advance now m =
     (let lcdc = io m LCDC_REG;
          m = (if lcdc \<noteq> ppu_last_lcdc m
               then (ppu_lcdc_edge (ppu_last_lcdc m) lcdc m)\<lparr>ppu_last_lcdc := lcdc\<rparr> else m);
          delta = ucast (now - ppu_last_cpu_cycles m) :: u32;
          m = m\<lparr>ppu_last_cpu_cycles := now\<rparr>
      in if \<not> has lcdc LCDC_ENABLE then
           ppu_recompute_next_event now (m\<lparr>ppu_lcd_off_count := off_loop (ppu_lcd_off_count m + delta)\<rparr>)
         else
           let m = m\<lparr>ppu_lcd_count := ucast ((ucast (ppu_lcd_count m) :: u32) + delta)\<rparr>;
               m = (if ppu_lcd_mode m = LCD_VBLANK \<and> io m LY_REG = 153
                    then ppu_update_stat_irq (ppu_check_lyc (io_put LY_REG 0 m)) else m)
           in ppu_recompute_next_event now (ppu_loop m))"

definition ppu_tick :: "u64 \<Rightarrow> mmu \<Rightarrow> mmu" where
  "ppu_tick now m =
     (let m = timer_tick now m
      in if \<not> gb_cycles_reached now (ppu_next_event_cycles m) \<and> io m LCDC_REG = ppu_last_lcdc m
         then m else ppu_advance now m)"

definition ppu_flush :: "u64 \<Rightarrow> mmu \<Rightarrow> mmu" where
  "ppu_flush now m = ppu_advance now (timer_tick now m)"

end
