(* ===== verification/Ppu_Frame.thy ===== *)
theory Ppu_Frame
  imports Ppu
begin

text \<open>
  What the PPU and the timer leave alone: the cartridge, the RAM areas, the banking state and the
  flags the JIT polls. A write to a PPU register goes through \<open>ppu_flush\<close> first, so the laws of
  the memory map rest on these.
\<close>

definition non_ppu where
  "non_ppu m = ((rom m, rom_capacity m, vram m, wram m, oam m, hram m, ie m, mbc m, rom_bank m, rom_banks m,
     buttons m), (rom_bank_dirty m, jit_smc_dirty m, jit_page_state m, attached m, serial_sink m, serial_log m))"

lemma tima_loop_non_ppu: "non_ppu (tima_loop m) = non_ppu m"
proof (induction m rule: tima_loop.induct)
  case (1 m)
  show ?case
    by (subst tima_loop.simps) (use 1 in \<open>auto simp: Let_def non_ppu_def\<close>)
qed

lemma timer_tick_non_ppu [frame]: "non_ppu (timer_tick now m) = non_ppu m"
  by (simp add: timer_tick_def Let_def tima_loop_non_ppu) (simp add: non_ppu_def)

lemma ppu_pieces_non_ppu [frame]:
  "non_ppu (ppu_check_lyc m) = non_ppu m" "non_ppu (ppu_update_stat_irq m) = non_ppu m"
  "non_ppu (set_mode md m) = non_ppu m" "non_ppu (ppu_draw_line ly m) = non_ppu m"
  "non_ppu (ppu_lcdc_edge p c m) = non_ppu m" "non_ppu (ppu_recompute_next_event now m) = non_ppu m"
  by (simp_all add: ppu_check_lyc_def ppu_update_stat_irq_def set_mode_def ppu_draw_line_def
      ppu_draw_line_from_def ppu_lcdc_edge_def ppu_recompute_next_event_def non_ppu_def Let_def case_prod_beta)

lemma non_ppu_upd [frame]:
  "non_ppu (m\<lparr>io := f\<rparr>) = non_ppu m" "non_ppu (m\<lparr>ppu_lcd_count := w\<rparr>) = non_ppu m"
  "non_ppu (m\<lparr>ppu_mode3_cycles := w\<rparr>) = non_ppu m" "non_ppu (m\<lparr>ppu_mode0_cycles := w\<rparr>) = non_ppu m"
  "non_ppu (m\<lparr>ppu_lcd_off_count := d\<rparr>) = non_ppu m" "non_ppu (m\<lparr>ppu_last_cpu_cycles := q\<rparr>) = non_ppu m"
  "non_ppu (m\<lparr>ppu_latched_wy := b\<rparr>) = non_ppu m" "non_ppu (m\<lparr>window_line := b\<rparr>) = non_ppu m"
  "non_ppu (m\<lparr>frame_seq := d\<rparr>) = non_ppu m" "non_ppu (m\<lparr>ppu_last_lcdc := b\<rparr>) = non_ppu m"
  by (simp_all add: non_ppu_def)

lemma ppu_transition_non_ppu: "ppu_transition m = Some m' \<Longrightarrow> non_ppu m' = non_ppu m"
  by (auto simp: ppu_transition_def Let_def frame split: if_splits)

lemma ppu_loop_non_ppu [frame]: "non_ppu (ppu_loop m) = non_ppu m"
proof (induction m rule: ppu_loop.induct)
  case (1 m)
  then show ?case
    by (subst ppu_loop.simps) (auto dest: ppu_transition_non_ppu split: option.split)
qed

lemma ppu_advance_non_ppu [frame]: "non_ppu (ppu_advance now m) = non_ppu m"
  by (simp add: ppu_advance_def Let_def frame)

lemma ppu_entry_non_ppu [frame]:
  "non_ppu (ppu_flush now m) = non_ppu m" "non_ppu (ppu_tick now m) = non_ppu m"
  by (simp_all add: ppu_flush_def ppu_tick_def Let_def frame)

lemma non_ppu_fields:
  assumes "non_ppu m' = non_ppu m"
  shows "rom m' = rom m" "rom_capacity m' = rom_capacity m" "vram m' = vram m" "wram m' = wram m"
    "oam m' = oam m" "hram m' = hram m" "ie m' = ie m" "mbc m' = mbc m" "rom_bank m' = rom_bank m"
    "rom_banks m' = rom_banks m" "buttons m' = buttons m" "rom_bank_dirty m' = rom_bank_dirty m"
    "jit_smc_dirty m' = jit_smc_dirty m" "jit_page_state m' = jit_page_state m"
    "attached m' = attached m" "serial_sink m' = serial_sink m" "serial_log m' = serial_log m"
  using assms by (simp_all add: non_ppu_def)

lemmas ppu_flush_keeps [simp] = non_ppu_fields [OF ppu_entry_non_ppu(1)]
lemmas ppu_tick_keeps [simp] = non_ppu_fields [OF ppu_entry_non_ppu(2)]
end
