(* ===== verification/Mmu.thy ===== *)
theory Mmu
  imports Ppu
begin

text \<open>
  The operations of core/memory.c on \<open>mmu\<close>: initialisation, loading a cartridge, the byte and
  word accesses with the memory map, the MBC1 registers, the IO write side effects (PPU flush,
  DIV and TIMA, serial transfer, OAM DMA) and the marking of self-modifying code.

  The C allocator is the parameter \<open>alloc\<close>, which says whether a request of that many bytes is
  granted. \<open>clk\<close> is \<open>m->cpu->cycles\<close>; it is only looked at when \<open>attached\<close> says that \<open>m->cpu\<close>
  is not NULL.
\<close>

section \<open>Initialisation\<close>

definition gb_mmu_init :: "(nat \<Rightarrow> bool) \<Rightarrow> mmu \<Rightarrow> mmu" where
  "gb_mmu_init alloc m =
     (let ok = alloc ROM_DEFAULT_BYTES in
      \<lparr>rom = (\<lambda>i. if i < ROM_DEFAULT_BYTES \<and> ok then 0xFF else 0),
       rom_capacity = (if ok then of_nat ROM_DEFAULT_BYTES else 0),
       vram = (\<lambda>_. 0), wram = (\<lambda>_. 0), oam = (\<lambda>_. 0), hram = (\<lambda>_. 0),
       io = (\<lambda>_. 0)(0x00 := 0xCF, 0x05 := 0x00, 0x06 := 0x00, 0x07 := 0x00, 0x40 := 0x91,
                    0x41 := 0x85, 0x44 := 0x00, 0x47 := 0xFC, 0x48 := 0xFF, 0x49 := 0xFF),
       ie = 0, boot_rom_disabled = 1, mbc = MBC_NONE, rom_bank = 1, rom_banks = 2,
       buttons = 0, rom_bank_dirty = 0, jit_smc_dirty = 0, jit_page_state = (\<lambda>_. 0),
       attached = False,
       ppu_lcd_mode = 0, ppu_stat_line = 0, ppu_last_lcdc = 0, ppu_latched_wy = 0,
       ppu_lcd_count = 0, ppu_mode3_cycles = 0, ppu_mode0_cycles = 0, ppu_lcd_off_count = 0,
       ppu_last_cpu_cycles = 0, timer_last_cycles = 0, timer_div_acc = 0, timer_tima_acc = 0,
       ppu_next_event_cycles = 0, framebuffer = (\<lambda>_. 0), window_line = 0, frame_seq = 0,
       serial_sink = False, serial_log = [], luts = luts m\<rparr>)"

definition mmu_destroy :: "mmu \<Rightarrow> mmu" where
  "mmu_destroy m = m\<lparr>rom := (\<lambda>_. 0), rom_capacity := 0\<rparr>"

definition banks_for :: "nat \<Rightarrow> nat" where
  "banks_for len = (len + ROM_BANK_SIZE - 1) div ROM_BANK_SIZE"

definition mmu_load_rom :: "(nat \<Rightarrow> bool) \<Rightarrow> u8 list \<Rightarrow> mmu \<Rightarrow> bool \<times> mmu" where
  "mmu_load_rom alloc data m =
     (let len = length data in
      if len = 0 \<or> ROM_SIZE_MAX < len then (False, m) else
      let need = banks_for len * ROM_BANK_SIZE;
          grow = unat (rom_capacity m) < need
      in if grow \<and> \<not> alloc need then (False, mmu_destroy m) else
      let m = (if grow then m\<lparr>rom_capacity := of_nat need\<rparr> else m);
          m = m\<lparr>rom := (\<lambda>i. if i < len then data ! i
                           else if i < unat (rom_capacity m) then 0xFF else rom m i)\<rparr>;
          cart_type = (if 0x147 < len then data ! 0x147 else 0);
          rom_size_code = (if 0x148 < len then data ! 0x148 else 0);
          m = m\<lparr>mbc := (if cart_type = 0x00 then MBC_NONE
                        else if cart_type = 0x01 \<or> cart_type = 0x02 \<or> cart_type = 0x03 then MBC_1
                        else MBC_1)\<rparr>;
          banks = (if rom_size_code \<le> 8 then push_bit (unat rom_size_code) 2 else 2 :: u16);
          actual_banks = of_nat (banks_for len) :: u16;
          banks = (if actual_banks < banks then actual_banks else banks)
      in (True, m\<lparr>rom_banks := banks, rom_bank := 1\<rparr>))"

section \<open>Reads\<close>

text \<open>The offset of \<open>addr\<close> in \<open>[0x4000, 0x8000)\<close> in the cartridge.\<close>

definition rom_off :: "mmu \<Rightarrow> u16 \<Rightarrow> u32" where
  "rom_off m addr =
     (let off = ucast (rom_bank m) * of_nat ROM_BANK_SIZE + (ucast addr - 0x4000)
      in if rom_capacity m \<noteq> 0 \<and> rom_capacity m \<le> off then off mod rom_capacity m else off)"

definition joyp_read :: "mmu \<Rightarrow> u8" where
  "joyp_read m =
     (let sel = io m JOYP_REG AND 0x30;
          nib = 0x0F;
          nib = (if \<not> has sel 0x10 then nib AND NOT (drop_bit 4 (buttons m) AND 0x0F) else nib);
          nib = (if \<not> has sel 0x20 then nib AND NOT (buttons m AND 0x0F) else nib)
      in 0xC0 OR sel OR nib)"

definition mmu_read8 :: "mmu \<Rightarrow> u16 \<Rightarrow> u8" where
  "mmu_read8 m addr =
     (if addr < 0x4000 then rom m (unat addr)
      else if addr < 0x8000 then rom m (unat (rom_off m addr))
      else if addr < 0xA000 then vram m (unat (addr - 0x8000))
      else if addr < 0xC000 then 0xFF
      else if addr < 0xE000 then wram m (unat (addr - 0xC000))
      else if addr < 0xFE00 then wram m (unat ((addr - 0xE000) AND 0x1FFF))
      else if addr < 0xFEA0 then oam m (unat (addr - 0xFE00))
      else if addr < 0xFF00 then 0xFF
      else if addr < 0xFF80 then
        (let io_addr = unat (addr - 0xFF00)
         in if io_addr = 0 then joyp_read m else io m io_addr)
      else if addr < 0xFFFF then hram m (unat (addr - 0xFF80))
      else ie m)"

definition mmu_read16 :: "mmu \<Rightarrow> u16 \<Rightarrow> u16" where
  "mmu_read16 m addr = mk16 (mmu_read8 m addr) (mmu_read8 m (addr + 1))"

section \<open>Writes\<close>

definition smc_mark :: "u16 \<Rightarrow> mmu \<Rightarrow> mmu" where
  "smc_mark addr m =
     (let p = unat (drop_bit 8 addr)
      in if jit_page_state m p = 1
         then m\<lparr>jit_page_state := (jit_page_state m)(p := 2), jit_smc_dirty := 1\<rparr> else m)"

text \<open>The two bank registers of MBC1.\<close>

definition select_bank :: "u8 \<Rightarrow> mmu \<Rightarrow> mmu" where
  "select_bank nxt m =
     (let nxt = (if rom_banks m \<noteq> 0 then nxt mod ucast (rom_banks m) else nxt);
          m = (if nxt \<noteq> rom_bank m then m\<lparr>rom_bank_dirty := 1\<rparr> else m)
      in m\<lparr>rom_bank := nxt\<rparr>)"

definition mbc_write :: "u16 \<Rightarrow> u8 \<Rightarrow> mmu \<Rightarrow> mmu" where
  "mbc_write addr v m =
     (if mbc m \<noteq> MBC_1 then m
      else if addr < 0x2000 then m
      else if addr < 0x4000 then
        (let low5 = v AND 0x1F; low5 = (if low5 = 0 then 1 else low5)
         in select_bank ((rom_bank m AND 0x60) OR low5) m)
      else if addr < 0x6000 then
        (let hi2 = push_bit 5 (v AND 3)
         in select_bank ((rom_bank m AND 0x1F) OR hi2) m)
      else m)"

definition dma_copy :: "u8 \<Rightarrow> mmu \<Rightarrow> mmu" where
  "dma_copy v m =
     (let src = push_bit 8 (ucast v) :: u16
      in foldl (\<lambda>m i. m\<lparr>oam := (oam m)(i := mmu_read8 m (src + of_nat i))\<rparr>) m [0..<0xA0])"

definition serial_transfer :: "u8 \<Rightarrow> mmu \<Rightarrow> mmu" where
  "serial_transfer v m =
     (let m = (if serial_sink m then m\<lparr>serial_log := serial_log m @ [io m SB_REG]\<rparr> else m);
          m = io_put SB_REG 0xFF m;
          m = io_put SC_REG (v AND 0x7F) m
      in io_put IF_REG (io m IF_REG OR INT_SERIAL) m)"

definition io_write :: "u64 \<Rightarrow> u16 \<Rightarrow> u8 \<Rightarrow> mmu \<Rightarrow> mmu" where
  "io_write clk addr v m =
     (let io_addr = unat (addr - 0xFF00);
          m = (if (io_addr = 0x04 \<or> io_addr = 0x05 \<or> 0x40 \<le> io_addr \<and> io_addr \<le> 0x4B)
                  \<and> attached m then ppu_flush clk m else m)
      in if addr = 0xFF04 then (io_put io_addr 0 m)\<lparr>timer_div_acc := 0\<rparr>
         else if addr = 0xFF05 then (io_put io_addr v m)\<lparr>timer_tima_acc := 0\<rparr>
         else
           let m = io_put io_addr v m;
               m = (if addr = 0xFF02 \<and> v AND 0x81 = 0x81 then serial_transfer v m else m)
           in if addr = 0xFF46 then dma_copy v m else m)"

definition mmu_write8 :: "u64 \<Rightarrow> u16 \<Rightarrow> u8 \<Rightarrow> mmu \<Rightarrow> mmu" where
  "mmu_write8 clk addr v m =
     (if addr < 0x8000 then mbc_write addr v m
      else if addr < 0xA000 then
        (let m = smc_mark addr m in m\<lparr>vram := (vram m)(unat (addr - 0x8000) := v)\<rparr>)
      else if addr < 0xC000 then m
      else if addr < 0xE000 then
        (let m = smc_mark addr m in m\<lparr>wram := (wram m)(unat (addr - 0xC000) := v)\<rparr>)
      else if addr < 0xFE00 then
        (let m = smc_mark (0xC000 + ((addr - 0xE000) AND 0x1FFF)) m
         in m\<lparr>wram := (wram m)(unat ((addr - 0xE000) AND 0x1FFF) := v)\<rparr>)
      else if addr < 0xFEA0 then m\<lparr>oam := (oam m)(unat (addr - 0xFE00) := v)\<rparr>
      else if addr < 0xFF00 then m
      else if addr < 0xFF80 then io_write clk addr v m
      else if addr < 0xFFFF then
        (let m = smc_mark addr m in m\<lparr>hram := (hram m)(unat (addr - 0xFF80) := v)\<rparr>)
      else m\<lparr>ie := v\<rparr>)"

definition mmu_write16 :: "u64 \<Rightarrow> u16 \<Rightarrow> u16 \<Rightarrow> mmu \<Rightarrow> mmu" where
  "mmu_write16 clk addr v m = mmu_write8 clk (addr + 1) (hi8 v) (mmu_write8 clk addr (lo8 v) m)"

end
