(* ===== verification/Mmu_Laws.thy ===== *)
theory Mmu_Laws
  imports Mmu Ppu_Frame Interfaces
begin

text \<open>
  The laws of the memory map: which array cell an address reads and writes, the read-after-write
  law on the RAM areas with the echo of WRAM, and the stack discipline that follows from the
  byte-bus interface.
\<close>

section \<open>Regions\<close>

lemma unat_minus_const: "unat c \<le> unat (a :: u16) \<Longrightarrow> unat (a - c) = unat a - unat c"
  by (simp add: unat_sub word_le_nat_alt)

lemma echo_offset: "unat ((a - 0xE000) AND 0x1FFF :: u16) = unat (a - 0xE000) mod 0x2000"
proof -
  have "(a - 0xE000) AND 0x1FFF = take_bit 13 (a - 0xE000)"
    by (simp add: take_bit_eq_mask mask_eq_exp_minus_1)
  then show ?thesis by (simp add: take_bit_eq_mod unat_mod)
qed

lemma read_vram: "0x8000 \<le> unat a \<Longrightarrow> unat a < 0xA000 \<Longrightarrow> mmu_read8 m a = vram m (unat a - 0x8000)"
  by (simp add: mmu_read8_def word_less_nat_alt word_le_nat_alt unat_minus_const)

lemma read_wram: "0xC000 \<le> unat a \<Longrightarrow> unat a < 0xE000 \<Longrightarrow> mmu_read8 m a = wram m (unat a - 0xC000)"
  by (simp add: mmu_read8_def word_less_nat_alt word_le_nat_alt unat_minus_const)

lemma read_echo: "0xE000 \<le> unat a \<Longrightarrow> unat a < 0xFE00 \<Longrightarrow> mmu_read8 m a = wram m (unat a - 0xE000)"
  by (simp add: mmu_read8_def word_less_nat_alt word_le_nat_alt unat_minus_const echo_offset)

lemma read_oam: "0xFE00 \<le> unat a \<Longrightarrow> unat a < 0xFEA0 \<Longrightarrow> mmu_read8 m a = oam m (unat a - 0xFE00)"
  by (simp add: mmu_read8_def word_less_nat_alt word_le_nat_alt unat_minus_const)

lemma read_hram: "0xFF80 \<le> unat a \<Longrightarrow> unat a < 0xFFFF \<Longrightarrow> mmu_read8 m a = hram m (unat a - 0xFF80)"
  by (simp add: mmu_read8_def word_less_nat_alt word_le_nat_alt unat_minus_const)

lemma write_vram: "0x8000 \<le> unat a \<Longrightarrow> unat a < 0xA000 \<Longrightarrow>
    mmu_write8 clk a v m = (smc_mark a m)\<lparr>vram := (vram m)(unat a - 0x8000 := v)\<rparr>"
  by (simp add: mmu_write8_def word_less_nat_alt word_le_nat_alt unat_minus_const smc_mark_def Let_def)

lemma write_wram: "0xC000 \<le> unat a \<Longrightarrow> unat a < 0xE000 \<Longrightarrow>
    mmu_write8 clk a v m = (smc_mark a m)\<lparr>wram := (wram m)(unat a - 0xC000 := v)\<rparr>"
  by (simp add: mmu_write8_def word_less_nat_alt word_le_nat_alt unat_minus_const smc_mark_def Let_def)

lemma echo_canonical:
  assumes "0xE000 \<le> unat a" "unat a < 0xFE00"
  shows "0xC000 + ((a - 0xE000) AND 0x1FFF :: u16) = a - 0x2000"
proof -
  have "(a - 0xE000) AND 0x1FFF = a - 0xE000"
    using assms by (intro word_unat_eq_iff [THEN iffD2]) (simp add: echo_offset unat_minus_const)
  then show ?thesis by simp
qed

lemma write_echo: "0xE000 \<le> unat a \<Longrightarrow> unat a < 0xFE00 \<Longrightarrow>
    mmu_write8 clk a v m = (smc_mark (a - 0x2000) m)\<lparr>wram := (wram m)(unat a - 0xE000 := v)\<rparr>"
  by (simp add: mmu_write8_def word_less_nat_alt word_le_nat_alt unat_minus_const echo_offset
      echo_canonical smc_mark_def Let_def)

lemma write_oam: "0xFE00 \<le> unat a \<Longrightarrow> unat a < 0xFEA0 \<Longrightarrow>
    mmu_write8 clk a v m = m\<lparr>oam := (oam m)(unat a - 0xFE00 := v)\<rparr>"
  by (simp add: mmu_write8_def word_less_nat_alt word_le_nat_alt unat_minus_const)

lemma write_hram: "0xFF80 \<le> unat a \<Longrightarrow> unat a < 0xFFFF \<Longrightarrow>
    mmu_write8 clk a v m = (smc_mark a m)\<lparr>hram := (hram m)(unat a - 0xFF80 := v)\<rparr>"
  by (simp add: mmu_write8_def word_less_nat_alt word_le_nat_alt unat_minus_const smc_mark_def Let_def)

lemmas region_reads = read_vram read_wram read_echo read_oam read_hram
lemmas region_writes = write_vram write_wram write_echo write_oam write_hram

lemma smc_mark_arrays [simp]:
  "rom (smc_mark a m) = rom m" "rom_capacity (smc_mark a m) = rom_capacity m"
  "vram (smc_mark a m) = vram m" "wram (smc_mark a m) = wram m" "oam (smc_mark a m) = oam m"
  "hram (smc_mark a m) = hram m" "io (smc_mark a m) = io m" "ie (smc_mark a m) = ie m"
  "mbc (smc_mark a m) = mbc m" "rom_bank (smc_mark a m) = rom_bank m"
  "rom_banks (smc_mark a m) = rom_banks m" "rom_bank_dirty (smc_mark a m) = rom_bank_dirty m"
  "buttons (smc_mark a m) = buttons m" "framebuffer (smc_mark a m) = framebuffer m"
  by (simp_all add: smc_mark_def Let_def)

text \<open>The addresses that are memory, and the byte each stands for: the echo area mirrors WRAM.\<close>

definition plain_ram :: "u16 \<Rightarrow> bool" where
  "plain_ram a \<longleftrightarrow> (let n = unat a in 0x8000 \<le> n \<and> n < 0xA000 \<or> 0xC000 \<le> n \<and> n < 0xFEA0 \<or> 0xFF80 \<le> n \<and> n < 0xFFFF)"

definition ram_cell :: "u16 \<Rightarrow> u16" where
  "ram_cell a = (if 0xE000 \<le> unat a \<and> unat a < 0xFE00 then a - 0x2000 else a)"

lemma unat_ram_cell:
  "unat (ram_cell a) = (if 0xE000 \<le> unat a \<and> unat a < 0xFE00 then unat a - 0x2000 else unat a)"
  by (simp add: ram_cell_def unat_minus_const)

lemma plain_ram_cases:
  assumes "plain_ram a"
  obtains "0x8000 \<le> unat a" "unat a < 0xA000" | "0xC000 \<le> unat a" "unat a < 0xE000"
    | "0xE000 \<le> unat a" "unat a < 0xFE00" | "0xFE00 \<le> unat a" "unat a < 0xFEA0"
    | "0xFF80 \<le> unat a" "unat a < 0xFFFF"
  using assms by (auto simp: plain_ram_def Let_def) linarith+

lemma ram_read_write:
  assumes "plain_ram a" "plain_ram b"
  shows "mmu_read8 (mmu_write8 clk a v m) b = (if ram_cell b = ram_cell a then v else mmu_read8 m b)"
  using assms
  by (elim plain_ram_cases) (auto simp: region_reads region_writes word_unat_eq_iff unat_ram_cell)

lemma ram_cell_next:
  assumes "plain_ram a" "plain_ram (a + 1)"
  shows "ram_cell (a + 1) \<noteq> ram_cell a"
proof -
  have "unat a < 0xFFFF" using assms(1) by (auto simp: plain_ram_def Let_def)
  then have "unat (a + 1) = unat a + 1" by (simp add: unat_word_ariths)
  then show ?thesis by (auto simp: word_unat_eq_iff unat_ram_cell)
qed

interpretation ram: byte_bus mmu_read8 "mmu_write8 clk" plain_ram ram_cell for clk
  by unfold_locales (rule ram_read_write ram_cell_next; assumption)+
end
