(* ===== verification/Decoder.thy ===== *)
theory Decoder
  imports Prelude
begin

text \<open>
  The static decode table of core/sm83_decoder.c: for each base opcode its length in bytes, its
  cycles when no branch is taken and when one is, and its flags; and the block-terminator test
  the JIT walker uses.
\<close>

record sm83_op_info =
  op_length :: u8
  cycles_notaken :: u8
  cycles_taken :: u8
  op_flags :: u8

abbreviation (input) F_BRANCH :: u8 where "F_BRANCH \<equiv> 0x01"
abbreviation (input) F_COND :: u8 where "F_COND \<equiv> 0x02"
abbreviation (input) F_CALL :: u8 where "F_CALL \<equiv> 0x04"
abbreviation (input) F_RET :: u8 where "F_RET \<equiv> 0x08"
abbreviation (input) F_HALT :: u8 where "F_HALT \<equiv> 0x10"
abbreviation (input) F_STOP :: u8 where "F_STOP \<equiv> 0x20"
abbreviation (input) F_EI :: u8 where "F_EI \<equiv> 0x40"
abbreviation (input) F_DI :: u8 where "F_DI \<equiv> 0x80"

definition op_info :: "u8 \<Rightarrow> u8 \<Rightarrow> u8 \<Rightarrow> u8 \<Rightarrow> sm83_op_info" where
  "op_info n c t f = \<lparr>op_length = n, cycles_notaken = c, cycles_taken = t, op_flags = f\<rparr>"

text \<open>Unused opcodes: length 1, four cycles.\<close>

abbreviation (input) X :: sm83_op_info where "X \<equiv> op_info 1 4 4 0"

text \<open>The table, one definition per row of sixteen opcodes.\<close>

definition op_row_0 :: "sm83_op_info list" where
  "op_row_0 = [
     op_info 1 4 4 0, op_info 3 12 12 0, op_info 1 8 8 0, op_info 1 8 8 0, op_info 1 4 4 0,
     op_info 1 4 4 0, op_info 2 8 8 0, op_info 1 4 4 0, op_info 3 20 20 0, op_info 1 8 8 0,
     op_info 1 8 8 0, op_info 1 8 8 0, op_info 1 4 4 0, op_info 1 4 4 0, op_info 2 8 8 0,
     op_info 1 4 4 0]"

definition op_row_1 :: "sm83_op_info list" where
  "op_row_1 = [
     op_info 2 4 4 F_STOP, op_info 3 12 12 0, op_info 1 8 8 0, op_info 1 8 8 0, op_info 1 4 4 0,
     op_info 1 4 4 0, op_info 2 8 8 0, op_info 1 4 4 0, op_info 2 12 12 F_BRANCH, op_info 1 8 8 0,
     op_info 1 8 8 0, op_info 1 8 8 0, op_info 1 4 4 0, op_info 1 4 4 0, op_info 2 8 8 0,
     op_info 1 4 4 0]"

definition op_row_2 :: "sm83_op_info list" where
  "op_row_2 = [
     op_info 2 8 12 (F_BRANCH OR F_COND), op_info 3 12 12 0, op_info 1 8 8 0, op_info 1 8 8 0,
     op_info 1 4 4 0, op_info 1 4 4 0, op_info 2 8 8 0, op_info 1 4 4 0,
     op_info 2 8 12 (F_BRANCH OR F_COND), op_info 1 8 8 0, op_info 1 8 8 0, op_info 1 8 8 0,
     op_info 1 4 4 0, op_info 1 4 4 0, op_info 2 8 8 0, op_info 1 4 4 0]"

definition op_row_3 :: "sm83_op_info list" where
  "op_row_3 = [
     op_info 2 8 12 (F_BRANCH OR F_COND), op_info 3 12 12 0, op_info 1 8 8 0, op_info 1 8 8 0,
     op_info 1 12 12 0, op_info 1 12 12 0, op_info 2 12 12 0, op_info 1 4 4 0,
     op_info 2 8 12 (F_BRANCH OR F_COND), op_info 1 8 8 0, op_info 1 8 8 0, op_info 1 8 8 0,
     op_info 1 4 4 0, op_info 1 4 4 0, op_info 2 8 8 0, op_info 1 4 4 0]"

definition op_row_4 :: "sm83_op_info list" where
  "op_row_4 = [
     op_info 1 4 4 0, op_info 1 4 4 0, op_info 1 4 4 0, op_info 1 4 4 0, op_info 1 4 4 0,
     op_info 1 4 4 0, op_info 1 8 8 0, op_info 1 4 4 0, op_info 1 4 4 0, op_info 1 4 4 0,
     op_info 1 4 4 0, op_info 1 4 4 0, op_info 1 4 4 0, op_info 1 4 4 0, op_info 1 8 8 0,
     op_info 1 4 4 0]"

definition op_row_5 :: "sm83_op_info list" where
  "op_row_5 = [
     op_info 1 4 4 0, op_info 1 4 4 0, op_info 1 4 4 0, op_info 1 4 4 0, op_info 1 4 4 0,
     op_info 1 4 4 0, op_info 1 8 8 0, op_info 1 4 4 0, op_info 1 4 4 0, op_info 1 4 4 0,
     op_info 1 4 4 0, op_info 1 4 4 0, op_info 1 4 4 0, op_info 1 4 4 0, op_info 1 8 8 0,
     op_info 1 4 4 0]"

definition op_row_6 :: "sm83_op_info list" where
  "op_row_6 = [
     op_info 1 4 4 0, op_info 1 4 4 0, op_info 1 4 4 0, op_info 1 4 4 0, op_info 1 4 4 0,
     op_info 1 4 4 0, op_info 1 8 8 0, op_info 1 4 4 0, op_info 1 4 4 0, op_info 1 4 4 0,
     op_info 1 4 4 0, op_info 1 4 4 0, op_info 1 4 4 0, op_info 1 4 4 0, op_info 1 8 8 0,
     op_info 1 4 4 0]"

definition op_row_7 :: "sm83_op_info list" where
  "op_row_7 = [
     op_info 1 8 8 0, op_info 1 8 8 0, op_info 1 8 8 0, op_info 1 8 8 0, op_info 1 8 8 0,
     op_info 1 8 8 0, op_info 1 4 4 F_HALT, op_info 1 8 8 0, op_info 1 4 4 0, op_info 1 4 4 0,
     op_info 1 4 4 0, op_info 1 4 4 0, op_info 1 4 4 0, op_info 1 4 4 0, op_info 1 8 8 0,
     op_info 1 4 4 0]"

definition op_row_8 :: "sm83_op_info list" where
  "op_row_8 = [
     op_info 1 4 4 0, op_info 1 4 4 0, op_info 1 4 4 0, op_info 1 4 4 0, op_info 1 4 4 0,
     op_info 1 4 4 0, op_info 1 8 8 0, op_info 1 4 4 0, op_info 1 4 4 0, op_info 1 4 4 0,
     op_info 1 4 4 0, op_info 1 4 4 0, op_info 1 4 4 0, op_info 1 4 4 0, op_info 1 8 8 0,
     op_info 1 4 4 0]"

definition op_row_9 :: "sm83_op_info list" where
  "op_row_9 = [
     op_info 1 4 4 0, op_info 1 4 4 0, op_info 1 4 4 0, op_info 1 4 4 0, op_info 1 4 4 0,
     op_info 1 4 4 0, op_info 1 8 8 0, op_info 1 4 4 0, op_info 1 4 4 0, op_info 1 4 4 0,
     op_info 1 4 4 0, op_info 1 4 4 0, op_info 1 4 4 0, op_info 1 4 4 0, op_info 1 8 8 0,
     op_info 1 4 4 0]"

definition op_row_A :: "sm83_op_info list" where
  "op_row_A = [
     op_info 1 4 4 0, op_info 1 4 4 0, op_info 1 4 4 0, op_info 1 4 4 0, op_info 1 4 4 0,
     op_info 1 4 4 0, op_info 1 8 8 0, op_info 1 4 4 0, op_info 1 4 4 0, op_info 1 4 4 0,
     op_info 1 4 4 0, op_info 1 4 4 0, op_info 1 4 4 0, op_info 1 4 4 0, op_info 1 8 8 0,
     op_info 1 4 4 0]"

definition op_row_B :: "sm83_op_info list" where
  "op_row_B = [
     op_info 1 4 4 0, op_info 1 4 4 0, op_info 1 4 4 0, op_info 1 4 4 0, op_info 1 4 4 0,
     op_info 1 4 4 0, op_info 1 8 8 0, op_info 1 4 4 0, op_info 1 4 4 0, op_info 1 4 4 0,
     op_info 1 4 4 0, op_info 1 4 4 0, op_info 1 4 4 0, op_info 1 4 4 0, op_info 1 8 8 0,
     op_info 1 4 4 0]"

definition op_row_C :: "sm83_op_info list" where
  "op_row_C = [
     op_info 1 8 20 (F_BRANCH OR F_COND OR F_RET), op_info 1 12 12 0,
     op_info 3 12 16 (F_BRANCH OR F_COND), op_info 3 16 16 F_BRANCH,
     op_info 3 12 24 (F_BRANCH OR F_COND OR F_CALL), op_info 1 16 16 0, op_info 2 8 8 0,
     op_info 1 16 16 (F_BRANCH OR F_CALL), op_info 1 8 20 (F_BRANCH OR F_COND OR F_RET),
     op_info 1 16 16 (F_BRANCH OR F_RET), op_info 3 12 16 (F_BRANCH OR F_COND), op_info 2 8 8 0,
     op_info 3 12 24 (F_BRANCH OR F_COND OR F_CALL), op_info 3 24 24 (F_BRANCH OR F_CALL),
     op_info 2 8 8 0, op_info 1 16 16 (F_BRANCH OR F_CALL)]"

definition op_row_D :: "sm83_op_info list" where
  "op_row_D = [
     op_info 1 8 20 (F_BRANCH OR F_COND OR F_RET), op_info 1 12 12 0,
     op_info 3 12 16 (F_BRANCH OR F_COND), X, op_info 3 12 24 (F_BRANCH OR F_COND OR F_CALL),
     op_info 1 16 16 0, op_info 2 8 8 0, op_info 1 16 16 (F_BRANCH OR F_CALL),
     op_info 1 8 20 (F_BRANCH OR F_COND OR F_RET), op_info 1 16 16 (F_BRANCH OR F_RET OR F_EI),
     op_info 3 12 16 (F_BRANCH OR F_COND), X, op_info 3 12 24 (F_BRANCH OR F_COND OR F_CALL), X,
     op_info 2 8 8 0, op_info 1 16 16 (F_BRANCH OR F_CALL)]"

definition op_row_E :: "sm83_op_info list" where
  "op_row_E = [
     op_info 2 12 12 0, op_info 1 12 12 0, op_info 1 8 8 0, X, X, op_info 1 16 16 0,
     op_info 2 8 8 0, op_info 1 16 16 (F_BRANCH OR F_CALL), op_info 2 16 16 0,
     op_info 1 4 4 F_BRANCH, op_info 3 16 16 0, X, X, X, op_info 2 8 8 0,
     op_info 1 16 16 (F_BRANCH OR F_CALL)]"

definition op_row_F :: "sm83_op_info list" where
  "op_row_F = [
     op_info 2 12 12 0, op_info 1 12 12 0, op_info 1 8 8 0, op_info 1 4 4 F_DI, X,
     op_info 1 16 16 0, op_info 2 8 8 0, op_info 1 16 16 (F_BRANCH OR F_CALL), op_info 2 12 12 0,
     op_info 1 8 8 0, op_info 3 16 16 0, op_info 1 4 4 F_EI, X, X, op_info 2 8 8 0,
     op_info 1 16 16 (F_BRANCH OR F_CALL)]"

definition op_table :: "sm83_op_info list" where
  "op_table = op_row_0 @ op_row_1 @ op_row_2 @ op_row_3 @ op_row_4 @ op_row_5 @ op_row_6 @ op_row_7
     @ op_row_8 @ op_row_9 @ op_row_A @ op_row_B @ op_row_C @ op_row_D @ op_row_E @ op_row_F"

definition sm83_decode :: "u8 \<Rightarrow> sm83_op_info" where
  "sm83_decode opcode = op_table ! unat opcode"

definition sm83_terminates_block :: "u8 \<Rightarrow> bool" where
  "sm83_terminates_block opcode \<longleftrightarrow>
     op_flags (sm83_decode opcode) AND (F_BRANCH OR F_HALT OR F_STOP OR F_EI) \<noteq> 0"

section \<open>Looking the table up\<close>

lemma op_row_length [simp]:
  "length op_row_0 = 16"
  "length op_row_1 = 16"
  "length op_row_2 = 16"
  "length op_row_3 = 16"
  "length op_row_4 = 16"
  "length op_row_5 = 16"
  "length op_row_6 = 16"
  "length op_row_7 = 16"
  "length op_row_8 = 16"
  "length op_row_9 = 16"
  "length op_row_A = 16"
  "length op_row_B = 16"
  "length op_row_C = 16"
  "length op_row_D = 16"
  "length op_row_E = 16"
  "length op_row_F = 16"
  by (simp_all add: op_row_0_def op_row_1_def op_row_2_def op_row_3_def op_row_4_def op_row_5_def op_row_6_def op_row_7_def op_row_8_def op_row_9_def op_row_A_def op_row_B_def op_row_C_def op_row_D_def op_row_E_def op_row_F_def)

lemmas op_rows = op_row_0_def op_row_1_def op_row_2_def op_row_3_def op_row_4_def op_row_5_def op_row_6_def op_row_7_def
  op_row_8_def op_row_9_def op_row_A_def op_row_B_def op_row_C_def op_row_D_def op_row_E_def op_row_F_def

lemma op_table_length [simp]: "length op_table = 256"
  by (simp add: op_table_def)

lemma decode_all: "list_all P op_table \<Longrightarrow> P (sm83_decode op)"
  unfolding sm83_decode_def list_all_length by simp

lemma decode_row:
  assumes "j < 16"
  shows
    "op_table ! (0 + j) = op_row_0 ! j"
    "op_table ! (16 + j) = op_row_1 ! j"
    "op_table ! (32 + j) = op_row_2 ! j"
    "op_table ! (48 + j) = op_row_3 ! j"
    "op_table ! (64 + j) = op_row_4 ! j"
    "op_table ! (80 + j) = op_row_5 ! j"
    "op_table ! (96 + j) = op_row_6 ! j"
    "op_table ! (112 + j) = op_row_7 ! j"
    "op_table ! (128 + j) = op_row_8 ! j"
    "op_table ! (144 + j) = op_row_9 ! j"
    "op_table ! (160 + j) = op_row_A ! j"
    "op_table ! (176 + j) = op_row_B ! j"
    "op_table ! (192 + j) = op_row_C ! j"
    "op_table ! (208 + j) = op_row_D ! j"
    "op_table ! (224 + j) = op_row_E ! j"
    "op_table ! (240 + j) = op_row_F ! j"
  using assms by (simp_all add: op_table_def nth_append)

lemma decode_0x [simp]:
  "sm83_decode 0x00 = op_info 1 4 4 0"
  "sm83_decode 0x01 = op_info 3 12 12 0"
  "sm83_decode 0x02 = op_info 1 8 8 0"
  "sm83_decode 0x03 = op_info 1 8 8 0"
  "sm83_decode 0x04 = op_info 1 4 4 0"
  "sm83_decode 0x05 = op_info 1 4 4 0"
  "sm83_decode 0x06 = op_info 2 8 8 0"
  "sm83_decode 0x07 = op_info 1 4 4 0"
  "sm83_decode 0x08 = op_info 3 20 20 0"
  "sm83_decode 0x09 = op_info 1 8 8 0"
  "sm83_decode 0x0A = op_info 1 8 8 0"
  "sm83_decode 0x0B = op_info 1 8 8 0"
  "sm83_decode 0x0C = op_info 1 4 4 0"
  "sm83_decode 0x0D = op_info 1 4 4 0"
  "sm83_decode 0x0E = op_info 2 8 8 0"
  "sm83_decode 0x0F = op_info 1 4 4 0"
  by (simp_all add: sm83_decode_def op_table_def nth_append op_row_0_def)

lemma decode_1x [simp]:
  "sm83_decode 0x10 = op_info 2 4 4 F_STOP"
  "sm83_decode 0x11 = op_info 3 12 12 0"
  "sm83_decode 0x12 = op_info 1 8 8 0"
  "sm83_decode 0x13 = op_info 1 8 8 0"
  "sm83_decode 0x14 = op_info 1 4 4 0"
  "sm83_decode 0x15 = op_info 1 4 4 0"
  "sm83_decode 0x16 = op_info 2 8 8 0"
  "sm83_decode 0x17 = op_info 1 4 4 0"
  "sm83_decode 0x18 = op_info 2 12 12 F_BRANCH"
  "sm83_decode 0x19 = op_info 1 8 8 0"
  "sm83_decode 0x1A = op_info 1 8 8 0"
  "sm83_decode 0x1B = op_info 1 8 8 0"
  "sm83_decode 0x1C = op_info 1 4 4 0"
  "sm83_decode 0x1D = op_info 1 4 4 0"
  "sm83_decode 0x1E = op_info 2 8 8 0"
  "sm83_decode 0x1F = op_info 1 4 4 0"
  by (simp_all add: sm83_decode_def op_table_def nth_append op_row_1_def)

lemma decode_2x [simp]:
  "sm83_decode 0x20 = op_info 2 8 12 (F_BRANCH OR F_COND)"
  "sm83_decode 0x21 = op_info 3 12 12 0"
  "sm83_decode 0x22 = op_info 1 8 8 0"
  "sm83_decode 0x23 = op_info 1 8 8 0"
  "sm83_decode 0x24 = op_info 1 4 4 0"
  "sm83_decode 0x25 = op_info 1 4 4 0"
  "sm83_decode 0x26 = op_info 2 8 8 0"
  "sm83_decode 0x27 = op_info 1 4 4 0"
  "sm83_decode 0x28 = op_info 2 8 12 (F_BRANCH OR F_COND)"
  "sm83_decode 0x29 = op_info 1 8 8 0"
  "sm83_decode 0x2A = op_info 1 8 8 0"
  "sm83_decode 0x2B = op_info 1 8 8 0"
  "sm83_decode 0x2C = op_info 1 4 4 0"
  "sm83_decode 0x2D = op_info 1 4 4 0"
  "sm83_decode 0x2E = op_info 2 8 8 0"
  "sm83_decode 0x2F = op_info 1 4 4 0"
  by (simp_all add: sm83_decode_def op_table_def nth_append op_row_2_def)

lemma decode_3x [simp]:
  "sm83_decode 0x30 = op_info 2 8 12 (F_BRANCH OR F_COND)"
  "sm83_decode 0x31 = op_info 3 12 12 0"
  "sm83_decode 0x32 = op_info 1 8 8 0"
  "sm83_decode 0x33 = op_info 1 8 8 0"
  "sm83_decode 0x34 = op_info 1 12 12 0"
  "sm83_decode 0x35 = op_info 1 12 12 0"
  "sm83_decode 0x36 = op_info 2 12 12 0"
  "sm83_decode 0x37 = op_info 1 4 4 0"
  "sm83_decode 0x38 = op_info 2 8 12 (F_BRANCH OR F_COND)"
  "sm83_decode 0x39 = op_info 1 8 8 0"
  "sm83_decode 0x3A = op_info 1 8 8 0"
  "sm83_decode 0x3B = op_info 1 8 8 0"
  "sm83_decode 0x3C = op_info 1 4 4 0"
  "sm83_decode 0x3D = op_info 1 4 4 0"
  "sm83_decode 0x3E = op_info 2 8 8 0"
  "sm83_decode 0x3F = op_info 1 4 4 0"
  by (simp_all add: sm83_decode_def op_table_def nth_append op_row_3_def)

lemma decode_4x [simp]:
  "sm83_decode 0x40 = op_info 1 4 4 0"
  "sm83_decode 0x41 = op_info 1 4 4 0"
  "sm83_decode 0x42 = op_info 1 4 4 0"
  "sm83_decode 0x43 = op_info 1 4 4 0"
  "sm83_decode 0x44 = op_info 1 4 4 0"
  "sm83_decode 0x45 = op_info 1 4 4 0"
  "sm83_decode 0x46 = op_info 1 8 8 0"
  "sm83_decode 0x47 = op_info 1 4 4 0"
  "sm83_decode 0x48 = op_info 1 4 4 0"
  "sm83_decode 0x49 = op_info 1 4 4 0"
  "sm83_decode 0x4A = op_info 1 4 4 0"
  "sm83_decode 0x4B = op_info 1 4 4 0"
  "sm83_decode 0x4C = op_info 1 4 4 0"
  "sm83_decode 0x4D = op_info 1 4 4 0"
  "sm83_decode 0x4E = op_info 1 8 8 0"
  "sm83_decode 0x4F = op_info 1 4 4 0"
  by (simp_all add: sm83_decode_def op_table_def nth_append op_row_4_def)

lemma decode_5x [simp]:
  "sm83_decode 0x50 = op_info 1 4 4 0"
  "sm83_decode 0x51 = op_info 1 4 4 0"
  "sm83_decode 0x52 = op_info 1 4 4 0"
  "sm83_decode 0x53 = op_info 1 4 4 0"
  "sm83_decode 0x54 = op_info 1 4 4 0"
  "sm83_decode 0x55 = op_info 1 4 4 0"
  "sm83_decode 0x56 = op_info 1 8 8 0"
  "sm83_decode 0x57 = op_info 1 4 4 0"
  "sm83_decode 0x58 = op_info 1 4 4 0"
  "sm83_decode 0x59 = op_info 1 4 4 0"
  "sm83_decode 0x5A = op_info 1 4 4 0"
  "sm83_decode 0x5B = op_info 1 4 4 0"
  "sm83_decode 0x5C = op_info 1 4 4 0"
  "sm83_decode 0x5D = op_info 1 4 4 0"
  "sm83_decode 0x5E = op_info 1 8 8 0"
  "sm83_decode 0x5F = op_info 1 4 4 0"
  by (simp_all add: sm83_decode_def op_table_def nth_append op_row_5_def)

lemma decode_6x [simp]:
  "sm83_decode 0x60 = op_info 1 4 4 0"
  "sm83_decode 0x61 = op_info 1 4 4 0"
  "sm83_decode 0x62 = op_info 1 4 4 0"
  "sm83_decode 0x63 = op_info 1 4 4 0"
  "sm83_decode 0x64 = op_info 1 4 4 0"
  "sm83_decode 0x65 = op_info 1 4 4 0"
  "sm83_decode 0x66 = op_info 1 8 8 0"
  "sm83_decode 0x67 = op_info 1 4 4 0"
  "sm83_decode 0x68 = op_info 1 4 4 0"
  "sm83_decode 0x69 = op_info 1 4 4 0"
  "sm83_decode 0x6A = op_info 1 4 4 0"
  "sm83_decode 0x6B = op_info 1 4 4 0"
  "sm83_decode 0x6C = op_info 1 4 4 0"
  "sm83_decode 0x6D = op_info 1 4 4 0"
  "sm83_decode 0x6E = op_info 1 8 8 0"
  "sm83_decode 0x6F = op_info 1 4 4 0"
  by (simp_all add: sm83_decode_def op_table_def nth_append op_row_6_def)

lemma decode_7x [simp]:
  "sm83_decode 0x70 = op_info 1 8 8 0"
  "sm83_decode 0x71 = op_info 1 8 8 0"
  "sm83_decode 0x72 = op_info 1 8 8 0"
  "sm83_decode 0x73 = op_info 1 8 8 0"
  "sm83_decode 0x74 = op_info 1 8 8 0"
  "sm83_decode 0x75 = op_info 1 8 8 0"
  "sm83_decode 0x76 = op_info 1 4 4 F_HALT"
  "sm83_decode 0x77 = op_info 1 8 8 0"
  "sm83_decode 0x78 = op_info 1 4 4 0"
  "sm83_decode 0x79 = op_info 1 4 4 0"
  "sm83_decode 0x7A = op_info 1 4 4 0"
  "sm83_decode 0x7B = op_info 1 4 4 0"
  "sm83_decode 0x7C = op_info 1 4 4 0"
  "sm83_decode 0x7D = op_info 1 4 4 0"
  "sm83_decode 0x7E = op_info 1 8 8 0"
  "sm83_decode 0x7F = op_info 1 4 4 0"
  by (simp_all add: sm83_decode_def op_table_def nth_append op_row_7_def)

lemma decode_8x [simp]:
  "sm83_decode 0x80 = op_info 1 4 4 0"
  "sm83_decode 0x81 = op_info 1 4 4 0"
  "sm83_decode 0x82 = op_info 1 4 4 0"
  "sm83_decode 0x83 = op_info 1 4 4 0"
  "sm83_decode 0x84 = op_info 1 4 4 0"
  "sm83_decode 0x85 = op_info 1 4 4 0"
  "sm83_decode 0x86 = op_info 1 8 8 0"
  "sm83_decode 0x87 = op_info 1 4 4 0"
  "sm83_decode 0x88 = op_info 1 4 4 0"
  "sm83_decode 0x89 = op_info 1 4 4 0"
  "sm83_decode 0x8A = op_info 1 4 4 0"
  "sm83_decode 0x8B = op_info 1 4 4 0"
  "sm83_decode 0x8C = op_info 1 4 4 0"
  "sm83_decode 0x8D = op_info 1 4 4 0"
  "sm83_decode 0x8E = op_info 1 8 8 0"
  "sm83_decode 0x8F = op_info 1 4 4 0"
  by (simp_all add: sm83_decode_def op_table_def nth_append op_row_8_def)

lemma decode_9x [simp]:
  "sm83_decode 0x90 = op_info 1 4 4 0"
  "sm83_decode 0x91 = op_info 1 4 4 0"
  "sm83_decode 0x92 = op_info 1 4 4 0"
  "sm83_decode 0x93 = op_info 1 4 4 0"
  "sm83_decode 0x94 = op_info 1 4 4 0"
  "sm83_decode 0x95 = op_info 1 4 4 0"
  "sm83_decode 0x96 = op_info 1 8 8 0"
  "sm83_decode 0x97 = op_info 1 4 4 0"
  "sm83_decode 0x98 = op_info 1 4 4 0"
  "sm83_decode 0x99 = op_info 1 4 4 0"
  "sm83_decode 0x9A = op_info 1 4 4 0"
  "sm83_decode 0x9B = op_info 1 4 4 0"
  "sm83_decode 0x9C = op_info 1 4 4 0"
  "sm83_decode 0x9D = op_info 1 4 4 0"
  "sm83_decode 0x9E = op_info 1 8 8 0"
  "sm83_decode 0x9F = op_info 1 4 4 0"
  by (simp_all add: sm83_decode_def op_table_def nth_append op_row_9_def)

lemma decode_Ax [simp]:
  "sm83_decode 0xA0 = op_info 1 4 4 0"
  "sm83_decode 0xA1 = op_info 1 4 4 0"
  "sm83_decode 0xA2 = op_info 1 4 4 0"
  "sm83_decode 0xA3 = op_info 1 4 4 0"
  "sm83_decode 0xA4 = op_info 1 4 4 0"
  "sm83_decode 0xA5 = op_info 1 4 4 0"
  "sm83_decode 0xA6 = op_info 1 8 8 0"
  "sm83_decode 0xA7 = op_info 1 4 4 0"
  "sm83_decode 0xA8 = op_info 1 4 4 0"
  "sm83_decode 0xA9 = op_info 1 4 4 0"
  "sm83_decode 0xAA = op_info 1 4 4 0"
  "sm83_decode 0xAB = op_info 1 4 4 0"
  "sm83_decode 0xAC = op_info 1 4 4 0"
  "sm83_decode 0xAD = op_info 1 4 4 0"
  "sm83_decode 0xAE = op_info 1 8 8 0"
  "sm83_decode 0xAF = op_info 1 4 4 0"
  by (simp_all add: sm83_decode_def op_table_def nth_append op_row_A_def)

lemma decode_Bx [simp]:
  "sm83_decode 0xB0 = op_info 1 4 4 0"
  "sm83_decode 0xB1 = op_info 1 4 4 0"
  "sm83_decode 0xB2 = op_info 1 4 4 0"
  "sm83_decode 0xB3 = op_info 1 4 4 0"
  "sm83_decode 0xB4 = op_info 1 4 4 0"
  "sm83_decode 0xB5 = op_info 1 4 4 0"
  "sm83_decode 0xB6 = op_info 1 8 8 0"
  "sm83_decode 0xB7 = op_info 1 4 4 0"
  "sm83_decode 0xB8 = op_info 1 4 4 0"
  "sm83_decode 0xB9 = op_info 1 4 4 0"
  "sm83_decode 0xBA = op_info 1 4 4 0"
  "sm83_decode 0xBB = op_info 1 4 4 0"
  "sm83_decode 0xBC = op_info 1 4 4 0"
  "sm83_decode 0xBD = op_info 1 4 4 0"
  "sm83_decode 0xBE = op_info 1 8 8 0"
  "sm83_decode 0xBF = op_info 1 4 4 0"
  by (simp_all add: sm83_decode_def op_table_def nth_append op_row_B_def)

lemma decode_Cx [simp]:
  "sm83_decode 0xC0 = op_info 1 8 20 (F_BRANCH OR F_COND OR F_RET)"
  "sm83_decode 0xC1 = op_info 1 12 12 0"
  "sm83_decode 0xC2 = op_info 3 12 16 (F_BRANCH OR F_COND)"
  "sm83_decode 0xC3 = op_info 3 16 16 F_BRANCH"
  "sm83_decode 0xC4 = op_info 3 12 24 (F_BRANCH OR F_COND OR F_CALL)"
  "sm83_decode 0xC5 = op_info 1 16 16 0"
  "sm83_decode 0xC6 = op_info 2 8 8 0"
  "sm83_decode 0xC7 = op_info 1 16 16 (F_BRANCH OR F_CALL)"
  "sm83_decode 0xC8 = op_info 1 8 20 (F_BRANCH OR F_COND OR F_RET)"
  "sm83_decode 0xC9 = op_info 1 16 16 (F_BRANCH OR F_RET)"
  "sm83_decode 0xCA = op_info 3 12 16 (F_BRANCH OR F_COND)"
  "sm83_decode 0xCB = op_info 2 8 8 0"
  "sm83_decode 0xCC = op_info 3 12 24 (F_BRANCH OR F_COND OR F_CALL)"
  "sm83_decode 0xCD = op_info 3 24 24 (F_BRANCH OR F_CALL)"
  "sm83_decode 0xCE = op_info 2 8 8 0"
  "sm83_decode 0xCF = op_info 1 16 16 (F_BRANCH OR F_CALL)"
  by (simp_all add: sm83_decode_def op_table_def nth_append op_row_C_def)

lemma decode_Dx [simp]:
  "sm83_decode 0xD0 = op_info 1 8 20 (F_BRANCH OR F_COND OR F_RET)"
  "sm83_decode 0xD1 = op_info 1 12 12 0"
  "sm83_decode 0xD2 = op_info 3 12 16 (F_BRANCH OR F_COND)"
  "sm83_decode 0xD3 = X"
  "sm83_decode 0xD4 = op_info 3 12 24 (F_BRANCH OR F_COND OR F_CALL)"
  "sm83_decode 0xD5 = op_info 1 16 16 0"
  "sm83_decode 0xD6 = op_info 2 8 8 0"
  "sm83_decode 0xD7 = op_info 1 16 16 (F_BRANCH OR F_CALL)"
  "sm83_decode 0xD8 = op_info 1 8 20 (F_BRANCH OR F_COND OR F_RET)"
  "sm83_decode 0xD9 = op_info 1 16 16 (F_BRANCH OR F_RET OR F_EI)"
  "sm83_decode 0xDA = op_info 3 12 16 (F_BRANCH OR F_COND)"
  "sm83_decode 0xDB = X"
  "sm83_decode 0xDC = op_info 3 12 24 (F_BRANCH OR F_COND OR F_CALL)"
  "sm83_decode 0xDD = X"
  "sm83_decode 0xDE = op_info 2 8 8 0"
  "sm83_decode 0xDF = op_info 1 16 16 (F_BRANCH OR F_CALL)"
  by (simp_all add: sm83_decode_def op_table_def nth_append op_row_D_def)

lemma decode_Ex [simp]:
  "sm83_decode 0xE0 = op_info 2 12 12 0"
  "sm83_decode 0xE1 = op_info 1 12 12 0"
  "sm83_decode 0xE2 = op_info 1 8 8 0"
  "sm83_decode 0xE3 = X"
  "sm83_decode 0xE4 = X"
  "sm83_decode 0xE5 = op_info 1 16 16 0"
  "sm83_decode 0xE6 = op_info 2 8 8 0"
  "sm83_decode 0xE7 = op_info 1 16 16 (F_BRANCH OR F_CALL)"
  "sm83_decode 0xE8 = op_info 2 16 16 0"
  "sm83_decode 0xE9 = op_info 1 4 4 F_BRANCH"
  "sm83_decode 0xEA = op_info 3 16 16 0"
  "sm83_decode 0xEB = X"
  "sm83_decode 0xEC = X"
  "sm83_decode 0xED = X"
  "sm83_decode 0xEE = op_info 2 8 8 0"
  "sm83_decode 0xEF = op_info 1 16 16 (F_BRANCH OR F_CALL)"
  by (simp_all add: sm83_decode_def op_table_def nth_append op_row_E_def)

lemma decode_Fx [simp]:
  "sm83_decode 0xF0 = op_info 2 12 12 0"
  "sm83_decode 0xF1 = op_info 1 12 12 0"
  "sm83_decode 0xF2 = op_info 1 8 8 0"
  "sm83_decode 0xF3 = op_info 1 4 4 F_DI"
  "sm83_decode 0xF4 = X"
  "sm83_decode 0xF5 = op_info 1 16 16 0"
  "sm83_decode 0xF6 = op_info 2 8 8 0"
  "sm83_decode 0xF7 = op_info 1 16 16 (F_BRANCH OR F_CALL)"
  "sm83_decode 0xF8 = op_info 2 12 12 0"
  "sm83_decode 0xF9 = op_info 1 8 8 0"
  "sm83_decode 0xFA = op_info 3 16 16 0"
  "sm83_decode 0xFB = op_info 1 4 4 F_EI"
  "sm83_decode 0xFC = X"
  "sm83_decode 0xFD = X"
  "sm83_decode 0xFE = op_info 2 8 8 0"
  "sm83_decode 0xFF = op_info 1 16 16 (F_BRANCH OR F_CALL)"
  by (simp_all add: sm83_decode_def op_table_def nth_append op_row_F_def)

end
