(* ===== verification/Cpu.thy ===== *)
theory Cpu
  imports Mmu
begin

text \<open>
  \<open>cpu_state\<close> of core/cpu_state.h and the helpers of core/sm83_interp.c below the instruction
  switch: flag packing, the 8- and 16-bit ALU, rotates and shifts, DAA, fetches, the stack and
  the register file. The pointer \<open>cpu->mmu\<close> is the field \<open>cpu_mmu\<close>: one CPU owns one MMU. The
  register pairs are stored as bytes and read through the little-endian unions.

  C \<open>int\<close> arithmetic on promoted bytes is on \<open>int\<close>.
\<close>

abbreviation (input) FLAG_Z :: u8 where "FLAG_Z \<equiv> 0x80"
abbreviation (input) FLAG_N :: u8 where "FLAG_N \<equiv> 0x40"
abbreviation (input) FLAG_H :: u8 where "FLAG_H \<equiv> 0x20"
abbreviation (input) FLAG_C :: u8 where "FLAG_C \<equiv> 0x10"

record cpu_state =
  cpu_f :: u8
  cpu_a :: u8
  cpu_c :: u8
  cpu_b :: u8
  cpu_e :: u8
  cpu_d :: u8
  cpu_l :: u8
  cpu_h :: u8
  cpu_sp :: u16
  cpu_pc :: u16
  cpu_ime :: u8
  cpu_ime_pending :: u8
  cpu_halted :: u8
  cpu_stopped :: u8
  cpu_cycles :: u64
  cpu_if_reg :: u8
  cpu_ie_reg :: u8
  cpu_jit_ret_pc :: u32
  cpu_mmu :: mmu

text \<open>The unions \<open>af\<close>, \<open>bc\<close>, \<open>de\<close> and \<open>hl\<close>.\<close>

definition cpu_af :: "cpu_state \<Rightarrow> u16" where "cpu_af c = mk16 (cpu_f c) (cpu_a c)"
definition cpu_bc :: "cpu_state \<Rightarrow> u16" where "cpu_bc c = mk16 (cpu_c c) (cpu_b c)"
definition cpu_de :: "cpu_state \<Rightarrow> u16" where "cpu_de c = mk16 (cpu_e c) (cpu_d c)"
definition cpu_hl :: "cpu_state \<Rightarrow> u16" where "cpu_hl c = mk16 (cpu_l c) (cpu_h c)"

definition set_af :: "u16 \<Rightarrow> cpu_state \<Rightarrow> cpu_state" where
  "set_af v c = c\<lparr>cpu_f := lo8 v, cpu_a := hi8 v\<rparr>"
definition set_bc :: "u16 \<Rightarrow> cpu_state \<Rightarrow> cpu_state" where
  "set_bc v c = c\<lparr>cpu_c := lo8 v, cpu_b := hi8 v\<rparr>"
definition set_de :: "u16 \<Rightarrow> cpu_state \<Rightarrow> cpu_state" where
  "set_de v c = c\<lparr>cpu_e := lo8 v, cpu_d := hi8 v\<rparr>"
definition set_hl :: "u16 \<Rightarrow> cpu_state \<Rightarrow> cpu_state" where
  "set_hl v c = c\<lparr>cpu_l := lo8 v, cpu_h := hi8 v\<rparr>"

definition cpu_get_f :: "cpu_state \<Rightarrow> u8" where "cpu_get_f c = cpu_f c AND 0xF0"
definition cpu_set_f :: "u8 \<Rightarrow> cpu_state \<Rightarrow> cpu_state" where "cpu_set_f v c = c\<lparr>cpu_f := v AND 0xF0\<rparr>"

section \<open>Memory access\<close>

definition rd8 :: "u16 \<Rightarrow> cpu_state \<Rightarrow> u8" where
  "rd8 addr c = mmu_read8 (cpu_mmu c) addr"

definition wr8 :: "u16 \<Rightarrow> u8 \<Rightarrow> cpu_state \<Rightarrow> cpu_state" where
  "wr8 addr v c = c\<lparr>cpu_mmu := mmu_write8 (cpu_cycles c) addr v (cpu_mmu c)\<rparr>"

definition rd16 :: "u16 \<Rightarrow> cpu_state \<Rightarrow> u16" where
  "rd16 addr c = mmu_read16 (cpu_mmu c) addr"

definition wr16 :: "u16 \<Rightarrow> u16 \<Rightarrow> cpu_state \<Rightarrow> cpu_state" where
  "wr16 addr v c = c\<lparr>cpu_mmu := mmu_write16 (cpu_cycles c) addr v (cpu_mmu c)\<rparr>"

definition fetch8 :: "cpu_state \<Rightarrow> u8 \<times> cpu_state" where
  "fetch8 c = (rd8 (cpu_pc c) c, c\<lparr>cpu_pc := cpu_pc c + 1\<rparr>)"

definition fetch16 :: "cpu_state \<Rightarrow> u16 \<times> cpu_state" where
  "fetch16 c = (let (lo, c) = fetch8 c; (hi, c) = fetch8 c in (mk16 lo hi, c))"

definition push16 :: "u16 \<Rightarrow> cpu_state \<Rightarrow> cpu_state" where
  "push16 v c = (let c = c\<lparr>cpu_sp := cpu_sp c - 2\<rparr> in wr16 (cpu_sp c) v c)"

definition pop16 :: "cpu_state \<Rightarrow> u16 \<times> cpu_state" where
  "pop16 c = (rd16 (cpu_sp c) c, c\<lparr>cpu_sp := cpu_sp c + 2\<rparr>)"

section \<open>Flags\<close>

definition flags_of :: "bool \<Rightarrow> bool \<Rightarrow> bool \<Rightarrow> bool \<Rightarrow> u8" where
  "flags_of z n h c = (if z then FLAG_Z else 0) OR (if n then FLAG_N else 0)
                    OR (if h then FLAG_H else 0) OR (if c then FLAG_C else 0)"

definition set_flags :: "bool \<Rightarrow> bool \<Rightarrow> bool \<Rightarrow> bool \<Rightarrow> cpu_state \<Rightarrow> cpu_state" where
  "set_flags z n h c s = s\<lparr>cpu_f := flags_of z n h c\<rparr>"

definition carry_in :: "cpu_state \<Rightarrow> u8" where
  "carry_in s = (if has (cpu_f s) FLAG_C then 1 else 0)"

section \<open>8-bit ALU\<close>

definition alu_add :: "u8 \<Rightarrow> cpu_state \<Rightarrow> cpu_state" where
  "alu_add v s =
     (let r = (ucast (cpu_a s) :: u16) + ucast v;
          h = 0xF < uint (cpu_a s AND 0xF) + uint (v AND 0xF);
          s = s\<lparr>cpu_a := ucast r\<rparr>
      in set_flags (cpu_a s = 0) False h (0xFF < r) s)"

definition alu_adc :: "u8 \<Rightarrow> cpu_state \<Rightarrow> cpu_state" where
  "alu_adc v s =
     (let c = carry_in s;
          r = (ucast (cpu_a s) :: u16) + ucast v + ucast c;
          h = 0xF < uint (cpu_a s AND 0xF) + uint (v AND 0xF) + uint c;
          s = s\<lparr>cpu_a := ucast r\<rparr>
      in set_flags (cpu_a s = 0) False h (0xFF < r) s)"

definition alu_sub :: "u8 \<Rightarrow> cpu_state \<Rightarrow> cpu_state" where
  "alu_sub v s =
     (let r = uint (cpu_a s) - uint v;
          h = uint (cpu_a s AND 0xF) - uint (v AND 0xF) < 0;
          s = s\<lparr>cpu_a := word_of_int r\<rparr>
      in set_flags (cpu_a s = 0) True h (r < 0) s)"

definition alu_sbc :: "u8 \<Rightarrow> cpu_state \<Rightarrow> cpu_state" where
  "alu_sbc v s =
     (let c = carry_in s;
          r = uint (cpu_a s) - uint v - uint c;
          h = uint (cpu_a s AND 0xF) - uint (v AND 0xF) - uint c < 0;
          s = s\<lparr>cpu_a := word_of_int r\<rparr>
      in set_flags (cpu_a s = 0) True h (r < 0) s)"

definition alu_and :: "u8 \<Rightarrow> cpu_state \<Rightarrow> cpu_state" where
  "alu_and v s = (let s = s\<lparr>cpu_a := cpu_a s AND v\<rparr> in set_flags (cpu_a s = 0) False True False s)"

definition alu_xor :: "u8 \<Rightarrow> cpu_state \<Rightarrow> cpu_state" where
  "alu_xor v s = (let s = s\<lparr>cpu_a := cpu_a s XOR v\<rparr> in set_flags (cpu_a s = 0) False False False s)"

definition alu_or :: "u8 \<Rightarrow> cpu_state \<Rightarrow> cpu_state" where
  "alu_or v s = (let s = s\<lparr>cpu_a := cpu_a s OR v\<rparr> in set_flags (cpu_a s = 0) False False False s)"

definition alu_cp :: "u8 \<Rightarrow> cpu_state \<Rightarrow> cpu_state" where
  "alu_cp v s =
     (let r = uint (cpu_a s) - uint v;
          h = uint (cpu_a s AND 0xF) - uint (v AND 0xF) < 0
      in set_flags ((word_of_int r :: u8) = 0) True h (r < 0) s)"

definition alu_inc8 :: "u8 \<Rightarrow> cpu_state \<Rightarrow> u8 \<times> cpu_state" where
  "alu_inc8 v s =
     (let r = v + 1
      in (r, s\<lparr>cpu_f := (cpu_f s AND FLAG_C) OR (if r = 0 then FLAG_Z else 0)
                     OR (if 0xF < uint (v AND 0xF) + 1 then FLAG_H else 0)\<rparr>))"

definition alu_dec8 :: "u8 \<Rightarrow> cpu_state \<Rightarrow> u8 \<times> cpu_state" where
  "alu_dec8 v s =
     (let r = v - 1
      in (r, s\<lparr>cpu_f := (cpu_f s AND FLAG_C) OR (if r = 0 then FLAG_Z else 0) OR FLAG_N
                     OR (if v AND 0xF = 0 then FLAG_H else 0)\<rparr>))"

section \<open>16-bit ALU\<close>

definition alu_add_hl :: "u16 \<Rightarrow> cpu_state \<Rightarrow> cpu_state" where
  "alu_add_hl v s =
     (let r = (ucast (cpu_hl s) :: u32) + ucast v;
          h = 0x0FFF < (ucast (cpu_hl s) AND 0x0FFF :: u32) + (ucast v AND 0x0FFF);
          c = 0xFFFF < r
      in set_hl (ucast r)
           (s\<lparr>cpu_f := (cpu_f s AND FLAG_Z) OR (if h then FLAG_H else 0) OR (if c then FLAG_C else 0)\<rparr>))"

definition alu_add_sp_r8 :: "u8 \<Rightarrow> cpu_state \<Rightarrow> u16 \<times> cpu_state" where
  "alu_add_sp_r8 r8 s =
     (let sp = cpu_sp s; v = scast r8 :: u16; r = sp + v;
          h = 0x0F < uint (sp AND 0x0F) + uint (v AND 0x0F);
          c = 0xFF < uint (sp AND 0xFF) + uint (v AND 0xFF)
      in (r, set_flags False False h c s))"

section \<open>Rotates and shifts\<close>

definition op_rlc :: "u8 \<Rightarrow> cpu_state \<Rightarrow> u8 \<times> cpu_state" where
  "op_rlc v s = (let c = drop_bit 7 v AND 1; r = push_bit 1 v OR c
                 in (r, set_flags (r = 0) False False (c \<noteq> 0) s))"

definition op_rrc :: "u8 \<Rightarrow> cpu_state \<Rightarrow> u8 \<times> cpu_state" where
  "op_rrc v s = (let c = v AND 1; r = drop_bit 1 v OR push_bit 7 c
                 in (r, set_flags (r = 0) False False (c \<noteq> 0) s))"

definition op_rl :: "u8 \<Rightarrow> cpu_state \<Rightarrow> u8 \<times> cpu_state" where
  "op_rl v s = (let c_in = carry_in s; c_out = drop_bit 7 v AND 1; r = push_bit 1 v OR c_in
                in (r, set_flags (r = 0) False False (c_out \<noteq> 0) s))"

definition op_rr :: "u8 \<Rightarrow> cpu_state \<Rightarrow> u8 \<times> cpu_state" where
  "op_rr v s = (let c_in = carry_in s; c_out = v AND 1; r = drop_bit 1 v OR push_bit 7 c_in
                in (r, set_flags (r = 0) False False (c_out \<noteq> 0) s))"

definition op_sla :: "u8 \<Rightarrow> cpu_state \<Rightarrow> u8 \<times> cpu_state" where
  "op_sla v s = (let c = drop_bit 7 v AND 1; r = push_bit 1 v
                 in (r, set_flags (r = 0) False False (c \<noteq> 0) s))"

definition op_sra :: "u8 \<Rightarrow> cpu_state \<Rightarrow> u8 \<times> cpu_state" where
  "op_sra v s = (let c = v AND 1; r = drop_bit 1 v OR (v AND 0x80)
                 in (r, set_flags (r = 0) False False (c \<noteq> 0) s))"

definition op_srl :: "u8 \<Rightarrow> cpu_state \<Rightarrow> u8 \<times> cpu_state" where
  "op_srl v s = (let c = v AND 1; r = drop_bit 1 v
                 in (r, set_flags (r = 0) False False (c \<noteq> 0) s))"

definition op_swap :: "u8 \<Rightarrow> cpu_state \<Rightarrow> u8 \<times> cpu_state" where
  "op_swap v s = (let r = drop_bit 4 v OR push_bit 4 v
                  in (r, set_flags (r = 0) False False False s))"

definition op_bit :: "nat \<Rightarrow> u8 \<Rightarrow> cpu_state \<Rightarrow> cpu_state" where
  "op_bit bt v s =
     (let z = drop_bit bt v AND 1 = 0
      in s\<lparr>cpu_f := (cpu_f s AND FLAG_C) OR (if z then FLAG_Z else 0) OR FLAG_H\<rparr>)"

section \<open>Decimal adjust\<close>

definition op_daa :: "cpu_state \<Rightarrow> cpu_state" where
  "op_daa s =
     (let a = cpu_a s; n = has (cpu_f s) FLAG_N; h = has (cpu_f s) FLAG_H; c = has (cpu_f s) FLAG_C;
          (a, c) =
            (if \<not> n then
               let (a, c) = (if c \<or> 0x99 < a then (a + 0x60, True) else (a, c))
               in (if h \<or> 0x09 < a AND 0x0F then a + 0x06 else a, c)
             else
               let a = (if c then a - 0x60 else a)
               in (if h then a - 0x06 else a, c))
      in s\<lparr>cpu_a := a, cpu_f := (cpu_f s AND FLAG_N) OR (if a = 0 then FLAG_Z else 0)
                               OR (if c then FLAG_C else 0)\<rparr>)"

section \<open>Register file\<close>

text \<open>\<open>reg8_read\<close> and \<open>reg8_write\<close>: the 3-bit encoding B, C, D, E, H, L, (HL), A.\<close>

definition reg8_read :: "u8 \<Rightarrow> cpu_state \<Rightarrow> u8" where
  "reg8_read r s =
     (let i = r AND 7 in
      if i = 0 then cpu_b s else if i = 1 then cpu_c s else if i = 2 then cpu_d s
      else if i = 3 then cpu_e s else if i = 4 then cpu_h s else if i = 5 then cpu_l s
      else if i = 6 then rd8 (cpu_hl s) s else cpu_a s)"

definition reg8_write :: "u8 \<Rightarrow> u8 \<Rightarrow> cpu_state \<Rightarrow> cpu_state" where
  "reg8_write r v s =
     (let i = r AND 7 in
      if i = 0 then s\<lparr>cpu_b := v\<rparr> else if i = 1 then s\<lparr>cpu_c := v\<rparr>
      else if i = 2 then s\<lparr>cpu_d := v\<rparr> else if i = 3 then s\<lparr>cpu_e := v\<rparr>
      else if i = 4 then s\<lparr>cpu_h := v\<rparr> else if i = 5 then s\<lparr>cpu_l := v\<rparr>
      else if i = 6 then wr8 (cpu_hl s) v s else s\<lparr>cpu_a := v\<rparr>)"

definition cond :: "u8 \<Rightarrow> cpu_state \<Rightarrow> bool" where
  "cond cc s =
     (let i = cc AND 3 in
      if i = 0 then \<not> has (cpu_f s) FLAG_Z else if i = 1 then has (cpu_f s) FLAG_Z
      else if i = 2 then \<not> has (cpu_f s) FLAG_C else has (cpu_f s) FLAG_C)"

section \<open>What the helpers leave alone\<close>

lemma set_af_frame [simp]:
  "cpu_cycles (set_af v s) = cpu_cycles s"
  "cpu_pc (set_af v s) = cpu_pc s"
  "cpu_sp (set_af v s) = cpu_sp s"
  "cpu_ime (set_af v s) = cpu_ime s"
  "cpu_ime_pending (set_af v s) = cpu_ime_pending s"
  "cpu_halted (set_af v s) = cpu_halted s"
  "cpu_stopped (set_af v s) = cpu_stopped s"
  "cpu_jit_ret_pc (set_af v s) = cpu_jit_ret_pc s"
  "cpu_mmu (set_af v s) = cpu_mmu s"
  by (simp_all add: set_af_def)

lemma set_bc_frame [simp]:
  "cpu_cycles (set_bc v s) = cpu_cycles s"
  "cpu_pc (set_bc v s) = cpu_pc s"
  "cpu_sp (set_bc v s) = cpu_sp s"
  "cpu_ime (set_bc v s) = cpu_ime s"
  "cpu_ime_pending (set_bc v s) = cpu_ime_pending s"
  "cpu_halted (set_bc v s) = cpu_halted s"
  "cpu_stopped (set_bc v s) = cpu_stopped s"
  "cpu_jit_ret_pc (set_bc v s) = cpu_jit_ret_pc s"
  "cpu_mmu (set_bc v s) = cpu_mmu s"
  by (simp_all add: set_bc_def)

lemma set_de_frame [simp]:
  "cpu_cycles (set_de v s) = cpu_cycles s"
  "cpu_pc (set_de v s) = cpu_pc s"
  "cpu_sp (set_de v s) = cpu_sp s"
  "cpu_ime (set_de v s) = cpu_ime s"
  "cpu_ime_pending (set_de v s) = cpu_ime_pending s"
  "cpu_halted (set_de v s) = cpu_halted s"
  "cpu_stopped (set_de v s) = cpu_stopped s"
  "cpu_jit_ret_pc (set_de v s) = cpu_jit_ret_pc s"
  "cpu_mmu (set_de v s) = cpu_mmu s"
  by (simp_all add: set_de_def)

lemma set_hl_frame [simp]:
  "cpu_cycles (set_hl v s) = cpu_cycles s"
  "cpu_pc (set_hl v s) = cpu_pc s"
  "cpu_sp (set_hl v s) = cpu_sp s"
  "cpu_ime (set_hl v s) = cpu_ime s"
  "cpu_ime_pending (set_hl v s) = cpu_ime_pending s"
  "cpu_halted (set_hl v s) = cpu_halted s"
  "cpu_stopped (set_hl v s) = cpu_stopped s"
  "cpu_jit_ret_pc (set_hl v s) = cpu_jit_ret_pc s"
  "cpu_mmu (set_hl v s) = cpu_mmu s"
  by (simp_all add: set_hl_def)

lemma set_flags_frame [simp]:
  "cpu_cycles (set_flags z n h c s) = cpu_cycles s"
  "cpu_pc (set_flags z n h c s) = cpu_pc s"
  "cpu_sp (set_flags z n h c s) = cpu_sp s"
  "cpu_ime (set_flags z n h c s) = cpu_ime s"
  "cpu_ime_pending (set_flags z n h c s) = cpu_ime_pending s"
  "cpu_halted (set_flags z n h c s) = cpu_halted s"
  "cpu_stopped (set_flags z n h c s) = cpu_stopped s"
  "cpu_jit_ret_pc (set_flags z n h c s) = cpu_jit_ret_pc s"
  "cpu_mmu (set_flags z n h c s) = cpu_mmu s"
  by (simp_all add: set_flags_def)

lemma wr8_frame [simp]:
  "cpu_cycles (wr8 a v s) = cpu_cycles s"
  "cpu_pc (wr8 a v s) = cpu_pc s"
  "cpu_sp (wr8 a v s) = cpu_sp s"
  "cpu_ime (wr8 a v s) = cpu_ime s"
  "cpu_ime_pending (wr8 a v s) = cpu_ime_pending s"
  "cpu_halted (wr8 a v s) = cpu_halted s"
  "cpu_stopped (wr8 a v s) = cpu_stopped s"
  "cpu_jit_ret_pc (wr8 a v s) = cpu_jit_ret_pc s"
  by (simp_all add: wr8_def)

lemma wr16_frame [simp]:
  "cpu_cycles (wr16 a v s) = cpu_cycles s"
  "cpu_pc (wr16 a v s) = cpu_pc s"
  "cpu_sp (wr16 a v s) = cpu_sp s"
  "cpu_ime (wr16 a v s) = cpu_ime s"
  "cpu_ime_pending (wr16 a v s) = cpu_ime_pending s"
  "cpu_halted (wr16 a v s) = cpu_halted s"
  "cpu_stopped (wr16 a v s) = cpu_stopped s"
  "cpu_jit_ret_pc (wr16 a v s) = cpu_jit_ret_pc s"
  by (simp_all add: wr16_def)

lemma push16_frame [simp]:
  "cpu_cycles (push16 v s) = cpu_cycles s"
  "cpu_pc (push16 v s) = cpu_pc s"
  "cpu_ime (push16 v s) = cpu_ime s"
  "cpu_ime_pending (push16 v s) = cpu_ime_pending s"
  "cpu_halted (push16 v s) = cpu_halted s"
  "cpu_stopped (push16 v s) = cpu_stopped s"
  "cpu_jit_ret_pc (push16 v s) = cpu_jit_ret_pc s"
  by (simp_all add: push16_def Let_def)

lemma pop16_frame [simp]:
  "cpu_cycles (snd (pop16 s)) = cpu_cycles s"
  "cpu_pc (snd (pop16 s)) = cpu_pc s"
  "cpu_ime (snd (pop16 s)) = cpu_ime s"
  "cpu_ime_pending (snd (pop16 s)) = cpu_ime_pending s"
  "cpu_halted (snd (pop16 s)) = cpu_halted s"
  "cpu_stopped (snd (pop16 s)) = cpu_stopped s"
  "cpu_jit_ret_pc (snd (pop16 s)) = cpu_jit_ret_pc s"
  "cpu_mmu (snd (pop16 s)) = cpu_mmu s"
  by (simp_all add: pop16_def)

lemma fetch8_frame [simp]:
  "cpu_cycles (snd (fetch8 s)) = cpu_cycles s"
  "cpu_sp (snd (fetch8 s)) = cpu_sp s"
  "cpu_ime (snd (fetch8 s)) = cpu_ime s"
  "cpu_ime_pending (snd (fetch8 s)) = cpu_ime_pending s"
  "cpu_halted (snd (fetch8 s)) = cpu_halted s"
  "cpu_stopped (snd (fetch8 s)) = cpu_stopped s"
  "cpu_jit_ret_pc (snd (fetch8 s)) = cpu_jit_ret_pc s"
  "cpu_mmu (snd (fetch8 s)) = cpu_mmu s"
  by (simp_all add: fetch8_def)

lemma fetch16_frame [simp]:
  "cpu_cycles (snd (fetch16 s)) = cpu_cycles s"
  "cpu_sp (snd (fetch16 s)) = cpu_sp s"
  "cpu_ime (snd (fetch16 s)) = cpu_ime s"
  "cpu_ime_pending (snd (fetch16 s)) = cpu_ime_pending s"
  "cpu_halted (snd (fetch16 s)) = cpu_halted s"
  "cpu_stopped (snd (fetch16 s)) = cpu_stopped s"
  "cpu_jit_ret_pc (snd (fetch16 s)) = cpu_jit_ret_pc s"
  "cpu_mmu (snd (fetch16 s)) = cpu_mmu s"
  by (simp_all add: fetch16_def Let_def case_prod_beta)

lemma alu_add_frame [simp]:
  "cpu_cycles (alu_add v s) = cpu_cycles s"
  "cpu_pc (alu_add v s) = cpu_pc s"
  "cpu_sp (alu_add v s) = cpu_sp s"
  "cpu_ime (alu_add v s) = cpu_ime s"
  "cpu_ime_pending (alu_add v s) = cpu_ime_pending s"
  "cpu_halted (alu_add v s) = cpu_halted s"
  "cpu_stopped (alu_add v s) = cpu_stopped s"
  "cpu_jit_ret_pc (alu_add v s) = cpu_jit_ret_pc s"
  "cpu_mmu (alu_add v s) = cpu_mmu s"
  by (simp_all add: alu_add_def Let_def)

lemma alu_adc_frame [simp]:
  "cpu_cycles (alu_adc v s) = cpu_cycles s"
  "cpu_pc (alu_adc v s) = cpu_pc s"
  "cpu_sp (alu_adc v s) = cpu_sp s"
  "cpu_ime (alu_adc v s) = cpu_ime s"
  "cpu_ime_pending (alu_adc v s) = cpu_ime_pending s"
  "cpu_halted (alu_adc v s) = cpu_halted s"
  "cpu_stopped (alu_adc v s) = cpu_stopped s"
  "cpu_jit_ret_pc (alu_adc v s) = cpu_jit_ret_pc s"
  "cpu_mmu (alu_adc v s) = cpu_mmu s"
  by (simp_all add: alu_adc_def Let_def)

lemma alu_sub_frame [simp]:
  "cpu_cycles (alu_sub v s) = cpu_cycles s"
  "cpu_pc (alu_sub v s) = cpu_pc s"
  "cpu_sp (alu_sub v s) = cpu_sp s"
  "cpu_ime (alu_sub v s) = cpu_ime s"
  "cpu_ime_pending (alu_sub v s) = cpu_ime_pending s"
  "cpu_halted (alu_sub v s) = cpu_halted s"
  "cpu_stopped (alu_sub v s) = cpu_stopped s"
  "cpu_jit_ret_pc (alu_sub v s) = cpu_jit_ret_pc s"
  "cpu_mmu (alu_sub v s) = cpu_mmu s"
  by (simp_all add: alu_sub_def Let_def)

lemma alu_sbc_frame [simp]:
  "cpu_cycles (alu_sbc v s) = cpu_cycles s"
  "cpu_pc (alu_sbc v s) = cpu_pc s"
  "cpu_sp (alu_sbc v s) = cpu_sp s"
  "cpu_ime (alu_sbc v s) = cpu_ime s"
  "cpu_ime_pending (alu_sbc v s) = cpu_ime_pending s"
  "cpu_halted (alu_sbc v s) = cpu_halted s"
  "cpu_stopped (alu_sbc v s) = cpu_stopped s"
  "cpu_jit_ret_pc (alu_sbc v s) = cpu_jit_ret_pc s"
  "cpu_mmu (alu_sbc v s) = cpu_mmu s"
  by (simp_all add: alu_sbc_def Let_def)

lemma alu_and_frame [simp]:
  "cpu_cycles (alu_and v s) = cpu_cycles s"
  "cpu_pc (alu_and v s) = cpu_pc s"
  "cpu_sp (alu_and v s) = cpu_sp s"
  "cpu_ime (alu_and v s) = cpu_ime s"
  "cpu_ime_pending (alu_and v s) = cpu_ime_pending s"
  "cpu_halted (alu_and v s) = cpu_halted s"
  "cpu_stopped (alu_and v s) = cpu_stopped s"
  "cpu_jit_ret_pc (alu_and v s) = cpu_jit_ret_pc s"
  "cpu_mmu (alu_and v s) = cpu_mmu s"
  by (simp_all add: alu_and_def Let_def)

lemma alu_xor_frame [simp]:
  "cpu_cycles (alu_xor v s) = cpu_cycles s"
  "cpu_pc (alu_xor v s) = cpu_pc s"
  "cpu_sp (alu_xor v s) = cpu_sp s"
  "cpu_ime (alu_xor v s) = cpu_ime s"
  "cpu_ime_pending (alu_xor v s) = cpu_ime_pending s"
  "cpu_halted (alu_xor v s) = cpu_halted s"
  "cpu_stopped (alu_xor v s) = cpu_stopped s"
  "cpu_jit_ret_pc (alu_xor v s) = cpu_jit_ret_pc s"
  "cpu_mmu (alu_xor v s) = cpu_mmu s"
  by (simp_all add: alu_xor_def Let_def)

lemma alu_or_frame [simp]:
  "cpu_cycles (alu_or v s) = cpu_cycles s"
  "cpu_pc (alu_or v s) = cpu_pc s"
  "cpu_sp (alu_or v s) = cpu_sp s"
  "cpu_ime (alu_or v s) = cpu_ime s"
  "cpu_ime_pending (alu_or v s) = cpu_ime_pending s"
  "cpu_halted (alu_or v s) = cpu_halted s"
  "cpu_stopped (alu_or v s) = cpu_stopped s"
  "cpu_jit_ret_pc (alu_or v s) = cpu_jit_ret_pc s"
  "cpu_mmu (alu_or v s) = cpu_mmu s"
  by (simp_all add: alu_or_def Let_def)

lemma alu_cp_frame [simp]:
  "cpu_cycles (alu_cp v s) = cpu_cycles s"
  "cpu_pc (alu_cp v s) = cpu_pc s"
  "cpu_sp (alu_cp v s) = cpu_sp s"
  "cpu_ime (alu_cp v s) = cpu_ime s"
  "cpu_ime_pending (alu_cp v s) = cpu_ime_pending s"
  "cpu_halted (alu_cp v s) = cpu_halted s"
  "cpu_stopped (alu_cp v s) = cpu_stopped s"
  "cpu_jit_ret_pc (alu_cp v s) = cpu_jit_ret_pc s"
  "cpu_mmu (alu_cp v s) = cpu_mmu s"
  by (simp_all add: alu_cp_def Let_def)

lemma alu_add_hl_frame [simp]:
  "cpu_cycles (alu_add_hl v s) = cpu_cycles s"
  "cpu_pc (alu_add_hl v s) = cpu_pc s"
  "cpu_sp (alu_add_hl v s) = cpu_sp s"
  "cpu_ime (alu_add_hl v s) = cpu_ime s"
  "cpu_ime_pending (alu_add_hl v s) = cpu_ime_pending s"
  "cpu_halted (alu_add_hl v s) = cpu_halted s"
  "cpu_stopped (alu_add_hl v s) = cpu_stopped s"
  "cpu_jit_ret_pc (alu_add_hl v s) = cpu_jit_ret_pc s"
  "cpu_mmu (alu_add_hl v s) = cpu_mmu s"
  by (simp_all add: alu_add_hl_def Let_def)

lemma alu_inc8_frame [simp]:
  "cpu_cycles (snd (alu_inc8 v s)) = cpu_cycles s"
  "cpu_pc (snd (alu_inc8 v s)) = cpu_pc s"
  "cpu_sp (snd (alu_inc8 v s)) = cpu_sp s"
  "cpu_ime (snd (alu_inc8 v s)) = cpu_ime s"
  "cpu_ime_pending (snd (alu_inc8 v s)) = cpu_ime_pending s"
  "cpu_halted (snd (alu_inc8 v s)) = cpu_halted s"
  "cpu_stopped (snd (alu_inc8 v s)) = cpu_stopped s"
  "cpu_jit_ret_pc (snd (alu_inc8 v s)) = cpu_jit_ret_pc s"
  "cpu_mmu (snd (alu_inc8 v s)) = cpu_mmu s"
  by (simp_all add: alu_inc8_def Let_def)

lemma alu_dec8_frame [simp]:
  "cpu_cycles (snd (alu_dec8 v s)) = cpu_cycles s"
  "cpu_pc (snd (alu_dec8 v s)) = cpu_pc s"
  "cpu_sp (snd (alu_dec8 v s)) = cpu_sp s"
  "cpu_ime (snd (alu_dec8 v s)) = cpu_ime s"
  "cpu_ime_pending (snd (alu_dec8 v s)) = cpu_ime_pending s"
  "cpu_halted (snd (alu_dec8 v s)) = cpu_halted s"
  "cpu_stopped (snd (alu_dec8 v s)) = cpu_stopped s"
  "cpu_jit_ret_pc (snd (alu_dec8 v s)) = cpu_jit_ret_pc s"
  "cpu_mmu (snd (alu_dec8 v s)) = cpu_mmu s"
  by (simp_all add: alu_dec8_def Let_def)

lemma alu_add_sp_r8_frame [simp]:
  "cpu_cycles (snd (alu_add_sp_r8 v s)) = cpu_cycles s"
  "cpu_pc (snd (alu_add_sp_r8 v s)) = cpu_pc s"
  "cpu_sp (snd (alu_add_sp_r8 v s)) = cpu_sp s"
  "cpu_ime (snd (alu_add_sp_r8 v s)) = cpu_ime s"
  "cpu_ime_pending (snd (alu_add_sp_r8 v s)) = cpu_ime_pending s"
  "cpu_halted (snd (alu_add_sp_r8 v s)) = cpu_halted s"
  "cpu_stopped (snd (alu_add_sp_r8 v s)) = cpu_stopped s"
  "cpu_jit_ret_pc (snd (alu_add_sp_r8 v s)) = cpu_jit_ret_pc s"
  "cpu_mmu (snd (alu_add_sp_r8 v s)) = cpu_mmu s"
  by (simp_all add: alu_add_sp_r8_def Let_def)

lemma op_rlc_frame [simp]:
  "cpu_cycles (snd (op_rlc v s)) = cpu_cycles s"
  "cpu_pc (snd (op_rlc v s)) = cpu_pc s"
  "cpu_sp (snd (op_rlc v s)) = cpu_sp s"
  "cpu_ime (snd (op_rlc v s)) = cpu_ime s"
  "cpu_ime_pending (snd (op_rlc v s)) = cpu_ime_pending s"
  "cpu_halted (snd (op_rlc v s)) = cpu_halted s"
  "cpu_stopped (snd (op_rlc v s)) = cpu_stopped s"
  "cpu_jit_ret_pc (snd (op_rlc v s)) = cpu_jit_ret_pc s"
  "cpu_mmu (snd (op_rlc v s)) = cpu_mmu s"
  by (simp_all add: op_rlc_def Let_def)

lemma op_rrc_frame [simp]:
  "cpu_cycles (snd (op_rrc v s)) = cpu_cycles s"
  "cpu_pc (snd (op_rrc v s)) = cpu_pc s"
  "cpu_sp (snd (op_rrc v s)) = cpu_sp s"
  "cpu_ime (snd (op_rrc v s)) = cpu_ime s"
  "cpu_ime_pending (snd (op_rrc v s)) = cpu_ime_pending s"
  "cpu_halted (snd (op_rrc v s)) = cpu_halted s"
  "cpu_stopped (snd (op_rrc v s)) = cpu_stopped s"
  "cpu_jit_ret_pc (snd (op_rrc v s)) = cpu_jit_ret_pc s"
  "cpu_mmu (snd (op_rrc v s)) = cpu_mmu s"
  by (simp_all add: op_rrc_def Let_def)

lemma op_rl_frame [simp]:
  "cpu_cycles (snd (op_rl v s)) = cpu_cycles s"
  "cpu_pc (snd (op_rl v s)) = cpu_pc s"
  "cpu_sp (snd (op_rl v s)) = cpu_sp s"
  "cpu_ime (snd (op_rl v s)) = cpu_ime s"
  "cpu_ime_pending (snd (op_rl v s)) = cpu_ime_pending s"
  "cpu_halted (snd (op_rl v s)) = cpu_halted s"
  "cpu_stopped (snd (op_rl v s)) = cpu_stopped s"
  "cpu_jit_ret_pc (snd (op_rl v s)) = cpu_jit_ret_pc s"
  "cpu_mmu (snd (op_rl v s)) = cpu_mmu s"
  by (simp_all add: op_rl_def Let_def)

lemma op_rr_frame [simp]:
  "cpu_cycles (snd (op_rr v s)) = cpu_cycles s"
  "cpu_pc (snd (op_rr v s)) = cpu_pc s"
  "cpu_sp (snd (op_rr v s)) = cpu_sp s"
  "cpu_ime (snd (op_rr v s)) = cpu_ime s"
  "cpu_ime_pending (snd (op_rr v s)) = cpu_ime_pending s"
  "cpu_halted (snd (op_rr v s)) = cpu_halted s"
  "cpu_stopped (snd (op_rr v s)) = cpu_stopped s"
  "cpu_jit_ret_pc (snd (op_rr v s)) = cpu_jit_ret_pc s"
  "cpu_mmu (snd (op_rr v s)) = cpu_mmu s"
  by (simp_all add: op_rr_def Let_def)

lemma op_sla_frame [simp]:
  "cpu_cycles (snd (op_sla v s)) = cpu_cycles s"
  "cpu_pc (snd (op_sla v s)) = cpu_pc s"
  "cpu_sp (snd (op_sla v s)) = cpu_sp s"
  "cpu_ime (snd (op_sla v s)) = cpu_ime s"
  "cpu_ime_pending (snd (op_sla v s)) = cpu_ime_pending s"
  "cpu_halted (snd (op_sla v s)) = cpu_halted s"
  "cpu_stopped (snd (op_sla v s)) = cpu_stopped s"
  "cpu_jit_ret_pc (snd (op_sla v s)) = cpu_jit_ret_pc s"
  "cpu_mmu (snd (op_sla v s)) = cpu_mmu s"
  by (simp_all add: op_sla_def Let_def)

lemma op_sra_frame [simp]:
  "cpu_cycles (snd (op_sra v s)) = cpu_cycles s"
  "cpu_pc (snd (op_sra v s)) = cpu_pc s"
  "cpu_sp (snd (op_sra v s)) = cpu_sp s"
  "cpu_ime (snd (op_sra v s)) = cpu_ime s"
  "cpu_ime_pending (snd (op_sra v s)) = cpu_ime_pending s"
  "cpu_halted (snd (op_sra v s)) = cpu_halted s"
  "cpu_stopped (snd (op_sra v s)) = cpu_stopped s"
  "cpu_jit_ret_pc (snd (op_sra v s)) = cpu_jit_ret_pc s"
  "cpu_mmu (snd (op_sra v s)) = cpu_mmu s"
  by (simp_all add: op_sra_def Let_def)

lemma op_srl_frame [simp]:
  "cpu_cycles (snd (op_srl v s)) = cpu_cycles s"
  "cpu_pc (snd (op_srl v s)) = cpu_pc s"
  "cpu_sp (snd (op_srl v s)) = cpu_sp s"
  "cpu_ime (snd (op_srl v s)) = cpu_ime s"
  "cpu_ime_pending (snd (op_srl v s)) = cpu_ime_pending s"
  "cpu_halted (snd (op_srl v s)) = cpu_halted s"
  "cpu_stopped (snd (op_srl v s)) = cpu_stopped s"
  "cpu_jit_ret_pc (snd (op_srl v s)) = cpu_jit_ret_pc s"
  "cpu_mmu (snd (op_srl v s)) = cpu_mmu s"
  by (simp_all add: op_srl_def Let_def)

lemma op_swap_frame [simp]:
  "cpu_cycles (snd (op_swap v s)) = cpu_cycles s"
  "cpu_pc (snd (op_swap v s)) = cpu_pc s"
  "cpu_sp (snd (op_swap v s)) = cpu_sp s"
  "cpu_ime (snd (op_swap v s)) = cpu_ime s"
  "cpu_ime_pending (snd (op_swap v s)) = cpu_ime_pending s"
  "cpu_halted (snd (op_swap v s)) = cpu_halted s"
  "cpu_stopped (snd (op_swap v s)) = cpu_stopped s"
  "cpu_jit_ret_pc (snd (op_swap v s)) = cpu_jit_ret_pc s"
  "cpu_mmu (snd (op_swap v s)) = cpu_mmu s"
  by (simp_all add: op_swap_def Let_def)

lemma op_bit_frame [simp]:
  "cpu_cycles (op_bit n v s) = cpu_cycles s"
  "cpu_pc (op_bit n v s) = cpu_pc s"
  "cpu_sp (op_bit n v s) = cpu_sp s"
  "cpu_ime (op_bit n v s) = cpu_ime s"
  "cpu_ime_pending (op_bit n v s) = cpu_ime_pending s"
  "cpu_halted (op_bit n v s) = cpu_halted s"
  "cpu_stopped (op_bit n v s) = cpu_stopped s"
  "cpu_jit_ret_pc (op_bit n v s) = cpu_jit_ret_pc s"
  "cpu_mmu (op_bit n v s) = cpu_mmu s"
  by (simp_all add: op_bit_def Let_def)

lemma op_daa_frame [simp]:
  "cpu_cycles (op_daa s) = cpu_cycles s"
  "cpu_pc (op_daa s) = cpu_pc s"
  "cpu_sp (op_daa s) = cpu_sp s"
  "cpu_ime (op_daa s) = cpu_ime s"
  "cpu_ime_pending (op_daa s) = cpu_ime_pending s"
  "cpu_halted (op_daa s) = cpu_halted s"
  "cpu_stopped (op_daa s) = cpu_stopped s"
  "cpu_jit_ret_pc (op_daa s) = cpu_jit_ret_pc s"
  "cpu_mmu (op_daa s) = cpu_mmu s"
  by (simp_all add: op_daa_def Let_def case_prod_beta)

lemma reg8_write_frame [simp]:
  "cpu_cycles (reg8_write r v s) = cpu_cycles s"
  "cpu_pc (reg8_write r v s) = cpu_pc s"
  "cpu_sp (reg8_write r v s) = cpu_sp s"
  "cpu_ime (reg8_write r v s) = cpu_ime s"
  "cpu_ime_pending (reg8_write r v s) = cpu_ime_pending s"
  "cpu_halted (reg8_write r v s) = cpu_halted s"
  "cpu_stopped (reg8_write r v s) = cpu_stopped s"
  "cpu_jit_ret_pc (reg8_write r v s) = cpu_jit_ret_pc s"
  by (simp_all add: reg8_write_def Let_def)

lemma reg8_write_mmu: "r AND 7 \<noteq> 6 \<Longrightarrow> cpu_mmu (reg8_write r v s) = cpu_mmu s"
  by (simp add: reg8_write_def Let_def)

end
