(* ===== verification/Interp.thy ===== *)
theory Interp
  imports Cpu Decoder
begin

text \<open>
  The reference interpreter of core/sm83_interp.c: interrupt service, the CB-prefixed group, the
  instruction switch in its four opcode ranges, \<open>sm83_step\<close>, \<open>sm83_run_until\<close> and
  \<open>cpu_reset\<close>.
\<close>

section \<open>Interrupts\<close>

definition int_vector :: "nat \<Rightarrow> u16" where
  "int_vector i = [0x40, 0x48, 0x50, 0x58, 0x60] ! i"

definition sm83_service_interrupts :: "cpu_state \<Rightarrow> u32 \<times> cpu_state" where
  "sm83_service_interrupts c =
     (let c = c\<lparr>cpu_mmu := ppu_tick (cpu_cycles c) (cpu_mmu c)\<rparr>;
          c = c\<lparr>cpu_if_reg := io (cpu_mmu c) IF_REG, cpu_ie_reg := ie (cpu_mmu c)\<rparr>;
          pending = cpu_if_reg c AND cpu_ie_reg c AND 0x1F
      in if pending = 0 then (0, c) else
      let c = (if cpu_halted c \<noteq> 0 then c\<lparr>cpu_halted := 0\<rparr> else c)
      in if cpu_ime c = 0 then (0, c) else
      let c = c\<lparr>cpu_ime := 0\<rparr>
      in case find (\<lambda>i. pending AND push_bit i 1 \<noteq> 0) [0..<5] of
           None \<Rightarrow> (0, c)
         | Some i \<Rightarrow>
             let c = c\<lparr>cpu_mmu := io_put IF_REG (cpu_if_reg c AND NOT (push_bit i 1)) (cpu_mmu c)\<rparr>;
                 c = push16 (cpu_pc c) c
             in (20, c\<lparr>cpu_pc := int_vector i, cpu_cycles := cpu_cycles c + 20\<rparr>))"

section \<open>CB prefix\<close>

definition cb_shift :: "u8 \<Rightarrow> u8 \<Rightarrow> cpu_state \<Rightarrow> u8 \<times> cpu_state" where
  "cb_shift sub v c =
     (if sub = 0 then op_rlc v c else if sub = 1 then op_rrc v c
      else if sub = 2 then op_rl v c else if sub = 3 then op_rr v c
      else if sub = 4 then op_sla v c else if sub = 5 then op_sra v c
      else if sub = 6 then op_swap v c else op_srl v c)"

definition exec_cb :: "cpu_state \<Rightarrow> u32 \<times> cpu_state" where
  "exec_cb c =
     (let (op, c) = fetch8 c;
          reg = op AND 7; grp = drop_bit 6 op AND 3; sub = drop_bit 3 op AND 7;
          v = reg8_read reg c;
          extra = (if reg = 6 then 16 else 8)
      in if grp = 0 then (let (r, c) = cb_shift sub v c in (extra, reg8_write reg r c))
         else if grp = 1 then (if reg = 6 then 12 else 8, op_bit (unat sub) v c)
         else if grp = 2 then (extra, reg8_write reg (v AND NOT (push_bit (unat sub) 1)) c)
         else (extra, reg8_write reg (v OR push_bit (unat sub) 1) c))"

section \<open>The instruction switch\<close>

text \<open>RLCA, RRCA, RLA and RRA: as the CB rotates on A, with Z always clear.\<close>

definition op_rlca :: "cpu_state \<Rightarrow> cpu_state" where
  "op_rlca s = (let c = drop_bit 7 (cpu_a s) AND 1
                in set_flags False False False (c \<noteq> 0) (s\<lparr>cpu_a := push_bit 1 (cpu_a s) OR c\<rparr>))"

definition op_rrca :: "cpu_state \<Rightarrow> cpu_state" where
  "op_rrca s = (let c = cpu_a s AND 1
                in set_flags False False False (c \<noteq> 0) (s\<lparr>cpu_a := drop_bit 1 (cpu_a s) OR push_bit 7 c\<rparr>))"

definition op_rla :: "cpu_state \<Rightarrow> cpu_state" where
  "op_rla s = (let c_in = carry_in s; c_out = drop_bit 7 (cpu_a s) AND 1
               in set_flags False False False (c_out \<noteq> 0) (s\<lparr>cpu_a := push_bit 1 (cpu_a s) OR c_in\<rparr>))"

definition op_rra :: "cpu_state \<Rightarrow> cpu_state" where
  "op_rra s = (let c_in = carry_in s; c_out = cpu_a s AND 1
               in set_flags False False False (c_out \<noteq> 0)
                    (s\<lparr>cpu_a := drop_bit 1 (cpu_a s) OR push_bit 7 c_in\<rparr>))"

text \<open>An 8-bit increment or decrement of a register of the register file.\<close>

definition inc_r :: "u8 \<Rightarrow> cpu_state \<Rightarrow> cpu_state" where
  "inc_r r s = (let (v, s) = alu_inc8 (reg8_read r s) s in reg8_write r v s)"

definition dec_r :: "u8 \<Rightarrow> cpu_state \<Rightarrow> cpu_state" where
  "dec_r r s = (let (v, s) = alu_dec8 (reg8_read r s) s in reg8_write r v s)"

definition ld_r_n8 :: "u8 \<Rightarrow> cpu_state \<Rightarrow> cpu_state" where
  "ld_r_n8 r s = (let (v, s) = fetch8 s in reg8_write r v s)"

text \<open>JR with and without condition: the new state and whether the branch was taken.\<close>

definition jr_cc :: "u8 \<Rightarrow> cpu_state \<Rightarrow> cpu_state \<times> bool" where
  "jr_cc op s =
     (let (off, s) = fetch8 s; cc = drop_bit 3 op AND 3
      in if cond cc s then (s\<lparr>cpu_pc := cpu_pc s + scast off\<rparr>, True) else (s, False))"

text \<open>Opcodes 0x00 to 0x1F.\<close>

definition exec_00 :: "u8 \<Rightarrow> cpu_state \<Rightarrow> cpu_state" where
  "exec_00 op s =
     (if op = 0x00 then s
      else if op = 0x01 then (let (v, s) = fetch16 s in set_bc v s)
      else if op = 0x02 then wr8 (cpu_bc s) (cpu_a s) s
      else if op = 0x03 then set_bc (cpu_bc s + 1) s
      else if op = 0x04 then inc_r 0 s
      else if op = 0x05 then dec_r 0 s
      else if op = 0x06 then ld_r_n8 0 s
      else if op = 0x07 then op_rlca s
      else if op = 0x08 then (let (a, s) = fetch16 s in wr16 a (cpu_sp s) s)
      else if op = 0x09 then alu_add_hl (cpu_bc s) s
      else if op = 0x0A then s\<lparr>cpu_a := rd8 (cpu_bc s) s\<rparr>
      else if op = 0x0B then set_bc (cpu_bc s - 1) s
      else if op = 0x0C then inc_r 1 s
      else if op = 0x0D then dec_r 1 s
      else if op = 0x0E then ld_r_n8 1 s
      else if op = 0x0F then op_rrca s
      else if op = 0x10 then snd (fetch8 (s\<lparr>cpu_stopped := 1\<rparr>))
      else if op = 0x11 then (let (v, s) = fetch16 s in set_de v s)
      else if op = 0x12 then wr8 (cpu_de s) (cpu_a s) s
      else if op = 0x13 then set_de (cpu_de s + 1) s
      else if op = 0x14 then inc_r 2 s
      else if op = 0x15 then dec_r 2 s
      else if op = 0x16 then ld_r_n8 2 s
      else if op = 0x17 then op_rla s
      else if op = 0x18 then (let (off, s) = fetch8 s in s\<lparr>cpu_pc := cpu_pc s + scast off\<rparr>)
      else if op = 0x19 then alu_add_hl (cpu_de s) s
      else if op = 0x1A then s\<lparr>cpu_a := rd8 (cpu_de s) s\<rparr>
      else if op = 0x1B then set_de (cpu_de s - 1) s
      else if op = 0x1C then inc_r 3 s
      else if op = 0x1D then dec_r 3 s
      else if op = 0x1E then ld_r_n8 3 s
      else op_rra s)"

text \<open>Opcodes 0x20 to 0x3F.\<close>

definition exec_20 :: "u8 \<Rightarrow> cpu_state \<Rightarrow> cpu_state \<times> bool" where
  "exec_20 op s =
     (if op = 0x20 \<or> op = 0x28 \<or> op = 0x30 \<or> op = 0x38 then jr_cc op s
      else
        (if op = 0x21 then (let (v, s) = fetch16 s in set_hl v s)
         else if op = 0x22 then (let s = wr8 (cpu_hl s) (cpu_a s) s in set_hl (cpu_hl s + 1) s)
         else if op = 0x23 then set_hl (cpu_hl s + 1) s
         else if op = 0x24 then inc_r 4 s
         else if op = 0x25 then dec_r 4 s
         else if op = 0x26 then ld_r_n8 4 s
         else if op = 0x27 then op_daa s
         else if op = 0x29 then alu_add_hl (cpu_hl s) s
         else if op = 0x2A then (let s = s\<lparr>cpu_a := rd8 (cpu_hl s) s\<rparr> in set_hl (cpu_hl s + 1) s)
         else if op = 0x2B then set_hl (cpu_hl s - 1) s
         else if op = 0x2C then inc_r 5 s
         else if op = 0x2D then dec_r 5 s
         else if op = 0x2E then ld_r_n8 5 s
         else if op = 0x2F then s\<lparr>cpu_a := NOT (cpu_a s), cpu_f := cpu_f s OR (FLAG_N OR FLAG_H)\<rparr>
         else if op = 0x31 then (let (v, s) = fetch16 s in s\<lparr>cpu_sp := v\<rparr>)
         else if op = 0x32 then (let s = wr8 (cpu_hl s) (cpu_a s) s in set_hl (cpu_hl s - 1) s)
         else if op = 0x33 then s\<lparr>cpu_sp := cpu_sp s + 1\<rparr>
         else if op = 0x34 then inc_r 6 s
         else if op = 0x35 then dec_r 6 s
         else if op = 0x36 then (let (v, s) = fetch8 s in wr8 (cpu_hl s) v s)
         else if op = 0x37 then s\<lparr>cpu_f := (cpu_f s AND FLAG_Z) OR FLAG_C\<rparr>
         else if op = 0x39 then alu_add_hl (cpu_sp s) s
         else if op = 0x3A then (let s = s\<lparr>cpu_a := rd8 (cpu_hl s) s\<rparr> in set_hl (cpu_hl s - 1) s)
         else if op = 0x3B then s\<lparr>cpu_sp := cpu_sp s - 1\<rparr>
         else if op = 0x3C then inc_r 7 s
         else if op = 0x3D then dec_r 7 s
         else if op = 0x3E then ld_r_n8 7 s
         else s\<lparr>cpu_f := (cpu_f s AND FLAG_Z) OR ((cpu_f s AND FLAG_C) XOR FLAG_C)\<rparr>, False))"

text \<open>Opcodes 0x40 to 0x7F: HALT and the register moves.\<close>

definition exec_40 :: "u8 \<Rightarrow> cpu_state \<Rightarrow> cpu_state" where
  "exec_40 op s =
     (if op = 0x76 then s\<lparr>cpu_halted := 1\<rparr>
      else let dst = drop_bit 3 op AND 7; src = op AND 7
           in reg8_write dst (reg8_read src s) s)"

text \<open>The eight ALU operations on A, in the order of their encoding.\<close>

definition alu_op :: "u8 \<Rightarrow> u8 \<Rightarrow> cpu_state \<Rightarrow> cpu_state" where
  "alu_op grp v s =
     (if grp = 0 then alu_add v s else if grp = 1 then alu_adc v s
      else if grp = 2 then alu_sub v s else if grp = 3 then alu_sbc v s
      else if grp = 4 then alu_and v s else if grp = 5 then alu_xor v s
      else if grp = 6 then alu_or v s else alu_cp v s)"

text \<open>Opcodes 0x80 to 0xBF.\<close>

definition exec_80 :: "u8 \<Rightarrow> cpu_state \<Rightarrow> cpu_state" where
  "exec_80 op s = alu_op (drop_bit 3 op AND 7) (reg8_read (op AND 7) s) s"

text \<open>Calls, jumps and returns of the upper range.\<close>

definition ret_cc :: "u8 \<Rightarrow> cpu_state \<Rightarrow> cpu_state \<times> bool" where
  "ret_cc op s =
     (if cond (drop_bit 3 op AND 3) s
      then (let (v, s) = pop16 s in (s\<lparr>cpu_pc := v\<rparr>, True)) else (s, False))"

definition jp_cc :: "u8 \<Rightarrow> cpu_state \<Rightarrow> cpu_state \<times> bool" where
  "jp_cc op s =
     (let (a, s) = fetch16 s
      in if cond (drop_bit 3 op AND 3) s then (s\<lparr>cpu_pc := a\<rparr>, True) else (s, False))"

definition call_cc :: "u8 \<Rightarrow> cpu_state \<Rightarrow> cpu_state \<times> bool" where
  "call_cc op s =
     (let (a, s) = fetch16 s
      in if cond (drop_bit 3 op AND 3) s
         then ((push16 (cpu_pc s) s)\<lparr>cpu_pc := a\<rparr>, True) else (s, False))"

definition alu_n8 :: "u8 \<Rightarrow> cpu_state \<Rightarrow> cpu_state" where
  "alu_n8 grp s = (let (v, s) = fetch8 s in alu_op grp v s)"

definition pop_pc :: "cpu_state \<Rightarrow> cpu_state" where
  "pop_pc s = (let (v, s) = pop16 s in s\<lparr>cpu_pc := v\<rparr>)"

text \<open>Opcodes 0xC0 to 0xFF other than the conditional ones and the CB prefix.\<close>

definition exec_c0 :: "u8 \<Rightarrow> cpu_state \<Rightarrow> cpu_state" where
  "exec_c0 op s =
     (if op = 0xC1 then (let (v, s) = pop16 s in set_bc v s)
      else if op = 0xC3 then (let (v, s) = fetch16 s in s\<lparr>cpu_pc := v\<rparr>)
      else if op = 0xC5 then push16 (cpu_bc s) s
      else if op = 0xC6 then alu_n8 0 s
      else if op AND 0xC7 = 0xC7 then (push16 (cpu_pc s) s)\<lparr>cpu_pc := ucast (op AND 0x38)\<rparr>
      else if op = 0xC9 then pop_pc s
      else if op = 0xCD then (let (a, s) = fetch16 s in (push16 (cpu_pc s) s)\<lparr>cpu_pc := a\<rparr>)
      else if op = 0xCE then alu_n8 1 s
      else if op = 0xD1 then (let (v, s) = pop16 s in set_de v s)
      else if op = 0xD5 then push16 (cpu_de s) s
      else if op = 0xD6 then alu_n8 2 s
      else if op = 0xD9 then (pop_pc s)\<lparr>cpu_ime := 1\<rparr>
      else if op = 0xDE then alu_n8 3 s
      else if op = 0xE0 then (let (v, s) = fetch8 s in wr8 (0xFF00 + ucast v) (cpu_a s) s)
      else if op = 0xE1 then (let (v, s) = pop16 s in set_hl v s)
      else if op = 0xE2 then wr8 (0xFF00 + ucast (cpu_c s)) (cpu_a s) s
      else if op = 0xE5 then push16 (cpu_hl s) s
      else if op = 0xE6 then alu_n8 4 s
      else if op = 0xE8 then
        (let (v, s) = fetch8 s; (r, s) = alu_add_sp_r8 v s in s\<lparr>cpu_sp := r\<rparr>)
      else if op = 0xE9 then s\<lparr>cpu_pc := cpu_hl s\<rparr>
      else if op = 0xEA then (let (a, s) = fetch16 s in wr8 a (cpu_a s) s)
      else if op = 0xEE then alu_n8 5 s
      else if op = 0xF0 then
        (let (v, s) = fetch8 s in s\<lparr>cpu_a := rd8 (0xFF00 + ucast v) s\<rparr>)
      else if op = 0xF1 then
        (let (v, s) = pop16 s; s = set_af v s in s\<lparr>cpu_f := cpu_f s AND 0xF0\<rparr>)
      else if op = 0xF2 then s\<lparr>cpu_a := rd8 (0xFF00 + ucast (cpu_c s)) s\<rparr>
      else if op = 0xF3 then s\<lparr>cpu_ime := 0, cpu_ime_pending := 0\<rparr>
      else if op = 0xF5 then push16 (cpu_af s AND 0xFFF0) s
      else if op = 0xF6 then alu_n8 6 s
      else if op = 0xF8 then
        (let (v, s) = fetch8 s; (r, s) = alu_add_sp_r8 v s in set_hl r s)
      else if op = 0xF9 then s\<lparr>cpu_sp := cpu_hl s\<rparr>
      else if op = 0xFA then (let (a, s) = fetch16 s in s\<lparr>cpu_a := rd8 a s\<rparr>)
      else if op = 0xFB then s\<lparr>cpu_ime_pending := 1\<rparr>
      else if op = 0xFE then alu_n8 7 s
      else s)"

text \<open>\<open>cycles_notaken\<close>, or \<open>cycles_taken\<close> after a taken branch.\<close>

definition timed :: "sm83_op_info \<Rightarrow> cpu_state \<times> bool \<Rightarrow> u32 \<times> cpu_state" where
  "timed info r = (ucast (if snd r then cycles_taken info else cycles_notaken info), fst r)"

text \<open>
  The whole switch on a fetched opcode: the new state and the cycles the instruction takes,
  from the decode table or, under the CB prefix, from \<open>exec_cb\<close>.
\<close>

definition exec_op :: "u8 \<Rightarrow> cpu_state \<Rightarrow> u32 \<times> cpu_state" where
  "exec_op op s =
     (let info = sm83_decode op
      in if op < 0x20 then timed info (exec_00 op s, False)
         else if op < 0x40 then timed info (exec_20 op s)
         else if op < 0x80 then timed info (exec_40 op s, False)
         else if op < 0xC0 then timed info (exec_80 op s, False)
         else if op = 0xC0 \<or> op = 0xC8 \<or> op = 0xD0 \<or> op = 0xD8 then timed info (ret_cc op s)
         else if op = 0xC2 \<or> op = 0xCA \<or> op = 0xD2 \<or> op = 0xDA then timed info (jp_cc op s)
         else if op = 0xC4 \<or> op = 0xCC \<or> op = 0xD4 \<or> op = 0xDC then timed info (call_cc op s)
         else if op = 0xCB then exec_cb s
         else timed info (exec_c0 op s, False))"

section \<open>Step and run\<close>

definition ei_promote :: "bool \<Rightarrow> cpu_state \<Rightarrow> cpu_state" where
  "ei_promote p c = (if p then c\<lparr>cpu_ime := 1, cpu_ime_pending := 0\<rparr> else c)"

definition sm83_step :: "cpu_state \<Rightarrow> u32 \<times> cpu_state" where
  "sm83_step c =
     (let ei_pending_clear = cpu_ime_pending c \<noteq> 0;
          (served, c) = sm83_service_interrupts c
      in if served \<noteq> 0 then (20, ei_promote ei_pending_clear c)
      else if cpu_halted c \<noteq> 0 then
        (4, ei_promote ei_pending_clear (c\<lparr>cpu_cycles := cpu_cycles c + 4\<rparr>))
      else
        let (op, c) = fetch8 c;
            (cycles, c) = exec_op op c;
            c = c\<lparr>cpu_cycles := cpu_cycles c + ucast cycles\<rparr>
        in (cycles, ei_promote ei_pending_clear c))"

text \<open>
  \<open>sm83_run_until\<close> may not return: near the top of the 64-bit range the counter can wrap past
  \<open>until\<close>. \<open>None\<close> is not returning.
\<close>

partial_function (option) run_loop :: "u64 \<Rightarrow> cpu_state \<Rightarrow> cpu_state option" where
  "run_loop until c = (if cpu_cycles c < until then run_loop until (snd (sm83_step c)) else Some c)"

definition sm83_run_until :: "u64 \<Rightarrow> cpu_state \<Rightarrow> (u64 \<times> cpu_state) option" where
  "sm83_run_until until c =
     map_option (\<lambda>c'. (cpu_cycles c' - cpu_cycles c, c')) (run_loop until c)"

definition cpu_reset :: "mmu \<Rightarrow> cpu_state \<Rightarrow> cpu_state" where
  "cpu_reset m c =
     c\<lparr>cpu_a := 0x01, cpu_f := 0xB0, cpu_b := 0x00, cpu_c := 0x13, cpu_d := 0x00, cpu_e := 0xD8,
       cpu_h := 0x01, cpu_l := 0x4D, cpu_sp := 0xFFFE, cpu_pc := 0x0100, cpu_ime := 0,
       cpu_ime_pending := 0, cpu_halted := 0, cpu_stopped := 0, cpu_cycles := 0,
       cpu_mmu := m\<lparr>attached := True\<rparr>\<rparr>"

section \<open>What the instructions leave alone\<close>

lemma cb_shift_frame [simp]:
  "cpu_cycles (snd (cb_shift k v s)) = cpu_cycles s"
  "cpu_pc (snd (cb_shift k v s)) = cpu_pc s"
  "cpu_sp (snd (cb_shift k v s)) = cpu_sp s"
  "cpu_ime (snd (cb_shift k v s)) = cpu_ime s"
  "cpu_ime_pending (snd (cb_shift k v s)) = cpu_ime_pending s"
  "cpu_halted (snd (cb_shift k v s)) = cpu_halted s"
  "cpu_stopped (snd (cb_shift k v s)) = cpu_stopped s"
  "cpu_jit_ret_pc (snd (cb_shift k v s)) = cpu_jit_ret_pc s"
  "cpu_mmu (snd (cb_shift k v s)) = cpu_mmu s"
  by (simp_all add: cb_shift_def)

lemma op_rlca_frame [simp]:
  "cpu_cycles (op_rlca s) = cpu_cycles s"
  "cpu_pc (op_rlca s) = cpu_pc s"
  "cpu_sp (op_rlca s) = cpu_sp s"
  "cpu_ime (op_rlca s) = cpu_ime s"
  "cpu_ime_pending (op_rlca s) = cpu_ime_pending s"
  "cpu_halted (op_rlca s) = cpu_halted s"
  "cpu_stopped (op_rlca s) = cpu_stopped s"
  "cpu_jit_ret_pc (op_rlca s) = cpu_jit_ret_pc s"
  "cpu_mmu (op_rlca s) = cpu_mmu s"
  by (simp_all add: op_rlca_def Let_def)

lemma op_rrca_frame [simp]:
  "cpu_cycles (op_rrca s) = cpu_cycles s"
  "cpu_pc (op_rrca s) = cpu_pc s"
  "cpu_sp (op_rrca s) = cpu_sp s"
  "cpu_ime (op_rrca s) = cpu_ime s"
  "cpu_ime_pending (op_rrca s) = cpu_ime_pending s"
  "cpu_halted (op_rrca s) = cpu_halted s"
  "cpu_stopped (op_rrca s) = cpu_stopped s"
  "cpu_jit_ret_pc (op_rrca s) = cpu_jit_ret_pc s"
  "cpu_mmu (op_rrca s) = cpu_mmu s"
  by (simp_all add: op_rrca_def Let_def)

lemma op_rla_frame [simp]:
  "cpu_cycles (op_rla s) = cpu_cycles s"
  "cpu_pc (op_rla s) = cpu_pc s"
  "cpu_sp (op_rla s) = cpu_sp s"
  "cpu_ime (op_rla s) = cpu_ime s"
  "cpu_ime_pending (op_rla s) = cpu_ime_pending s"
  "cpu_halted (op_rla s) = cpu_halted s"
  "cpu_stopped (op_rla s) = cpu_stopped s"
  "cpu_jit_ret_pc (op_rla s) = cpu_jit_ret_pc s"
  "cpu_mmu (op_rla s) = cpu_mmu s"
  by (simp_all add: op_rla_def Let_def)

lemma op_rra_frame [simp]:
  "cpu_cycles (op_rra s) = cpu_cycles s"
  "cpu_pc (op_rra s) = cpu_pc s"
  "cpu_sp (op_rra s) = cpu_sp s"
  "cpu_ime (op_rra s) = cpu_ime s"
  "cpu_ime_pending (op_rra s) = cpu_ime_pending s"
  "cpu_halted (op_rra s) = cpu_halted s"
  "cpu_stopped (op_rra s) = cpu_stopped s"
  "cpu_jit_ret_pc (op_rra s) = cpu_jit_ret_pc s"
  "cpu_mmu (op_rra s) = cpu_mmu s"
  by (simp_all add: op_rra_def Let_def)

lemma inc_r_frame [simp]:
  "cpu_cycles (inc_r r s) = cpu_cycles s"
  "cpu_pc (inc_r r s) = cpu_pc s"
  "cpu_sp (inc_r r s) = cpu_sp s"
  "cpu_ime (inc_r r s) = cpu_ime s"
  "cpu_ime_pending (inc_r r s) = cpu_ime_pending s"
  "cpu_halted (inc_r r s) = cpu_halted s"
  "cpu_stopped (inc_r r s) = cpu_stopped s"
  "cpu_jit_ret_pc (inc_r r s) = cpu_jit_ret_pc s"
  by (simp_all add: inc_r_def case_prod_beta)

lemma dec_r_frame [simp]:
  "cpu_cycles (dec_r r s) = cpu_cycles s"
  "cpu_pc (dec_r r s) = cpu_pc s"
  "cpu_sp (dec_r r s) = cpu_sp s"
  "cpu_ime (dec_r r s) = cpu_ime s"
  "cpu_ime_pending (dec_r r s) = cpu_ime_pending s"
  "cpu_halted (dec_r r s) = cpu_halted s"
  "cpu_stopped (dec_r r s) = cpu_stopped s"
  "cpu_jit_ret_pc (dec_r r s) = cpu_jit_ret_pc s"
  by (simp_all add: dec_r_def case_prod_beta)

lemma ld_r_n8_frame [simp]:
  "cpu_cycles (ld_r_n8 r s) = cpu_cycles s"
  "cpu_sp (ld_r_n8 r s) = cpu_sp s"
  "cpu_ime (ld_r_n8 r s) = cpu_ime s"
  "cpu_ime_pending (ld_r_n8 r s) = cpu_ime_pending s"
  "cpu_halted (ld_r_n8 r s) = cpu_halted s"
  "cpu_stopped (ld_r_n8 r s) = cpu_stopped s"
  "cpu_jit_ret_pc (ld_r_n8 r s) = cpu_jit_ret_pc s"
  by (simp_all add: ld_r_n8_def case_prod_beta)

lemma alu_op_frame [simp]:
  "cpu_cycles (alu_op g v s) = cpu_cycles s"
  "cpu_pc (alu_op g v s) = cpu_pc s"
  "cpu_sp (alu_op g v s) = cpu_sp s"
  "cpu_ime (alu_op g v s) = cpu_ime s"
  "cpu_ime_pending (alu_op g v s) = cpu_ime_pending s"
  "cpu_halted (alu_op g v s) = cpu_halted s"
  "cpu_stopped (alu_op g v s) = cpu_stopped s"
  "cpu_jit_ret_pc (alu_op g v s) = cpu_jit_ret_pc s"
  "cpu_mmu (alu_op g v s) = cpu_mmu s"
  by (simp_all add: alu_op_def)

lemma alu_n8_frame [simp]:
  "cpu_cycles (alu_n8 g s) = cpu_cycles s"
  "cpu_sp (alu_n8 g s) = cpu_sp s"
  "cpu_ime (alu_n8 g s) = cpu_ime s"
  "cpu_ime_pending (alu_n8 g s) = cpu_ime_pending s"
  "cpu_halted (alu_n8 g s) = cpu_halted s"
  "cpu_stopped (alu_n8 g s) = cpu_stopped s"
  "cpu_jit_ret_pc (alu_n8 g s) = cpu_jit_ret_pc s"
  "cpu_mmu (alu_n8 g s) = cpu_mmu s"
  by (simp_all add: alu_n8_def case_prod_beta)

lemma pop_pc_frame [simp]:
  "cpu_cycles (pop_pc s) = cpu_cycles s"
  "cpu_ime (pop_pc s) = cpu_ime s"
  "cpu_ime_pending (pop_pc s) = cpu_ime_pending s"
  "cpu_halted (pop_pc s) = cpu_halted s"
  "cpu_stopped (pop_pc s) = cpu_stopped s"
  "cpu_jit_ret_pc (pop_pc s) = cpu_jit_ret_pc s"
  "cpu_mmu (pop_pc s) = cpu_mmu s"
  by (simp_all add: pop_pc_def case_prod_beta)

lemma jr_cc_frame [simp]:
  "cpu_cycles (fst (jr_cc op s)) = cpu_cycles s"
  "cpu_sp (fst (jr_cc op s)) = cpu_sp s"
  "cpu_ime (fst (jr_cc op s)) = cpu_ime s"
  "cpu_ime_pending (fst (jr_cc op s)) = cpu_ime_pending s"
  "cpu_halted (fst (jr_cc op s)) = cpu_halted s"
  "cpu_stopped (fst (jr_cc op s)) = cpu_stopped s"
  "cpu_jit_ret_pc (fst (jr_cc op s)) = cpu_jit_ret_pc s"
  "cpu_mmu (fst (jr_cc op s)) = cpu_mmu s"
  by (simp_all add: jr_cc_def Let_def case_prod_beta)

lemma jp_cc_frame [simp]:
  "cpu_cycles (fst (jp_cc op s)) = cpu_cycles s"
  "cpu_sp (fst (jp_cc op s)) = cpu_sp s"
  "cpu_ime (fst (jp_cc op s)) = cpu_ime s"
  "cpu_ime_pending (fst (jp_cc op s)) = cpu_ime_pending s"
  "cpu_halted (fst (jp_cc op s)) = cpu_halted s"
  "cpu_stopped (fst (jp_cc op s)) = cpu_stopped s"
  "cpu_jit_ret_pc (fst (jp_cc op s)) = cpu_jit_ret_pc s"
  "cpu_mmu (fst (jp_cc op s)) = cpu_mmu s"
  by (simp_all add: jp_cc_def Let_def case_prod_beta)

lemma ret_cc_frame [simp]:
  "cpu_cycles (fst (ret_cc op s)) = cpu_cycles s"
  "cpu_ime (fst (ret_cc op s)) = cpu_ime s"
  "cpu_ime_pending (fst (ret_cc op s)) = cpu_ime_pending s"
  "cpu_halted (fst (ret_cc op s)) = cpu_halted s"
  "cpu_stopped (fst (ret_cc op s)) = cpu_stopped s"
  "cpu_jit_ret_pc (fst (ret_cc op s)) = cpu_jit_ret_pc s"
  "cpu_mmu (fst (ret_cc op s)) = cpu_mmu s"
  by (simp_all add: ret_cc_def Let_def case_prod_beta)

lemma call_cc_frame [simp]:
  "cpu_cycles (fst (call_cc op s)) = cpu_cycles s"
  "cpu_ime (fst (call_cc op s)) = cpu_ime s"
  "cpu_ime_pending (fst (call_cc op s)) = cpu_ime_pending s"
  "cpu_halted (fst (call_cc op s)) = cpu_halted s"
  "cpu_stopped (fst (call_cc op s)) = cpu_stopped s"
  "cpu_jit_ret_pc (fst (call_cc op s)) = cpu_jit_ret_pc s"
  by (simp_all add: call_cc_def Let_def case_prod_beta)

end
