(* ===== verification/Interp_Step.thy ===== *)
theory Interp_Step
  imports Interp Interfaces
begin

text \<open>
  What one interpreter step does: the time it takes, the flag register, the program counter
  after an instruction that does not end a basic block, and the enable-interrupts delay.
\<close>

section \<open>Time\<close>

lemma exec_cycles [simp]:
  "cpu_cycles (exec_00 op s) = cpu_cycles s"
  "cpu_cycles (fst (exec_20 op s)) = cpu_cycles s"
  "cpu_cycles (exec_40 op s) = cpu_cycles s"
  "cpu_cycles (exec_80 op s) = cpu_cycles s"
  "cpu_cycles (exec_c0 op s) = cpu_cycles s"
  "cpu_cycles (snd (exec_cb s)) = cpu_cycles s"
  by (simp_all add: exec_00_def exec_20_def exec_40_def exec_80_def exec_c0_def exec_cb_def
        case_prod_beta Let_def)

lemma decode_cycles:
  "cycles_notaken (sm83_decode op) \<in> {4, 8, 12, 16, 20, 24}"
  "cycles_taken (sm83_decode op) \<in> {4, 8, 12, 16, 20, 24}"
  by (rule decode_all, simp add: op_table_def op_rows op_info_def)+

definition step_times :: "u32 set" where
  "step_times = {4, 8, 12, 16, 20, 24}"

lemma snd_timed [simp]: "snd (timed i r) = fst r"
  by (simp add: timed_def)

lemma timed_times: "fst (timed (sm83_decode op) r) \<in> step_times"
  using decode_cycles [of op] by (cases "snd r") (auto simp: timed_def step_times_def)

lemma exec_cb_times: "fst (exec_cb s) \<in> step_times"
  by (simp add: exec_cb_def Let_def case_prod_beta step_times_def)

lemma exec_op_cases:
  assumes "\<And>r. P (timed (sm83_decode op) r)" "P (exec_cb s)"
  shows "P (exec_op op s)"
  using assms unfolding exec_op_def Let_def by presburger

lemma exec_op_cycles [simp]: "cpu_cycles (snd (exec_op op s)) = cpu_cycles s"
  by (simp add: exec_op_def Let_def)

lemma exec_op_time: "fst (exec_op op s) \<in> step_times"
  by (rule exec_op_cases) (rule timed_times exec_cb_times)+

lemma service_cycles:
  "(fst (sm83_service_interrupts c), cpu_cycles (snd (sm83_service_interrupts c))) \<in>
     {(0, cpu_cycles c), (20, cpu_cycles c + 20)}"
  by (simp add: sm83_service_interrupts_def Let_def split: option.split)

lemma ei_promote_cycles [simp]: "cpu_cycles (ei_promote p c) = cpu_cycles c"
  by (simp add: ei_promote_def)

lemma sm83_step_time:
  "fst (sm83_step c) \<in> step_times
   \<and> cpu_cycles (snd (sm83_step c)) = cpu_cycles c + ucast (fst (sm83_step c))"
proof (cases "sm83_service_interrupts c")
  case (Pair r d)
  then have s: "(r, cpu_cycles d) \<in> {(0, cpu_cycles c), (20, cpu_cycles c + 20)}"
    using service_cycles [of c] by simp
  with Pair exec_op_time [of "fst (fetch8 d)" "snd (fetch8 d)"] show ?thesis
    by (auto simp: sm83_step_def case_prod_beta Let_def step_times_def)
qed

section \<open>The flag register\<close>

text \<open>The low nibble of F reads as zero.\<close>

definition flags_ok :: "cpu_state \<Rightarrow> bool" where
  "flags_ok c \<longleftrightarrow> cpu_f c AND 0x0F = 0"

lemma cpu_f_frame [simp]:
  "cpu_f (set_bc w s) = cpu_f s" "cpu_f (set_de w s) = cpu_f s" "cpu_f (set_hl w s) = cpu_f s"
  "cpu_f (wr8 a v s) = cpu_f s" "cpu_f (wr16 a w s) = cpu_f s" "cpu_f (push16 w s) = cpu_f s"
  "cpu_f (snd (pop16 s)) = cpu_f s" "cpu_f (snd (fetch8 s)) = cpu_f s"
  "cpu_f (snd (fetch16 s)) = cpu_f s" "cpu_f (reg8_write r v s) = cpu_f s"
  by (simp_all add: set_bc_def set_de_def set_hl_def wr8_def wr16_def push16_def pop16_def
        fetch8_def fetch16_def reg8_write_def Let_def case_prod_beta)

lemma low_nibble_bits:
  "((x :: u8) OR y) AND 0xF = (x AND 0xF) OR (y AND 0xF)"
  "(x AND 0x10) AND 0xF = 0" "(x AND 0x80) AND 0xF = 0" "(x AND 0x40) AND 0xF = 0" "(x AND 0xF0) AND 0xF = 0"
  by (simp_all add: bit.conj_disj_distrib2 and.assoc)

lemma flags_of_low [simp]: "flags_of z n h c AND 0xF = 0"
  by (simp add: flags_of_def low_nibble_bits)

lemma set_flags_ok [wf, simp]: "flags_ok (set_flags z n h c s)"
  by (simp add: flags_ok_def set_flags_def)

lemma alu_ok [wf, simp]:
  "flags_ok (alu_add v s)" "flags_ok (alu_adc v s)" "flags_ok (alu_sub v s)" "flags_ok (alu_sbc v s)"
  "flags_ok (alu_and v s)" "flags_ok (alu_xor v s)" "flags_ok (alu_or v s)" "flags_ok (alu_cp v s)"
  "flags_ok (snd (alu_inc8 v s))" "flags_ok (snd (alu_dec8 v s))" "flags_ok (alu_add_hl w s)"
  "flags_ok (snd (alu_add_sp_r8 v s))" "flags_ok (snd (op_rlc v s))" "flags_ok (snd (op_rrc v s))"
  "flags_ok (snd (op_rl v s))" "flags_ok (snd (op_rr v s))" "flags_ok (snd (op_sla v s))"
  "flags_ok (snd (op_sra v s))" "flags_ok (snd (op_srl v s))" "flags_ok (snd (op_swap v s))"
  "flags_ok (op_bit n v s)" "flags_ok (op_daa s)"
  by (simp_all add: alu_add_def alu_adc_def alu_sub_def alu_sbc_def alu_and_def alu_xor_def
        alu_or_def alu_cp_def alu_add_sp_r8_def op_rlc_def op_rrc_def op_rl_def op_rr_def
        op_sla_def op_sra_def op_srl_def op_swap_def Let_def)
    (simp_all add: flags_ok_def alu_inc8_def alu_dec8_def alu_add_hl_def op_bit_def op_daa_def
        Let_def case_prod_beta low_nibble_bits)

lemma flags_ok_frame [simp]:
  "flags_ok (set_bc w s) = flags_ok s" "flags_ok (set_de w s) = flags_ok s" "flags_ok (set_hl w s) = flags_ok s"
  "flags_ok (wr8 a v s) = flags_ok s" "flags_ok (wr16 a w s) = flags_ok s" "flags_ok (push16 w s) = flags_ok s"
  "flags_ok (snd (pop16 s)) = flags_ok s" "flags_ok (snd (fetch8 s)) = flags_ok s"
  "flags_ok (snd (fetch16 s)) = flags_ok s" "flags_ok (reg8_write r v s) = flags_ok s"
  "flags_ok (s\<lparr>cpu_a := v\<rparr>) = flags_ok s" "flags_ok (s\<lparr>cpu_sp := w\<rparr>) = flags_ok s"
  "flags_ok (s\<lparr>cpu_pc := w\<rparr>) = flags_ok s" "flags_ok (s\<lparr>cpu_ime := v\<rparr>) = flags_ok s"
  "flags_ok (s\<lparr>cpu_ime_pending := v\<rparr>) = flags_ok s" "flags_ok (s\<lparr>cpu_halted := v\<rparr>) = flags_ok s"
  "flags_ok (s\<lparr>cpu_stopped := v\<rparr>) = flags_ok s" "flags_ok (s\<lparr>cpu_cycles := q\<rparr>) = flags_ok s"
  "flags_ok (s\<lparr>cpu_mmu := m\<rparr>) = flags_ok s" "flags_ok (s\<lparr>cpu_if_reg := v\<rparr>) = flags_ok s"
  "flags_ok (s\<lparr>cpu_ie_reg := v\<rparr>) = flags_ok s"
  by (simp_all add: flags_ok_def)

lemma instr_ok [simp]:
  "flags_ok (alu_op g v s)" "flags_ok (alu_n8 g s)" "flags_ok (inc_r r s)" "flags_ok (dec_r r s)"
  "flags_ok (op_rlca s)" "flags_ok (op_rrca s)" "flags_ok (op_rla s)" "flags_ok (op_rra s)"
  "flags_ok (snd (cb_shift k v s))"
  "flags_ok (ld_r_n8 r s) = flags_ok s" "flags_ok (fst (jr_cc op s)) = flags_ok s"
  "flags_ok (fst (jp_cc op s)) = flags_ok s" "flags_ok (fst (ret_cc op s)) = flags_ok s"
  "flags_ok (fst (call_cc op s)) = flags_ok s" "flags_ok (pop_pc s) = flags_ok s"
  by (simp_all add: alu_op_def alu_n8_def inc_r_def dec_r_def op_rlca_def op_rrca_def op_rla_def
        op_rra_def cb_shift_def ld_r_n8_def jr_cc_def jp_cc_def ret_cc_def call_cc_def pop_pc_def
        Let_def case_prod_beta)

lemma f_update_ok [simp]:
  "flags_ok (s\<lparr>cpu_f := v AND 0xF0\<rparr>)"
  "flags_ok (s\<lparr>cpu_f := (cpu_f s AND FLAG_Z) OR FLAG_C\<rparr>)"
  "flags_ok (s\<lparr>cpu_f := (cpu_f s AND FLAG_Z) OR ((cpu_f s AND FLAG_C) XOR FLAG_C)\<rparr>)"
  "flags_ok (s\<lparr>cpu_a := v, cpu_f := cpu_f s OR 0x60\<rparr>) = flags_ok s"
  by (simp_all add: flags_ok_def low_nibble_bits bit.conj_xor_distrib2)

lemma exec_ok:
  assumes "flags_ok s"
  shows "flags_ok (exec_00 op s)" "flags_ok (fst (exec_20 op s))" "flags_ok (exec_40 op s)"
    "flags_ok (exec_80 op s)" "flags_ok (exec_c0 op s)" "flags_ok (snd (exec_cb s))"
  using assms
  by (simp_all add: exec_00_def exec_20_def exec_40_def exec_80_def exec_c0_def exec_cb_def
        case_prod_beta Let_def)

lemma exec_op_ok [wf]: "flags_ok s \<Longrightarrow> flags_ok (snd (exec_op op s))"
  by (simp add: exec_op_def Let_def exec_ok)

lemma service_ok [wf]: "flags_ok s \<Longrightarrow> flags_ok (snd (sm83_service_interrupts s))"
  by (simp add: sm83_service_interrupts_def Let_def split: option.split)

lemma ei_promote_ok [simp]: "flags_ok (ei_promote p s) = flags_ok s"
  by (simp add: ei_promote_def)

lemma step_flags_ok [wf]: "flags_ok s \<Longrightarrow> flags_ok (snd (sm83_step s))"
  using service_ok [of s]
  by (simp add: sm83_step_def Let_def case_prod_beta exec_op_ok)

section \<open>The program counter\<close>

text \<open>
  \<open>sm83_decode\<close> is what a block builder walks with; these lemmas say that the interpreter
  consumes as many bytes as its table promises, opcode by opcode.
\<close>

lemma fetch_pc [simp]: "cpu_pc (snd (fetch8 s)) = cpu_pc s + 1" "cpu_pc (snd (fetch16 s)) = cpu_pc s + 2"
  by (simp_all add: fetch8_def fetch16_def Let_def)
lemma fetch_instr_pc [simp]: "cpu_pc (ld_r_n8 r s) = cpu_pc s + 1" "cpu_pc (alu_n8 r s) = cpu_pc s + 1"
  by (simp_all add: ld_r_n8_def alu_n8_def case_prod_beta)

lemmas per_opcode = upt_rec sm83_terminates_block_def op_info_def case_prod_beta Let_def

lemma exec_00_pc:
  assumes "\<not> sm83_terminates_block op" "op < 0x20"
  shows "cpu_pc (exec_00 op s) + 1 = cpu_pc s + ucast (op_length (sm83_decode op))"
proof -
  have "\<forall>i\<in>set [0..<32]. \<not> sm83_terminates_block (of_nat i) \<longrightarrow>
    cpu_pc (exec_00 (of_nat i) s) + 1 = cpu_pc s + ucast (op_length (sm83_decode (of_nat i)))"
    by (simp add: exec_00_def per_opcode)
  from u8_range [OF this, of op] assms show ?thesis by (simp add: word_less_nat_alt)
qed

lemma exec_20_pc:
  assumes "\<not> sm83_terminates_block op" "0x20 \<le> op" "op < 0x40"
  shows "cpu_pc (fst (exec_20 op s)) + 1 = cpu_pc s + ucast (op_length (sm83_decode op))"
proof -
  have "\<forall>i\<in>set [32..<64]. \<not> sm83_terminates_block (of_nat i) \<longrightarrow>
    cpu_pc (fst (exec_20 (of_nat i) s)) + 1 = cpu_pc s + ucast (op_length (sm83_decode (of_nat i)))"
    by (simp add: exec_20_def per_opcode)
  from u8_range [OF this, of op] assms show ?thesis by (simp add: word_less_nat_alt word_le_nat_alt)
qed

lemma op_length_40_bf:
  assumes "0x40 \<le> op" "op < 0xC0"
  shows "op_length (sm83_decode op) = 1"
proof -
  have "\<forall>i\<in>set [64..<192]. op_length (sm83_decode (of_nat i)) = 1"
    by (simp add: per_opcode)
  from u8_range [OF this, of op] assms show ?thesis by (simp add: word_less_nat_alt word_le_nat_alt)
qed

lemma exec_c0_pc:
  assumes "\<not> sm83_terminates_block op" "0xC0 \<le> op" "op \<noteq> 0xCB"
  shows "cpu_pc (exec_c0 op s) + 1 = cpu_pc s + ucast (op_length (sm83_decode op))"
proof -
  have "\<forall>i\<in>set [192..<256]. \<not> sm83_terminates_block (of_nat i) \<longrightarrow> (of_nat i :: u8) \<noteq> 0xCB \<longrightarrow>
    cpu_pc (exec_c0 (of_nat i) s) + 1 = cpu_pc s + ucast (op_length (sm83_decode (of_nat i)))"
    by (simp add: exec_c0_def per_opcode)
  from u8_range [OF this, of op] assms show ?thesis by (simp add: word_le_nat_alt)
qed

lemma cond_branch_terminates:
  "op \<in> {0xC0, 0xC8, 0xD0, 0xD8, 0xC2, 0xCA, 0xD2, 0xDA, 0xC4, 0xCC, 0xD4, 0xDC} \<Longrightarrow> sm83_terminates_block op"
  by (auto simp: per_opcode)

lemma exec_cb_pc [simp]: "cpu_pc (snd (exec_cb s)) = cpu_pc s + 1"
  by (simp add: exec_cb_def Let_def case_prod_beta)

lemma exec_op_pc:
  assumes "\<not> sm83_terminates_block op"
  shows "cpu_pc (snd (exec_op op s)) + 1 = cpu_pc s + ucast (op_length (sm83_decode op))"
proof -
  have nb: "op \<noteq> 0xC0 \<and> op \<noteq> 0xC8 \<and> op \<noteq> 0xD0 \<and> op \<noteq> 0xD8 \<and> op \<noteq> 0xC2 \<and> op \<noteq> 0xCA
      \<and> op \<noteq> 0xD2 \<and> op \<noteq> 0xDA \<and> op \<noteq> 0xC4 \<and> op \<noteq> 0xCC \<and> op \<noteq> 0xD4 \<and> op \<noteq> 0xDC"
    using assms cond_branch_terminates [of op] by blast
  consider "op < 0x20" | "0x20 \<le> op" "op < 0x40" | "0x40 \<le> op" "op < 0xC0" | "op = 0xCB"
    | "0xC0 \<le> op" "op \<noteq> 0xCB" by (meson leI)
  then show ?thesis
  proof cases
    case 1
    then show ?thesis using exec_00_pc [OF assms, of s] by (simp add: exec_op_def Let_def)
  next
    case 2
    then have "\<not> op < 0x20" by simp
    with 2 show ?thesis using exec_20_pc [OF assms, of s] by (simp add: exec_op_def Let_def)
  next
    case 3
    then have "\<not> op < 0x20" "\<not> op < 0x40" by (simp_all add: word_less_nat_alt word_le_nat_alt)
    with 3 show ?thesis
      using op_length_40_bf [of op] by (simp add: exec_op_def Let_def exec_40_def exec_80_def)
  next
    case 4
    then show ?thesis by (simp add: exec_op_def Let_def op_info_def)
  next
    case 5
    then have "\<not> op < 0x20" "\<not> op < 0x40" "\<not> op < 0x80" "\<not> op < 0xC0"
      by (simp_all add: word_less_nat_alt word_le_nat_alt)
    with 5 nb show ?thesis using exec_c0_pc [OF assms, of s] by (simp add: exec_op_def Let_def)
  qed
qed

end
