(* ===== verification/Interp_Run.thy ===== *)
theory Interp_Run
  imports Interp_Step Mmu_Laws
begin

text \<open>
  What the interpreter does over many steps: the run loop as a clocked machine, the interrupt
  service, the enable-interrupts delay, the program counter after an instruction that does not
  end a basic block, the stack, and the invariant of every reachable state.
\<close>

section \<open>The step as a clocked machine\<close>

definition sm83_next :: "cpu_state \<Rightarrow> cpu_state" where
  "sm83_next c = snd (sm83_step c)"

interpretation interp: clocked sm83_next cpu_cycles 24
proof
  fix c
  from sm83_step_time [of c] obtain t where
    t: "t \<in> step_times" "cpu_cycles (sm83_next c) = cpu_cycles c + ucast (t :: u32)"
    unfolding sm83_next_def by blast
  then show "\<exists>k>0. k \<le> 24 \<and> cpu_cycles (sm83_next c) = cpu_cycles c + of_nat k"
    by (intro exI [of _ "unat t"]) (auto simp: step_times_def)
qed

lemma run_loop_steps:
  assumes "\<forall>i<n. cpu_cycles ((sm83_next ^^ i) c) < until" "until \<le> cpu_cycles ((sm83_next ^^ n) c)"
  shows "run_loop until c = Some ((sm83_next ^^ n) c)"
  using assms
proof (induction n arbitrary: c)
  case 0
  then show ?case by (subst run_loop.simps) (auto dest: leD)
next
  case (Suc n)
  from Suc.prems(1) have "\<forall>i<n. cpu_cycles ((sm83_next ^^ i) (sm83_next c)) < until"
    by (metis Suc_less_eq funpow_swap1 o_apply funpow.simps(2))
  moreover have "until \<le> cpu_cycles ((sm83_next ^^ n) (sm83_next c))"
    using Suc.prems(2) by (simp add: funpow_swap1)
  ultimately have "run_loop until (sm83_next c) = Some ((sm83_next ^^ n) (sm83_next c))"
    by (rule Suc.IH)
  moreover have "cpu_cycles c < until" using Suc.prems(1) by force
  ultimately show ?case by (subst run_loop.simps) (simp add: funpow_swap1 flip: sm83_next_def)
qed

section \<open>Interrupt service\<close>

lemma and_push_bit_u8: "i < 8 \<Longrightarrow> (w :: u8) AND push_bit i 1 \<noteq> 0 \<longleftrightarrow> bit w i"
  by (auto simp: bit_iff_and_push_bit_not_eq_0)

lemma find_pending:
  assumes "(w :: u8) AND 0x1F \<noteq> 0"
  obtains i where "find (\<lambda>i. (w AND 0x1F) AND push_bit i 1 \<noteq> 0) [0..<5] = Some i"
    "i < 5" "bit w i" "\<forall>j<i. \<not> bit w j"
proof -
  have m: "0x1F = (mask 5 :: u8)" by (simp add: mask_eq_exp_minus_1)
  have b: "(w AND 0x1F) AND push_bit i 1 \<noteq> 0 \<longleftrightarrow> bit w i" if "i < 5" for i
    using that and_push_bit_u8 [of i "w AND 0x1F"] by (simp add: m bit_simps)
  from assms obtain n where "n < 5" "bit w n" by (auto simp: m bit_eq_iff bit_simps)
  with b have "find (\<lambda>i. (w AND 0x1F) AND push_bit i 1 \<noteq> 0) [0..<5] \<noteq> None"
    by (auto simp: find_None_iff simp del: and.assoc)
  then obtain i where i: "find (\<lambda>i. (w AND 0x1F) AND push_bit i 1 \<noteq> 0) [0..<5] = Some i" by blast
  then have "i < 5" "(w AND 0x1F) AND push_bit i 1 \<noteq> 0"
    "\<forall>j<i. \<not> (w AND 0x1F) AND push_bit j 1 \<noteq> 0"
    by (auto simp: find_Some_iff)
  with b i that show thesis by (metis less_trans)
qed

text \<open>The state in which the service looks for pending interrupts: the PPU and timer caught up.\<close>

definition service_entry :: "cpu_state \<Rightarrow> cpu_state" where
  "service_entry c =
     (let m = ppu_tick (cpu_cycles c) (cpu_mmu c)
      in c\<lparr>cpu_mmu := m, cpu_if_reg := io m IF_REG, cpu_ie_reg := ie m\<rparr>)"

lemma service_pc: "fst (sm83_service_interrupts c) = 0 \<Longrightarrow> cpu_pc (snd (sm83_service_interrupts c)) = cpu_pc c"
  by (auto simp: sm83_service_interrupts_def Let_def split: option.splits)

lemma ei_promote_pc [simp]: "cpu_pc (ei_promote p c) = cpu_pc c"
  by (simp add: ei_promote_def)

section \<open>Reachable states\<close>

text \<open>
  A run: a reset, interpreter steps, and whatever the host does to the MMU between them (loading
  a cartridge, pressing buttons, the PPU thread).
\<close>

inductive reachable :: "cpu_state \<Rightarrow> bool" where
  reset: "reachable (cpu_reset m c)"
| step: "reachable c \<Longrightarrow> reachable (sm83_next c)"
| host: "reachable c \<Longrightarrow> reachable (c\<lparr>cpu_mmu := m\<rparr>)"

text \<open>The four one-byte latches of the CPU hold a truth value.\<close>

definition latches_ok :: "cpu_state \<Rightarrow> bool" where
  "latches_ok c \<longleftrightarrow> cpu_ime c \<le> 1 \<and> cpu_ime_pending c \<le> 1 \<and> cpu_halted c \<le> 1 \<and> cpu_stopped c \<le> 1"

lemma latches_frame [simp]:
  "latches_ok (set_bc w s) = latches_ok s" "latches_ok (set_de w s) = latches_ok s" "latches_ok (set_hl w s) = latches_ok s"
  "latches_ok (set_af w s) = latches_ok s"
  "latches_ok (wr8 a v s) = latches_ok s" "latches_ok (wr16 a w s) = latches_ok s" "latches_ok (push16 w s) = latches_ok s"
  "latches_ok (snd (pop16 s)) = latches_ok s" "latches_ok (snd (fetch8 s)) = latches_ok s"
  "latches_ok (snd (fetch16 s)) = latches_ok s" "latches_ok (reg8_write r v s) = latches_ok s"
  "latches_ok (s\<lparr>cpu_a := v\<rparr>) = latches_ok s" "latches_ok (s\<lparr>cpu_sp := w\<rparr>) = latches_ok s"
  "latches_ok (s\<lparr>cpu_f := v\<rparr>) = latches_ok s"
  "latches_ok (s\<lparr>cpu_pc := w\<rparr>) = latches_ok s" "latches_ok (s\<lparr>cpu_cycles := q\<rparr>) = latches_ok s"
  "latches_ok (s\<lparr>cpu_mmu := m\<rparr>) = latches_ok s" "latches_ok (s\<lparr>cpu_if_reg := v\<rparr>) = latches_ok s"
  "latches_ok (s\<lparr>cpu_ie_reg := v\<rparr>) = latches_ok s"
  by (simp_all add: latches_ok_def set_af_def)

lemma latches_set:
  "latches_ok s \<Longrightarrow> v \<le> 1 \<Longrightarrow> latches_ok (s\<lparr>cpu_ime := v\<rparr>)"
  "latches_ok s \<Longrightarrow> v \<le> 1 \<Longrightarrow> latches_ok (s\<lparr>cpu_ime_pending := v\<rparr>)"
  "latches_ok s \<Longrightarrow> v \<le> 1 \<Longrightarrow> latches_ok (s\<lparr>cpu_halted := v\<rparr>)"
  "latches_ok s \<Longrightarrow> v \<le> 1 \<Longrightarrow> latches_ok (s\<lparr>cpu_stopped := v\<rparr>)"
  by (simp_all add: latches_ok_def)

lemma latches_instr [simp]:
  "latches_ok (alu_op g v s) = latches_ok s" "latches_ok (alu_n8 g s) = latches_ok s"
  "latches_ok (inc_r r s) = latches_ok s" "latches_ok (dec_r r s) = latches_ok s"
  "latches_ok (op_rlca s) = latches_ok s" "latches_ok (op_rrca s) = latches_ok s"
  "latches_ok (op_rla s) = latches_ok s" "latches_ok (op_rra s) = latches_ok s"
  "latches_ok (snd (cb_shift k v s)) = latches_ok s" "latches_ok (op_bit n v s) = latches_ok s"
  "latches_ok (alu_add_hl w s) = latches_ok s" "latches_ok (snd (alu_add_sp_r8 v s)) = latches_ok s"
  "latches_ok (op_daa s) = latches_ok s" "latches_ok (ld_r_n8 r s) = latches_ok s"
  "latches_ok (fst (jr_cc op s)) = latches_ok s" "latches_ok (fst (jp_cc op s)) = latches_ok s"
  "latches_ok (fst (ret_cc op s)) = latches_ok s" "latches_ok (fst (call_cc op s)) = latches_ok s"
  "latches_ok (pop_pc s) = latches_ok s"
  by (simp_all add: latches_ok_def jr_cc_def jp_cc_def ret_cc_def call_cc_def Let_def case_prod_beta)

lemma latches_exec:
  assumes "latches_ok s"
  shows "latches_ok (exec_00 op s)" "latches_ok (fst (exec_20 op s))" "latches_ok (exec_40 op s)"
    "latches_ok (exec_80 op s)" "latches_ok (exec_c0 op s)" "latches_ok (snd (exec_cb s))"
  using assms
  by (simp_all add: exec_00_def exec_20_def exec_40_def exec_80_def exec_c0_def exec_cb_def
        case_prod_beta Let_def latches_set)

lemma latches_exec_op: "latches_ok s \<Longrightarrow> latches_ok (snd (exec_op op s))"
  by (simp add: exec_op_def Let_def latches_exec)

lemma latches_service: "latches_ok s \<Longrightarrow> latches_ok (snd (sm83_service_interrupts s))"
  by (simp add: sm83_service_interrupts_def Let_def latches_set split: option.split)

lemma latches_promote: "latches_ok s \<Longrightarrow> latches_ok (ei_promote p s)"
  by (simp add: ei_promote_def latches_set)

lemma latches_next: "latches_ok s \<Longrightarrow> latches_ok (sm83_next s)"
  using latches_service [of s]
  by (simp add: sm83_next_def sm83_step_def Let_def case_prod_beta latches_exec_op latches_promote)

section \<open>A machine to start from\<close>

text \<open>A CPU of static storage duration, attached to a zero MMU (interrupts disabled, ROM all NOPs).\<close>

definition static_cpu :: cpu_state where
  "static_cpu =
     \<lparr>cpu_f = 0, cpu_a = 0, cpu_c = 0, cpu_b = 0, cpu_e = 0, cpu_d = 0, cpu_l = 0, cpu_h = 0,
      cpu_sp = 0, cpu_pc = 0, cpu_ime = 0, cpu_ime_pending = 0, cpu_halted = 0, cpu_stopped = 0,
      cpu_cycles = 0, cpu_if_reg = 0, cpu_ie_reg = 0, cpu_jit_ret_pc = 0, cpu_mmu = static_mmu\<rparr>"

lemma quiet_service:
  "ie (cpu_mmu c) = 0 \<Longrightarrow> sm83_service_interrupts c = (0, service_entry c)"
  by (simp add: sm83_service_interrupts_def service_entry_def Let_def)

lemma quiet_tick:
  assumes "\<not> has (io m LCDC_REG) LCDC_ENABLE" "ppu_last_lcdc m = io m LCDC_REG" "timer_last_cycles m = now"
  shows "io (ppu_tick now m) = io m"
  using assms
  by (simp add: ppu_tick_def timer_tick_def ppu_advance_def ppu_recompute_next_event_def Let_def)

section \<open>The properties of the interpreter\<close>

text \<open>a step takes 4 to 24 cycles in steps of 4, and the cycle counter moves on by exactly the
  time that the step reports.\<close>

theorem step_time:
  "fst (sm83_step c) \<in> {4, 8, 12, 16, 20, 24}
   \<and> cpu_cycles (sm83_next c) = cpu_cycles c + ucast (fst (sm83_step c))"
  using sm83_step_time [of c] by (simp add: sm83_next_def step_times_def)

text \<open>C13: \<open>sm83_run_until\<close> returns whenever the target is at least 24 cycles below the end of the
  64-bit range: it makes steps while the counter is below the target, and stops with the first
  counter that is not, less than 24 cycles past it.\<close>

theorem run_until_returns:
  assumes "unat until + 24 \<le> 2 ^ 64"
  shows "\<exists>n. let c' = (sm83_next ^^ n) c in
           sm83_run_until until c = Some (cpu_cycles c' - cpu_cycles c, c')
         \<and> (\<forall>i<n. cpu_cycles ((sm83_next ^^ i) c) < until)
         \<and> until \<le> cpu_cycles c'
         \<and> (cpu_cycles c < until \<longrightarrow> unat (cpu_cycles c') < unat until + 24)"
proof -
  obtain n where n: "\<forall>i<n. cpu_cycles ((sm83_next ^^ i) c) < until"
      "until \<le> cpu_cycles ((sm83_next ^^ n) c)"
      "cpu_cycles c < until \<longrightarrow> unat (cpu_cycles ((sm83_next ^^ n) c)) < unat until + 24"
    using interp.reaches [OF assms, of c] by blast
  with run_loop_steps [OF n(1,2)] show ?thesis
    by (intro exI [of _ n]) (simp add: sm83_run_until_def Let_def)
qed

theorem run_until_returns_witness:
  "\<exists>n. let c' = (sm83_next ^^ n) static_cpu in
     sm83_run_until 100 static_cpu = Some (cpu_cycles c' - cpu_cycles static_cpu, c')
   \<and> (\<forall>i<n. cpu_cycles ((sm83_next ^^ i) static_cpu) < 100)
   \<and> 100 \<le> cpu_cycles c'
   \<and> (cpu_cycles static_cpu < 100 \<longrightarrow> unat (cpu_cycles c') < unat (100 :: u64) + 24)"
  by (rule run_until_returns) simp

text \<open>C8: the interrupt service brings the PPU and timer up to date and looks at IF and IE; with
  none of the five sources pending it does nothing else; a pending one wakes the CPU from HALT even
  with interrupts disabled; and with them enabled the lowest pending source is acknowledged: its IF
  bit and IME are cleared, PC is pushed and becomes the vector of the source, 20 cycles pass.\<close>

theorem interrupt_service:
  "let d = service_entry c; pending = cpu_if_reg d AND cpu_ie_reg d
   in if pending AND 0x1F = 0 then sm83_service_interrupts c = (0, d)
      else if cpu_ime c = 0 then sm83_service_interrupts c = (0, d\<lparr>cpu_halted := 0\<rparr>)
      else \<exists>i<5. bit pending i \<and> (\<forall>j<i. \<not> bit pending j) \<and>
        sm83_service_interrupts c =
          (20, d\<lparr>cpu_halted := 0, cpu_ime := 0, cpu_pc := 0x40 + 8 * of_nat i, cpu_sp := cpu_sp c - 2,
                 cpu_cycles := cpu_cycles c + 20,
                 cpu_mmu := mmu_write16 (cpu_cycles c) (cpu_sp c - 2) (cpu_pc c)
                   (io_put IF_REG (unset_bit i (cpu_if_reg d)) (cpu_mmu d))\<rparr>)"
proof -
  define d where "d = service_entry c"
  define pending where "pending = cpu_if_reg d AND cpu_ie_reg d"
  have h: "(if cpu_halted d \<noteq> 0 then d\<lparr>cpu_halted := 0\<rparr> else d) = d\<lparr>cpu_halted := 0\<rparr>" by simp
  have e: "sm83_service_interrupts c = (let p = pending AND 0x1F in if p = 0 then (0, d) else
      if cpu_ime c = 0 then (0, d\<lparr>cpu_halted := 0\<rparr>)
      else case find (\<lambda>i. p AND push_bit i 1 \<noteq> 0) [0..<5] of
           None \<Rightarrow> (0, d\<lparr>cpu_halted := 0, cpu_ime := 0\<rparr>)
         | Some i \<Rightarrow> (20, d\<lparr>cpu_halted := 0, cpu_ime := 0, cpu_pc := int_vector i, cpu_sp := cpu_sp c - 2,
                    cpu_cycles := cpu_cycles c + 20,
                    cpu_mmu := mmu_write16 (cpu_cycles c) (cpu_sp c - 2) (cpu_pc c)
                      (io_put IF_REG (cpu_if_reg d AND NOT (push_bit i 1)) (cpu_mmu d))\<rparr>))"
    by (auto simp: sm83_service_interrupts_def pending_def d_def service_entry_def Let_def and.assoc
        push16_def wr16_def split: option.split)
  show ?thesis
  proof (cases "pending AND 0x1F = 0 \<or> cpu_ime c = 0")
    case True
    with e show ?thesis unfolding Let_def d_def [symmetric] pending_def [symmetric] by (auto simp: Let_def)
  next
    case False
    then obtain i where i: "find (\<lambda>i. (pending AND 0x1F) AND push_bit i 1 \<noteq> 0) [0..<5] = Some i"
      "i < 5" "bit pending i" "\<forall>j<i. \<not> bit pending j"
      using find_pending [of pending] by metis
    moreover have "int_vector i = 0x40 + 8 * of_nat i"
      using i(2) by (auto simp: int_vector_def less_Suc_eq eval_nat_numeral)
    moreover have "cpu_if_reg d AND NOT (push_bit i 1) = unset_bit i (cpu_if_reg d)"
      by (simp add: unset_bit_eq_and_not)
    ultimately show ?thesis
      using False e unfolding Let_def d_def [symmetric] pending_def [symmetric] by (auto simp: Let_def)
  qed
qed

theorem interrupt_service_witness:
  "let c = static_cpu\<lparr>cpu_ime := 1, cpu_mmu := static_mmu\<lparr>io := (\<lambda>_. 0)(0x0F := 6), ie := 0xFF\<rparr>\<rparr>
   in \<exists>i<5. bit (6 :: u8) i \<and> (\<forall>j<i. \<not> bit (6 :: u8) j) \<and> fst (sm83_service_interrupts c) = 20
        \<and> cpu_pc (snd (sm83_service_interrupts c)) = 0x40 + 8 * of_nat i"
  using interrupt_service [of "static_cpu\<lparr>cpu_ime := 1, cpu_mmu := static_mmu\<lparr>io := (\<lambda>_. 0)(0x0F := 6), ie := 0xFF\<rparr>\<rparr>"]
  by (auto simp: Let_def service_entry_def quiet_tick static_cpu_def static_mmu_def has_def)

text \<open>C33: EI takes effect one instruction late: executed with nothing pending it leaves IME as it
  was and notes the request, and the step after a noted request ends with interrupts enabled.\<close>

theorem ei_delay:
  "(cpu_ime_pending c = 0 \<and> fst (sm83_service_interrupts c) = 0
      \<and> cpu_halted (snd (sm83_service_interrupts c)) = 0
      \<and> rd8 (cpu_pc c) (snd (sm83_service_interrupts c)) = 0xFB
    \<longrightarrow> cpu_ime_pending (sm83_next c) = 1 \<and> cpu_ime (sm83_next c) = cpu_ime (snd (sm83_service_interrupts c)))
   \<and> (cpu_ime_pending c \<noteq> 0 \<longrightarrow> cpu_ime (sm83_next c) = 1 \<and> cpu_ime_pending (sm83_next c) = 0)"
  using service_pc [of c]
  by (simp add: sm83_next_def sm83_step_def Let_def case_prod_beta ei_promote_def fetch8_def rd8_def
      exec_op_def exec_c0_def timed_def)

theorem ei_delay_witness:
  "(let c = static_cpu\<lparr>cpu_mmu := static_mmu\<lparr>rom := (\<lambda>_. 0xFB)\<rparr>\<rparr> in
      cpu_ime_pending (sm83_next c) = 1 \<and> cpu_ime (sm83_next c) = 0)
   \<and> cpu_ime (sm83_next (static_cpu\<lparr>cpu_ime_pending := 1\<rparr>)) = 1"
  using ei_delay [of "static_cpu\<lparr>cpu_mmu := static_mmu\<lparr>rom := (\<lambda>_. 0xFB)\<rparr>\<rparr>"]
    ei_delay [of "static_cpu\<lparr>cpu_ime_pending := 1\<rparr>"]
  by (simp add: quiet_service static_cpu_def static_mmu_def service_entry_def rd8_def mmu_read8_def Let_def)

text \<open>C34: DI right after EI does not disable interrupts: the request noted by EI is carried out
  after DI has run, so the step that executes DI ends with IME set.\<close>

theorem di_after_ei_is_lost:
  assumes "cpu_ime_pending c \<noteq> 0" "fst (sm83_service_interrupts c) = 0"
    "cpu_halted (snd (sm83_service_interrupts c)) = 0"
    "rd8 (cpu_pc c) (snd (sm83_service_interrupts c)) = 0xF3"
  shows "cpu_pc (sm83_next c) = cpu_pc c + 1 \<and> cpu_ime (sm83_next c) = 1"
  using assms service_pc [of c]
  by (simp add: sm83_next_def sm83_step_def Let_def case_prod_beta ei_promote_def fetch8_def rd8_def
      exec_op_def exec_c0_def timed_def)

theorem di_after_ei_is_lost_witness:
  "cpu_ime (sm83_next (static_cpu\<lparr>cpu_ime_pending := 1, cpu_mmu := static_mmu\<lparr>rom := (\<lambda>_. 0xF3)\<rparr>\<rparr>)) = 1"
  using di_after_ei_is_lost [of "static_cpu\<lparr>cpu_ime_pending := 1, cpu_mmu := static_mmu\<lparr>rom := (\<lambda>_. 0xF3)\<rparr>\<rparr>"]
  by (simp add: quiet_service static_cpu_def static_mmu_def service_entry_def rd8_def mmu_read8_def Let_def)

text \<open>C26: an instruction that does not end a basic block moves PC on by the length the decode table
  gives for its opcode: the fall-through address the block compiler assumes is the interpreter's.\<close>

theorem step_pc_advance:
  assumes "fst (sm83_service_interrupts c) = 0" "d = snd (sm83_service_interrupts c)"
    "cpu_halted d = 0" "op = rd8 (cpu_pc c) d" "\<not> sm83_terminates_block op"
  shows "cpu_pc (sm83_next c) = cpu_pc c + ucast (op_length (sm83_decode op))"
proof -
  have pc: "cpu_pc d = cpu_pc c" using assms(1,2) service_pc by simp
  have "cpu_pc (sm83_next c) = cpu_pc (snd (exec_op op (d\<lparr>cpu_pc := cpu_pc d + 1\<rparr>)))"
    using assms(1-4) pc by (simp add: sm83_next_def sm83_step_def Let_def case_prod_beta fetch8_def)
  with exec_op_pc [OF assms(5), of "d\<lparr>cpu_pc := cpu_pc d + 1\<rparr>"] pc show ?thesis by simp
qed

theorem step_pc_advance_witness:
  "cpu_pc (sm83_next static_cpu) = 0 + ucast (op_length (sm83_decode 0x00))"
  using step_pc_advance [of static_cpu "service_entry static_cpu" "0x00"]
  by (simp add: quiet_service static_cpu_def static_mmu_def service_entry_def rd8_def mmu_read8_def
      sm83_terminates_block_def op_info_def Let_def)

text \<open>C17: in every state that a run can reach, the low nibble of F is zero and the interrupt, HALT
  and STOP latches hold 0 or 1.\<close>

theorem reachable_ok: "reachable c \<Longrightarrow> flags_ok c \<and> latches_ok c"
proof (induction rule: reachable.induct)
  case (reset m c)
  then show ?case by (simp add: cpu_reset_def flags_ok_def latches_ok_def)
next
  case (step c)
  then show ?case using step_flags_ok [of c] by (simp add: latches_next flip: sm83_next_def)
next
  case (host c m)
  then show ?case by simp
qed

theorem reachable_ok_witness:
  "flags_ok (sm83_next (cpu_reset static_mmu static_cpu))
   \<and> latches_ok (sm83_next (cpu_reset static_mmu static_cpu))"
  by (rule reachable_ok) (intro reachable.intros)

text \<open>what \<open>push16\<close> puts on a stack in RAM, \<open>pop16\<close> takes off again, with SP back where it
  was: also in the echo area and across its ends.\<close>

theorem push_pop:
  assumes "plain_ram (cpu_sp c - 2)" "plain_ram (cpu_sp c - 1)"
  shows "fst (pop16 (push16 v c)) = v \<and> cpu_sp (snd (pop16 (push16 v c))) = cpu_sp c"
  using assms ram.read_write_word [of "cpu_sp c - 2" "cpu_cycles c" v "cpu_mmu c"]
  by (simp add: pop16_def push16_def rd16_def wr16_def mmu_read16_def mmu_write16_def Let_def
      mk16_def lo8_def hi8_def)

theorem push_pop_witness:
  "fst (pop16 (push16 0x1234 (static_cpu\<lparr>cpu_sp := 0xFFFE\<rparr>))) = 0x1234
   \<and> cpu_sp (snd (pop16 (push16 0x1234 (static_cpu\<lparr>cpu_sp := 0xFFFE\<rparr>)))) = 0xFFFE"
  using push_pop [of "static_cpu\<lparr>cpu_sp := 0xFFFE\<rparr>" "0x1234"] by (simp add: plain_ram_def Let_def)

end
