(* ===== verification/Daa.thy ===== *)
theory Daa
  imports Interp_Run
begin

text \<open>
  Decimal arithmetic: \<open>op_daa\<close> after an addition or subtraction with carry of two packed BCD
  numbers gives the packed BCD digits of the decimal result, and its carry.
\<close>

lemma has_flags_of [simp]:
  "has (flags_of z n h c) 0x80 = z" "has (flags_of z n h c) 0x40 = n"
  "has (flags_of z n h c) 0x20 = h" "has (flags_of z n h c) 0x10 = c"
  by (cases z; cases n; cases h; cases c; simp add: flags_of_def has_def)+

definition bcd :: "nat \<Rightarrow> u8" where
  "bcd n = of_nat (16 * (n div 10) + n mod 10)"

lemma bcd_digits: "r < 10 \<Longrightarrow> bcd (10 * q + r) = of_nat (16 * q + r)"
  by (simp add: bcd_def)

lemma bcd_wrap_add:
  assumes "T < 20" "r < (10 :: nat)"
  shows "(of_nat (16 * T + r) :: u8) + (if 10 \<le> T then 0x60 else 0) = bcd ((10 * T + r) mod 100)"
proof (cases "10 \<le> T")
  case True
  then obtain U where U: "T = U + 10" using le_Suc_ex by (metis add.commute)
  have "10 * T + r = (10 * U + r) + 100" using U by simp
  then have "(10 * T + r) mod 100 = 10 * U + r"
    using U assms by (simp only: mod_add_self2) simp
  moreover have "(of_nat (16 * T + r) :: u8) + 0x60 = of_nat (16 * U + r) + 256"
    by (simp add: U algebra_simps)
  ultimately show ?thesis using True assms by (simp add: bcd_digits)
next
  case False
  with assms show ?thesis by (simp add: bcd_digits)
qed

lemma bcd_wrap_sub:
  assumes "-10 \<le> T" "T < 10" "0 \<le> r" "r < (10 :: int)"
  shows "(of_int (16 * T + r) :: u8) - (if T < 0 then 0x60 else 0) = bcd (nat ((10 * T + r) mod 100))"
proof (cases "T < 0")
  case True
  define U where "U = nat (T + 10)"
  with assms True have U: "T = int U - 10" "U < 10" by auto
  have "10 * T + r = (10 * int U + r) + (- 1) * 100" using U by simp
  then have "(10 * T + r) mod 100 = 10 * int U + r"
    using U assms by (simp only: mod_mult_self1) simp
  moreover have "(of_int (16 * T + r) :: u8) - 0x60 = of_int (16 * int U + r) - 256"
    by (simp add: U algebra_simps)
  moreover have "bcd (nat (10 * int U + r)) = of_int (16 * int U + r)"
    using assms bcd_digits [of "nat r" U] by (simp add: nat_add_distrib nat_mult_distrib)
  moreover have "(256 :: u8) = 0" by simp
  ultimately show ?thesis using True by (simp only: if_True diff_zero)
next
  case False
  then have "(10 * T + r) mod 100 = 10 * T + r" using assms by simp
  then show ?thesis using False assms bcd_digits [of "nat r" "nat T"]
    by (simp add: nat_add_distrib nat_mult_distrib)
qed

lemma has_or [simp]: "has (a OR b) m \<longleftrightarrow> has a m \<or> has b m"
  by (simp add: has_def bit.conj_disj_distrib2 or_eq_0_iff)

lemma has_if [simp]: "has (if b then k else 0) m \<longleftrightarrow> b \<and> has k m"
  by (simp add: has_def)

lemma has_and_other [simp]: "has (a AND 0x40) 0x10 = False" "has (0x80 :: u8) 0x10 = False" "has (0x10 :: u8) 0x10"
  by (simp_all add: has_def and.assoc)

lemma low4_add_60 [simp]: "((w :: u8) + 0x60) AND 0xF = w AND 0xF"
proof -
  have "(unat w + 96) mod 256 mod 16 = (unat w + 6 * 16) mod 16"
    by (simp add: mod_mod_cancel)
  also have "\<dots> = unat w mod 16" by (rule mod_mult_self1)
  finally have "(unat w + 96) mod 256 mod 16 = unat w mod 16" .
  then show ?thesis
    by (intro word_unat_eq_iff [THEN iffD2]) (simp add: unat_low4 unat_word_ariths)
qed

lemma op_daa_add:
  assumes "cpu_f s = flags_of z False h c"
  shows "cpu_a (op_daa s) = cpu_a s + (if c \<or> 0x99 < cpu_a s then 0x60 else 0)
      + (if h \<or> 9 < cpu_a s AND 0xF then 0x06 else 0)"
    "has (cpu_f (op_daa s)) FLAG_C \<longleftrightarrow> c \<or> 0x99 < cpu_a s"
  by (simp_all add: op_daa_def Let_def assms)

lemma op_daa_sub:
  assumes "cpu_f s = flags_of z True h c"
  shows "cpu_a (op_daa s) = cpu_a s - (if c then 0x60 else 0) - (if h then 0x06 else 0)"
    "has (cpu_f (op_daa s)) FLAG_C \<longleftrightarrow> c"
  by (simp_all add: op_daa_def Let_def assms)

lemma add_right_commute_u8: "(a :: u8) + b + c = a + c + b"
  by simp

lemma alu_adc_a: "cpu_a (alu_adc v s) = ucast ((ucast (cpu_a s) :: u16) + ucast v + ucast (carry_in s))"
  by (simp add: alu_adc_def Let_def set_flags_def)

lemma alu_adc_f: "cpu_f (alu_adc v s) = flags_of (cpu_a (alu_adc v s) = 0) False
    (0xF < uint (cpu_a s AND 0xF) + uint (v AND 0xF) + uint (carry_in s))
    (0xFF < (ucast (cpu_a s) :: u16) + ucast v + ucast (carry_in s))"
  by (simp add: alu_adc_def Let_def set_flags_def)

lemma alu_sbc_f: "cpu_f (alu_sbc v s) = flags_of (cpu_a (alu_sbc v s) = 0) True
    (uint (cpu_a s AND 0xF) - uint (v AND 0xF) - uint (carry_in s) < 0)
    (uint (cpu_a s) - uint v - uint (carry_in s) < 0)"
  by (simp add: alu_sbc_def Let_def set_flags_def)

lemma daa_after_add:
  assumes a: "cpu_a s = of_nat (16 * t1 + t0)" and f: "cpu_f s = flags_of z False (15 < t0) (255 < 16 * t1 + t0)"
    and t: "t1 < (19 :: nat)" "t0 < 20"
  shows "cpu_a (op_daa s) = bcd ((10 * t1 + t0) mod 100)
    \<and> (has (cpu_f (op_daa s)) FLAG_C \<longleftrightarrow> 100 \<le> 10 * t1 + t0)"
proof -
  let ?a = "of_nat (16 * t1 + t0) :: u8"
  define q r where "q = (if 9 < t0 then t1 + 1 else t1)" and "r = (if 9 < t0 then t0 - 10 else t0)"
  have qr: "q < 20" "r < 10" "10 * t1 + t0 = 10 * q + r" "q < 10 \<longleftrightarrow> 10 * t1 + t0 < 100"
    using t by (auto simp: q_def r_def)
  have low: "15 < t0 \<or> 9 < ?a AND 0xF \<longleftrightarrow> 9 < t0"
  proof -
    have "9 < ?a AND 0xF \<longleftrightarrow> 9 < t0 mod 16"
      by (simp add: word_less_nat_alt unat_low4 unat_of_nat_u8 mod_mod_cancel del: of_nat_add of_nat_mult)
    then show ?thesis using t(2) by (cases "15 < t0") auto
  qed
  have carry: "255 < 16 * t1 + t0 \<or> 0x99 < ?a \<longleftrightarrow> 10 \<le> q"
    using t by (cases "255 < 16 * t1 + t0")
      (auto simp: q_def word_less_nat_alt unat_of_nat_u8 simp del: of_nat_add of_nat_mult)
  have "?a + (if 9 < t0 then 0x06 else 0) = of_nat (16 * q + r)"
    by (auto simp: q_def r_def of_nat_diff algebra_simps)
  then have "?a + (if 10 \<le> q then 0x60 else 0) + (if 9 < t0 then 0x06 else 0)
      = of_nat (16 * q + r) + (if 10 \<le> q then 0x60 else 0)"
    by (subst add_right_commute_u8) (simp only:)
  then have "?a + (if 10 \<le> q then 0x60 else 0) + (if 9 < t0 then 0x06 else 0) = bcd ((10 * t1 + t0) mod 100)"
    by (simp only: bcd_wrap_add [OF qr(1,2)] qr(3))
  then show ?thesis
    using qr(4) by (simp only: op_daa_add [OF f] a low carry) auto
qed

lemma daa_after_sub:
  assumes a: "cpu_a s = of_int (16 * t1 + t0)" and f: "cpu_f s = flags_of z True (t0 < 0) (16 * t1 + t0 < 0)"
    and t: "-9 \<le> t1" "t1 < (10 :: int)" "-10 \<le> t0" "t0 < 10"
  shows "cpu_a (op_daa s) = bcd (nat ((10 * t1 + t0) mod 100))
    \<and> (has (cpu_f (op_daa s)) FLAG_C \<longleftrightarrow> 10 * t1 + t0 < 0)"
proof -
  let ?a = "of_int (16 * t1 + t0) :: u8"
  define q r where "q = (if t0 < 0 then t1 - 1 else t1)" and "r = (if t0 < 0 then t0 + 10 else t0)"
  have qr: "-10 \<le> q" "q < 10" "0 \<le> r" "r < 10" "10 * t1 + t0 = 10 * q + r"
    using t by (auto simp: q_def r_def)
  have carry: "16 * t1 + t0 < 0 \<longleftrightarrow> q < 0" "10 * t1 + t0 < 0 \<longleftrightarrow> q < 0"
    using t by (auto simp: q_def)
  have "?a - (if t0 < 0 then 0x06 else 0) = of_int (16 * q + r)"
    by (auto simp: q_def r_def algebra_simps)
  then have "?a - (if q < 0 then 0x60 else 0) - (if t0 < 0 then 0x06 else 0) = bcd (nat ((10 * t1 + t0) mod 100))"
    using bcd_wrap_sub [OF qr(1-4)] qr(5) by (simp add: algebra_simps)
  then show ?thesis
    by (simp only: op_daa_sub [OF f] a carry)
qed

lemma unat_bcd:
  assumes "n < 100"
  shows "unat (bcd n) = 16 * (n div 10) + n mod 10" "unat (bcd n AND 0xF) = n mod 10"
proof -
  have "n div 10 \<le> 9" "n mod 10 \<le> 9" using assms by auto
  then have "16 * (n div 10) + n mod 10 < 256" by linarith
  then show u: "unat (bcd n) = 16 * (n div 10) + n mod 10"
    by (simp add: bcd_def unat_of_nat_u8 del: of_nat_add of_nat_mult)
  show "unat (bcd n AND 0xF) = n mod 10" by (simp add: unat_low4 u)
qed

lemma uint_bcd:
  assumes "n < 100"
  shows "uint (bcd n) = 16 * int (n div 10) + int (n mod 10)" "uint (bcd n AND 0xF) = int (n mod 10)"
  using unat_bcd [OF assms] by (simp_all add: uint_nat)

lemma ucast_of_nat_u8: "ucast (of_nat n :: u16) = (of_nat n :: u8)"
  by (simp add: unsigned_of_nat word_of_nat_eq_iff)

lemma carry_in_le: "unat (carry_in s) \<le> 1"
  by (simp add: carry_in_def)

lemma alu_adc_bcd:
  assumes "x < 100" "y < 100"
  shows "cpu_a (alu_adc (bcd y) (s\<lparr>cpu_a := bcd x\<rparr>))
       = of_nat (16 * (x div 10 + y div 10) + (x mod 10 + y mod 10 + unat (carry_in s)))"
    "\<exists>z. cpu_f (alu_adc (bcd y) (s\<lparr>cpu_a := bcd x\<rparr>))
       = flags_of z False (15 < x mod 10 + y mod 10 + unat (carry_in s))
           (255 < 16 * (x div 10 + y div 10) + (x mod 10 + y mod 10 + unat (carry_in s)))"
proof -
  let ?n = "16 * (x div 10 + y div 10) + (x mod 10 + y mod 10 + unat (carry_in s))"
  have c: "carry_in (s\<lparr>cpu_a := bcd x\<rparr>) = carry_in s" by (simp add: carry_in_def)
  have a: "cpu_a (s\<lparr>cpu_a := bcd x\<rparr>) = bcd x" by simp
  have n: "unat (bcd x) + unat (bcd y) + unat (carry_in s) = ?n"
    by (simp add: unat_bcd assms)
  have r: "(ucast (bcd x) :: u16) + ucast (bcd y) + ucast (carry_in s) = of_nat ?n"
    unfolding n [symmetric] by simp
  have "x div 10 \<le> 9" "y div 10 \<le> 9" using assms by auto
  then have "?n < 65536" using carry_in_le [of s] by (simp add: add_less_le_mono)
  then have f: "(0xFF :: u16) < of_nat ?n \<longleftrightarrow> 255 < ?n"
    by (simp add: word_less_nat_alt unat_of_nat take_bit_eq_mod del: of_nat_add of_nat_mult)
  show "cpu_a (alu_adc (bcd y) (s\<lparr>cpu_a := bcd x\<rparr>)) = of_nat ?n"
    by (simp only: alu_adc_a a c r ucast_of_nat_u8)
  have h: "0xF < uint (bcd x AND 0xF) + uint (bcd y AND 0xF) + uint (carry_in s)
      \<longleftrightarrow> 15 < x mod 10 + y mod 10 + unat (carry_in s)"
    by (simp only: uint_nat unat_bcd assms) linarith
  show "\<exists>z. cpu_f (alu_adc (bcd y) (s\<lparr>cpu_a := bcd x\<rparr>))
       = flags_of z False (15 < x mod 10 + y mod 10 + unat (carry_in s)) (255 < ?n)"
    by (intro exI, simp only: alu_adc_f a c r f h)
qed

lemma alu_sbc_bcd:
  assumes "x < 100" "y < 100"
  shows "cpu_a (alu_sbc (bcd y) (s\<lparr>cpu_a := bcd x\<rparr>))
       = of_int (16 * (int (x div 10) - int (y div 10)) + (int (x mod 10) - int (y mod 10) - uint (carry_in s)))"
    "\<exists>z. cpu_f (alu_sbc (bcd y) (s\<lparr>cpu_a := bcd x\<rparr>))
       = flags_of z True (int (x mod 10) - int (y mod 10) - uint (carry_in s) < 0)
           (16 * (int (x div 10) - int (y div 10)) + (int (x mod 10) - int (y mod 10) - uint (carry_in s)) < 0)"
proof -
  have c: "carry_in (s\<lparr>cpu_a := bcd x\<rparr>) = carry_in s" by (simp add: carry_in_def)
  have e: "uint (bcd x) - uint (bcd y) - uint (carry_in s)
      = 16 * (int (x div 10) - int (y div 10)) + (int (x mod 10) - int (y mod 10) - uint (carry_in s))"
    by (simp add: uint_bcd assms)
  show "cpu_a (alu_sbc (bcd y) (s\<lparr>cpu_a := bcd x\<rparr>))
       = of_int (16 * (int (x div 10) - int (y div 10)) + (int (x mod 10) - int (y mod 10) - uint (carry_in s)))"
    by (simp add: alu_sbc_def Let_def c e set_flags_def del: of_int_add of_int_diff of_int_mult)
  show "\<exists>z. cpu_f (alu_sbc (bcd y) (s\<lparr>cpu_a := bcd x\<rparr>))
       = flags_of z True (int (x mod 10) - int (y mod 10) - uint (carry_in s) < 0)
           (16 * (int (x div 10) - int (y div 10)) + (int (x mod 10) - int (y mod 10) - uint (carry_in s)) < 0)"
    by (intro exI, subst alu_sbc_f) (simp add: c e uint_bcd(2) assms)
qed

section \<open>The properties of DAA\<close>

text \<open>C12: ADC then DAA is decimal addition: for packed BCD operands below 100 the accumulator ends
  with the two digits of the sum (with the carry in), and carry is set when the sum reaches 100.\<close>

theorem daa_decimal_add:
  assumes "x < 100" "y < 100"
  shows "let n = x + y + unat (carry_in s); s' = op_daa (alu_adc (bcd y) (s\<lparr>cpu_a := bcd x\<rparr>))
         in cpu_a s' = bcd (n mod 100) \<and> (has (cpu_f s') FLAG_C \<longleftrightarrow> 100 \<le> n)"
proof -
  let ?t1 = "x div 10 + y div 10" and ?t0 = "x mod 10 + y mod 10 + unat (carry_in s)"
  obtain z where f: "cpu_f (alu_adc (bcd y) (s\<lparr>cpu_a := bcd x\<rparr>))
      = flags_of z False (15 < ?t0) (255 < 16 * ?t1 + ?t0)"
    using alu_adc_bcd(2) [OF assms] by blast
  have "x div 10 \<le> 9" "y div 10 \<le> 9" "x mod 10 \<le> 9" "y mod 10 \<le> 9" using assms by auto
  then have t: "?t1 < 19" "?t0 < 20" using carry_in_le [of s] by linarith+
  have n: "10 * ?t1 + ?t0 = x + y + unat (carry_in s)" by simp
  show ?thesis
    using daa_after_add [OF alu_adc_bcd(1) [OF assms] f t] by (simp only: n Let_def)
qed

theorem daa_decimal_add_witness:
  "let n = 58 + 67 + unat (carry_in static_cpu);
       s' = op_daa (alu_adc (bcd 67) (static_cpu\<lparr>cpu_a := bcd 58\<rparr>))
   in cpu_a s' = bcd (n mod 100) \<and> (has (cpu_f s') FLAG_C \<longleftrightarrow> 100 \<le> n)"
  by (rule daa_decimal_add) simp_all

text \<open>C31: SBC then DAA is decimal subtraction: the accumulator ends with the two digits of the
  difference modulo 100, and carry is set when a decimal borrow was needed.\<close>

theorem daa_decimal_sub:
  assumes "x < 100" "y < 100"
  shows "let n = int x - int y - uint (carry_in s); s' = op_daa (alu_sbc (bcd y) (s\<lparr>cpu_a := bcd x\<rparr>))
         in cpu_a s' = bcd (nat (n mod 100)) \<and> (has (cpu_f s') FLAG_C \<longleftrightarrow> n < 0)"
proof -
  let ?t1 = "int (x div 10) - int (y div 10)" and ?t0 = "int (x mod 10) - int (y mod 10) - uint (carry_in s)"
  obtain z where f: "cpu_f (alu_sbc (bcd y) (s\<lparr>cpu_a := bcd x\<rparr>))
      = flags_of z True (?t0 < 0) (16 * ?t1 + ?t0 < 0)"
    using alu_sbc_bcd(2) [OF assms] by blast
  have "x div 10 \<le> 9" "y div 10 \<le> 9" "x mod 10 \<le> 9" "y mod 10 \<le> 9" using assms by auto
  moreover have "0 \<le> uint (carry_in s)" "uint (carry_in s) \<le> 1" by (simp_all add: carry_in_def)
  ultimately have t: "-9 \<le> ?t1" "?t1 < 10" "-10 \<le> ?t0" "?t0 < 10" by linarith+
  have "10 * int (x div 10) + int (x mod 10) = int x" "10 * int (y div 10) + int (y mod 10) = int y"
    by presburger+
  moreover have "10 * (a - b) + (p - q - c) = (10 * a + p) - (10 * b + q) - c" for a b c p q :: int
    by simp
  ultimately have n: "10 * ?t1 + ?t0 = int x - int y - uint (carry_in s)" by (simp only:)
  show ?thesis
    using daa_after_sub [OF alu_sbc_bcd(1) [OF assms] f t] by (simp only: n Let_def)
qed

theorem daa_decimal_sub_witness:
  "let n = int 12 - int 34 - uint (carry_in static_cpu);
       s' = op_daa (alu_sbc (bcd 34) (static_cpu\<lparr>cpu_a := bcd 12\<rparr>))
   in cpu_a s' = bcd (nat (n mod 100)) \<and> (has (cpu_f s') FLAG_C \<longleftrightarrow> n < 0)"
  by (rule daa_decimal_sub) simp_all

end
