(* ===== verification/Render_Laws.thy ===== *)
theory Render_Laws
  imports Ppu_Render "HOL-Library.Multiset"
begin

text \<open>
  What the renderer draws. \<open>paint\<close> fills a stretch of the line with colour numbers and their
  shades; the loops of the background, the table-driven background and the window are all shown
  to paint \<open>line_cid\<close>, the sprites to cover it by the first object that shows. The tables are
  correct when \<open>luts_built\<close> holds, the sort is a stable sort by \<open>x\<close>, and nothing outside
  VRAM and OAM is looked at.
\<close>

section \<open>Painting a stretch of the line\<close>

definition paint :: "u8 \<Rightarrow> u8 array \<Rightarrow> nat \<Rightarrow> nat \<Rightarrow> nat \<Rightarrow> scan \<Rightarrow> scan" where
  "paint bgp f base a b s =
     ((\<lambda>i. if base + a \<le> i \<and> i < base + b then shade bgp (unat (f (i - base))) else fst s i),
      (\<lambda>i. if a \<le> i \<and> i < b then f i else snd s i))"

lemma paint_empty [simp]: "b \<le> a \<Longrightarrow> paint bgp f base a b s = s"
  by (auto simp: paint_def prod_eq_iff fun_eq_iff)

lemma paint_paint: "a \<le> b \<Longrightarrow> b \<le> c \<Longrightarrow> paint bgp f base b c (paint bgp f base a b s) = paint bgp f base a c s"
  by (auto simp: paint_def fun_eq_iff)

lemma paint_cong: "(\<And>i. a \<le> i \<Longrightarrow> i < b \<Longrightarrow> f i = g i) \<Longrightarrow> paint bgp f base a b s = paint bgp g base a b s"
  by (auto simp: paint_def fun_eq_iff)

lemma paint_one:
  "paint bgp f base a (Suc a) (fb, cids) = (fb(base + a := shade bgp (unat (f a))), cids(a := f a))"
  by (auto simp: paint_def fun_eq_iff le_less_Suc_eq)

lemma px_span_paint:
  assumes "x \<le> 160"
  shows "px_span b0 b1 bgp base pc x (c :: 'c::semiring_1) s =
    (let k = min (8 - pc) (160 - x)
     in (x + k, c + of_nat k, paint bgp (\<lambda>i. cid_of b0 b1 (7 - (pc + (i - x)))) base x (x + k) s))"
  using assms
proof (induction b0 b1 bgp base pc x c s rule: px_span.induct)
  case (1 b0 b1 bgp base pc x c fb cids)
  show ?case
  proof (cases "pc < 8 \<and> x < 160")
    case False
    then show ?thesis using "1.prems" by (subst px_span.simps) (auto simp: Let_def)
  next
    case True
    define k where "k = min (8 - (pc + 1)) (160 - (x + 1))"
    have k: "min (8 - pc) (160 - x) = k + 1" using True by (auto simp: k_def)
    have "px_span b0 b1 bgp base pc x c (fb, cids) = px_span b0 b1 bgp base (pc + 1) (x + 1) (c + 1)
        (paint bgp (\<lambda>i. cid_of b0 b1 (7 - (pc + (i - x)))) base x (x + 1) (fb, cids))"
      using True by (subst px_span.simps) (simp add: Let_def paint_one)
    also have "\<dots> = (x + 1 + k, c + 1 + of_nat k,
        paint bgp (\<lambda>i. cid_of b0 b1 (7 - (pc + 1 + (i - (x + 1))))) base (x + 1) (x + 1 + k)
          (paint bgp (\<lambda>i. cid_of b0 b1 (7 - (pc + (i - x)))) base x (x + 1) (fb, cids)))"
      using True "1.IH" [OF True refl] by (simp add: Let_def k_def paint_one)
    also have "paint bgp (\<lambda>i. cid_of b0 b1 (7 - (pc + 1 + (i - (x + 1))))) base (x + 1) (x + 1 + k) t
        = paint bgp (\<lambda>i. cid_of b0 b1 (7 - (pc + (i - x)))) base (x + 1) (x + 1 + k) t" for t
      by (rule paint_cong) (auto intro!: arg_cong [where f = "cid_of b0 b1"])
    finally show ?thesis
      by (simp add: k Let_def paint_paint add_ac)
  qed
qed

section \<open>The background, pixel by pixel\<close>

text \<open>The colour number the background shows at scrolled column \<open>c\<close> of line \<open>ly\<close>.\<close>

definition bg_cid :: "mmu \<Rightarrow> u8 \<Rightarrow> u8 \<Rightarrow> u8" where
  "bg_cid m ly c = (let b = bg_bytes m ly c in cid_of (fst b) (snd b) (7 - unat (c AND 7)))"

lemma within_8:
  assumes "c mod 8 + n < (8 :: nat)"
  shows "(c + n) div 8 = c div 8" "(c + n) mod 8 = c mod 8 + n"
proof -
  have "c + n = (c mod 8 + n) + (c div 8) * 8" by simp
  then show "(c + n) div 8 = c div 8" "(c + n) mod 8 = c mod 8 + n"
    using assms by (simp_all only: div_mult_self1 mod_mult_self1) simp_all
qed

lemma tile_col_same:
  assumes "unat (c AND 7) + n < 8"
  shows "drop_bit 3 (c + of_nat n :: u8) = drop_bit 3 c" "unat ((c + of_nat n) AND 7) = unat (c AND 7) + n"
proof -
  from assms have n: "unat c mod 8 + n < 8" by (simp add: unat_low3)
  moreover have "unat c div 8 < 32" by (simp add: div_less_iff_less_mult)
  moreover have "unat c = 8 * (unat c div 8) + unat c mod 8" by simp
  ultimately have "unat c + n < 256" by linarith
  then have u: "unat (c + of_nat n) = unat c + n"
    by (simp only: unat_add_u8 unat_of_nat_u8 mod_add_right_eq mod_less)
  show "drop_bit 3 (c + of_nat n) = drop_bit 3 c"
    by (simp add: word_unat_eq_iff u drop_bit_eq_div unat_div within_8 [OF n])
  show "unat ((c + of_nat n) AND 7) = unat (c AND 7) + n"
    by (simp add: unat_low3 u within_8 [OF n])
qed

lemma bg_cid_tile:
  assumes "unat (c AND 7) + n < 8"
  shows "bg_cid m ly (c + of_nat n)
       = cid_of (fst (bg_bytes m ly c)) (snd (bg_bytes m ly c)) (7 - (unat (c AND 7) + n))"
  using tile_col_same [OF assms] by (simp add: bg_cid_def Let_def bg_bytes_def)

definition bg_line :: "mmu \<Rightarrow> u8 \<Rightarrow> u8 \<Rightarrow> nat \<Rightarrow> u8 array" where
  "bg_line m ly c x i = bg_cid m ly (c + of_nat (i - x))"

lemma bg_tile_span:
  assumes "x \<le> 160" "pc = unat (c AND 7)"
  shows "px_span (fst (bg_bytes m ly c)) (snd (bg_bytes m ly c)) bgp base pc x c s =
    (let k = min (8 - pc) (160 - x) in (x + k, c + of_nat k, paint bgp (bg_line m ly c x) base x (x + k) s))"
proof -
  have "paint bgp (\<lambda>i. cid_of (fst (bg_bytes m ly c)) (snd (bg_bytes m ly c)) (7 - (pc + (i - x)))) base x
      (x + min (8 - pc) (160 - x)) s = paint bgp (bg_line m ly c x) base x (x + min (8 - pc) (160 - x)) s"
    by (rule paint_cong) (simp only: bg_line_def assms(2), rule bg_cid_tile [symmetric], simp)
  then show ?thesis by (simp only: px_span_paint [OF assms(1)] Let_def)
qed

lemma bg_line_shift: "x + k \<le> i \<Longrightarrow> bg_line m ly (c + of_nat k) (x + k) i = bg_line m ly c x i"
proof -
  assume "x + k \<le> i"
  then have "i - x = k + (i - (x + k))" by simp
  then show ?thesis by (simp only: bg_line_def of_nat_add add.assoc)
qed

lemma paint_bg_line_shift:
  "paint bgp (bg_line m ly (c + of_nat k) (x + k)) base (x + k) e s = paint bgp (bg_line m ly c x) base (x + k) e s"
  by (rule paint_cong) (simp add: bg_line_shift)

lemma next_tile_aligned: "unat ((c :: u8) + of_nat (8 - unat (c AND 7)) AND 7) = 0"
proof -
  have "unat c + (8 - unat c mod 8) = 8 * (unat c div 8 + 1)" 
  proof -
    have "b < 8 \<Longrightarrow> 8 * a + b = c \<Longrightarrow> c + (8 - b) = 8 * (a + 1)" for a b c :: nat
      by auto
    from this [OF mod_less_divisor mult_div_mod_eq] show ?thesis by simp
  qed
  then have "(unat c + (8 - unat c mod 8)) mod 8 = 0" by (simp only: mod_mult_self1_is_0)
  then show ?thesis
    by (simp only: unat_low3 unat_add_u8 unat_of_nat_u8 mod_add_right_eq) (simp add: mod_mod_cancel)
qed

lemma bg_slow_paint:
  assumes "x \<le> 160" "x < 160 \<longrightarrow> pc = unat (c AND 7)"
  shows "bg_slow m ly base pc x c s = paint (io m BGP_REG) (bg_line m ly c x) base x 160 s"
  using assms
proof (induction m ly base pc x c s rule: bg_slow.induct)
  case (1 m ly base pc x c s)
  show ?case
  proof (cases "x < 160")
    case False
    then show ?thesis using "1.prems" by (subst bg_slow.simps) simp
  next
    case True
    with "1.prems" have pc: "pc = unat (c AND 7)" "pc < 8" by (simp_all add: unat_low3)
    define k where "k = min (8 - pc) (160 - x)"
    let ?p = "paint (io m BGP_REG) (bg_line m ly c x) base"
    have span: "px_span (fst (bg_bytes m ly c)) (snd (bg_bytes m ly c)) (io m BGP_REG) base pc x c s
        = (x + k, c + of_nat k, ?p x (x + k) s)"
      using bg_tile_span [OF "1.prems"(1) pc(1)] by (simp only: Let_def k_def)
    have "x + k < 160 \<longrightarrow> 0 = unat (c + of_nat k AND 7)"
      using next_tile_aligned [of c] pc(1) by (auto simp: k_def min_def)
    moreover have le: "x + k \<le> 160" using True by (simp add: k_def)
    ultimately have "bg_slow m ly base 0 (x + k) (c + of_nat k) (?p x (x + k) s)
        = paint (io m BGP_REG) (bg_line m ly (c + of_nat k) (x + k)) base (x + k) 160 (?p x (x + k) s)"
      using "1.IH" [OF True, of "fst (bg_bytes m ly c)" "snd (bg_bytes m ly c)" "x + k" "(c + of_nat k, ?p x (x + k) s)"
          "c + of_nat k" "?p x (x + k) s"] span by simp
    with True span le show ?thesis
      by (subst bg_slow.simps) (simp add: case_prod_beta paint_bg_line_shift paint_paint)
  qed
qed

section \<open>The lookup tables\<close>

lemma one_bit: "drop_bit n (w :: 'a::len word) AND 1 = of_bool (bit w n)"
  by (rule bit_word_eqI) (auto simp: bit_simps)

lemma cid_of_bits: "cid_of b0 b1 n = push_bit 1 (of_bool (bit b1 n)) OR of_bool (bit b0 n)"
  by (simp only: cid_of_def one_bit)

lemma cid_le_3: "unat (cid_of b0 b1 n) < 4"
  by (simp add: cid_of_bits of_bool_def)

lemma bg_cid_entry_bytes:
  "bg_cid_entry n0 n1 = ucast (cid_of (of_nat n0) (of_nat n1) 3)
     OR push_bit 8 (ucast (cid_of (of_nat n0) (of_nat n1) 2))
     OR push_bit 16 (ucast (cid_of (of_nat n0) (of_nat n1) 1))
     OR push_bit 24 (ucast (cid_of (of_nat n0) (of_nat n1) 0))"
proof -
  have "ucast (push_bit 1 (drop_bit k (of_nat n1) AND 1) OR (drop_bit k (of_nat n0) AND 1) :: u32)
      = cid_of (of_nat n0) (of_nat n1) k" if "k < 4" for k
  proof -
    have "bit (of_nat n :: u32) k \<longleftrightarrow> bit (of_nat n :: u8) k" for n using that by (simp add: bit_simps)
    then show ?thesis by (simp only: cid_of_bits one_bit) (simp add: of_bool_def)
  qed
  then show ?thesis
    by (simp add: bg_cid_entry_def upt_rec Let_def or.assoc)
qed


lemma word8_byte: 
  "ucast (drop_bit 0 (ucast a OR push_bit 8 (ucast b) OR push_bit 16 (ucast c) OR push_bit 24 (ucast d) :: u32)) = (a :: u8)"
  "ucast (drop_bit 8 (ucast a OR push_bit 8 (ucast b) OR push_bit 16 (ucast c) OR push_bit 24 (ucast d) :: u32)) = (b :: u8)"
  "ucast (drop_bit 16 (ucast a OR push_bit 8 (ucast b) OR push_bit 16 (ucast c) OR push_bit 24 (ucast d) :: u32)) = (c :: u8)"
  "ucast (drop_bit 24 (ucast a OR push_bit 8 (ucast b) OR push_bit 16 (ucast c) OR push_bit 24 (ucast d) :: u32)) = (d :: u8)"
  by (rule bit_word_eqI, auto simp: bit_simps)+

definition pack4 :: "u8 \<Rightarrow> u8 \<Rightarrow> u8 \<Rightarrow> u8 \<Rightarrow> u32" where
  "pack4 a b c d = ucast a OR push_bit 8 (ucast b) OR push_bit 16 (ucast c) OR push_bit 24 (ucast d)"

lemma memcpy4_pack4: "memcpy4 f i (pack4 a b c d) = f(i := a, i + 1 := b, i + 2 := c, i + 3 := d)"
  using word8_byte [of a b c d] by (simp add: memcpy4_def pack4_def)

lemma low2_of_byte: "unat ((w :: u32) AND 3) = unat (ucast w :: u8) mod 4"
proof -
  have "w AND 3 = take_bit 2 w" by (simp add: take_bit_eq_mask mask_eq_exp_minus_1)
  then have "unat (w AND 3) = unat w mod 4" by (simp add: take_bit_eq_mod unat_mod)
  then show ?thesis by (simp add: unsigned_ucast_eq unsigned_take_bit_eq take_bit_eq_mod mod_mod_cancel)
qed

lemma pack4_low2:
  assumes "unat a < 4" "unat b < 4" "unat c < 4" "unat d < 4"
  shows "unat (drop_bit 0 (pack4 a b c d) AND 3) = unat a" "unat (drop_bit 8 (pack4 a b c d) AND 3) = unat b"
    "unat (drop_bit 16 (pack4 a b c d) AND 3) = unat c" "unat (drop_bit 24 (pack4 a b c d) AND 3) = unat d"
  by (simp_all only: low2_of_byte pack4_def word8_byte) (simp_all add: assms)

lemma bg_cid_entry_pack4:
  "bg_cid_entry n0 n1 = (let f = cid_of (of_nat n0) (of_nat n1) in pack4 (f 3) (f 2) (f 1) (f 0))"
  by (simp only: bg_cid_entry_bytes pack4_def Let_def)

lemma bg_shade_entry_pack4:
  "bg_shade_entry bgp (bg_cid_entry n0 n1) =
     (let f = \<lambda>i. shade bgp (unat (cid_of (of_nat n0) (of_nat n1) i)) in pack4 (f 3) (f 2) (f 1) (f 0))"
  unfolding bg_cid_entry_pack4 Let_def bg_shade_entry_def
  by (simp only: pack4_low2 cid_le_3) (simp only: pack4_def)

lemma cid_of_nibbles:
  assumes "k < 4"
  shows "cid_of (of_nat (unat (drop_bit 4 b0))) (of_nat (unat (drop_bit 4 b1))) k = cid_of b0 b1 (4 + k)"
    "cid_of (of_nat (unat (b0 AND 0xF))) (of_nat (unat (b1 AND 0xF))) k = cid_of b0 b1 k"
  using assms by (simp_all add: cid_of_bits low_mask4 bit_simps add.commute)

lemma nibble_less: "unat (drop_bit 4 (b :: u8)) < 16" "unat (b AND 0xF) < 16"
  by (simp_all add: unat_low4 unat_div div_less_iff_less_mult drop_bit_eq_div)

text \<open>What the two tables hold once they have been built for the palette \<open>bgp\<close>.\<close>

definition luts_for :: "u8 \<Rightarrow> ppu_luts \<Rightarrow> bool" where
  "luts_for bgp L \<longleftrightarrow> (\<forall>b0<16. \<forall>b1<16. bg_cid_lut L b0 b1 = bg_cid_entry b0 b1
     \<and> bg_shade_lut L b0 b1 = bg_shade_entry bgp (bg_cid_entry b0 b1))"

lemma paint_eight:
  assumes "\<forall>j<8. f (x + j) = g j"
  shows "paint bgp f base x (x + 8) (fb, cids) =
   (fb(base + x := shade bgp (unat (g 0)), base + x + 1 := shade bgp (unat (g 1)),
       base + x + 2 := shade bgp (unat (g 2)), base + x + 3 := shade bgp (unat (g 3)),
       base + x + 4 := shade bgp (unat (g 4)), base + x + 5 := shade bgp (unat (g 5)),
       base + x + 6 := shade bgp (unat (g 6)), base + x + 7 := shade bgp (unat (g 7))),
    cids(x := g 0, x + 1 := g 1, x + 2 := g 2, x + 3 := g 3,
         x + 4 := g 4, x + 5 := g 5, x + 6 := g 6, x + 7 := g 7))"
proof -
  have r: "a \<le> i \<and> i < a + 8 \<longleftrightarrow> i = a \<or> i = a + 1 \<or> i = a + 2 \<or> i = a + 3 \<or> i = a + 4 \<or> i = a + 5
      \<or> i = a + 6 \<or> i = a + 7" for a i :: nat by auto
  have f: "f x = g 0" "f (x + 1) = g 1" "f (x + 2) = g 2" "f (x + 3) = g 3" "f (x + 4) = g 4"
      "f (x + 5) = g 5" "f (x + 6) = g 6" "f (x + 7) = g 7"
    using assms [rule_format, of 0] assms [rule_format, of 1] assms [rule_format, of 2] assms
    by simp_all
  then have f': "f (Suc x) = g (Suc 0)" "f (Suc (Suc x)) = g 2" by simp_all
  show ?thesis
    by (simp add: paint_def prod_eq_iff fun_eq_iff r add.assoc [symmetric] f f')
qed

lemma aligned_tile:
  assumes L: "luts_for (io m BGP_REG) L" and al: "unat (c AND 7) = 0"
    and b: "bg_bytes m ly c = (b0, b1)"
  shows "(memcpy4 (memcpy4 fb (base + x) (bg_shade_lut L (unat (drop_bit 4 b0)) (unat (drop_bit 4 b1))))
            (base + (x + 4)) (bg_shade_lut L (unat (b0 AND 0xF)) (unat (b1 AND 0xF))),
          memcpy4 (memcpy4 cids x (bg_cid_lut L (unat (drop_bit 4 b0)) (unat (drop_bit 4 b1))))
            (x + 4) (bg_cid_lut L (unat (b0 AND 0xF)) (unat (b1 AND 0xF))))
       = paint (io m BGP_REG) (bg_line m ly c x) base x (x + 8) (fb, cids)"
proof -
  have f: "\<forall>j<8. bg_line m ly c x (x + j) = cid_of b0 b1 (7 - j)"
    using al bg_cid_tile [of c _ m ly] by (simp add: bg_line_def b)
  have L': "bg_cid_lut L h0 h1 = bg_cid_entry h0 h1"
      "bg_shade_lut L h0 h1 = bg_shade_entry (io m BGP_REG) (bg_cid_entry h0 h1)"
    if "h0 < 16" "h1 < 16" for h0 h1 using L that by (simp_all add: luts_for_def)
  let ?f = "cid_of b0 b1" and ?g = "\<lambda>i. shade (io m BGP_REG) (unat (cid_of b0 b1 i))"
  have r: "of_nat (unat w) = w" for w :: u8 by simp
  have nib: "cid_of (drop_bit 4 b0) (drop_bit 4 b1) 3 = ?f 7" "cid_of (drop_bit 4 b0) (drop_bit 4 b1) 2 = ?f 6"
      "cid_of (drop_bit 4 b0) (drop_bit 4 b1) 1 = ?f 5" "cid_of (drop_bit 4 b0) (drop_bit 4 b1) 0 = ?f 4"
      "cid_of (b0 AND 0xF) (b1 AND 0xF) 3 = ?f 3" "cid_of (b0 AND 0xF) (b1 AND 0xF) 2 = ?f 2"
      "cid_of (b0 AND 0xF) (b1 AND 0xF) 1 = ?f 1" "cid_of (b0 AND 0xF) (b1 AND 0xF) 0 = ?f 0"
    using cid_of_nibbles [of 3 b0 b1] cid_of_nibbles [of 2 b0 b1] cid_of_nibbles [of 1 b0 b1]
      cid_of_nibbles [of 0 b0 b1] by simp_all
  have "bg_shade_lut L (unat (drop_bit 4 b0)) (unat (drop_bit 4 b1)) = pack4 (?g 7) (?g 6) (?g 5) (?g 4)"
      "bg_shade_lut L (unat (b0 AND 0xF)) (unat (b1 AND 0xF)) = pack4 (?g 3) (?g 2) (?g 1) (?g 0)"
    by (simp_all only: L' nibble_less bg_shade_entry_pack4 Let_def r nib)
  moreover have "bg_cid_lut L (unat (drop_bit 4 b0)) (unat (drop_bit 4 b1)) = pack4 (?f 7) (?f 6) (?f 5) (?f 4)"
      "bg_cid_lut L (unat (b0 AND 0xF)) (unat (b1 AND 0xF)) = pack4 (?f 3) (?f 2) (?f 1) (?f 0)"
    by (simp_all only: L' nibble_less bg_cid_entry_pack4 Let_def r nib)
  ultimately show ?thesis
    unfolding paint_eight [OF f]
    by (simp add: memcpy4_pack4 add_ac)
qed

lemma bg_aligned_paint:
  assumes "x \<le> 160" "unat (c AND 7) = 0" "luts_for (io m BGP_REG) L"
  shows "bg_aligned m L ly base x c s =
    (let k = 8 * ((160 - x) div 8)
     in (x + k, c + of_nat k, paint (io m BGP_REG) (bg_line m ly c x) base x (x + k) s))"
  using assms
proof (induction m L ly base x c s rule: bg_aligned.induct)
  case (1 m L ly base x c fb cids)
  show ?case
  proof (cases "x + 8 \<le> 160")
    case False
    then have "(160 - x) div 8 = 0" using "1.prems" by simp
    with False show ?thesis by (subst bg_aligned.simps) simp
  next
    case True
    obtain b0 b1 where b: "bg_bytes m ly c = (b0, b1)" by (cases "bg_bytes m ly c")
    define k where "k = 8 * ((160 - (x + 8)) div 8)"
    let ?p = "paint (io m BGP_REG) (bg_line m ly c x) base"
    have k: "8 * ((160 - x) div 8) = 8 + k"
    proof -
      have "160 - x = (160 - (x + 8)) + 8" using True by simp
      then have "(160 - x) div 8 = ((160 - (x + 8)) + 8) div 8" by (rule arg_cong)
      also have "\<dots> = (160 - (x + 8)) div 8 + 1" by (rule div_add_self2) simp
      finally show ?thesis by (simp only: k_def distrib_left mult_1_right add.commute)
    qed
    have c: "c + 8 = c + of_nat 8" by simp
    have al: "unat (c + 8 AND 7) = 0"
    proof -
      have "(8 :: nat) dvd 256" "unat (8 :: u8) = 8" by simp_all
      with "1.prems"(2) show ?thesis
        by (simp only: unat_low3 unat_add_u8 mod_mod_cancel mod_add_self2)
    qed
    have "bg_aligned m L ly base x c (fb, cids) = bg_aligned m L ly base (x + 8) (c + 8) (?p x (x + 8) (fb, cids))"
      using True aligned_tile [OF "1.prems"(3,2) b, symmetric]
      by (subst bg_aligned.simps) (simp only: b Let_def prod.case if_True)
    also have "\<dots> = (x + 8 + k, c + 8 + of_nat k,
        paint (io m BGP_REG) (bg_line m ly (c + 8) (x + 8)) base (x + 8) (x + 8 + k) (?p x (x + 8) (fb, cids)))"
      using "1.IH" [OF True b [symmetric] refl refl refl refl refl refl] True al "1.prems"(3)
      by (simp only: aligned_tile [OF "1.prems"(3,2) b] Let_def k_def)
    also have "\<dots> = (x + (8 + k), c + of_nat (8 + k), ?p x (x + (8 + k)) (fb, cids))"
      unfolding c by (simp only: paint_bg_line_shift) (simp add: paint_paint add.assoc)
    finally show ?thesis by (simp only: k Let_def)
  qed
qed


lemma aligned_plus:
  assumes "unat (c AND 7 :: u8) = 0"
  shows "unat (c + of_nat (8 * n) AND 7) = 0"
proof -
  have d: "8 dvd a mod 256 \<longleftrightarrow> 8 dvd a" for a :: nat by (rule dvd_mod_iff) simp
  from assms have "8 dvd unat c" by (simp only: unat_low3 mod_eq_0_iff_dvd)
  then show ?thesis
    by (simp only: unat_low3 mod_eq_0_iff_dvd unat_add_u8 unat_of_nat_u8 mod_add_right_eq d dvd_add_right_iff dvd_triv_left)
qed

lemma bg_fast_paint:
  assumes "luts_for (io m BGP_REG) L"
  shows "bg_fast m L ly base s = paint (io m BGP_REG) (bg_line m ly (io m SCX_REG) 0) base 0 160 s"
proof -
  define c where "c = io m SCX_REG"
  define pc where "pc = unat (c AND 7)"
  define x where "x = (if pc = 0 then 0 else 8 - pc)"
  have pc8: "pc < 8" by (simp add: pc_def unat_low3)
  let ?p = "paint (io m BGP_REG) (bg_line m ly c 0) base"
  have first: "(if pc \<noteq> 0 then (case bg_bytes m ly c of (b0, b1) \<Rightarrow>
       px_span b0 b1 (io m BGP_REG) base pc 0 c s) else (0, c, s)) = (x, c + of_nat x, ?p 0 x s)"
    using bg_tile_span [of 0 pc c m ly "io m BGP_REG" base s] pc8
    by (simp add: case_prod_beta pc_def [symmetric] x_def Let_def)
  have al: "unat (c + of_nat x AND 7) = 0"
    using next_tile_aligned [of c] by (simp add: x_def pc_def)
  define k where "k = 8 * ((160 - x) div 8)"
  have x: "x \<le> 8" by (simp add: x_def)
  then have xk: "x + k \<le> 160"
    using div_times_less_eq_dividend [of "160 - x" 8] by (simp add: k_def mult.commute)
  have "bg_fast m L ly base s = bg_slow m ly base 0 (x + k) (c + of_nat x + of_nat k)
      (paint (io m BGP_REG) (bg_line m ly (c + of_nat x) x) base x (x + k) (?p 0 x s))"
  proof -
    have "bg_aligned m L ly base x (c + of_nat x) (?p 0 x s) = (x + k, c + of_nat x + of_nat k,
        paint (io m BGP_REG) (bg_line m ly (c + of_nat x) x) base x (x + k) (?p 0 x s))"
      using bg_aligned_paint [OF _ al assms, of x ly base "?p 0 x s"] x by (simp only: Let_def k_def)
    then show ?thesis
      by (simp only: bg_fast_def Let_def semiring_1_class.of_nat_0 add_0_right c_def [symmetric] pc_def [symmetric]
          first prod.case)
  qed
  also have "\<dots> = bg_slow m ly base 0 (x + k) (c + of_nat (x + k)) (?p 0 (x + k) s)"
    using paint_bg_line_shift [of "io m BGP_REG" m ly c x 0 base "x + k" "?p 0 x s"]
    by (simp add: paint_paint add.assoc)
  also have "\<dots> = paint (io m BGP_REG) (bg_line m ly (c + of_nat (x + k)) (x + k)) base (x + k) 160 (?p 0 (x + k) s)"
  proof (rule bg_slow_paint [OF xk])
    have "unat (c + of_nat x + of_nat k AND 7) = 0"
      unfolding k_def by (rule aligned_plus [OF al])
    then show "x + k < 160 \<longrightarrow> 0 = unat (c + of_nat (x + k) AND 7)" by (simp add: add.assoc)
  qed
  also have "\<dots> = ?p 0 160 s"
    using paint_bg_line_shift [of "io m BGP_REG" m ly c "x + k" 0 base 160 "?p 0 (x + k) s"] xk
    by (simp add: paint_paint)
  finally show ?thesis by (simp add: c_def)
qed

section \<open>The whole background of a line\<close>

definition win_cid :: "mmu \<Rightarrow> nat \<Rightarrow> u8" where
  "win_cid m w = (let b = win_bytes m w in cid_of (fst b) (snd b) (7 - w mod 8))"

lemma win_cid_tile:
  assumes "w mod 8 + n < 8"
  shows "win_cid m (w + n) = cid_of (fst (win_bytes m w)) (snd (win_bytes m w)) (7 - (w mod 8 + n))"
  by (simp add: win_cid_def Let_def win_bytes_def within_8 [OF assms])

lemma win_loop_paint:
  assumes "x \<le> 160" "x < 160 \<longrightarrow> pc = w mod 8"
  shows "win_loop m base pc x w s = paint (io m BGP_REG) (\<lambda>i. win_cid m (w + (i - x))) base x 160 s"
  using assms
proof (induction m base pc x w s rule: win_loop.induct)
  case (1 m base pc x w s)
  show ?case
  proof (cases "x < 160")
    case False
    then show ?thesis using "1.prems" by (subst win_loop.simps) simp
  next
    case True
    with "1.prems" have pc: "pc = w mod 8" "pc < 8" by simp_all
    define k where "k = min (8 - pc) (160 - x)"
    let ?p = "paint (io m BGP_REG) (\<lambda>i. win_cid m (w + (i - x))) base"
    have "paint (io m BGP_REG) (\<lambda>i. cid_of (fst (win_bytes m w)) (snd (win_bytes m w)) (7 - (pc + (i - x))))
        base x (x + k) s = ?p x (x + k) s"
      by (rule paint_cong) (simp only: pc(1), rule win_cid_tile [symmetric], simp add: k_def pc(1) min_def split: if_splits)
    then have span: "px_span (fst (win_bytes m w)) (snd (win_bytes m w)) (io m BGP_REG) base pc x w s
        = (x + k, w + k, ?p x (x + k) s)"
      using px_span_paint [OF "1.prems"(1), of "fst (win_bytes m w)" "snd (win_bytes m w)" "io m BGP_REG" base pc w s]
      by (simp add: Let_def k_def)
    have next_tile: "a mod 8 = b \<Longrightarrow> (a + (8 - b)) mod 8 = 0" for a b :: nat
      by presburger
    have "x + k < 160 \<longrightarrow> 0 = (w + k) mod 8"
      using next_tile [of w pc] pc(1) by (auto simp: k_def min_def)
    moreover have le: "x + k \<le> 160" using True by (simp add: k_def)
    moreover have "paint (io m BGP_REG) (\<lambda>i. win_cid m (w + k + (i - (x + k)))) base (x + k) 160 t = ?p (x + k) 160 t" for t
      by (rule paint_cong) (auto intro!: arg_cong [where f = "win_cid m"])
    ultimately have "win_loop m base 0 (x + k) (w + k) (?p x (x + k) s) = ?p (x + k) 160 (?p x (x + k) s)"
      using "1.IH" [OF True, of "fst (win_bytes m w)" "snd (win_bytes m w)" "x + k" "(w + k, ?p x (x + k) s)"
          "w + k" "?p x (x + k) s"] span by simp
    with True span le show ?thesis
      by (subst win_loop.simps) (simp add: case_prod_beta paint_paint)
  qed
qed

lemma bg_blank_paint: "x \<le> 160 \<Longrightarrow> bg_blank bgp base x s = paint bgp (\<lambda>_. 0) base x 160 s"
proof (induction bgp base x s rule: bg_blank.induct)
  case (1 bgp base x fb cids)
  then show ?case
    by (subst bg_blank.simps)
      (auto simp: paint_one [of _ "\<lambda>_. 0", simplified, symmetric] paint_paint)
qed

definition win_start :: "mmu \<Rightarrow> nat" where
  "win_start m = (let wx = unat (io m WX_REG) in if 7 \<le> wx then wx - 7 else 0)"

text \<open>The colour number of column \<open>x\<close> before the sprites.\<close>

definition line_cid :: "mmu \<Rightarrow> u8 \<Rightarrow> nat \<Rightarrow> u8" where
  "line_cid m ly x =
     (if win_active m ly \<and> win_start m \<le> x then win_cid m (x + 7 - unat (io m WX_REG))
      else if has (io m LCDC_REG) LCDC_BG_ENABLE then bg_cid m ly (io m SCX_REG + of_nat x) else 0)"

lemma draw_bg_window_paint:
  assumes "has (io m LCDC_REG) LCDC_BG_ENABLE \<Longrightarrow> luts_for (io m BGP_REG) L"
  shows "draw_window m ly base (draw_bg m L ly base s) = paint (io m BGP_REG) (line_cid m ly) base 0 160 s"
proof -
  let ?f = "\<lambda>x. if has (io m LCDC_REG) LCDC_BG_ENABLE then bg_cid m ly (io m SCX_REG + of_nat x) else 0"
  have bg: "draw_bg m L ly base s = paint (io m BGP_REG) ?f base 0 160 s"
    using assms by (auto simp: draw_bg_def bg_fast_paint bg_blank_paint bg_line_def [abs_def])
  show ?thesis
  proof (cases "win_active m ly")
    case False
    then have "line_cid m ly = ?f" by (auto simp: line_cid_def fun_eq_iff)
    with False bg show ?thesis by (simp add: draw_window_def)
  next
    case True
    then have wx: "unat (io m WX_REG) < 167" by (simp add: win_active_def word_less_nat_alt)
    define a where "a = win_start m"
    let ?w = "a + 7 - unat (io m WX_REG)"
    have a: "a \<le> 160" "unat (io m WX_REG) \<le> a + 7" using wx by (auto simp: a_def win_start_def Let_def)
    have "draw_window m ly base t = win_loop m base (?w mod 8) a ?w t" for t
      using True by (simp add: draw_window_def a_def win_start_def Let_def)
    also have "win_loop m base (?w mod 8) a ?w t
        = paint (io m BGP_REG) (\<lambda>i. win_cid m (?w + (i - a))) base a 160 t" for t
      using a by (intro win_loop_paint) auto
    also have "\<dots> t = paint (io m BGP_REG) (line_cid m ly) base a 160 t" for t
      using True a by (intro paint_cong) (auto simp: line_cid_def a_def intro!: arg_cong [where f = "win_cid m"])
    finally have w: "draw_window m ly base t = paint (io m BGP_REG) (line_cid m ly) base a 160 t" for t .
    have "paint (io m BGP_REG) ?f base 0 160 s = paint (io m BGP_REG) ?f base a 160 (paint (io m BGP_REG) ?f base 0 a s)"
      using a by (simp add: paint_paint)
    also have "paint (io m BGP_REG) ?f base 0 a s = paint (io m BGP_REG) (line_cid m ly) base 0 a s"
      by (rule paint_cong) (auto simp: line_cid_def a_def)
    finally have "draw_bg m L ly base s
        = paint (io m BGP_REG) ?f base a 160 (paint (io m BGP_REG) (line_cid m ly) base 0 a s)"
      using bg by simp
    moreover have "paint bgp f base a 160 (paint bgp g base a 160 t) = paint bgp f base a 160 t" for bgp f g t
      by (auto simp: paint_def fun_eq_iff)
    ultimately show ?thesis using a by (simp add: w paint_paint)
  qed
qed

section \<open>Sprites\<close>

text \<open>Column \<open>x\<close> of the line inside an object, and whether the object shows there.\<close>

definition obj_col :: "visible_obj \<Rightarrow> nat \<Rightarrow> int" where
  "obj_col ob x = int x - (uint (obj_x ob) - 8)"

definition obj_hit :: "u8 \<times> u8 \<Rightarrow> visible_obj \<Rightarrow> nat \<Rightarrow> nat \<Rightarrow> u8 \<Rightarrow> bool" where
  "obj_hit b ob px x bg \<longleftrightarrow> int px \<le> obj_col ob x \<and> obj_col ob x < 8
     \<and> obj_cid b ob (nat (obj_col ob x)) \<noteq> 0 \<and> \<not> (has (obj_attr ob) OAM_BG_PRIO \<and> bg \<noteq> 0)"

definition put_obj :: "mmu \<Rightarrow> u8 \<times> u8 \<Rightarrow> visible_obj \<Rightarrow> nat \<Rightarrow> nat \<Rightarrow> scan \<Rightarrow> scan" where
  "put_obj m b ob base px s =
     ((\<lambda>i. if base \<le> i \<and> i < base + 160 \<and> obj_hit b ob px (i - base) (snd s (i - base))
           then obj_shade m ob (obj_cid b ob (nat (obj_col ob (i - base)))) else fst s i), snd s)"

lemma draw_obj_px_put: "draw_obj_px m b ob base px s = put_obj m b ob base px s"
proof (induction m b ob base px s rule: draw_obj_px.induct)
  case (1 m b ob base px fb cids)
  show ?case
  proof (cases "px < 8")
    case False
    then show ?thesis by (subst draw_obj_px.simps) (auto simp: put_obj_def obj_hit_def fun_eq_iff)
  next
    case True
    define x where "x = uint (obj_x ob) - 8 + int px"
    define skip where "skip \<longleftrightarrow> x < 0 \<or> 160 \<le> x \<or> obj_cid b ob px = 0
        \<or> (has (obj_attr ob) OAM_BG_PRIO \<and> cids (nat x) \<noteq> 0)"
    have step: "draw_obj_px m b ob base px (fb, cids) = put_obj m b ob base (px + 1)
        (if skip then (fb, cids) else (fb(base + nat x := obj_shade m ob (obj_cid b ob px)), cids))"
    proof -
      have "draw_obj_px m b ob base px (fb, cids) = draw_obj_px m b ob base (px + 1)
        (if skip then (fb, cids) else (fb(base + nat x := obj_shade m ob (obj_cid b ob px)), cids))"
        by (subst draw_obj_px.simps) (simp only: True if_True Let_def x_def skip_def of_nat_numeral semiring_1_class.of_nat_0)
      with "1.IH" [OF True refl refl] show ?thesis
        by (simp only: x_def skip_def of_nat_numeral semiring_1_class.of_nat_0)
    qed
    have hit: "obj_hit b ob px j bg \<longleftrightarrow> obj_hit b ob (px + 1) j bg \<or>
        int j = x \<and> obj_cid b ob px \<noteq> 0 \<and> \<not> (has (obj_attr ob) OAM_BG_PRIO \<and> bg \<noteq> 0)" for j bg
    proof (cases "int j = x")
      case True
      then have "obj_col ob j = int px" by (simp add: obj_col_def x_def)
      with \<open>px < 8\<close> True show ?thesis by (auto simp: obj_hit_def)
    next
      case False
      then have "obj_col ob j \<noteq> int px" by (simp add: obj_col_def x_def)
      with False show ?thesis by (auto simp: obj_hit_def)
    qed
    have at_x: "obj_col ob j = int px" if "int j = x" for j using that by (simp add: obj_col_def x_def)
    have nd: "nat (int a - int c) = a - c" for a c by arith
    show ?thesis
      unfolding step by (auto simp: put_obj_def hit skip_def fun_eq_iff at_x nd)
  qed
qed

lemma draw_obj_put: "draw_obj m ly base ob s = put_obj m (obj_row_bytes m ly ob) ob base 0 s"
proof -
  have "put_obj m b ob base 0 s = s"
    if "160 \<le> uint (obj_x ob) - 8 \<or> uint (obj_x ob) - 8 + 8 \<le> 0" for b
  proof -
    have "\<not> obj_hit b ob 0 j bg" if "j < 160" for j bg
      using that \<open>160 \<le> uint (obj_x ob) - 8 \<or> uint (obj_x ob) - 8 + 8 \<le> 0\<close>
      by (auto simp: obj_hit_def obj_col_def)
    then show ?thesis by (auto simp: put_obj_def prod_eq_iff fun_eq_iff)
  qed
  then show ?thesis by (auto simp: draw_obj_def Let_def draw_obj_px_put)
qed

definition obj_shows :: "mmu \<Rightarrow> u8 \<Rightarrow> nat \<Rightarrow> u8 \<Rightarrow> visible_obj \<Rightarrow> bool" where
  "obj_shows m ly x bg ob \<longleftrightarrow> obj_hit (obj_row_bytes m ly ob) ob 0 x bg"

definition obj_pixel :: "mmu \<Rightarrow> u8 \<Rightarrow> nat \<Rightarrow> visible_obj \<Rightarrow> u8" where
  "obj_pixel m ly x ob = obj_shade m ob (obj_cid (obj_row_bytes m ly ob) ob (nat (obj_col ob x)))"

lemma draw_objs_pixel:
  "foldr (draw_obj m ly base) vis s =
    ((\<lambda>i. if base \<le> i \<and> i < base + 160
          then (case find (obj_shows m ly (i - base) (snd s (i - base))) vis of
                  None \<Rightarrow> fst s i | Some ob \<Rightarrow> obj_pixel m ly (i - base) ob)
          else fst s i), snd s)"
  by (induction vis)
    (auto simp: draw_obj_put put_obj_def obj_shows_def obj_pixel_def fun_eq_iff prod_eq_iff)

section \<open>Which objects, in which order\<close>

lemma oam_scan_take:
  assumes "length vis \<le> 10"
  shows "oam_scan oa ly h i vis
    = take 10 (vis @ map (oam_entry oa) (filter (\<lambda>k. obj_on_line ly h (oa (k * 4))) [i..<40]))"
  using assms
proof (induction oa ly h i vis rule: oam_scan.induct)
  case (1 oa ly h i vis)
  show ?case
  proof (cases "i < 40 \<and> length vis < 10")
    case False
    then show ?thesis using "1.prems" by (subst oam_scan.simps) auto
  next
    case True
    then have "[i..<40] = i # [i + 1..<40]" by (simp add: upt_conv_Cons)
    with True "1.IH" show ?thesis
      by (subst oam_scan.simps) auto
  qed
qed

definition insert_right :: "visible_obj \<Rightarrow> visible_obj list \<Rightarrow> visible_obj list" where
  "insert_right y xs = filter (\<lambda>z. obj_x z \<le> obj_x y) xs @ y # filter (\<lambda>z. obj_x y < obj_x z) xs"

lemma sift_insert:
  assumes "sorted (map obj_x pre)"
  shows "sift (length pre) (pre @ y # rest) = insert_right y pre @ rest"
  using assms
proof (induction pre arbitrary: rest rule: rev_induct)
  case Nil
  then show ?case by (simp add: insert_right_def)
next
  case (snoc z p)
  then have p: "sorted (map obj_x p)" "\<forall>v\<in>set p. obj_x v \<le> obj_x z" by (auto simp: sorted_append)
  show ?case
  proof (cases "obj_x y < obj_x z")
    case True
    then have "sift (length (p @ [z])) ((p @ [z]) @ y # rest) = sift (length p) (p @ y # z # rest)"
      by (simp add: nth_append list_update_append)
    also have "\<dots> = insert_right y p @ z # rest" by (rule snoc.IH [OF p(1)])
    finally show ?thesis using True by (simp add: insert_right_def)
  next
    case False
    then have "\<forall>v\<in>set p. obj_x v \<le> obj_x y" using p(2) by force
    then have "filter (\<lambda>v. obj_x v \<le> obj_x y) p = p" "filter (\<lambda>v. obj_x y < obj_x v) p = []"
      by (auto simp: filter_id_conv filter_empty_conv)
    with False show ?thesis by (simp add: insert_right_def nth_append)
  qed
qed

lemma insert_right_sort_key: "insert_right y (sort_key obj_x xs) = sort_key obj_x (xs @ [y])"
proof (rule properties_for_sort_key [symmetric])
  have "mset (insert_right y l) = mset l + {#y#}" for l
    by (induction l) (auto simp: insert_right_def)
  then show "mset (insert_right y (sort_key obj_x xs)) = mset (xs @ [y])" by simp
  show "sorted (map obj_x (insert_right y (sort_key obj_x xs)))"
    by (auto simp: insert_right_def sorted_append sorted_filter)
  show "filter (\<lambda>x. obj_x k = obj_x x) (insert_right y (sort_key obj_x xs))
      = filter (\<lambda>x. obj_x k = obj_x x) (xs @ [y])" for k
  proof -
    have "filter (\<lambda>x. obj_x k = obj_x x) (sort_key obj_x xs) = filter (\<lambda>x. obj_x k = obj_x x) xs"
      by (metis (mono_tags, lifting) filter_cong sort_key_stable)
    moreover have "filter (\<lambda>x. obj_x k = obj_x x) (insert_right y l)
        = filter (\<lambda>x. obj_x k = obj_x x) (l @ [y])" for l
    proof (cases "obj_x k \<le> obj_x y")
      case True
      then have "filter (\<lambda>x. obj_x k = obj_x x) (filter (\<lambda>z. obj_x z \<le> obj_x y) l) = filter (\<lambda>x. obj_x k = obj_x x) l"
          "filter (\<lambda>x. obj_x k = obj_x x) (filter (\<lambda>z. obj_x y < obj_x z) l) = []"
        by (induction l) auto
      then show ?thesis
        by (cases "obj_x k = obj_x y") (simp_all add: insert_right_def del: filter_filter)
    next
      case False
      then have "filter (\<lambda>x. obj_x k = obj_x x) (filter (\<lambda>z. obj_x z \<le> obj_x y) l) = []"
          "filter (\<lambda>x. obj_x k = obj_x x) (filter (\<lambda>z. obj_x y < obj_x z) l) = filter (\<lambda>x. obj_x k = obj_x x) l"
        by (induction l) auto
      with False show ?thesis by (auto simp add: insert_right_def simp del: filter_filter)
    qed
    ultimately show ?thesis by simp
  qed
qed

lemma sort_objs_prefix:
  "n \<le> length vis \<Longrightarrow> foldl (\<lambda>v i. sift i v) vis [1..<n] = sort_key obj_x (take n vis) @ drop n vis"
proof (induction n)
  case 0
  then show ?case by simp
next
  case (Suc n)
  show ?case
  proof (cases "n = 0")
    case True
    with Suc.prems show ?thesis by (cases vis) simp_all
  next
    case False
    have "foldl (\<lambda>v i. sift i v) vis [1..<Suc n] = sift n (sort_key obj_x (take n vis) @ drop n vis)"
      using Suc False by simp
    also have "drop n vis = vis ! n # drop (Suc n) vis" using Suc.prems by (simp add: Cons_nth_drop_Suc)
    also have "sift n (sort_key obj_x (take n vis) @ \<dots>)
        = insert_right (vis ! n) (sort_key obj_x (take n vis)) @ drop (Suc n) vis"
      using sift_insert [of "sort_key obj_x (take n vis)" "vis ! n" "drop (Suc n) vis"] Suc.prems by simp
    finally show ?thesis using Suc.prems by (simp add: insert_right_sort_key take_Suc_conv_app_nth)
  qed
qed

lemma sort_objs_sort_key: "sort_objs vis = sort_key obj_x vis"
  using sort_objs_prefix [of "length vis" vis] by (simp add: sort_objs_def)

section \<open>The pixels of a line\<close>

text \<open>
  The objects of a line, apart from the scan and the sort of the code: of the 40 entries those whose
  8 or 16 rows, which begin at \<open>y - 16\<close>, contain the line; of these the first ten in OAM order; of
  two of them the one with the smaller \<open>x\<close> comes first, with equal \<open>x\<close> the one with the
  smaller OAM index.
\<close>

definition line_objs :: "mmu \<Rightarrow> u8 \<Rightarrow> visible_obj list" where
  "line_objs m ly =
     (let h = (if has (io m LCDC_REG) LCDC_OBJ_SIZE then 16 else 8);
          on_row = (\<lambda>i. uint (oam m (4 * i)) \<le> uint ly + 16 \<and> uint ly + 16 < uint (oam m (4 * i)) + h)
      in if has (io m LCDC_REG) LCDC_OBJ_ENABLE
         then sort_key obj_x (take 10 (map (oam_entry (oam m)) (filter on_row [0..<40]))) else [])"

lemma line_objs_code:
  "line_objs m ly = (if has (io m LCDC_REG) LCDC_OBJ_ENABLE
     then sort_objs (oam_scan (oam m) ly (obj_height (io m LCDC_REG)) 0 []) else [])"
proof -
  have "obj_on_line ly h y \<longleftrightarrow> uint y \<le> uint ly + 16 \<and> uint ly + 16 < uint y + h" for h y
    by (auto simp: obj_on_line_def obj_top_def)
  then show ?thesis
    by (simp add: line_objs_def sort_objs_sort_key oam_scan_take obj_height_def Let_def mult.commute)
qed

definition line_pixel :: "mmu \<Rightarrow> u8 \<Rightarrow> nat \<Rightarrow> u8" where
  "line_pixel m ly x =
     (case find (obj_shows m ly x (line_cid m ly x)) (line_objs m ly) of
        None \<Rightarrow> shade (io m BGP_REG) (unat (line_cid m ly x))
      | Some ob \<Rightarrow> obj_pixel m ly x ob)"

lemma draw_line_pixels:
  assumes "has (io m LCDC_REG) LCDC_BG_ENABLE \<Longrightarrow> luts_for (io m BGP_REG) (ensure_bg_luts (io m BGP_REG) (luts m))"
  shows "framebuffer (ppu_draw_line_from garbage ly m) i =
     (if unat ly * 160 \<le> i \<and> i < unat ly * 160 + 160 then line_pixel m ly (i - unat ly * 160)
      else framebuffer m i)"
proof -
  let ?L = "if has (io m LCDC_REG) LCDC_BG_ENABLE then ensure_bg_luts (io m BGP_REG) (luts m) else luts m"
  have "draw_window m ly base (draw_bg m ?L ly base s) = paint (io m BGP_REG) (line_cid m ly) base 0 160 s" for base s
    using assms by (intro draw_bg_window_paint) simp
  then have "framebuffer (ppu_draw_line_from garbage ly m) = fst (foldr (draw_obj m ly (unat ly * 160))
      (line_objs m ly) (paint (io m BGP_REG) (line_cid m ly) (unat ly * 160) 0 160 (framebuffer m, garbage)))"
    by (simp add: ppu_draw_line_from_def Let_def case_prod_beta draw_sprites_def line_objs_code)
  then show ?thesis
    by (auto simp: draw_objs_pixel paint_def line_pixel_def split: option.split)
qed

section \<open>Building the tables\<close>

definition luts_built :: "ppu_luts \<Rightarrow> bool" where
  "luts_built L \<longleftrightarrow> bg_lut_inited L \<and> luts_for (bg_shade_lut_bgp L) L"

lemma rebuild_luts_for:
  assumes "\<forall>b0<16. \<forall>b1<16. bg_cid_lut L b0 b1 = bg_cid_entry b0 b1"
  shows "luts_for bgp (rebuild_shade_lut bgp L)"
  using assms by (simp add: luts_for_def rebuild_shade_lut_def)

lemma ensure_built:
  assumes "luts_built L \<or> \<not> bg_lut_inited L \<and> bg_shade_lut_bgp L \<noteq> bgp"
  shows "luts_built (ensure_bg_luts bgp L)" "luts_for bgp (ensure_bg_luts bgp L)"
    "bg_shade_lut_bgp (ensure_bg_luts bgp L) = bgp"
  using assms
  by (auto simp: ensure_bg_luts_def luts_built_def Let_def rebuild_luts_for build_bg_cid_lut_def)
    (auto simp: rebuild_shade_lut_def luts_for_def)

section \<open>Every read is inside VRAM and OAM\<close>

lemma unat_times_16: "unat (ucast (t :: u8) * 16 :: u16) = unat t * 16"
proof -
  have "unat t * 16 < 65536" using unat_u8 [of t] by linarith
  then show ?thesis by (simp add: unat_word_ariths)
qed

lemma tile_addr_bound:
  "unat (tile_addr u t) + 15 < 0x1800"
proof (cases u)
  case True
  then show ?thesis using unat_u8 [of t] unat_times_16 [of t] by (simp only: tile_addr_def if_True)
next
  case False
  have r: "-128 \<le> sint t" "sint t < 128" using sint_ge [of t] sint_lt [of t] by simp_all
  define n where "n = nat (0x1000 + sint t * 16)"
  have n: "int n = 0x1000 + sint t * 16" "n + 15 < 0x1800" using r by (auto simp: n_def)
  have "0x1000 + scast t * 16 = (of_int (0x1000 + sint t * 16) :: u16)" by simp
  also have "\<dots> = of_nat n" by (simp only: n(1) [symmetric] of_int_of_nat_eq)
  finally have "unat (0x1000 + scast t * 16 :: u16) = n" using n(2) by (simp only: unat_of_nat_u16) simp
  with n(2) False show ?thesis by (simp only: tile_addr_def if_False)
qed

lemma tile_row_bytes_agree:
  assumes "agree VRAM_SIZE v v'" "tilemap_row + tile_col < 0x2000" "unat row_off \<le> 14"
  shows "tile_row_bytes v tilemap_row u row_off tile_col = tile_row_bytes v' tilemap_row u row_off tile_col"
proof -
  have "v (tilemap_row + tile_col) = v' (tilemap_row + tile_col)"
    using assms by (intro agreeD [OF assms(1)]) (simp add: sizes)
  moreover have "v n = v' n" "v (n + 1) = v' (n + 1)"
    if "n = unat (tile_addr u t) + unat row_off" for n t
    using tile_addr_bound [of u t] assms(3) that by (auto intro!: agreeD [OF assms(1)] simp: sizes)
  ultimately show ?thesis by (simp add: tile_row_bytes_def Let_def)
qed

lemma row_off_le: "unat (ucast (w AND 7 :: u8) * 2 :: u16) \<le> 14"
proof -
  have "unat (w AND 7) < 8" by (simp add: unat_low3)
  then show ?thesis by (simp add: unat_word_ariths)
qed

lemma tile_col_le: "unat (drop_bit 3 (w :: u8) AND 0x1F) < 32" "unat (drop_bit 3 w) < 32"
proof -
  have "drop_bit 3 w AND 0x1F = take_bit 5 (drop_bit 3 w)" by (simp add: take_bit_eq_mask mask_eq_exp_minus_1)
  then show "unat (drop_bit 3 w AND 0x1F) < 32" by (simp add: take_bit_eq_mod unat_mod)
  show "unat (drop_bit 3 w) < 32" by (simp add: drop_bit_eq_div unat_div div_less_iff_less_mult)
qed

text \<open>The same machine with other contents of VRAM and OAM.\<close>

definition with_mem :: "u8 array \<Rightarrow> u8 array \<Rightarrow> mmu \<Rightarrow> mmu" where
  "with_mem v o' m = m\<lparr>vram := v, oam := o'\<rparr>"

lemma with_mem_simps [simp]:
  fixes m :: mmu
  shows
  "vram (with_mem v o' m) = v" "oam (with_mem v o' m) = o'" "io (with_mem v o' m) = io m"
  "window_line (with_mem v o' m) = window_line m" "ppu_latched_wy (with_mem v o' m) = ppu_latched_wy m"
  by (simp_all add: with_mem_def)

lemma bg_cid_agree:
  assumes "agree VRAM_SIZE (vram m) v"
  shows "bg_cid (with_mem v o' m) ly c = bg_cid m ly c"
proof -
  have "bg_bytes (with_mem v o' m) ly c = bg_bytes m ly c"
    using tile_col_le(1) [of c] tile_col_le(2) [of "ly + io m SCY_REG"]
    by (auto simp: bg_bytes_def Let_def intro!: tile_row_bytes_agree [OF assms, symmetric] row_off_le)
  then show ?thesis by (simp add: bg_cid_def)
qed

lemma win_cid_agree:
  assumes "agree VRAM_SIZE (vram m) v"
  shows "win_cid (with_mem v o' m) w = win_cid m w"
proof -
  have "w div 8 mod 32 < 32" by simp
  then have "win_bytes (with_mem v o' m) w = win_bytes m w"
    using tile_col_le(2) [of "window_line m"]
    by (auto simp: win_bytes_def Let_def intro!: tile_row_bytes_agree [OF assms, symmetric] row_off_le)
  then show ?thesis by (simp add: win_cid_def)
qed

lemma line_cid_agree:
  assumes "agree VRAM_SIZE (vram m) v"
  shows "line_cid (with_mem v o' m) ly x = line_cid m ly x"
  by (simp add: line_cid_def win_active_def win_start_def bg_cid_agree win_cid_agree assms)

lemma oam_scan_agree:
  assumes "agree OAM_SIZE oa oa'"
  shows "oam_scan oa ly h 0 [] = oam_scan oa' ly h 0 []"
proof -
  have "oa (k * 4) = oa' (k * 4)" "oam_entry oa k = oam_entry oa' k" if "k < 40" for k
    using that by (auto simp: oam_entry_def sizes intro!: agreeD [OF assms])
  then have "map (oam_entry oa) (filter (\<lambda>k. obj_on_line ly h (oa (k * 4))) [0..<40])
      = map (oam_entry oa') (filter (\<lambda>k. obj_on_line ly h (oa' (k * 4))) [0..<40])"
    by (intro map_cong filter_cong) auto
  then show ?thesis by (simp add: oam_scan_take)
qed

text \<open>An object on the line shows one of its own rows, so its bytes are inside VRAM.\<close>

lemma obj_row_bytes_agree:
  assumes "agree VRAM_SIZE (vram m) v" "obj_on_line ly (obj_height (io m LCDC_REG)) (obj_y ob)"
  shows "obj_row_bytes (with_mem v o' m) ly ob = obj_row_bytes m ly ob"
proof -
  define h where "h = obj_height (io m LCDC_REG)"
  define row where "row = uint ly - obj_top (obj_y ob)"
  define r where "r = (if has (obj_attr ob) OAM_FLIP_Y then h - 1 - row else row)"
  have "0 \<le> row" "row < h" "h \<le> 16"
    using assms(2) by (auto simp: obj_on_line_def row_def h_def obj_height_def)
  then have r: "0 \<le> r" "r \<le> 15" by (auto simp: r_def)
  have t: "unat (ucast t * 16 + word_of_int (r * 2) :: u16) + 1 < 0x2000" for t :: u8
  proof -
    have "unat (word_of_int (r * 2) :: u16) \<le> 30"
    proof -
      have "word_of_int (r * 2) = (of_nat (nat r * 2) :: u16)" using r by simp
      moreover have "nat r * 2 mod 65536 \<le> 30" using r by (intro order_trans [OF mod_less_eq_dividend]) simp
      ultimately show ?thesis by (simp only: unat_of_nat_u16)
    qed
    moreover have "unat t * 16 \<le> 4080" using unat_u8 [of t] by linarith
    ultimately have "unat t * 16 + unat (word_of_int (r * 2) :: u16) < 0x1FFF" by linarith
    then show ?thesis
      by (simp only: unat_word_ariths(1) unat_times_16) simp
  qed
  then have "unat (ucast t * 16 + word_of_int (r * 2) :: u16) < 0x2000" for t :: u8 by (rule add_lessD1)
  with t show ?thesis
    by (auto simp: obj_row_bytes_def Let_def h_def [symmetric] row_def [symmetric] r_def [symmetric] sizes
        intro!: agreeD [OF assms(1), symmetric])
qed

lemma line_objs_on_line: "ob \<in> set (line_objs m ly) \<Longrightarrow> obj_on_line ly (obj_height (io m LCDC_REG)) (obj_y ob)"
  by (auto simp: line_objs_code sort_objs_sort_key oam_scan_take oam_entry_def dest!: in_set_takeD split: if_splits)

lemma line_objs_agree:
  assumes "agree OAM_SIZE (oam m) o'"
  shows "line_objs (with_mem v o' m) ly = line_objs m ly"
  by (simp add: line_objs_code oam_scan_agree [OF assms, symmetric])

lemma find_cong_set: "(\<And>x. x \<in> set xs \<Longrightarrow> P x = Q x) \<Longrightarrow> find P xs = find Q xs"
  by (induction xs) auto

lemma find_Some_in: "find P xs = Some x \<Longrightarrow> x \<in> set xs"
  by (auto simp: find_Some_iff)

lemma line_pixel_agree:
  assumes "agree VRAM_SIZE (vram m) v" "agree OAM_SIZE (oam m) o'"
  shows "line_pixel (with_mem v o' m) ly x = line_pixel m ly x"
proof -
  have ob: "obj_shows (with_mem v o' m) ly x c ob = obj_shows m ly x c ob"
      "obj_pixel (with_mem v o' m) ly x ob = obj_pixel m ly x ob" if "ob \<in> set (line_objs m ly)" for c ob
    using obj_row_bytes_agree [OF assms(1) line_objs_on_line [OF that]]
    by (simp_all add: obj_shows_def obj_pixel_def obj_shade_def)
  have "find (obj_shows (with_mem v o' m) ly x c) (line_objs m ly) = find (obj_shows m ly x c) (line_objs m ly)" for c
    by (rule find_cong_set) (rule ob)
  then show ?thesis
    by (simp add: line_pixel_def line_cid_agree [OF assms(1)] line_objs_agree [OF assms(2)])
      (auto dest: find_Some_in simp: ob line_cid_agree [OF assms(1)] split: option.split)
qed

lemma shade_ff: "shade 0xFF (unat ((w :: u32) AND 3)) = 3"
proof -
  have "unat (w AND 3) < 4" by (simp add: low2_of_byte)
  then have "unat (w AND 3) \<in> {0, 1, 2, 3}" by auto
  then show ?thesis by (auto simp: shade_def)
qed

section \<open>Properties\<close>

text \<open>C14: with the tables brought up to date for the palette, the table-driven background draws
  exactly the framebuffer bytes and colour numbers of the per-pixel loop it replaces, for every
  scroll position, tile map, tile data mode and line.\<close>

theorem fast_background_is_pixel_background:
  assumes "luts_built (luts m) \<or> \<not> bg_lut_inited (luts m) \<and> bg_shade_lut_bgp (luts m) \<noteq> io m BGP_REG"
  shows "bg_fast m (ensure_bg_luts (io m BGP_REG) (luts m)) ly base s
       = bg_slow m ly base (unat (io m SCX_REG AND 7)) 0 (io m SCX_REG) s"
  using ensure_built(2) [OF assms] by (simp add: bg_fast_paint bg_slow_paint)

theorem fast_background_is_pixel_background_witness:
  "bg_fast static_mmu (ensure_bg_luts (io static_mmu BGP_REG) (luts static_mmu)) 3 480 (\<lambda>_. 0, \<lambda>_. 0)
   = bg_slow static_mmu 3 480 (unat (io static_mmu SCX_REG AND 7)) 0 (io static_mmu SCX_REG) (\<lambda>_. 0, \<lambda>_. 0)"
  by (rule fast_background_is_pixel_background) (simp add: static_mmu_def luts_init_def)

text \<open>C5: the pixels of a scanline. Whenever the look-up tables are built for the current palette, or nothing
  has been built yet and the palette is not the sentinel FFh (with that palette on first use they stay stale),
  \<open>ppu_draw_line\<close> writes the 160 framebuffer bytes of its line and no others. Each is the shade of the
  background or window colour there, unless one of the line's objects shows: the line's objects are the first ten
  in OAM order whose rows contain the line, and of those with a pixel there that is not transparent and not hidden
  behind the background, the one with the smallest x gives the shade, the lowest OAM index first among equals. The
  result does not depend on the uninitialised colour-number buffer, and the tables stay built.\<close>

theorem draw_line_correct:
  assumes "luts_built (luts m) \<or> \<not> bg_lut_inited (luts m) \<and> bg_shade_lut_bgp (luts m) \<noteq> io m BGP_REG"
  shows "framebuffer (ppu_draw_line_from garbage ly m) =
       (\<lambda>i. if unat ly * 160 \<le> i \<and> i < unat ly * 160 + 160 then line_pixel m ly (i - unat ly * 160)
            else framebuffer m i)
     \<and> (has (io m LCDC_REG) LCDC_BG_ENABLE \<longrightarrow> luts_built (luts (ppu_draw_line_from garbage ly m)))"
proof
  show "framebuffer (ppu_draw_line_from garbage ly m) =
       (\<lambda>i. if unat ly * 160 \<le> i \<and> i < unat ly * 160 + 160 then line_pixel m ly (i - unat ly * 160)
            else framebuffer m i)"
    using draw_line_pixels [of m garbage ly] ensure_built(2) [OF assms] by (simp add: fun_eq_iff)
  show "has (io m LCDC_REG) LCDC_BG_ENABLE \<longrightarrow> luts_built (luts (ppu_draw_line_from garbage ly m))"
    using ensure_built(1) [OF assms] by (simp add: ppu_draw_line_from_def Let_def case_prod_beta)
qed

theorem draw_line_correct_witness:
  "framebuffer (ppu_draw_line_from (\<lambda>_. 7) 5 static_mmu) 800 = line_pixel static_mmu 5 0"
  using draw_line_correct [of static_mmu "\<lambda>_. 7" 5] by (simp add: static_mmu_def luts_init_def)

text \<open>C35: drawing a line depends on no cell outside the 8 KiB of VRAM and the 160 bytes of OAM: two machines
  that differ only in cells beyond these arrays get the same framebuffer from \<open>ppu_draw_line\<close>, for every scroll
  position, window, tile number, flip and object, whenever the look-up tables are built for the palette or nothing
  has been built yet and the palette is not the sentinel FFh.\<close>

theorem render_reads_in_bounds:
  assumes "luts_built (luts m) \<or> \<not> bg_lut_inited (luts m) \<and> bg_shade_lut_bgp (luts m) \<noteq> io m BGP_REG"
    "agree VRAM_SIZE (vram m) v" "agree OAM_SIZE (oam m) o'"
  shows "framebuffer (ppu_draw_line_from garbage ly (m\<lparr>vram := v, oam := o'\<rparr>)) = framebuffer (ppu_draw_line_from garbage ly m)"
proof -
  have w: "m\<lparr>vram := v, oam := o'\<rparr> = with_mem v o' m" by (simp add: with_mem_def)
  have k: "framebuffer (with_mem v o' m) = framebuffer m" "luts (with_mem v o' m) = luts m" by (simp_all add: with_mem_def)
  note p = line_pixel_agree [OF assms(2,3)]
  show ?thesis
    unfolding w
    using draw_line_pixels [of m garbage ly] draw_line_pixels [of "with_mem v o' m" garbage ly] ensure_built(2) [OF assms(1)]
    by (simp add: fun_eq_iff p k)
qed

theorem render_reads_in_bounds_witness:
  "framebuffer (ppu_draw_line_from (\<lambda>_. 0) 5 (static_mmu\<lparr>vram := \<lambda>i. if i < 8192 then 0 else 1, oam := \<lambda>i. if i < 160 then 0 else 1\<rparr>))
   = framebuffer (ppu_draw_line_from (\<lambda>_. 0) 5 static_mmu)"
  by (rule render_reads_in_bounds) (simp_all add: static_mmu_def luts_init_def agree_def sizes)

text \<open>the sentinel that should mark the shade table as not built is itself a palette: with
  BGP = 0xFF on first use the table is taken as current although every entry still is shade 0,
  where the palette gives shade 3.\<close>

theorem first_palette_ff_is_stale:
  "bg_shade_lut (ensure_bg_luts 0xFF luts_init) b0 b1 = 0
   \<and> bg_shade_entry 0xFF (bg_cid_lut (ensure_bg_luts 0xFF luts_init) b0 b1) \<noteq> 0"
  by (simp add: ensure_bg_luts_def luts_init_def build_bg_cid_lut_def Let_def bg_shade_entry_def shade_ff)

end
