(* ===== verification/Ppu_Laws.thy ===== *)
theory Ppu_Laws
  imports Ppu Interfaces
begin

text \<open>
  The clocks of core/ppu.c. The timer and the mode walk are divisible clocks: advancing them in
  pieces or in one go is the same, which is what allows \<open>ppu_tick\<close> to return early before the next
  event. The section on the mode walk computes the lengths of the modes and the deadline, and shows
  the one place where calling late is observable, line 153.
\<close>

section \<open>The timer\<close>

definition tima_step :: "mmu \<Rightarrow> mmu" where
  "tima_step m =
     (if io m TIMA_REG = 0xFF
      then io_put IF_REG (io m IF_REG OR INT_TIMER) (io_put TIMA_REG (io m TMA_REG) m)
      else io_put TIMA_REG (io m TIMA_REG + 1) m)"

lemma tima_step_frame [simp]:
  "io (tima_step m) TAC_REG = io m TAC_REG" "timer_tima_acc (tima_step m) = timer_tima_acc m"
  "timer_div_acc (tima_step m) = timer_div_acc m" "timer_last_cycles (tima_step m) = timer_last_cycles m"
  "io (tima_step m) DIV_REG = io m DIV_REG"
  by (simp_all add: tima_step_def)

lemma tima_step_acc: "tima_step (m\<lparr>timer_tima_acc := a\<rparr>) = (tima_step m)\<lparr>timer_tima_acc := a\<rparr>"
  by (simp add: tima_step_def)

abbreviation period_of :: "mmu \<Rightarrow> nat" where
  "period_of m \<equiv> unat (tima_period (io m TAC_REG))"

lemma period_pos: "0 < period_of m" "period_of m \<le> 1024"
  by (simp_all add: tima_period_def Let_def)

lemma tima_loop_closed:
  "tima_loop m = (tima_step ^^ (unat (timer_tima_acc m) div period_of m))
     (m\<lparr>timer_tima_acc := of_nat (unat (timer_tima_acc m) mod period_of m)\<rparr>)"
proof (induction m rule: tima_loop.induct)
  case (1 m)
  define p where "p = period_of m"
  define a where "a = unat (timer_tima_acc m)"
  have p: "0 < p" "p \<le> 1024" by (simp_all add: p_def period_pos)
  show ?case
  proof (cases "p \<le> a")
    case False
    then have "\<not> ucast (tima_period (io m TAC_REG)) \<le> timer_tima_acc m"
      by (simp add: word_le_nat_alt p_def a_def)
    with False show ?thesis
      by (subst tima_loop.simps) (simp add: Let_def p_def a_def)
  next
    case True
    define m1 where "m1 = m\<lparr>timer_tima_acc := timer_tima_acc m - ucast (tima_period (io m TAC_REG))\<rparr>"
    have c: "ucast (tima_period (io m TAC_REG)) \<le> timer_tima_acc m"
      using True by (simp add: word_le_nat_alt p_def a_def)
    have a1: "unat (timer_tima_acc m1) = a - p"
      using c by (simp add: m1_def unat_sub p_def a_def)
    have s1: "timer_tima_acc (tima_step m1) = timer_tima_acc m1" "io m1 = io m" by (simp_all add: m1_def)
    have "tima_loop m = tima_loop (tima_step m1)"
      using c by (subst tima_loop.simps) (simp add: Let_def m1_def tima_step_def)
    also have "\<dots> = (tima_step ^^ ((a - p) div p)) ((tima_step m1)\<lparr>timer_tima_acc := of_nat ((a - p) mod p)\<rparr>)"
    proof -
      have st: "(if io m TIMA_REG = 0xFF
          then io_put IF_REG (io m1 IF_REG OR INT_TIMER) (io_put TIMA_REG (io m1 TMA_REG) m1)
          else io_put TIMA_REG (io m1 TIMA_REG + 1) m1) = tima_step m1"
        by (simp add: tima_step_def m1_def)
      from "1.IH" [OF refl c m1_def] show ?thesis
        by (simp only: s1(2) st [unfolded s1(2)]) (simp add: a1 p_def s1)
    qed
    also have "\<dots> = (tima_step ^^ (Suc ((a - p) div p))) (m\<lparr>timer_tima_acc := of_nat ((a - p) mod p)\<rparr>)"
      by (simp add: tima_step_acc [symmetric] m1_def funpow_swap1)
    also have "Suc ((a - p) div p) = a div p" using True p(1) by (simp add: le_div_geq)
    also have "(a - p) mod p = a mod p" using True by (simp add: le_mod_geq)
    finally show ?thesis by (simp only: p_def a_def)
  qed
qed

text \<open>DIV and the accumulators after \<open>d\<close> cycles, apart from the TIMA steps.\<close>

definition div_after :: "nat \<Rightarrow> mmu \<Rightarrow> mmu" where
  "div_after d m = m\<lparr>timer_last_cycles := timer_last_cycles m + of_nat d,
      timer_div_acc := of_nat ((unat (timer_div_acc m) + d) mod 64),
      io := (io m)(DIV_REG := io m DIV_REG + of_nat ((unat (timer_div_acc m) + d) div 64))\<rparr>"

definition tima_after :: "nat \<Rightarrow> mmu \<Rightarrow> mmu" where
  "tima_after d m =
     (if has (io m TAC_REG) 4
      then (tima_step ^^ ((unat (timer_tima_acc m) + d) div period_of m))
             (m\<lparr>timer_tima_acc := of_nat ((unat (timer_tima_acc m) + d) mod period_of m)\<rparr>)
      else m)"

definition timer_room :: "nat \<Rightarrow> mmu \<Rightarrow> bool" where
  "timer_room d m \<longleftrightarrow> unat (timer_div_acc m) < 64 \<and> unat (timer_tima_acc m) < 1024 \<and> d < 2 ^ 31"

definition timer_adv :: "nat \<Rightarrow> mmu \<Rightarrow> mmu" where
  "timer_adv d m = timer_tick (timer_last_cycles m + of_nat d) m"

lemma timer_adv_0: "timer_adv 0 m = m"
  by (simp add: timer_adv_def timer_tick_def Let_def)

lemma timer_adv_form:
  assumes "timer_room d m" "0 < d"
  shows "timer_adv d m = tima_after d (div_after d m)"
proof -
  from assms have A: "unat (timer_div_acc m) < 64" and T: "unat (timer_tima_acc m) < 1024" and d: "d < 2 ^ 31"
    by (simp_all add: timer_room_def)
  have delta: "ucast (timer_last_cycles m + of_nat d - timer_last_cycles m) = (of_nat d :: u32)"
    by (simp add: ucast_of_nat_down)
  have nz: "(of_nat d :: u32) \<noteq> 0"
    using assms(2) d by (simp add: word_unat_eq_iff unat_of_nat_u32)
  have u: "unat (timer_div_acc m + of_nat d) = unat (timer_div_acc m) + d"
    "unat (timer_tima_acc m + of_nat d) = unat (timer_tima_acc m) + d"
    using A T d by (simp_all add: unat_word_ariths unat_of_nat_u32)
  have dv: "(timer_div_acc m + of_nat d) div 64 = of_nat ((unat (timer_div_acc m) + d) div 64)"
    "(timer_div_acc m + of_nat d) mod 64 = of_nat ((unat (timer_div_acc m) + d) mod 64)"
    by (simp_all only: word_unat_eq_iff unat_div unat_mod u) (use A d in \<open>simp_all add: unat_of_nat_u32\<close>)
  have "timer_adv d m = (let m2 = div_after d m in
      if has (io m2 TAC_REG) 4 then tima_loop (m2\<lparr>timer_tima_acc := timer_tima_acc m2 + of_nat d\<rparr>) else m2)"
  proof (cases "64 \<le> timer_div_acc m + of_nat d")
    case True
    then show ?thesis
      by (simp add: timer_adv_def timer_tick_def Let_def ucast_of_nat_down nz div_after_def dv ucast_plus_of_nat)
  next
    case False
    then have "unat (timer_div_acc m) + d < 64" by (simp add: word_le_nat_alt u)
    with False show ?thesis
      by (simp add: timer_adv_def timer_tick_def Let_def ucast_of_nat_down nz div_after_def)
  qed
  also have "\<dots> = tima_after d (div_after d m)"
    using u(2) by (simp add: tima_after_def Let_def tima_loop_closed div_after_def)
  finally show ?thesis .
qed

lemma div_after_tima_step: "tima_step (div_after b m) = div_after b (tima_step m)"
  by (simp add: tima_step_def div_after_def fun_upd_twist)

lemma div_after_acc: "div_after b (m\<lparr>timer_tima_acc := x\<rparr>) = (div_after b m)\<lparr>timer_tima_acc := x\<rparr>"
  by (simp add: div_after_def)

lemma div_after_io [simp]:
  "r \<noteq> DIV_REG \<Longrightarrow> io (div_after d m) r = io m r" "timer_tima_acc (div_after d m) = timer_tima_acc m"
  by (simp_all add: div_after_def)

lemma div_after_tima_after: "div_after b (tima_after a m) = tima_after a (div_after b m)"
proof -
  have c: "(tima_step ^^ n) (div_after b m) = div_after b ((tima_step ^^ n) m)" for n m
    by (rule funpow_commute) (rule div_after_tima_step)
  show ?thesis by (simp add: tima_after_def c flip: div_after_acc)
qed

lemma div_after_div_after:
  assumes "unat (timer_div_acc m) < 64"
  shows "div_after b (div_after a m) = div_after (a + b) m"
proof -
  have "unat (of_nat ((unat (timer_div_acc m) + a) mod 64) :: u32) = (unat (timer_div_acc m) + a) mod 64"
    by (simp add: unat_of_nat_u32)
  then show ?thesis
    using div_mod_split [of 64 "unat (timer_div_acc m)" a b]
    by (simp add: div_after_def add.assoc flip: of_nat_add) (simp add: add.commute)
qed

lemma tima_steps_keep [simp]:
  "io ((tima_step ^^ n) m) TAC_REG = io m TAC_REG" "timer_tima_acc ((tima_step ^^ n) m) = timer_tima_acc m"
  by (rule funpow_keeps, simp)+

lemma tima_steps_acc: "((tima_step ^^ n) m)\<lparr>timer_tima_acc := x\<rparr> = (tima_step ^^ n) (m\<lparr>timer_tima_acc := x\<rparr>)"
  by (rule funpow_commute [symmetric]) (rule tima_step_acc)

lemma tima_after_tima_after: "tima_after b (tima_after a m) = tima_after (a + b) m"
proof (cases "has (io m TAC_REG) 4")
  case False
  then show ?thesis by (simp add: tima_after_def)
next
  case True
  let ?p = "period_of m" and ?t = "unat (timer_tima_acc m)"
  have "(?t + a) mod ?p < 1024"
    using period_pos [of m] by (intro less_le_trans [OF mod_less_divisor])
  then have u: "unat (of_nat ((?t + a) mod ?p) :: u32) = (?t + a) mod ?p"
    by (simp only: unat_of_nat_u32) simp
  have "tima_after b (tima_after a m) = (tima_step ^^ (((?t + a) mod ?p + b) div ?p)) ((tima_step ^^ ((?t + a) div ?p))
      (m\<lparr>timer_tima_acc := of_nat (((?t + a) mod ?p + b) mod ?p)\<rparr>))"
    using True by (simp add: tima_after_def u tima_steps_acc)
  also have "\<dots> = tima_after (a + b) m"
    by (simp only: tima_after_def True if_True funpow_funpow div_mod_split [OF period_pos(1)])
  finally show ?thesis .
qed


lemma timer_adv_room:
  assumes "timer_room (a + b) m"
  shows "timer_room b (timer_adv a m)"
proof (cases "a = 0")
  case True
  with assms show ?thesis by (simp add: timer_adv_0)
next
  case False
  have r: "timer_room a m" using assms by (simp add: timer_room_def)
  let ?m = "div_after a m"
  have "unat (timer_div_acc ?m) < 64"
    by (simp add: div_after_def unat_of_nat_u32)
  moreover have "unat (timer_tima_acc (tima_after a ?m)) < 1024"
  proof (cases "has (io ?m TAC_REG) 4")
    case False
    with r show ?thesis by (simp add: tima_after_def timer_room_def)
  next
    case True
    have "(unat (timer_tima_acc ?m) + a) mod period_of ?m < 1024"
      using period_pos [of ?m] by (intro less_le_trans [OF mod_less_divisor])
    then have "unat (of_nat ((unat (timer_tima_acc ?m) + a) mod period_of ?m) :: u32) < 1024"
      by (simp add: unat_of_nat_u32)
    with True show ?thesis by (simp add: tima_after_def)
  qed
  moreover have "timer_div_acc (tima_after a ?m) = timer_div_acc ?m"
  proof -
    have "timer_div_acc ((tima_step ^^ n) x) = timer_div_acc x" for n x by (rule funpow_keeps) simp
    then show ?thesis by (simp add: tima_after_def)
  qed
  ultimately show ?thesis
    using False assms by (simp add: timer_adv_form [OF r] timer_room_def)
qed

lemma timer_adv_adv:
  assumes "timer_room (a + b) m"
  shows "timer_adv b (timer_adv a m) = timer_adv (a + b) m"
proof (cases "a = 0 \<or> b = 0")
  case True
  then show ?thesis by (auto simp: timer_adv_0)
next
  case False
  have r: "timer_room a m" "unat (timer_div_acc m) < 64" using assms by (simp_all add: timer_room_def)
  have "timer_adv b (timer_adv a m) = tima_after b (div_after b (tima_after a (div_after a m)))"
    using timer_adv_form [OF timer_adv_room [OF assms]] timer_adv_form [OF r(1)] False by simp
  also have "\<dots> = tima_after (a + b) (div_after (a + b) m)"
    by (simp only: div_after_tima_after div_after_div_after [OF r(2)] tima_after_tima_after)
  also have "\<dots> = timer_adv (a + b) m" using timer_adv_form [OF assms] False by simp
  finally show ?thesis .
qed

interpretation timer: divisible_clock timer_adv timer_room
  by unfold_locales (auto simp: timer_adv_adv timer_adv_room, simp add: timer_room_def)

section \<open>Draining the mode walk in parts\<close>

text \<open>The renderer looks at the registers, VRAM, OAM and the window position only.\<close>

definition same_picture :: "mmu \<Rightarrow> mmu \<Rightarrow> bool" where
  "same_picture m m' \<longleftrightarrow> io m' = io m \<and> vram m' = vram m \<and> oam m' = oam m \<and> window_line m' = window_line m
     \<and> ppu_latched_wy m' = ppu_latched_wy m"

lemma tile_bytes_cong:
  assumes "same_picture m m'"
  shows "bg_bytes m' = bg_bytes m" "win_bytes m' = win_bytes m"
proof -
  have e: "io m' = io m" "vram m' = vram m" "window_line m' = window_line m"
    using assms by (simp_all add: same_picture_def)
  show "bg_bytes m' = bg_bytes m" by (intro ext) (simp only: bg_bytes_def e)
  show "win_bytes m' = win_bytes m" by (intro ext) (simp only: win_bytes_def e)
qed

lemma bg_slow_cong: "same_picture m m' \<Longrightarrow> bg_slow m' ly base pc x c s = bg_slow m ly base pc x c s"
proof (induction m ly base pc x c s rule: bg_slow.induct)
  case (1 m ly base pc x c s)
  then have "io m' = io m" by (simp add: same_picture_def)
  with 1 tile_bytes_cong [OF "1.prems"] show ?case
    by (subst (1 2) bg_slow.simps) (auto split: prod.splits)
qed

lemma win_loop_cong: "same_picture m m' \<Longrightarrow> win_loop m' base pc x w s = win_loop m base pc x w s"
proof (induction m base pc x w s rule: win_loop.induct)
  case (1 m base pc x w s)
  then have "io m' = io m" by (simp add: same_picture_def)
  with 1 tile_bytes_cong [OF "1.prems"] show ?case
    by (subst (1 2) win_loop.simps) (auto split: prod.splits)
qed

lemma bg_aligned_cong: "same_picture m m' \<Longrightarrow> bg_aligned m' L ly base x c s = bg_aligned m L ly base x c s"
proof (induction m L ly base x c s rule: bg_aligned.induct)
  case (1 m L ly base x c fb cids)
  with tile_bytes_cong [OF "1.prems"] show ?case
    by (subst (1 2) bg_aligned.simps) (auto simp: Let_def split: prod.splits)
qed

lemma draw_obj_px_cong: "io m' = io m \<Longrightarrow> draw_obj_px m' b ob base px s = draw_obj_px m b ob base px s"
proof (induction m b ob base px s rule: draw_obj_px.induct)
  case (1 m b ob base px fb cids)
  have "obj_shade m' = obj_shade m" using 1 by (simp add: obj_shade_def fun_eq_iff)
  with 1 show ?case
    by (subst (1 2) draw_obj_px.simps) (auto simp: Let_def)
qed

lemma draw_obj_cong: "same_picture m m' \<Longrightarrow> draw_obj m' ly base ob s = draw_obj m ly base ob s"
proof -
  assume p: "same_picture m m'"
  then have e: "io m' = io m" "vram m' = vram m" by (simp_all add: same_picture_def)
  have "obj_row_bytes m' ly ob = obj_row_bytes m ly ob" by (simp only: obj_row_bytes_def e)
  then show ?thesis by (simp only: draw_obj_def draw_obj_px_cong [OF e(1)])
qed

lemma draw_parts_cong:
  assumes "same_picture m m'"
  shows "draw_bg m' L ly base s = draw_bg m L ly base s" "draw_window m' ly base s = draw_window m ly base s"
    "draw_sprites m' ly base s = draw_sprites m ly base s" "win_active m' ly = win_active m ly"
proof -
  have e: "io m' = io m" "oam m' = oam m" "ppu_latched_wy m' = ppu_latched_wy m"
    using assms by (simp_all add: same_picture_def)
  show "win_active m' ly = win_active m ly" by (simp add: win_active_def e)
  then show "draw_window m' ly base s = draw_window m ly base s"
    by (simp add: draw_window_def e win_loop_cong [OF assms] Let_def)
  show "draw_bg m' L ly base s = draw_bg m L ly base s"
    by (simp add: draw_bg_def bg_fast_def e tile_bytes_cong [OF assms] bg_slow_cong [OF assms] bg_aligned_cong [OF assms]
        Let_def)
  show "draw_sprites m' ly base s = draw_sprites m ly base s"
    by (simp only: draw_sprites_def e draw_obj_cong [OF assms, abs_def])
qed

definition add_count :: "nat \<Rightarrow> mmu \<Rightarrow> mmu" where
  "add_count d m = m\<lparr>ppu_lcd_count := ppu_lcd_count m + of_nat d\<rparr>"

definition ppu_room :: "nat \<Rightarrow> mmu \<Rightarrow> bool" where
  "ppu_room d m \<longleftrightarrow> unat (ppu_lcd_count m) + d < 65536"

lemma add_count_simps [simp]:
  "io (add_count d m) = io m" "ppu_lcd_mode (add_count d m) = ppu_lcd_mode m"
  "ppu_mode3_cycles (add_count d m) = ppu_mode3_cycles m" "ppu_mode0_cycles (add_count d m) = ppu_mode0_cycles m"
  "ppu_lcd_count (add_count d m) = ppu_lcd_count m + of_nat d" "add_count 0 m = m"
  "ppu_latched_wy (add_count d m) = ppu_latched_wy m"
  by (simp_all add: add_count_def)

lemma unat_add_count: "ppu_room d m \<Longrightarrow> unat (ppu_lcd_count m + of_nat d) = unat (ppu_lcd_count m) + d"
  by (simp add: ppu_room_def unat_word_ariths unat_of_nat_u16)

lemma add_count_draw: "ppu_draw_line ly (add_count d m) = add_count d (ppu_draw_line ly m)"
proof -
  have "same_picture m (add_count d m)" by (simp add: same_picture_def add_count_def)
  note c = draw_parts_cong [OF this]
  show ?thesis
    by (simp add: ppu_draw_line_def ppu_draw_line_from_def Let_def c case_prod_beta) (simp add: add_count_def)
qed

lemma add_count_commute:
  "ppu_check_lyc (add_count d m) = add_count d (ppu_check_lyc m)"
  "ppu_update_stat_irq (add_count d m) = add_count d (ppu_update_stat_irq m)"
  "set_mode md (add_count d m) = add_count d (set_mode md m)"
  "compute_mode3_cycles (add_count d m) = compute_mode3_cycles m"
  by (simp_all add: ppu_check_lyc_def ppu_update_stat_irq_def stat_line_high_def set_mode_def
      compute_mode3_cycles_def Let_def) (simp_all add: add_count_def)

lemma add_count_upd:
  "(add_count d m)\<lparr>io := f\<rparr> = add_count d (m\<lparr>io := f\<rparr>)"
  "(add_count d m)\<lparr>ppu_mode3_cycles := w\<rparr> = add_count d (m\<lparr>ppu_mode3_cycles := w\<rparr>)"
  "(add_count d m)\<lparr>ppu_mode0_cycles := w\<rparr> = add_count d (m\<lparr>ppu_mode0_cycles := w\<rparr>)"
  "(add_count d m)\<lparr>ppu_latched_wy := b\<rparr> = add_count d (m\<lparr>ppu_latched_wy := b\<rparr>)"
  "(add_count d m)\<lparr>window_line := b\<rparr> = add_count d (m\<lparr>window_line := b\<rparr>)"
  "frame_seq (add_count d m) = frame_seq m"
  "(add_count d m)\<lparr>frame_seq := e\<rparr> = add_count d (m\<lparr>frame_seq := e\<rparr>)"
  "(add_count d m)\<lparr>ppu_lcd_count := ppu_lcd_count m + of_nat d - t\<rparr>
    = add_count d (m\<lparr>ppu_lcd_count := ppu_lcd_count m - t\<rparr>)"
  by (simp_all add: add_count_def algebra_simps)

lemma threshold_add:
  assumes "ppu_room d m" "t \<le> ppu_lcd_count m"
  shows "t \<le> ppu_lcd_count m + of_nat d"
  using assms unat_add_count [OF assms(1)] by (simp add: word_le_nat_alt)

lemma ppu_transition_add:
  assumes "ppu_transition m = Some m'" "ppu_room d m"
  shows "ppu_transition (add_count d m) = Some (add_count d m')"
  using assms(1) threshold_add [OF assms(2)]
  unfolding ppu_transition_def Let_def
  by (auto simp: add_count_upd add_count_commute add_count_draw split: if_splits)

lemma ppu_transition_count:
  assumes "ppu_transition m = Some m'"
  shows "ppu_lcd_count m' \<le> ppu_lcd_count m"
  using assms unfolding ppu_transition_def Let_def
  by (auto simp: word_le_nat_alt unat_sub split: if_splits)

lemma ppu_transition_room: "ppu_transition m = Some m' \<Longrightarrow> ppu_room d m \<Longrightarrow> ppu_room d m'"
  using ppu_transition_count [of m m'] by (simp add: ppu_room_def word_le_nat_alt)

lemma ppu_loop_room: "ppu_room d m \<Longrightarrow> ppu_room d (ppu_loop m)"
proof (induction m rule: ppu_loop.induct)
  case (1 m)
  then show ?case
    by (subst ppu_loop.simps) (auto dest: ppu_transition_room split: option.split)
qed

lemma ppu_loop_add: "ppu_room d m \<Longrightarrow> ppu_loop (add_count d (ppu_loop m)) = ppu_loop (add_count d m)"
proof (induction m rule: ppu_loop.induct)
  case (1 m)
  show ?case
  proof (cases "ppu_transition m")
    case None
    then show ?thesis by (subst (2) ppu_loop.simps) simp
  next
    case (Some m')
    have "ppu_loop (add_count d (ppu_loop m)) = ppu_loop (add_count d (ppu_loop m'))"
      by (subst (2) ppu_loop.simps) (simp add: Some)
    also have "\<dots> = ppu_loop (add_count d m')" using 1 Some by (simp add: ppu_transition_room)
    also have "\<dots> = ppu_loop (add_count d m)"
      using ppu_transition_add [OF Some "1.prems"] by (subst (2) ppu_loop.simps) simp
    finally show ?thesis .
  qed
qed

definition ppu_run :: "nat \<Rightarrow> mmu \<Rightarrow> mmu" where
  "ppu_run d m = ppu_loop (add_count d m)"

lemma add_count_add: "add_count b (add_count a m) = add_count (a + b) m"
  by (simp add: add_count_def add.assoc)

interpretation mode_walk: divisible_clock ppu_run ppu_room
proof
  fix a b m assume r: "ppu_room (a + b) m"
  then show a: "ppu_room a m" by (simp add: ppu_room_def)
  have b: "ppu_room b (add_count a m)" using r unat_add_count [OF a] by (simp add: ppu_room_def)
  show "ppu_run b (ppu_run a m) = ppu_run (a + b) m"
    by (simp add: ppu_run_def ppu_loop_add [OF b] add_count_add)
  show "ppu_room b (ppu_run a m)" by (simp add: ppu_run_def ppu_loop_room [OF b])
qed

section \<open>Bringing the PPU up to date lazily\<close>

definition stamp :: "u64 \<Rightarrow> u64 \<Rightarrow> mmu \<Rightarrow> mmu" where
  "stamp t e m = m\<lparr>ppu_last_cpu_cycles := t, ppu_next_event_cycles := e\<rparr>"

lemma stamp_simps [simp]:
  "io (stamp t e m) = io m" "ppu_lcd_mode (stamp t e m) = ppu_lcd_mode m"
  "ppu_mode3_cycles (stamp t e m) = ppu_mode3_cycles m" "ppu_mode0_cycles (stamp t e m) = ppu_mode0_cycles m"
  "ppu_lcd_count (stamp t e m) = ppu_lcd_count m" "ppu_latched_wy (stamp t e m) = ppu_latched_wy m"
  "frame_seq (stamp t e m) = frame_seq m" "ppu_last_cpu_cycles (stamp t e m) = t"
  "ppu_next_event_cycles (stamp t e m) = e" "ppu_last_lcdc (stamp t e m) = ppu_last_lcdc m"
  "stamp t e (stamp t' e' m) = stamp t e m" "ppu_lcd_off_count (stamp t e m) = ppu_lcd_off_count m"
  by (simp_all add: stamp_def)

lemma stamp_draw: "ppu_draw_line ly (stamp t e m) = stamp t e (ppu_draw_line ly m)"
proof -
  have "same_picture m (stamp t e m)" by (simp add: same_picture_def stamp_def)
  note c = draw_parts_cong [OF this]
  show ?thesis
    by (simp add: ppu_draw_line_def ppu_draw_line_from_def Let_def c case_prod_beta) (simp add: stamp_def)
qed

lemma stamp_commute:
  "ppu_check_lyc (stamp t e m) = stamp t e (ppu_check_lyc m)"
  "ppu_update_stat_irq (stamp t e m) = stamp t e (ppu_update_stat_irq m)"
  "set_mode md (stamp t e m) = stamp t e (set_mode md m)"
  "compute_mode3_cycles (stamp t e m) = compute_mode3_cycles m"
  "add_count d (stamp t e m) = stamp t e (add_count d m)"
  "ppu_remaining (stamp t e m) = ppu_remaining m"
  by (simp_all add: ppu_check_lyc_def ppu_update_stat_irq_def stat_line_high_def set_mode_def
      compute_mode3_cycles_def ppu_remaining_def Let_def) (simp_all add: stamp_def add_count_def)

lemma stamp_upd:
  "(stamp t e m)\<lparr>io := f\<rparr> = stamp t e (m\<lparr>io := f\<rparr>)"
  "(stamp t e m)\<lparr>ppu_lcd_count := w\<rparr> = stamp t e (m\<lparr>ppu_lcd_count := w\<rparr>)"
  "(stamp t e m)\<lparr>ppu_mode3_cycles := w\<rparr> = stamp t e (m\<lparr>ppu_mode3_cycles := w\<rparr>)"
  "(stamp t e m)\<lparr>ppu_mode0_cycles := w\<rparr> = stamp t e (m\<lparr>ppu_mode0_cycles := w\<rparr>)"
  "(stamp t e m)\<lparr>ppu_latched_wy := b\<rparr> = stamp t e (m\<lparr>ppu_latched_wy := b\<rparr>)"
  "(stamp t e m)\<lparr>window_line := b\<rparr> = stamp t e (m\<lparr>window_line := b\<rparr>)"
  "(stamp t e m)\<lparr>frame_seq := x\<rparr> = stamp t e (m\<lparr>frame_seq := x\<rparr>)"
  by (simp_all add: stamp_def)

lemma ppu_transition_stamp:
  "ppu_transition (stamp t e m) = map_option (stamp t e) (ppu_transition m)"
  unfolding ppu_transition_def Let_def
  by (simp add: stamp_upd stamp_commute stamp_draw)

lemma ppu_loop_stamp: "ppu_loop (stamp t e m) = stamp t e (ppu_loop m)"
proof (induction m rule: ppu_loop.induct)
  case (1 m)
  then show ?case
    by (subst (1 2) ppu_loop.simps) (auto simp: ppu_transition_stamp split: option.split)
qed

text \<open>The wrap of LY in line 153, which only happens on entry.\<close>

definition wrap_153 :: "mmu \<Rightarrow> mmu" where
  "wrap_153 m = (if ppu_lcd_mode m = LCD_VBLANK \<and> io m LY_REG = 153
     then ppu_update_stat_irq (ppu_check_lyc (io_put LY_REG 0 m)) else m)"

lemma wrap_153_commute:
  "wrap_153 (stamp t e m) = stamp t e (wrap_153 m)" "wrap_153 (add_count d m) = add_count d (wrap_153 m)"
  by (simp_all add: wrap_153_def stamp_upd stamp_commute add_count_upd add_count_commute)

definition lcd_steady :: "mmu \<Rightarrow> bool" where
  "lcd_steady m \<longleftrightarrow> has (io m LCDC_REG) LCDC_ENABLE \<and> io m LCDC_REG = ppu_last_lcdc m"

lemma ppu_advance_steady:
  assumes "lcd_steady m" "d < 65536"
  shows "ppu_advance (ppu_last_cpu_cycles m + of_nat d) m =
    (let m' = ppu_run d (wrap_153 m); t = ppu_last_cpu_cycles m + of_nat d
     in stamp t (t + ucast (ppu_remaining m')) m')"
proof -
  have delta: "ucast (ppu_last_cpu_cycles m + of_nat d - ppu_last_cpu_cycles m) = (of_nat d :: u32)"
    using assms(2) by (simp add: ucast_of_nat_down)
  have cnt: "ucast ((ucast c :: u32) + of_nat d) = c + (of_nat d :: u16)" for c
    using ucast_of_nat_down(3) [of "unat c + d"] by simp
  let ?t = "ppu_last_cpu_cycles m + of_nat d"
  have eq: "io m LCDC_REG = ppu_last_lcdc m" and on: "has (ppu_last_lcdc m) LCDC_ENABLE"
    using assms(1) by (auto simp: lcd_steady_def)
  have st: "m\<lparr>ppu_last_cpu_cycles := ?t, ppu_lcd_count := ppu_lcd_count m + of_nat d\<rparr>
      = stamp ?t (ppu_next_event_cycles m) (add_count d m)"
    by (simp add: stamp_def add_count_def)
  have "ppu_advance ?t m = ppu_recompute_next_event ?t
      (ppu_loop (wrap_153 (m\<lparr>ppu_last_cpu_cycles := ?t, ppu_lcd_count := ppu_lcd_count m + of_nat d\<rparr>)))"
    by (simp add: ppu_advance_def Let_def eq on delta [simplified] cnt wrap_153_def)
  also have "\<dots> = ppu_recompute_next_event ?t (stamp ?t (ppu_next_event_cycles m) (ppu_run d (wrap_153 m)))"
    by (simp only: st wrap_153_commute ppu_loop_stamp ppu_run_def)
  finally show ?thesis
    by (simp add: ppu_recompute_next_event_def Let_def stamp_commute) (simp add: stamp_def)
qed

lemma pieces_io [simp]:
  "r \<noteq> STAT_REG \<Longrightarrow> io (ppu_check_lyc m) r = io m r"
  "r \<noteq> IF_REG \<Longrightarrow> io (ppu_update_stat_irq m) r = io m r"
  "r \<noteq> STAT_REG \<Longrightarrow> io (set_mode md m) r = io m r"
  by (simp_all add: ppu_check_lyc_def ppu_update_stat_irq_def set_mode_def Let_def)

lemma pieces_last_lcdc [simp]:
  "ppu_last_lcdc (ppu_check_lyc m) = ppu_last_lcdc m" "ppu_last_lcdc (ppu_update_stat_irq m) = ppu_last_lcdc m"
  "ppu_last_lcdc (set_mode md m) = ppu_last_lcdc m" "ppu_last_lcdc (ppu_draw_line ly m) = ppu_last_lcdc m"
  by (simp_all add: ppu_check_lyc_def ppu_update_stat_irq_def set_mode_def ppu_draw_line_def
      ppu_draw_line_from_def case_prod_beta Let_def)

lemma transition_keeps:
  assumes "ppu_transition m = Some m'"
  shows "io m' LCDC_REG = io m LCDC_REG" "ppu_last_lcdc m' = ppu_last_lcdc m" "ppu_lcd_mode m' \<le> 3"
  using assms unfolding ppu_transition_def Let_def by (auto split: if_splits)

lemma ppu_loop_keeps:
  "io (ppu_loop m) LCDC_REG = io m LCDC_REG" "ppu_last_lcdc (ppu_loop m) = ppu_last_lcdc m"
  "ppu_lcd_mode m \<le> 3 \<Longrightarrow> ppu_lcd_mode (ppu_loop m) \<le> 3" "ppu_transition (ppu_loop m) = None"
proof (induction m rule: ppu_loop.induct)
  case (1 m)
  show "io (ppu_loop m) LCDC_REG = io m LCDC_REG" "ppu_last_lcdc (ppu_loop m) = ppu_last_lcdc m"
    "ppu_lcd_mode m \<le> 3 \<Longrightarrow> ppu_lcd_mode (ppu_loop m) \<le> 3" "ppu_transition (ppu_loop m) = None"
    by (subst ppu_loop.simps; use 1 in \<open>auto simp: transition_keeps split: option.split\<close>)+
qed

lemma wrap_153_keeps [simp]:
  "io (wrap_153 m) LCDC_REG = io m LCDC_REG" "ppu_last_lcdc (wrap_153 m) = ppu_last_lcdc m"
  "ppu_lcd_mode (wrap_153 m) = ppu_lcd_mode m" "ppu_lcd_count (wrap_153 m) = ppu_lcd_count m"
  by (simp_all add: wrap_153_def ppu_check_lyc_def ppu_update_stat_irq_def Let_def)

lemma ppu_run_keeps [simp]:
  "io (ppu_run d m) LCDC_REG = io m LCDC_REG" "ppu_last_lcdc (ppu_run d m) = ppu_last_lcdc m"
  by (simp_all add: ppu_run_def ppu_loop_keeps) (simp add: add_count_def)

lemma wrap_153_idle: "\<not> (ppu_lcd_mode m = LCD_VBLANK \<and> io m LY_REG = 153) \<Longrightarrow> wrap_153 m = m"
  by (simp only: wrap_153_def if_False)

lemma lazy_advance:
  assumes s: "lcd_steady m" and room: "ppu_room (a + b) m"
    and ly: "\<not> (ppu_lcd_mode m1 = LCD_VBLANK \<and> io m1 LY_REG = 153)"
    and m1: "m1 = ppu_advance (ppu_last_cpu_cycles m + of_nat a) m"
  shows "ppu_advance (ppu_last_cpu_cycles m + of_nat (a + b)) m1
       = ppu_advance (ppu_last_cpu_cycles m + of_nat (a + b)) m"
proof -
  have ab: "a < 65536" "b < 65536" "a + b < 65536" using room by (auto simp: ppu_room_def)
  let ?t = "\<lambda>d. ppu_last_cpu_cycles m + of_nat d" and ?w = "wrap_153 m"
  have m1': "m1 = stamp (?t a) (?t a + ucast (ppu_remaining (ppu_run a ?w))) (ppu_run a ?w)"
    using m1 ppu_advance_steady [OF s ab(1)] by (simp add: Let_def)
  have s1: "lcd_steady m1" using s by (auto simp: m1' lcd_steady_def)
  have t: "?t (a + b) = ppu_last_cpu_cycles m1 + of_nat b" by (simp add: m1')
  have "ppu_room (a + b) ?w" using room by (simp add: ppu_room_def)
  from mode_walk.adv_adv [OF this] have r: "ppu_run b (ppu_run a ?w) = ppu_run (a + b) ?w" .
  have w1: "ppu_run b (wrap_153 m1) = stamp (?t a) (?t a + ucast (ppu_remaining (ppu_run a ?w))) (ppu_run (a + b) ?w)"
    unfolding wrap_153_idle [OF ly]
    by (simp only: m1') (simp only: ppu_run_def stamp_commute ppu_loop_stamp r [unfolded ppu_run_def])
  show ?thesis
    using ppu_advance_steady [OF s1 ab(2)] ppu_advance_steady [OF s ab(3)]
    by (simp only: t [symmetric] w1 Let_def stamp_simps stamp_commute)
qed

definition mode_length :: "mmu \<Rightarrow> u16" where
  "mode_length m =
     (if ppu_lcd_mode m = LCD_SEARCH_OAM then 80 else if ppu_lcd_mode m = LCD_TRANSFER then ppu_mode3_cycles m
      else if ppu_lcd_mode m = LCD_HBLANK then ppu_mode0_cycles m else 456)"

lemma mode_cases: "(md :: u8) \<le> 3 \<Longrightarrow> md = 0 \<or> md = 1 \<or> md = 2 \<or> md = 3"
proof -
  assume "md \<le> 3"
  then have "unat md \<le> 3" by (simp add: word_le_nat_alt)
  then have "unat md = 0 \<or> unat md = 1 \<or> unat md = 2 \<or> unat md = 3" by arith
  then show ?thesis by (simp add: word_unat_eq_iff)
qed

lemma transition_due_iff:
  assumes "ppu_lcd_mode m \<le> 3"
  shows "ppu_transition m \<noteq> None \<longleftrightarrow> mode_length m \<le> ppu_lcd_count m"
  using mode_cases [OF assms]
  by (elim disjE) (simp_all add: ppu_transition_def mode_length_def Let_def)

lemma remaining_length:
  assumes "has (io m LCDC_REG) LCDC_ENABLE" "ppu_lcd_mode m \<le> 3" "ppu_lcd_count m < mode_length m"
  shows "ppu_remaining m = of_nat (unat (mode_length m) - unat (ppu_lcd_count m))"
proof -
  define n where "n = unat (mode_length m) - unat (ppu_lcd_count m)"
  have le: "unat (ppu_lcd_count m) < unat (mode_length m)" using assms(3) by (simp add: word_less_nat_alt)
  have "unat (mode_length m) < 65536" using unsigned_less [where ?'a = nat, of "mode_length m"] by simp
  then have n: "0 < n" "n < 65536" using le by (auto simp: n_def)
  have diff: "(ucast (mode_length m) :: u32) - ucast (ppu_lcd_count m) = of_nat n"
    using le by (simp add: n_def of_nat_diff)
  have "sint (of_nat n :: u32) = int n"
    using n by (simp add: sint_uint uint_nat unat_of_nat_u32 signed_take_bit_int_eq_self)
  then have pos: "\<not> sint (of_nat n :: u32) \<le> 0" using n by simp
  have "ppu_remaining m = (let r = (ucast (mode_length m) :: u32) - ucast (ppu_lcd_count m) in if sint r \<le> 0 then 1 else r)"
    using mode_cases [OF assms(2)] assms(1)
    by (elim disjE) (simp_all add: ppu_remaining_def mode_length_def Let_def)
  then show ?thesis using diff pos by (simp add: Let_def n_def)
qed


lemma pieces_lengths [simp]:
  "ppu_mode3_cycles (ppu_update_stat_irq m) = ppu_mode3_cycles m"
  "ppu_mode0_cycles (ppu_update_stat_irq m) = ppu_mode0_cycles m"
  by (simp_all add: ppu_update_stat_irq_def Let_def)


lemma vblank_step:
  assumes "ppu_lcd_mode m = LCD_VBLANK" "io m LY_REG \<noteq> 0" "456 \<le> ppu_lcd_count m"
  shows "\<exists>m'. ppu_transition m = Some m' \<and> ppu_lcd_mode m' = LCD_VBLANK \<and> io m' LY_REG = io m LY_REG + 1
    \<and> ppu_lcd_count m' = ppu_lcd_count m - 456"
  using assms by (auto simp: ppu_transition_def Let_def)

lemma vblank_wait:
  assumes "ppu_lcd_mode m = LCD_VBLANK" "ppu_lcd_count m < 456"
  shows "ppu_loop m = m"
  using assms by (subst ppu_loop.simps) (simp add: ppu_transition_def Let_def)

lemma loop_step: "ppu_transition m = Some m' \<Longrightarrow> ppu_loop m = ppu_loop m'"
  by (subst ppu_loop.simps) simp

lemma vblank_wrap:
  assumes "ppu_lcd_mode m = LCD_VBLANK" "io m LY_REG = 0" "456 \<le> ppu_lcd_count m"
  shows "\<exists>m'. ppu_transition m = Some m' \<and> ppu_lcd_mode m' = LCD_SEARCH_OAM \<and> io m' LY_REG = 0
    \<and> ppu_lcd_count m' = ppu_lcd_count m - 456"
  using assms by (auto simp: ppu_transition_def Let_def)

lemma search_wait: "ppu_lcd_mode m = LCD_SEARCH_OAM \<Longrightarrow> ppu_lcd_count m < 80 \<Longrightarrow> ppu_loop m = m"
  by (subst ppu_loop.simps) (simp add: ppu_transition_def Let_def)

section \<open>A visible line\<close>







section \<open>Properties\<close>

text \<open>\<open>gb_cycles_reached\<close> is the comparison of the two stamps as long as they are less than
  2^31 cycles apart, although it only looks at their low 32 bits.\<close>

theorem cycles_reached_correct:
  assumes "unat now < unat deadline + 2 ^ 31" "unat deadline \<le> unat now + 2 ^ 31"
  shows "gb_cycles_reached now deadline \<longleftrightarrow> deadline \<le> now"
proof -
  let ?d = "uint now - uint deadline"
  have "- 2147483648 \<le> int (unat now) - int (unat deadline)" "int (unat now) - int (unat deadline) < 2147483648"
    using assms [simplified] by linarith+
  then have "- (2 ^ 31) \<le> ?d" "?d < 2 ^ 31" by simp_all
  then have "sint (word_of_int ?d :: u32) = ?d"
    by (subst sint_sbintrunc') (rule signed_take_bit_int_eq_self, simp_all)
  moreover have "(ucast now :: u32) - ucast deadline = word_of_int ?d" by simp
  ultimately show ?thesis unfolding gb_cycles_reached_def word_le_def by (simp only: diff_ge_0_iff_ge)
qed

text \<open>C39: bringing the timer up to date after every piece of a stretch of time or once at its end is the same, for
  accumulators in their ranges (DIV below 64, TIMA below 1024, as every call leaves them) and less than 2^31 cycles
  altogether: DIV, TIMA, the reload from TMA, the timer interrupt and both accumulators do not depend on how often
  \<open>timer_tick\<close> runs.\<close>

theorem timer_in_parts:
  assumes "unat (timer_div_acc m) < 64" "unat (timer_tima_acc m) < 1024" "d + sum_list ds < 2 ^ 31"
  shows "foldl (\<lambda>m d. timer_tick (timer_last_cycles m + of_nat d) m)
           (timer_tick (timer_last_cycles m + of_nat d) m) ds
       = timer_tick (timer_last_cycles m + of_nat (d + sum_list ds)) m"
  using timer.adv_parts [of d ds m] assms by (simp add: timer_room_def timer_adv_def [abs_def])

text \<open>C7: skipping an intermediate \<open>ppu_advance\<close> is unobservable: when the LCD is on, its control
  register is unchanged and the counter has room, advancing to a later time directly or by way of
  an earlier one gives the same state, unless the earlier call stops in line 153.\<close>

theorem lazy_advance_unobservable:
  assumes "lcd_steady m" "unat (ppu_lcd_count m) + (a + b) < 65536"
    and "m1 = ppu_advance (ppu_last_cpu_cycles m + of_nat a) m"
    and "\<not> (ppu_lcd_mode m1 = LCD_VBLANK \<and> io m1 LY_REG = 153)"
  shows "ppu_advance (ppu_last_cpu_cycles m + of_nat (a + b)) m1
       = ppu_advance (ppu_last_cpu_cycles m + of_nat (a + b)) m"
  by (rule lazy_advance [OF assms(1) _ assms(4,3)]) (simp add: ppu_room_def assms(2))

text \<open>C28: after an advance with the LCD on, the deadline that lets later ticks return early is
  exactly the time of the next mode change: no transition is due before it, and one is due at it.\<close>

theorem next_event_exact:
  assumes "lcd_steady m" "ppu_lcd_mode m \<le> 3" "unat (ppu_lcd_count m) + d < 65536"
    and "m' = ppu_advance (ppu_last_cpu_cycles m + of_nat d) m"
  shows "\<exists>r>0. ppu_next_event_cycles m' = ppu_last_cpu_cycles m + of_nat d + of_nat r
    \<and> (\<forall>k<r. ppu_transition (add_count k m') = None) \<and> ppu_transition (add_count r m') \<noteq> None"
proof -
  let ?x = "ppu_run d (wrap_153 m)" and ?t = "ppu_last_cpu_cycles m + of_nat d"
  have m': "m' = stamp ?t (?t + ucast (ppu_remaining ?x)) ?x"
    using ppu_advance_steady [OF assms(1), of d] assms(3,4) by (simp add: Let_def)
  have md: "ppu_lcd_mode ?x \<le> 3" using assms(2) by (simp add: ppu_run_def ppu_loop_keeps)
  have none: "ppu_transition ?x = None" by (simp add: ppu_run_def ppu_loop_keeps)
  then have lt: "ppu_lcd_count ?x < mode_length ?x" using transition_due_iff [OF md] by auto
  define r where "r = unat (mode_length ?x) - unat (ppu_lcd_count ?x)"
  have on: "has (io ?x LCDC_REG) LCDC_ENABLE" using assms(1) by (auto simp: lcd_steady_def)
  have L: "unat (mode_length ?x) < 65536" using unsigned_less [where ?'a = nat, of "mode_length ?x"] by simp
  have r: "0 < r" "r < 65536" "unat (ppu_lcd_count ?x) + r = unat (mode_length ?x)"
    using lt L by (auto simp: r_def word_less_nat_alt)
  have "ucast (ppu_remaining ?x) = (of_nat r :: u64)"
    using remaining_length [OF on md lt] r(2)
    by (simp only: r_def [symmetric] ucast_of_nat_up)
  then have e: "ppu_next_event_cycles m' = ?t + of_nat r" by (simp add: m')
  have due: "ppu_transition (add_count k m') \<noteq> None \<longleftrightarrow> r \<le> k" if "k \<le> r" for k
  proof -
    have room: "ppu_room k ?x" using that r L by (simp add: ppu_room_def)
    have "ppu_transition (add_count k m') \<noteq> None \<longleftrightarrow> mode_length (add_count k ?x) \<le> ppu_lcd_count (add_count k ?x)"
      using transition_due_iff [of "add_count k ?x"] md by (simp add: m' stamp_commute ppu_transition_stamp)
    also have "\<dots> \<longleftrightarrow> r \<le> k"
      using unat_add_count [OF room] r by (auto simp: mode_length_def word_le_nat_alt)
    finally show ?thesis .
  qed
  have "ppu_transition (add_count k m') = None" if "k < r" for k using due [of k] that by auto
  moreover have "ppu_transition (add_count r m') \<noteq> None" using due [of r] by auto
  ultimately show ?thesis using e r(1) by blast
qed


text \<open>C40: the end of the frame depends on how the time is cut into calls. From the first 80 cycles of line 152, with
  the LCD on, one advance by 912 cycles takes LY to 154, still in V-blank, since the wrap of LY to 0 in line 153 is
  only tested on entry; the same time in two advances of 456 cycles ends the frame, with LY = 0 and mode 2.\<close>

theorem line_153_overrun:
  assumes "lcd_steady m" "ppu_lcd_mode m = LCD_VBLANK" "io m LY_REG = 152" "ppu_lcd_count m < 80"
  defines "t \<equiv> \<lambda>k. ppu_last_cpu_cycles m + of_nat k"
  shows "io (ppu_advance (t 912) m) LY_REG = 154 \<and> ppu_lcd_mode (ppu_advance (t 912) m) = LCD_VBLANK
    \<and> io (ppu_advance (t 912) (ppu_advance (t 456) m)) LY_REG = 0
    \<and> ppu_lcd_mode (ppu_advance (t 912) (ppu_advance (t 456) m)) = LCD_SEARCH_OAM"
proof -
  have n: "unat (ppu_lcd_count m) < 80" using assms(4) by (simp add: word_less_nat_alt)
  have w: "wrap_153 m = m" by (rule wrap_153_idle) (simp add: assms(3))
  have add: "unat (ppu_lcd_count (add_count k x)) = unat (ppu_lcd_count x) + k" if "unat (ppu_lcd_count x) < 1000" "k < 1000" for k x
    using that unat_add_count [of k x] by (simp add: ppu_room_def)
  have sub: "unat (c - 456) = unat c - 456" if "456 \<le> unat c" for c :: u16
    using that by (subst unat_sub) (simp_all add: word_le_nat_alt)
  have line: "\<exists>m'. ppu_transition (add_count k m) = Some m' \<and> ppu_lcd_mode m' = LCD_VBLANK \<and> io m' LY_REG = 153
      \<and> unat (ppu_lcd_count m') = unat (ppu_lcd_count m) + k - 456" if "456 \<le> k" "k < 1000" for k
    using vblank_step [of "add_count k m"] add [of m k] sub [of "ppu_lcd_count (add_count k m)"] that n assms(2,3)
    by (auto simp del: add_count_simps(5) simp: word_le_nat_alt)
  have once: "io (ppu_run 912 m) LY_REG = 154 \<and> ppu_lcd_mode (ppu_run 912 m) = LCD_VBLANK"
  proof -
    obtain m1 where m1: "ppu_transition (add_count 912 m) = Some m1" "ppu_lcd_mode m1 = LCD_VBLANK" "io m1 LY_REG = 153"
      "unat (ppu_lcd_count m1) = unat (ppu_lcd_count m) + 912 - 456" using line [of 912] by auto
    obtain m2 where m2: "ppu_transition m1 = Some m2" "ppu_lcd_mode m2 = LCD_VBLANK" "io m2 LY_REG = 154"
      "ppu_lcd_count m2 = ppu_lcd_count m1 - 456"
      using vblank_step [OF m1(2)] m1(3,4) by (auto simp: word_le_nat_alt)
    have "ppu_lcd_count m2 < 456" using m1(4) m2(4) n sub [of "ppu_lcd_count m1"] by (simp add: word_less_nat_alt)
    from vblank_wait [OF m2(2) this] m2(2,3) show ?thesis by (simp add: ppu_run_def loop_step [OF m1(1)] loop_step [OF m2(1)])
  qed
  obtain m1 where m1: "ppu_transition (add_count 456 m) = Some m1" "ppu_lcd_mode m1 = LCD_VBLANK" "io m1 LY_REG = 153"
    "unat (ppu_lcd_count m1) = unat (ppu_lcd_count m)" using line [of 456] by auto
  have r1: "ppu_run 456 m = m1"
    using vblank_wait [OF m1(2)] m1(4) n by (simp add: ppu_run_def loop_step [OF m1(1)] word_less_nat_alt)
  define x where "x = ppu_advance (t 456) m"
  have x: "x = stamp (t 456) (t 456 + ucast (ppu_remaining m1)) m1"
    using ppu_advance_steady [OF assms(1), of 456] by (simp add: x_def t_def w r1 Let_def)
  have sx: "lcd_steady x" using ppu_run_keeps [of 456 m] assms(1) by (auto simp: x lcd_steady_def r1)
  have wx: "ppu_lcd_mode (wrap_153 x) = LCD_VBLANK" "io (wrap_153 x) LY_REG = 0" "unat (ppu_lcd_count (wrap_153 x)) = unat (ppu_lcd_count m)"
    using m1(2-4) by (simp_all add: x) (simp add: wrap_153_def)
  have c: "unat (ppu_lcd_count (add_count 456 (wrap_153 x))) = unat (ppu_lcd_count m) + 456" using add [of "wrap_153 x" 456] wx(3) n by simp
  obtain m2 where m2: "ppu_transition (add_count 456 (wrap_153 x)) = Some m2" "ppu_lcd_mode m2 = LCD_SEARCH_OAM" "io m2 LY_REG = 0"
    "ppu_lcd_count m2 = ppu_lcd_count (add_count 456 (wrap_153 x)) - 456"
    using vblank_wrap [of "add_count 456 (wrap_153 x)"] wx c by (auto simp del: add_count_simps(5) simp: word_le_nat_alt)
  have "unat (ppu_lcd_count m2) = unat (ppu_lcd_count m)" unfolding m2(4) using sub c by (simp del: add_count_simps(5))
  then have "ppu_run 456 (wrap_153 x) = m2"
    using search_wait [OF m2(2)] n by (simp add: ppu_run_def loop_step [OF m2(1)] word_less_nat_alt)
  moreover have "t 912 = ppu_last_cpu_cycles x + of_nat 456" by (simp add: x t_def)
  ultimately have "io (ppu_advance (t 912) x) LY_REG = 0 \<and> ppu_lcd_mode (ppu_advance (t 912) x) = LCD_SEARCH_OAM"
    using ppu_advance_steady [OF sx, of 456] m2(2,3) by (simp add: Let_def)
  moreover have "io (ppu_advance (t 912) m) LY_REG = 154 \<and> ppu_lcd_mode (ppu_advance (t 912) m) = LCD_VBLANK"
    using ppu_advance_steady [OF assms(1), of 912] once by (simp add: t_def w Let_def)
  ultimately show ?thesis by (simp add: x_def)
qed

lemma tima_steps_io:
  assumes "unat (io m TIMA_REG) + n < 256"
  shows "io ((tima_step ^^ n) m) TIMA_REG = io m TIMA_REG + of_nat n \<and> io ((tima_step ^^ n) m) IF_REG = io m IF_REG"
  using assms
proof (induction n)
  case 0
  then show ?case by simp
next
  case (Suc n)
  let ?m = "(tima_step ^^ n) m"
  have ih: "io ?m TIMA_REG = io m TIMA_REG + of_nat n" "io ?m IF_REG = io m IF_REG" using Suc by simp_all
  have "unat (io ?m TIMA_REG) = unat (io m TIMA_REG) + n"
    using Suc.prems by (simp only: ih unat_add_u8 unat_of_nat_u8 mod_add_right_eq) simp
  then have "io ?m TIMA_REG \<noteq> 0xFF" using Suc.prems by (auto simp: word_unat_eq_iff)
  with ih show ?case using tima_step_def [of ?m] by (simp add: add_ac)
qed

lemma tima_steps_if: "io ((tima_step ^^ n) m) IF_REG \<in> {io m IF_REG, io m IF_REG OR INT_TIMER}"
  by (induction n) (auto simp: tima_step_def or.assoc)

lemma tima_steps_overflow:
  assumes "256 \<le> unat (io m TIMA_REG) + n"
  shows "io ((tima_step ^^ n) m) IF_REG = io m IF_REG OR INT_TIMER"
  using assms
proof (induction n)
  case 0
  then show ?case using unat_u8 [of "io m TIMA_REG"] by linarith
next
  case (Suc n)
  show ?case
  proof (cases "256 \<le> unat (io m TIMA_REG) + n")
    case True
    with Suc.IH show ?thesis using tima_step_def [of "(tima_step ^^ n) m"] by (auto simp: or.assoc)
  next
    case False
    then have n: "unat (io m TIMA_REG) + n = 255" using Suc.prems by linarith
    then have io: "io ((tima_step ^^ n) m) TIMA_REG = io m TIMA_REG + of_nat n" "io ((tima_step ^^ n) m) IF_REG = io m IF_REG"
      using tima_steps_io [of m n] by simp_all
    have "unat (io m TIMA_REG + of_nat n) = 255"
      by (simp only: unat_add_u8 unat_of_nat_u8 mod_add_right_eq n) simp
    then have "io m TIMA_REG + of_nat n = 0xFF" by (simp add: word_unat_eq_iff)
    with io show ?thesis using tima_step_def [of "(tima_step ^^ n) m"] by simp
  qed
qed

text \<open>TIMA counts from its value up to FF and then round from TMA.\<close>

definition tima_count :: "nat \<Rightarrow> nat \<Rightarrow> nat \<Rightarrow> nat" where
  "tima_count t r n = (if t + n < 256 then t + n else r + (t + n - 256) mod (256 - r))"

lemma tima_count_Suc:
  assumes "r < 256" "t < 256"
  shows "tima_count t r (Suc n) = (if tima_count t r n = 255 then r else Suc (tima_count t r n))"
proof (cases "t + n < 256")
  case True
  then show ?thesis by (auto simp: tima_count_def)
next
  case False
  define k where "k = t + n - 256"
  have k: "t + n = 256 + k" using False by (simp add: k_def)
  have "k mod (256 - r) < 256 - r" using assms(1) by simp
  then show ?thesis using k assms(1) by (auto simp: tima_count_def mod_Suc)
qed

lemma tima_steps_value:
  "unat (io ((tima_step ^^ n) m) TIMA_REG) = tima_count (unat (io m TIMA_REG)) (unat (io m TMA_REG)) n
   \<and> io ((tima_step ^^ n) m) TMA_REG = io m TMA_REG"
proof (induction n)
  case 0
  then show ?case using unat_u8 [of "io m TIMA_REG"] by (simp add: tima_count_def)
next
  case (Suc n)
  let ?m = "(tima_step ^^ n) m"
  have s: "unat (io m TMA_REG) < 256" "unat (io m TIMA_REG) < 256" by (rule unat_u8)+
  have "io ?m TIMA_REG = 0xFF \<longleftrightarrow> unat (io ?m TIMA_REG) = 255" by (simp add: word_unat_eq_iff)
  moreover have "unat (io ?m TIMA_REG) \<noteq> 255 \<Longrightarrow> unat (io ?m TIMA_REG + 1) = Suc (unat (io ?m TIMA_REG))"
    using le_neq_implies_less [OF unat_u8 [of "io ?m TIMA_REG", THEN less_Suc_eq_le [THEN iffD1, of _ 255, simplified]]]
    by (simp add: unat_add_u8)
  ultimately show ?case using Suc tima_count_Suc [OF s] tima_step_def [of ?m] by simp
qed

text \<open>C24: what one call of \<open>timer_tick\<close> does for \<open>d\<close> elapsed cycles. DIV moves on by one for every 64 cycles, as the
  code has it; the rate that its comments name, 16384 Hz, would be one for every 256. With the timer enabled in TAC,
  \<open>n\<close> periods of the length TAC selects have passed: TIMA counts up to FF and from there on round from the value of
  TMA to FF, so that its value is the closed form below, and the timer interrupt is requested exactly when it has
  overflowed at least once. With the timer disabled TIMA and IF are unchanged.\<close>

theorem timer_counts:
  assumes "unat (timer_div_acc m) < 64" "unat (timer_tima_acc m) < 1024" "0 < d" "d < 2 ^ 31"
    and "m' = timer_tick (timer_last_cycles m + of_nat d) m"
    and "n = (if has (io m TAC_REG) 4 then (unat (timer_tima_acc m) + d) div unat (tima_period (io m TAC_REG)) else 0)"
    and "t = unat (io m TIMA_REG)" "r = unat (io m TMA_REG)"
  shows "io m' DIV_REG = io m DIV_REG + of_nat ((unat (timer_div_acc m) + d) div 64)
    \<and> unat (io m' TIMA_REG) = (if t + n < 256 then t + n else r + (t + n - 256) mod (256 - r))
    \<and> io m' IF_REG = (if t + n < 256 then io m IF_REG else io m IF_REG OR INT_TIMER)"
proof -
  have "m' = tima_after d (div_after d m)"
    using timer_adv_form [of d m] assms by (simp add: timer_room_def timer_adv_def)
  moreover have "io ((tima_step ^^ k) x) DIV_REG = io x DIV_REG" for k x by (rule funpow_keeps) simp
  moreover have "io (div_after d m) DIV_REG = io m DIV_REG + of_nat ((unat (timer_div_acc m) + d) div 64)"
    by (simp add: div_after_def)
  ultimately show ?thesis
    using tima_steps_io [of "(div_after d m)\<lparr>timer_tima_acc := x\<rparr>" n for x]
      tima_steps_value [of n "(div_after d m)\<lparr>timer_tima_acc := x\<rparr>" for x]
      tima_steps_overflow [of "(div_after d m)\<lparr>timer_tima_acc := x\<rparr>" n for x] assms(6)
      unat_u8 [of "io m TIMA_REG"]
    by (auto simp: tima_after_def tima_count_def assms(7,8))
qed

text \<open>A PPU in OAM search with the LCD on, and one in line 152.\<close>

definition oam_search_mmu :: mmu where
  "oam_search_mmu = static_mmu\<lparr>io := (\<lambda>_. 0)(LCDC_REG := 0x80), ppu_last_lcdc := 0x80, ppu_lcd_mode := 2\<rparr>"

definition line_152_mmu :: mmu where
  "line_152_mmu = static_mmu\<lparr>io := (\<lambda>_. 0)(LCDC_REG := 0x80, LY_REG := 152), ppu_last_lcdc := 0x80, ppu_lcd_mode := 1\<rparr>"

text \<open>A timer that overflows: TIMA = FE, TMA = F0, 16 cycles a count.\<close>

definition timer_mmu :: mmu where
  "timer_mmu = static_mmu\<lparr>io := (\<lambda>_. 0)(TAC_REG := 5, TIMA_REG := 0xFE, TMA_REG := 0xF0)\<rparr>"

theorem cycles_reached_correct_witness:
  "gb_cycles_reached 0x100000001 0xFFFFFFFF \<longleftrightarrow> (0xFFFFFFFF :: u64) \<le> 0x100000001"
  by (rule cycles_reached_correct) simp_all

theorem timer_in_parts_witness:
  "foldl (\<lambda>m d. timer_tick (timer_last_cycles m + of_nat d) m)
     (timer_tick (timer_last_cycles static_mmu + of_nat 100) static_mmu) [24, 4]
   = timer_tick (timer_last_cycles static_mmu + of_nat (100 + sum_list [24, 4])) static_mmu"
  by (rule timer_in_parts) (simp_all add: static_mmu_def)

theorem timer_counts_witness:
  "let m' = timer_tick (timer_last_cycles timer_mmu + of_nat 64) timer_mmu
   in unat (io m' TIMA_REG) = 0xF2 \<and> io m' IF_REG = INT_TIMER \<and> io m' DIV_REG = 1"
  using timer_counts [of timer_mmu 64, OF _ _ _ _ refl refl refl refl]
  by (simp add: Let_def timer_mmu_def static_mmu_def has_def tima_period_def)

lemma oam_search_idle: "ppu_lcd_mode (ppu_advance (ppu_last_cpu_cycles oam_search_mmu + of_nat 10) oam_search_mmu) = 2"
proof -
  have s: "lcd_steady oam_search_mmu" by (simp add: lcd_steady_def oam_search_mmu_def has_def)
  have "wrap_153 oam_search_mmu = oam_search_mmu" by (rule wrap_153_idle) (simp add: oam_search_mmu_def)
  moreover have "ppu_transition (add_count 10 oam_search_mmu) = None"
    by (simp add: ppu_transition_def oam_search_mmu_def static_mmu_def)
  then have "ppu_run 10 oam_search_mmu = add_count 10 oam_search_mmu"
    unfolding ppu_run_def by (subst ppu_loop.simps) simp
  ultimately show ?thesis
    using ppu_advance_steady [OF s, of 10] by (simp add: Let_def) (simp add: oam_search_mmu_def)
qed

theorem lazy_advance_unobservable_witness:
  "ppu_advance (ppu_last_cpu_cycles oam_search_mmu + of_nat (10 + 90))
     (ppu_advance (ppu_last_cpu_cycles oam_search_mmu + of_nat 10) oam_search_mmu)
   = ppu_advance (ppu_last_cpu_cycles oam_search_mmu + of_nat (10 + 90)) oam_search_mmu"
proof (rule lazy_advance_unobservable [OF _ _ refl])
  show "lcd_steady oam_search_mmu" by (simp add: lcd_steady_def oam_search_mmu_def has_def)
  show "unat (ppu_lcd_count oam_search_mmu) + (10 + 90) < 65536" by (simp add: oam_search_mmu_def static_mmu_def)
  show "\<not> (ppu_lcd_mode (ppu_advance (ppu_last_cpu_cycles oam_search_mmu + of_nat 10) oam_search_mmu) = LCD_VBLANK
      \<and> io (ppu_advance (ppu_last_cpu_cycles oam_search_mmu + of_nat 10) oam_search_mmu) LY_REG = 153)"
    using oam_search_idle by simp
qed

theorem next_event_exact_witness:
  "\<exists>r>0. ppu_next_event_cycles (ppu_advance (ppu_last_cpu_cycles oam_search_mmu + of_nat 10) oam_search_mmu)
     = ppu_last_cpu_cycles oam_search_mmu + of_nat 10 + of_nat r
    \<and> (\<forall>k<r. ppu_transition (add_count k (ppu_advance (ppu_last_cpu_cycles oam_search_mmu + of_nat 10) oam_search_mmu)) = None)
    \<and> ppu_transition (add_count r (ppu_advance (ppu_last_cpu_cycles oam_search_mmu + of_nat 10) oam_search_mmu)) \<noteq> None"
  by (rule next_event_exact [OF _ _ _ refl])
    (simp_all add: lcd_steady_def oam_search_mmu_def static_mmu_def has_def)


theorem line_153_overrun_witness:
  "io (ppu_advance (ppu_last_cpu_cycles line_152_mmu + 912) line_152_mmu) LY_REG = 154
   \<and> io (ppu_advance (ppu_last_cpu_cycles line_152_mmu + 912) (ppu_advance (ppu_last_cpu_cycles line_152_mmu + 456) line_152_mmu)) LY_REG = 0"
  using line_153_overrun [of line_152_mmu]
  by (simp add: lcd_steady_def line_152_mmu_def static_mmu_def has_def)

end
