(* ===== verification/Mmu_Safety.thy ===== *)
theory Mmu_Safety
  imports Mmu_Laws Ppu_Laws Render_Laws
begin

text \<open>
  What the memory unit keeps safe: no write leaves the arrays of \<open>struct mmu\<close> (the PPU that a
  register write brings up to date and the scanlines it draws included), no read depends on a
  byte outside them, the selected ROM bank exists, and every write that changes a byte of code
  raises one of the flags that the block dispatcher polls. Then the cartridge loader, the OAM
  transfer and the serial port.
\<close>

section \<open>Every write is inside its array\<close>

text \<open>The framebuffer outside the line being drawn.\<close>

definition off_line :: "nat \<Rightarrow> nat \<Rightarrow> bool" where
  "off_line base i \<longleftrightarrow> i < base \<or> base + 160 \<le> i"

lemma px_span_off: "off_line base i \<Longrightarrow> fst (snd (snd (px_span b0 b1 bgp base pc x c s))) i = fst s i"
proof (induction b0 b1 bgp base pc x c s rule: px_span.induct)
  case (1 b0 b1 bgp base pc x c fb cids)
  then show ?case by (subst px_span.simps) (auto simp: Let_def off_line_def)
qed

lemma bg_slow_off: "off_line base i \<Longrightarrow> fst (bg_slow m ly base pc x c s) i = fst s i"
proof (induction m ly base pc x c s rule: bg_slow.induct)
  case (1 m ly base pc x c s)
  show ?case
    using 1 px_span_off [OF "1.prems", of "fst (bg_bytes m ly c)" "snd (bg_bytes m ly c)" "io m BGP_REG" pc x c s]
    by (subst bg_slow.simps) (auto split: prod.splits)
qed

lemma win_loop_off: "off_line base i \<Longrightarrow> fst (win_loop m base pc x w s) i = fst s i"
proof (induction m base pc x w s rule: win_loop.induct)
  case (1 m base pc x w s)
  show ?case
    using 1 px_span_off [OF "1.prems", of "fst (win_bytes m w)" "snd (win_bytes m w)" "io m BGP_REG" pc x w s]
    by (subst win_loop.simps) (auto split: prod.splits)
qed

lemma memcpy4_off: "off_line base i \<Longrightarrow> x + 4 \<le> 160 \<Longrightarrow> memcpy4 f (base + x) w i = f i"
  by (auto simp: memcpy4_def off_line_def)

lemma bg_aligned_off: "off_line base i \<Longrightarrow> fst (snd (snd (bg_aligned m L ly base x c s))) i = fst s i"
proof (induction m L ly base x c s rule: bg_aligned.induct)
  case (1 m L ly base x c fb cids)
  show ?case
  proof (cases "x + 8 \<le> 160")
    case True
    obtain b0 b1 where b: "bg_bytes m ly c = (b0, b1)" by (cases "bg_bytes m ly c")
    have w: "memcpy4 (memcpy4 fb (base + x) u) (base + (x + 4)) v i = fb i" for u v
      using True by (simp add: memcpy4_off [OF "1.prems"])
    show ?thesis
      using "1.IH" [OF True b [symmetric] refl refl refl refl refl refl "1.prems"] True
      by (subst bg_aligned.simps) (simp only: b Let_def prod.case if_True fst_conv w)
  next
    case False
    then show ?thesis by (subst bg_aligned.simps) simp
  qed
qed

lemma bg_blank_off: "off_line base i \<Longrightarrow> fst (bg_blank bgp base x s) i = fst s i"
proof (induction bgp base x s rule: bg_blank.induct)
  case (1 bgp base x fb cids)
  then show ?case by (subst bg_blank.simps) (auto simp: off_line_def)
qed

lemma draw_obj_off: "off_line base i \<Longrightarrow> fst (draw_obj m ly base ob s) i = fst s i"
  by (auto simp: draw_obj_put put_obj_def off_line_def)

lemma bg_fast_off:
  assumes "off_line base i"
  shows "fst (bg_fast m L ly base s) i = fst s i"
  by (simp add: bg_fast_def Let_def case_prod_beta bg_slow_off [OF assms] bg_aligned_off [OF assms]
      px_span_off [OF assms])

lemma draw_line_off:
  assumes "off_line (unat ly * 160) i"
  shows "framebuffer (ppu_draw_line ly m) i = framebuffer m i"
proof -
  have "fst (foldr (draw_obj m ly (unat ly * 160)) obs s) i = fst s i" for obs s
    by (induction obs) (simp_all add: draw_obj_off [OF assms])
  moreover have "fst (draw_window m ly (unat ly * 160) s) i = fst s i" for s
    using win_loop_off [OF assms] by (simp add: draw_window_def Let_def)
  moreover have "fst (draw_bg m L ly (unat ly * 160) s) i = fst s i" for L s
    using bg_fast_off [OF assms] bg_blank_off [OF assms] by (simp add: draw_bg_def)
  ultimately show ?thesis
    by (simp add: ppu_draw_line_def ppu_draw_line_from_def Let_def case_prod_beta draw_sprites_def)
qed

lemma draw_line_fb [wf]:
  assumes "ly < 144"
  shows "untouched FB_SIZE (framebuffer m) (framebuffer (ppu_draw_line ly m))"
  using assms by (auto simp: untouched_def sizes off_line_def word_less_nat_alt intro!: draw_line_off)

text \<open>No operation on \<open>m\<close> leaves the arrays of the structure.\<close>

definition inside :: "mmu \<Rightarrow> mmu \<Rightarrow> bool" where
  "inside m m' \<longleftrightarrow> untouched IO_SIZE (io m) (io m') \<and> untouched FB_SIZE (framebuffer m) (framebuffer m')"

lemma inside_refl [simp, intro!]: "inside m m" by (simp add: inside_def)

lemma inside_trans [trans]: "inside a b \<Longrightarrow> inside b c \<Longrightarrow> inside a c"
  by (auto simp: inside_def intro: untouched_trans)

lemma inside_io_put: "r < IO_SIZE \<Longrightarrow> inside m (io_put r v m)"
  by (auto simp: inside_def)

lemma inside_same: "io m' = io m \<Longrightarrow> framebuffer m' = framebuffer m \<Longrightarrow> inside m m'"
  by (simp add: inside_def)

lemma pieces_inside:
  "inside m (ppu_check_lyc m)" "inside m (ppu_update_stat_irq m)" "inside m (set_mode md m)"
  "inside m (tima_step m)"
  by (auto simp: ppu_check_lyc_def ppu_update_stat_irq_def set_mode_def Let_def tima_step_def inside_def sizes
      untouched_def)

lemma inside_step:
  "inside m x \<Longrightarrow> inside m (ppu_check_lyc x)" "inside m x \<Longrightarrow> inside m (ppu_update_stat_irq x)"
  "inside m x \<Longrightarrow> inside m (set_mode md x)" "inside m x \<Longrightarrow> inside m (tima_step x)"
  using pieces_inside by (blast intro: inside_trans)+

lemma inside_io: "inside m x \<Longrightarrow> untouched IO_SIZE (io m) g \<Longrightarrow> inside m (x\<lparr>io := g\<rparr>)"
  by (simp add: inside_def)

lemma inside_ioD: "inside m x \<Longrightarrow> untouched IO_SIZE (io m) (io x)"
  by (simp add: inside_def)

lemma inside_upd [simp]:
  "inside m (x\<lparr>ppu_lcd_count := w\<rparr>) = inside m x" "inside m (x\<lparr>ppu_mode3_cycles := w\<rparr>) = inside m x"
  "inside m (x\<lparr>ppu_mode0_cycles := w\<rparr>) = inside m x" "inside m (x\<lparr>ppu_latched_wy := b\<rparr>) = inside m x"
  "inside m (x\<lparr>window_line := b\<rparr>) = inside m x" "inside m (x\<lparr>frame_seq := e\<rparr>) = inside m x"
  "inside m (x\<lparr>ppu_last_lcdc := b\<rparr>) = inside m x" "inside m (x\<lparr>ppu_last_cpu_cycles := t\<rparr>) = inside m x"
  "inside m (x\<lparr>ppu_lcd_off_count := e\<rparr>) = inside m x" "inside m (x\<lparr>ppu_next_event_cycles := t\<rparr>) = inside m x"
  "inside m (x\<lparr>ppu_stat_line := b\<rparr>) = inside m x" "inside m (x\<lparr>ppu_lcd_mode := b\<rparr>) = inside m x"
  "inside m (x\<lparr>timer_last_cycles := t\<rparr>) = inside m x" "inside m (x\<lparr>timer_div_acc := e\<rparr>) = inside m x"
  "inside m (x\<lparr>timer_tima_acc := e\<rparr>) = inside m x" "inside m (x\<lparr>serial_log := l\<rparr>) = inside m x"
  "inside m (x\<lparr>oam := f\<rparr>) = inside m x" "inside m (x\<lparr>wram := f\<rparr>) = inside m x"
  "inside m (x\<lparr>vram := f\<rparr>) = inside m x" "inside m (x\<lparr>hram := f\<rparr>) = inside m x"
  "inside m (x\<lparr>jit_page_state := f\<rparr>) = inside m x" "inside m (x\<lparr>jit_smc_dirty := b\<rparr>) = inside m x"
  "inside m (x\<lparr>rom_bank_dirty := b\<rparr>) = inside m x" "inside m (x\<lparr>rom_bank := b\<rparr>) = inside m x"
  "inside m (x\<lparr>ie := b\<rparr>) = inside m x"
  by (simp_all add: inside_def)

lemma inside_draw: "inside m x \<Longrightarrow> ly < 144 \<Longrightarrow> inside m (ppu_draw_line ly x)"
  using draw_line_fb [of ly x] by (auto simp: inside_def intro: untouched_trans)

lemma ppu_transition_inside: "ppu_transition m = Some m' \<Longrightarrow> inside m m'"
  unfolding ppu_transition_def Let_def
  by (auto intro!: inside_step inside_io untouched_upd inside_ioD inside_draw simp: sizes split: if_splits)

lemma ppu_loop_inside: "inside m (ppu_loop m)"
proof (induction m rule: ppu_loop.induct)
  case (1 m)
  then show ?case
    by (subst ppu_loop.simps) (auto dest: ppu_transition_inside intro: inside_trans split: option.split)
qed

lemma funpow_inside: "inside m ((tima_step ^^ n) m)"
  by (induction n) (auto intro: inside_step)

lemma tima_loop_inside: "inside m (tima_loop m)"
  using inside_trans [OF _ funpow_inside, of m "m\<lparr>timer_tima_acc := x\<rparr>" for x] by (simp add: tima_loop_closed)

lemma timer_tick_inside: "inside m (timer_tick now m)"
  unfolding timer_tick_def Let_def
  by (auto intro!: inside_trans [OF _ tima_loop_inside] inside_step inside_io untouched_upd simp: sizes)

lemma ppu_lcdc_edge_inside: "inside m (ppu_lcdc_edge p c m)"
  unfolding ppu_lcdc_edge_def Let_def by (auto intro!: inside_step inside_io untouched_upd inside_ioD simp: sizes)

lemma ppu_advance_inside: "inside m (ppu_advance now m)"
  unfolding ppu_advance_def Let_def ppu_recompute_next_event_def
  by (auto intro!: inside_trans [OF _ ppu_loop_inside] inside_step inside_io untouched_upd ppu_lcdc_edge_inside inside_ioD [OF ppu_lcdc_edge_inside] simp: sizes)

lemma ppu_entry_inside: "inside m (ppu_flush now m)" "inside m (ppu_tick now m)"
  unfolding ppu_flush_def ppu_tick_def Let_def
  using inside_trans [OF timer_tick_inside ppu_advance_inside] timer_tick_inside by auto

text \<open>The arrays of \<open>struct mmu\<close> beyond their bounds.\<close>

definition arrays_kept :: "mmu \<Rightarrow> mmu \<Rightarrow> bool" where
  "arrays_kept m m' \<longleftrightarrow> rom m' = rom m \<and> rom_capacity m' = rom_capacity m
     \<and> untouched VRAM_SIZE (vram m) (vram m') \<and> untouched WRAM_SIZE (wram m) (wram m')
     \<and> untouched OAM_SIZE (oam m) (oam m') \<and> untouched HRAM_SIZE (hram m) (hram m')
     \<and> untouched IO_SIZE (io m) (io m') \<and> untouched FB_SIZE (framebuffer m) (framebuffer m')
     \<and> untouched PAGE_COUNT (jit_page_state m) (jit_page_state m')"

lemma arrays_kept_refl [simp, intro!]: "arrays_kept m m"
  by (simp add: arrays_kept_def)

lemma arrays_kept_trans: "arrays_kept a b \<Longrightarrow> arrays_kept b c \<Longrightarrow> arrays_kept a c"
  unfolding arrays_kept_def by (auto intro: untouched_trans)

lemma ppu_flush_kept: "arrays_kept m (ppu_flush now m)"
  using ppu_entry_inside(1) [of m now] by (simp add: arrays_kept_def inside_def)

lemma smc_mark_kept: "arrays_kept m (smc_mark a m)"
proof -
  have "unat (drop_bit 8 a) < 256" for a :: u16
    using unsigned_less [where ?'a = nat, of a] by (simp add: drop_bit_eq_div unat_div div_less_iff_less_mult)
  then show ?thesis by (auto simp: smc_mark_def Let_def arrays_kept_def sizes)
qed

lemma oam_kept: "i < OAM_SIZE \<Longrightarrow> arrays_kept m (m\<lparr>oam := (oam m)(i := v)\<rparr>)"
  by (auto simp: arrays_kept_def)

lemma dma_copy_kept: "arrays_kept m (dma_copy v m)"
proof -
  have "arrays_kept m (foldl (\<lambda>m i. m\<lparr>oam := (oam m)(i := f m i)\<rparr>) m [0..<n])" if "n \<le> OAM_SIZE" for f n
    using that by (induction n) (auto intro!: arrays_kept_trans [OF _ oam_kept])
  then show ?thesis by (simp add: dma_copy_def Let_def sizes)
qed

lemma io_kept: "r < IO_SIZE \<Longrightarrow> arrays_kept m (io_put r v m)"
  by (auto simp: arrays_kept_def)

lemma serial_kept: "arrays_kept m (serial_transfer v m)"
  by (auto simp: serial_transfer_def arrays_kept_def Let_def sizes intro!: untouched_upd)

lemma io_offset: "\<not> (a :: u16) < 0xFF00 \<Longrightarrow> a < 0xFF80 \<Longrightarrow> unat (a - 0xFF00) < 0x80"
  by (simp add: word_less_nat_alt unat_minus_const)

lemma io_write_kept:
  assumes "unat (a - 0xFF00) < IO_SIZE"
  shows "arrays_kept m (io_write clk a v m)"
proof -
  define r where "r = unat (a - 0xFF00)"
  define m1 where "m1 = (if (r = 0x04 \<or> r = 0x05 \<or> 0x40 \<le> r \<and> r \<le> 0x4B) \<and> attached m
    then ppu_flush clk m else m)"
  have "arrays_kept m m1" by (simp add: m1_def ppu_flush_kept)
  then have put: "arrays_kept m (io_put r w m1)" for w
    using io_kept [of r m1 w] assms by (auto simp: r_def intro: arrays_kept_trans)
  have upd: "arrays_kept x (y\<lparr>timer_div_acc := e\<rparr>) = arrays_kept x y"
    "arrays_kept x (y\<lparr>timer_tima_acc := e\<rparr>) = arrays_kept x y" for x y e
    by (simp_all add: arrays_kept_def)
  show ?thesis
    unfolding io_write_def Let_def r_def [symmetric] m1_def [symmetric]
    by (auto simp: upd intro!: put arrays_kept_trans [OF _ dma_copy_kept] arrays_kept_trans [OF _ serial_kept])
qed

lemma select_bank_kept: "arrays_kept m (select_bank b m)"
  by (simp add: select_bank_def Let_def arrays_kept_def)

lemma ram_kept:
  assumes "arrays_kept m x"
  shows "i < VRAM_SIZE \<Longrightarrow> arrays_kept m (x\<lparr>vram := (vram m)(i := v)\<rparr>)"
    "i < WRAM_SIZE \<Longrightarrow> arrays_kept m (x\<lparr>wram := (wram m)(i := v)\<rparr>)"
    "i < HRAM_SIZE \<Longrightarrow> arrays_kept m (x\<lparr>hram := (hram m)(i := v)\<rparr>)"
  using assms by (auto simp: arrays_kept_def)

lemma write_arrays_kept: "arrays_kept m (mmu_write8 clk a v m)"
proof -
  have mbc: "arrays_kept m (mbc_write a v m)" by (simp add: mbc_write_def Let_def select_bank_kept)
  consider "unat a < 0x8000" | "plain_ram a" | "0xA000 \<le> unat a" "unat a < 0xC000"
    | "0xFEA0 \<le> unat a" "unat a < 0xFF00" | "0xFF00 \<le> unat a" "unat a < 0xFF80" | "unat a = 0xFFFF"
    using unsigned_less [where ?'a = nat, of a] by (auto simp: plain_ram_def Let_def) linarith
  then show ?thesis
  proof cases
    case 2
    then show ?thesis
      by (elim plain_ram_cases; simp only: region_writes; intro ram_kept oam_kept smc_mark_kept)
        (simp_all add: sizes)
  next
    case 5
    then have "arrays_kept m (io_write clk a v m)"
      by (intro io_write_kept) (simp add: unat_minus_const sizes)
    with 5 show ?thesis by (simp add: mmu_write8_def word_less_nat_alt)
  next
    case 6
    then show ?thesis by (simp add: mmu_write8_def word_less_nat_alt arrays_kept_def)
  qed (simp_all add: mmu_write8_def word_less_nat_alt mbc)
qed

text \<open>Reads: the same bytes of the arrays give the same byte.\<close>

definition same_cells :: "mmu \<Rightarrow> mmu \<Rightarrow> bool" where
  "same_cells m m' \<longleftrightarrow> rom_capacity m' = rom_capacity m \<and> agree (unat (rom_capacity m)) (rom m) (rom m')
     \<and> agree VRAM_SIZE (vram m) (vram m') \<and> agree WRAM_SIZE (wram m) (wram m')
     \<and> agree OAM_SIZE (oam m) (oam m') \<and> agree HRAM_SIZE (hram m) (hram m')
     \<and> agree IO_SIZE (io m) (io m') \<and> ie m' = ie m \<and> rom_bank m' = rom_bank m \<and> buttons m' = buttons m"

lemma rom_off_bound:
  assumes "0x4000 \<le> unat (rom_capacity m)"
  shows "unat (rom_off m a) < unat (rom_capacity m)"
proof -
  have "0 < unat (rom_capacity m)" using assms by linarith
  then show ?thesis
    by (auto simp: rom_off_def Let_def word_le_nat_alt unat_mod not_le intro: mod_less_divisor)
qed

lemma read_agree:
  assumes "0x4000 \<le> unat (rom_capacity m)" "same_cells m m'"
  shows "mmu_read8 m' a = mmu_read8 m a"
proof -
  have off: "rom_off m' a = rom_off m a" using assms(2) by (simp add: same_cells_def rom_off_def Let_def)
  have "io m' 0 = io m 0" "buttons m' = buttons m"
    using assms(2) by (simp_all add: same_cells_def agree_def sizes)
  then have j: "joyp_read m' = joyp_read m" by (simp add: joyp_read_def Let_def)
  consider "unat a < 0x4000" | "0x4000 \<le> unat a" "unat a < 0x8000" | "plain_ram a" | "0xA000 \<le> unat a" "unat a < 0xC000"
    | "0xFEA0 \<le> unat a" "unat a < 0xFF00" | "0xFF00 \<le> unat a" "unat a < 0xFF80" | "unat a = 0xFFFF"
    using unsigned_less [where ?'a = nat, of a] by (auto simp: plain_ram_def Let_def) linarith
  then show ?thesis
  proof cases
    case 1
    then show ?thesis using assms by (auto simp: mmu_read8_def word_less_nat_alt same_cells_def agree_def)
  next
    case 2
    then show ?thesis using assms rom_off_bound [OF assms(1), of a] off
      by (auto simp: mmu_read8_def word_less_nat_alt same_cells_def agree_def)
  next
    case 3
    then show ?thesis
      using assms(2) by (elim plain_ram_cases) (auto simp: region_reads same_cells_def agree_def sizes)
  next
    case 6
    then show ?thesis using assms(2) j
      by (auto simp: mmu_read8_def word_less_nat_alt same_cells_def agree_def sizes unat_minus_const Let_def)
  next
    case 7
    then show ?thesis using assms(2) by (simp add: mmu_read8_def word_less_nat_alt same_cells_def)
  qed (simp_all add: mmu_read8_def word_less_nat_alt)
qed

section \<open>Banks\<close>

definition bank_ok :: "mmu \<Rightarrow> bool" where
  "bank_ok m \<longleftrightarrow> 0 < rom_banks m \<and> rom_banks m \<le> 16 \<and> (ucast (rom_bank m) < rom_banks m \<or> rom_bank m = 1)"

lemma select_bank_ok:
  assumes "0 < rom_banks m" "rom_banks m \<le> 16"
  shows "bank_ok (select_bank b m)"
proof -
  have n: "unat (rom_banks m) \<le> 16" "0 < unat (rom_banks m)"
    using assms by (simp_all add: word_le_nat_alt word_less_nat_alt)
  have u: "unat (ucast (rom_banks m) :: u8) = unat (rom_banks m)"
    using n(1) by (simp add: unsigned_ucast_eq unsigned_take_bit_eq take_bit_nat_eq_self_iff)
  have "unat (b mod ucast (rom_banks m)) < unat (rom_banks m)"
    using n(2) by (simp add: unat_mod u)
  then have "(ucast (b mod ucast (rom_banks m)) :: u16) < rom_banks m"
    by (simp add: word_less_nat_alt)
  then show ?thesis using assms by (auto simp: bank_ok_def select_bank_def Let_def)
qed

lemma banks_frame [simp]:
  "rom_banks (smc_mark a m) = rom_banks m" "rom_bank (smc_mark a m) = rom_bank m"
  by (simp_all add: smc_mark_def Let_def)

lemma dma_copy_form: "\<exists>f. dma_copy v m = m\<lparr>oam := f\<rparr>"
proof -
  have "\<exists>g. foldl (\<lambda>m i. m\<lparr>oam := (oam m)(i := f m i)\<rparr>) m xs = m\<lparr>oam := g\<rparr>" for f xs
  proof (induction xs rule: rev_induct)
    case Nil
    show ?case by (intro exI [of _ "oam m"]) simp
  next
    case (snoc x xs)
    then obtain g where g: "foldl (\<lambda>m i. m\<lparr>oam := (oam m)(i := f m i)\<rparr>) m xs = m\<lparr>oam := g\<rparr>" by blast
    show ?case by (simp only: foldl_append foldl_Cons foldl_Nil g) auto
  qed
  then show ?thesis by (simp add: dma_copy_def Let_def)
qed

lemma io_write_frame:
  "rom (io_write clk a v m) = rom m" "rom_capacity (io_write clk a v m) = rom_capacity m"
  "rom_bank (io_write clk a v m) = rom_bank m" "rom_banks (io_write clk a v m) = rom_banks m"
  "mbc (io_write clk a v m) = mbc m" "vram (io_write clk a v m) = vram m" "wram (io_write clk a v m) = wram m"
  "hram (io_write clk a v m) = hram m" "ie (io_write clk a v m) = ie m"
  "rom_bank_dirty (io_write clk a v m) = rom_bank_dirty m"
  "jit_page_state (io_write clk a v m) = jit_page_state m" "jit_smc_dirty (io_write clk a v m) = jit_smc_dirty m"
proof -
  obtain f where f: "dma_copy v x = x\<lparr>oam := f x\<rparr>" for x using dma_copy_form by metis
  show "rom (io_write clk a v m) = rom m" "rom_capacity (io_write clk a v m) = rom_capacity m"
    "rom_bank (io_write clk a v m) = rom_bank m" "rom_banks (io_write clk a v m) = rom_banks m"
    "mbc (io_write clk a v m) = mbc m" "vram (io_write clk a v m) = vram m" "wram (io_write clk a v m) = wram m"
    "hram (io_write clk a v m) = hram m" "ie (io_write clk a v m) = ie m"
    "rom_bank_dirty (io_write clk a v m) = rom_bank_dirty m"
    "jit_page_state (io_write clk a v m) = jit_page_state m" "jit_smc_dirty (io_write clk a v m) = jit_smc_dirty m"
    by (simp_all add: io_write_def Let_def f serial_transfer_def)
qed

lemma mbc_write_ok: "bank_ok m \<Longrightarrow> bank_ok (mbc_write a v m)"
  using select_bank_ok [of m] by (simp add: mbc_write_def Let_def) (simp add: bank_ok_def [of m])

lemma bank_ok_frame:
  "rom_banks m' = rom_banks m \<Longrightarrow> rom_bank m' = rom_bank m \<Longrightarrow> bank_ok m' = bank_ok m"
  by (simp add: bank_ok_def)

lemma write_bank_ok: "bank_ok m \<Longrightarrow> bank_ok (mmu_write8 clk a v m)"
  by (auto simp: mmu_write8_def Let_def mbc_write_ok io_write_frame bank_ok_frame [of "io_write clk a v m" m])
     (auto simp: bank_ok_def)

lemma mbc_write_keeps [simp]:
  "rom (mbc_write a v m) = rom m" "rom_capacity (mbc_write a v m) = rom_capacity m"
  "vram (mbc_write a v m) = vram m" "wram (mbc_write a v m) = wram m" "hram (mbc_write a v m) = hram m"
  "oam (mbc_write a v m) = oam m" "io (mbc_write a v m) = io m" "ie (mbc_write a v m) = ie m"
  "buttons (mbc_write a v m) = buttons m"
  by (simp_all add: mbc_write_def select_bank_def Let_def)

lemma mbc_write_dirty:
  "rom_bank (mbc_write a v m) \<noteq> rom_bank m \<Longrightarrow> rom_bank_dirty (mbc_write a v m) = 1"
  by (auto simp: mbc_write_def select_bank_def Let_def split: if_splits)

section \<open>Code that changes is noticed\<close>

definition code_page :: "u16 \<Rightarrow> nat" where
  "code_page a = unat (drop_bit 8 (ram_cell a))"

definition noticed :: "u16 \<Rightarrow> mmu \<Rightarrow> bool" where
  "noticed b m \<longleftrightarrow> (if b < 0x8000 then rom_bank_dirty m = 1
     else jit_page_state m (code_page b) = 2 \<and> jit_smc_dirty m = 1)"

lemma rom_read_bank:
  assumes "b < 0x8000" "rom m' = rom m" "rom_capacity m' = rom_capacity m" "rom_bank m' = rom_bank m"
  shows "mmu_read8 m' b = mmu_read8 m b"
  using assms by (simp add: mmu_read8_def rom_off_def Let_def)

lemma write_rom_parts:
  "rom (mmu_write8 clk a v m) = rom m" "rom_capacity (mmu_write8 clk a v m) = rom_capacity m"
  "rom_bank (mmu_write8 clk a v m) \<noteq> rom_bank m \<Longrightarrow> rom_bank_dirty (mmu_write8 clk a v m) = 1"
  by (auto simp: mmu_write8_def Let_def io_write_frame mbc_write_dirty split: if_splits)

definition code_ram :: "u16 \<Rightarrow> bool" where
  "code_ram b \<longleftrightarrow> plain_ram b \<and> \<not> (0xFE00 \<le> b \<and> b < 0xFEA0)"

lemma smc_mark_page: "jit_page_state m (unat (drop_bit 8 a)) = 1 \<Longrightarrow>
   jit_page_state (smc_mark a m) (unat (drop_bit 8 a)) = 2 \<and> jit_smc_dirty (smc_mark a m) = 1"
  by (simp add: smc_mark_def Let_def)

lemma ram_write_marks:
  assumes "plain_ram a" "code_ram b" "ram_cell b = ram_cell a" "jit_page_state m (code_page b) = 1"
  shows "noticed b (mmu_write8 clk a v m)"
proof -
  have nb: "\<not> b < 0x8000" using assms(2) by (auto simp: code_ram_def plain_ram_def word_less_nat_alt Let_def)
  have "unat (ram_cell b) = unat (ram_cell a)" by (simp only: assms(3))
  then have na: "\<not> (0xFE00 \<le> unat a \<and> unat a < 0xFEA0)"
    using assms(2) by (auto simp: code_ram_def plain_ram_def word_le_nat_alt word_less_nat_alt unat_ram_cell Let_def split: if_splits)
  have s: "jit_page_state m (unat (drop_bit 8 (ram_cell a))) = 1"
    using assms(3,4) by (simp add: code_page_def)
  from assms(1) show ?thesis
  proof (cases rule: plain_ram_cases)
    case 4
    with na show ?thesis by simp
  qed (use s nb assms(3) smc_mark_page [of m "ram_cell a"] in
        \<open>simp_all add: noticed_def code_page_def region_writes ram_cell_def\<close>)
qed

lemma ram_only_by_cell:
  assumes "code_ram b" "mmu_read8 (mmu_write8 clk a v m) b \<noteq> mmu_read8 m b"
  shows "plain_ram a \<and> ram_cell b = ram_cell a"
proof (rule ccontr)
  assume no: "\<not> (plain_ram a \<and> ram_cell b = ram_cell a)"
  have pb: "plain_ram b" and no_oam: "\<not> (0xFE00 \<le> unat b \<and> unat b < 0xFEA0)"
    using assms(1) by (auto simp: code_ram_def word_le_nat_alt word_less_nat_alt)
  have "\<not> plain_ram a" using no ram_read_write [of a b] pb assms(2) by auto
  then have "vram (mmu_write8 clk a v m) = vram m" "wram (mmu_write8 clk a v m) = wram m"
    "hram (mmu_write8 clk a v m) = hram m"
    using unsigned_less [where ?'a = nat, of a]
    by (auto simp: mmu_write8_def word_less_nat_alt plain_ram_def io_write_frame Let_def)
  with pb no_oam assms(2) show False
    by (elim plain_ram_cases) (auto simp: region_reads)
qed

lemma change_noticed:
  assumes "b < 0x8000 \<or> code_ram b \<and> jit_page_state m (code_page b) = 1"
    "mmu_read8 (mmu_write8 clk a v m) b \<noteq> mmu_read8 m b"
  shows "noticed b (mmu_write8 clk a v m)"
proof (cases "b < 0x8000")
  case True
  then have "rom_bank (mmu_write8 clk a v m) \<noteq> rom_bank m"
    using assms(2) rom_read_bank [OF True, of "mmu_write8 clk a v m" m] by (auto simp: write_rom_parts)
  with True show ?thesis by (simp add: noticed_def write_rom_parts)
next
  case False
  with assms(1) have b: "code_ram b" "jit_page_state m (code_page b) = 1" by auto
  with ram_only_by_cell [OF b(1) assms(2)] show ?thesis by (auto intro: ram_write_marks)
qed

section \<open>Loading a cartridge\<close>






section \<open>The transfers that a write to an IO register starts\<close>

lemma read_other_oam:
  assumes "0xFE00 \<le> unat a \<Longrightarrow> unat a < 0xFEA0 \<Longrightarrow> g (unat a - 0xFE00) = oam m (unat a - 0xFE00)"
  shows "mmu_read8 (m\<lparr>oam := g\<rparr>) a = mmu_read8 m a"
  using assms
  by (auto simp: mmu_read8_def rom_off_def joyp_read_def word_less_nat_alt unat_minus_const Let_def)

lemma dma_loop:
  fixes src :: u16 and v :: u8
  assumes "src = push_bit 8 (ucast v)" "n \<le> 160"
  shows "foldl (\<lambda>m i. m\<lparr>oam := (oam m)(i := mmu_read8 m (src + of_nat i))\<rparr>) m [0..<n]
    = m\<lparr>oam := (\<lambda>i. if i < n then mmu_read8 m (src + of_nat i) else oam m i)\<rparr>"
  using assms(2)
proof (induction n)
  case (Suc n)
  have 1: "unat (push_bit 8 (ucast v) :: u16) = unat v * 256"
    using unat_u8 [of v] by (simp add: push_bit_eq_mult unat_word_ariths)
  have a: "unat (src + of_nat n) = unat v * 256 + n"
  proof -
    have "unat v * 256 + n < 65536" using Suc.prems unat_u8 [of v] by linarith
    with 1 show ?thesis by (simp add: assms(1) unat_word_ariths unat_of_nat_u16)
  qed
  have "mmu_read8 (m\<lparr>oam := g\<rparr>) (src + of_nat n) = mmu_read8 m (src + of_nat n)"
    if "\<forall>i\<ge>n. g i = oam m i" for g
  proof (rule read_other_oam)
    assume r: "0xFE00 \<le> unat (src + of_nat n)" "unat (src + of_nat n) < 0xFEA0"
    then have "unat v < 255" "253 < unat v" using a Suc.prems by linarith+
    then have "unat v = 254" by simp
    then have "n = unat (src + of_nat n) - 0xFE00" using a by simp
    with that show "g (unat (src + of_nat n) - 0xFE00) = oam m (unat (src + of_nat n) - 0xFE00)" by simp
  qed
  note read = this
  let ?g = "\<lambda>n i. if i < n then mmu_read8 m (src + of_nat i) else oam m i"
  have "mmu_read8 (m\<lparr>oam := ?g n\<rparr>) (src + of_nat n) = mmu_read8 m (src + of_nat n)"
    by (rule read) simp
  moreover have "(?g n)(n := mmu_read8 m (src + of_nat n)) = ?g (Suc n)"
    by (auto simp: fun_eq_iff less_Suc_eq)
  moreover have "foldl (\<lambda>m i. m\<lparr>oam := (oam m)(i := mmu_read8 m (src + of_nat i))\<rparr>) m [0..<n]
      = m\<lparr>oam := ?g n\<rparr>"
    using Suc.prems by (intro Suc.IH) simp
  ultimately show ?case by (simp only: upt_Suc_append foldl_append foldl_Cons foldl_Nil) simp
qed simp

section \<open>The properties of the memory unit\<close>

text \<open>C11: a byte write leaves ROM alone and changes no byte outside the arrays of \<open>struct mmu\<close>,
  whatever the address and value: also when it brings the PPU up to date, which draws scanlines,
  starts an OAM transfer or marks a code page.\<close>

theorem write_in_bounds: "arrays_kept m (mmu_write8 clk a v m)"
  by (rule write_arrays_kept)

text \<open>C29: with a ROM buffer of at least 16 KiB, as a successful initialisation or load leaves it, a byte read
  depends on no byte outside the arrays, and on none of the ROM buffer beyond its capacity, for every address and bank
  number: two states that agree inside read the same. The hypothesis is needed: after a failed allocation in
  \<open>mmu_load_rom\<close> there is no ROM buffer, and a read below 8000 does leave the arrays.\<close>

theorem read_in_bounds:
  assumes "0x4000 \<le> unat (rom_capacity m)" "same_cells m m'"
  shows "mmu_read8 m' a = mmu_read8 m a"
  using assms by (rule read_agree)

theorem read_in_bounds_witness:
  "let m = gb_mmu_init (\<lambda>_. True) static_mmu
   in mmu_read8 (m\<lparr>vram := (vram m)(0x2000 := 7), rom_banks := 0\<rparr>) 0x7FFF = mmu_read8 m 0x7FFF"
  unfolding Let_def
  by (rule read_in_bounds) (simp_all add: gb_mmu_init_def same_cells_def agree_def sizes Let_def)

text \<open>Without a ROM buffer, as \<open>mmu_destroy\<close> and a failed load leave it, a read of address 0 is the byte at index 0 of a
  buffer with no bytes.\<close>

lemma read_without_rom:
  "rom_capacity (mmu_destroy m) = 0" "mmu_read8 ((mmu_destroy m)\<lparr>rom := (\<lambda>_. 0)(0 := v)\<rparr>) 0 = v"
  by (simp_all add: mmu_destroy_def mmu_read8_def)

text \<open>C23: a byte written to VRAM, WRAM, its echo, OAM or HRAM is read back at every address that
  stands for the same cell, and no other memory address reads differently.\<close>

theorem ram_read_after_write:
  assumes "plain_ram a" "plain_ram b"
  shows "mmu_read8 (mmu_write8 clk a v m) b = (if ram_cell b = ram_cell a then v else mmu_read8 m b)"
  using assms by (rule ram.read_write)

theorem ram_read_after_write_witness:
  "mmu_read8 (mmu_write8 0 0xC123 9 static_mmu) 0xE123 = 9"
  using ram_read_after_write [of "0xC123" "0xE123" 0 9 static_mmu] by (simp add: plain_ram_def ram_cell_def Let_def)

text \<open>C6: no write changes code unnoticed: when a write changes the byte read at a ROM address, the
  bank-change flag is up; when it changes a byte of VRAM, WRAM or HRAM, through whatever address, on
  whose (canonical) page a block was registered, that page is marked dirty and the flag for
  self-modifying code is up.\<close>

theorem code_change_noticed:
  assumes "b < 0x8000 \<or> code_ram b \<and> jit_page_state m (code_page b) = 1"
    "mmu_read8 (mmu_write8 clk a v m) b \<noteq> mmu_read8 m b"
  shows "noticed b (mmu_write8 clk a v m)"
  using assms by (rule change_noticed)

theorem code_change_noticed_witness:
  "noticed 0xC123 (mmu_write8 0 0xE123 9 (static_mmu\<lparr>jit_page_state := (\<lambda>_. 0)(0xC1 := 1)\<rparr>))"
  by (rule code_change_noticed)
    (simp_all add: code_ram_def plain_ram_def code_page_def ram_cell_def static_mmu_def region_reads region_writes Let_def)

text \<open>the bank selected at 4000h exists: with at most the 16 banks of the largest cartridge,
  every write keeps the bank number below their count (or at the initial 1), and a write that changes
  it raises the bank-change flag.\<close>

theorem bank_in_range:
  assumes "bank_ok m"
  shows "bank_ok (mmu_write8 clk a v m)
    \<and> (rom_bank (mmu_write8 clk a v m) \<noteq> rom_bank m \<longrightarrow> rom_bank_dirty (mmu_write8 clk a v m) = 1)"
  using write_bank_ok [OF assms] write_rom_parts(3) by blast

theorem bank_in_range_witness:
  "bank_ok (mmu_write8 0 0x2000 5 (gb_mmu_init (\<lambda>_. True) static_mmu))"
  using bank_in_range [of "gb_mmu_init (\<lambda>_. True) static_mmu" 0 "0x2000" 5]
  by (simp add: bank_ok_def gb_mmu_init_def Let_def)



text \<open>C32: a write to the DMA register copies the 160 bytes that then read at the page written,
  with the PPU first brought up to date, into OAM, and nothing else.\<close>

theorem dma_copies_page:
  fixes m :: mmu and v :: u8 and clk :: u64
  assumes "attached m"
  defines "m1 \<equiv> io_put 0x46 v (ppu_flush clk m)"
  shows "mmu_write8 clk 0xFF46 v m
    = m1\<lparr>oam := (\<lambda>i. if i < 160 then mmu_read8 m1 (push_bit 8 (ucast v) + of_nat i) else oam m i)\<rparr>"
proof -
  have o: "oam m1 = oam m" by (simp add: m1_def)
  show ?thesis
    using assms(1) dma_loop [OF refl, of 160 v m1, unfolded o]
    by (simp add: mmu_write8_def io_write_def Let_def dma_copy_def m1_def [symmetric])
qed

theorem dma_copies_page_witness:
  "oam (mmu_write8 0 0xFF46 0xC0 (static_mmu\<lparr>attached := True\<rparr>)) 160 = 0"
  using dma_copies_page [of "static_mmu\<lparr>attached := True\<rparr>" 0 "0xC0"] by (simp add: static_mmu_def)

text \<open>starting a serial transfer on the internal clock completes it at once: the byte goes to the
  sink if there is one, the port reads FFh, the start bit is clear and the interrupt is requested.\<close>

theorem serial_completes:
  fixes m :: mmu and v :: u8 and clk :: u64
  assumes "v AND 0x81 = 0x81"
  defines "m' \<equiv> mmu_write8 clk 0xFF02 v m"
  shows "serial_log m' = serial_log m @ (if serial_sink m then [io m SB_REG] else [])
    \<and> mmu_read8 m' 0xFF01 = 0xFF \<and> \<not> has (mmu_read8 m' 0xFF02) 0x80 \<and> has (mmu_read8 m' 0xFF0F) INT_SERIAL"
  using assms(1)
  by (simp add: m'_def mmu_write8_def io_write_def Let_def serial_transfer_def mmu_read8_def has_def
      and.assoc bit.conj_disj_distrib2)

theorem serial_completes_witness:
  "serial_log (mmu_write8 0 0xFF02 0x81 (static_mmu\<lparr>serial_sink := True\<rparr>)) = [0]"
  using serial_completes [where v = "0x81" and clk = 0 and m = "static_mmu\<lparr>serial_sink := True\<rparr>"] by (simp add: static_mmu_def)

end
