(* ===== verification/Emit.thy ===== *)
theory Emit
  imports Prelude
begin

text \<open>
  The Xtensa instruction encoder of jit/emit_xtensa.c: the emit buffer with its packing of bytes
  into 32-bit stores, the instruction formats and one operation per instruction, each returning
  the bytes it wrote and the new buffer state. This is the release build: the range assertions
  are not code there, and are the side conditions of the theorems. \<open>*(u32 *)(buf + off) = w\<close>
  is \<open>store32\<close>, little-endian as the target and the host. Signed arguments are 32-bit words.
\<close>

section \<open>The emit buffer\<close>

record xt_emit =
  xt_buf :: "u8 array"
  xt_len :: u32
  xt_cap :: u32
  xt_overflow :: bool
  xt_word_acc :: u32

definition xt_init :: "u8 array \<Rightarrow> u32 \<Rightarrow> xt_emit" where
  "xt_init buf cap = \<lparr>xt_buf = buf, xt_len = 0, xt_cap = cap, xt_overflow = False, xt_word_acc = 0\<rparr>"

definition byte_of :: "u32 \<Rightarrow> nat \<Rightarrow> u8" where
  "byte_of w i = ucast (drop_bit (8 * i) w)"

definition store32 :: "nat \<Rightarrow> u32 \<Rightarrow> u8 array \<Rightarrow> u8 array" where
  "store32 off w f = f(off := byte_of w 0, off + 1 := byte_of w 1, off + 2 := byte_of w 2, off + 3 := byte_of w 3)"

definition xt_flush_pending :: "xt_emit \<Rightarrow> xt_emit" where
  "xt_flush_pending e =
     (if xt_len e AND 3 \<noteq> 0 then
        let word_off = xt_len e AND NOT 3
        in e\<lparr>xt_buf := store32 (unat word_off) (xt_word_acc e) (xt_buf e)\<rparr>
      else e)"

definition emit_byte_packed :: "u8 \<Rightarrow> xt_emit \<Rightarrow> xt_emit" where
  "emit_byte_packed b e =
     (let byte_in_word = xt_len e AND 3;
          e = e\<lparr>xt_word_acc := xt_word_acc e OR push_bit (unat (byte_in_word * 8)) (ucast b)\<rparr>;
          e = e\<lparr>xt_len := xt_len e + 1\<rparr>
      in if xt_len e AND 3 = 0
         then e\<lparr>xt_buf := store32 (unat (xt_len e - 4)) (xt_word_acc e) (xt_buf e), xt_word_acc := 0\<rparr>
         else e)"

definition emit24 :: "u32 \<Rightarrow> xt_emit \<Rightarrow> u32 \<times> xt_emit" where
  "emit24 w e =
     (if xt_cap e < xt_len e + 3 then (0, e\<lparr>xt_overflow := True\<rparr>)
      else (3, emit_byte_packed (byte_of w 2) (emit_byte_packed (byte_of w 1) (emit_byte_packed (byte_of w 0) e))))"

definition xt_raw32 :: "u32 \<Rightarrow> xt_emit \<Rightarrow> u32 \<times> xt_emit" where
  "xt_raw32 word e =
     (if xt_cap e < xt_len e + 4 then (0, e\<lparr>xt_overflow := True\<rparr>)
      else let l = xt_len e in
        (4, e\<lparr>xt_buf := (xt_buf e)(unat l := byte_of word 0, unat (l + 1) := byte_of word 1,
                                   unat (l + 2) := byte_of word 2, unat (l + 3) := byte_of word 3),
              xt_len := l + 4\<rparr>))"

section \<open>Formats\<close>

definition nib :: "u8 \<Rightarrow> nat \<Rightarrow> u32" where
  "nib x n = push_bit n (ucast (x AND 0xF))"

definition enc_rrr :: "u8 \<Rightarrow> u8 \<Rightarrow> u8 \<Rightarrow> u8 \<Rightarrow> u8 \<Rightarrow> u32" where
  "enc_rrr op2 op1 r s t = nib op2 20 OR nib op1 16 OR nib r 12 OR nib s 8 OR nib t 4 OR 0"

definition enc_rri8 :: "u8 \<Rightarrow> u8 \<Rightarrow> u8 \<Rightarrow> u8 \<Rightarrow> u32" where
  "enc_rri8 r s t imm8 = push_bit 16 (ucast imm8) OR nib r 12 OR nib s 8 OR nib t 4 OR 2"

definition enc_bxxz :: "u8 \<Rightarrow> u8 \<Rightarrow> u32 \<Rightarrow> u32" where
  "enc_bxxz sel_t as rel =
     (let off = rel - 4; imm12 = off AND 0xFFF
      in push_bit 12 imm12 OR nib as 8 OR nib sel_t 4 OR 6)"

section \<open>Instructions\<close>

definition xt_and where "xt_and ar as at = emit24 (enc_rrr 0x1 0 ar as at)"
definition xt_or where "xt_or ar as at = emit24 (enc_rrr 0x2 0 ar as at)"
definition xt_xor where "xt_xor ar as at = emit24 (enc_rrr 0x3 0 ar as at)"
definition xt_add where "xt_add ar as at = emit24 (enc_rrr 0x8 0 ar as at)"
definition xt_sub where "xt_sub ar as at = emit24 (enc_rrr 0xC 0 ar as at)"
definition xt_mov where "xt_mov ar as = xt_or ar as as"

definition xt_addi :: "u8 \<Rightarrow> u8 \<Rightarrow> u32 \<Rightarrow> xt_emit \<Rightarrow> u32 \<times> xt_emit" where
  "xt_addi at as imm = emit24 (enc_rri8 0xC as at (ucast imm))"

definition xt_movi :: "u8 \<Rightarrow> u32 \<Rightarrow> xt_emit \<Rightarrow> u32 \<times> xt_emit" where
  "xt_movi at imm =
     (let v = imm AND 0xFFF
      in emit24 (enc_rri8 0xA (ucast (drop_bit 8 v AND 0xF)) at (ucast (v AND 0xFF))))"

definition xt_l8ui :: "u8 \<Rightarrow> u8 \<Rightarrow> u32 \<Rightarrow> xt_emit \<Rightarrow> u32 \<times> xt_emit" where
  "xt_l8ui at as off = emit24 (enc_rri8 0x0 as at (ucast off))"

definition xt_s8i :: "u8 \<Rightarrow> u8 \<Rightarrow> u32 \<Rightarrow> xt_emit \<Rightarrow> u32 \<times> xt_emit" where
  "xt_s8i at as off = emit24 (enc_rri8 0x4 as at (ucast off))"

definition xt_l16ui :: "u8 \<Rightarrow> u8 \<Rightarrow> u32 \<Rightarrow> xt_emit \<Rightarrow> u32 \<times> xt_emit" where
  "xt_l16ui at as off = emit24 (enc_rri8 0x1 as at (ucast (drop_bit 1 off)))"

definition xt_s16i :: "u8 \<Rightarrow> u8 \<Rightarrow> u32 \<Rightarrow> xt_emit \<Rightarrow> u32 \<times> xt_emit" where
  "xt_s16i at as off = emit24 (enc_rri8 0x5 as at (ucast (drop_bit 1 off)))"

definition xt_l32i :: "u8 \<Rightarrow> u8 \<Rightarrow> u32 \<Rightarrow> xt_emit \<Rightarrow> u32 \<times> xt_emit" where
  "xt_l32i at as off = emit24 (enc_rri8 0x2 as at (ucast (drop_bit 2 off)))"

definition xt_s32i :: "u8 \<Rightarrow> u8 \<Rightarrow> u32 \<Rightarrow> xt_emit \<Rightarrow> u32 \<times> xt_emit" where
  "xt_s32i at as off = emit24 (enc_rri8 0x6 as at (ucast (drop_bit 2 off)))"

definition xt_l32r :: "u8 \<Rightarrow> u32 \<Rightarrow> xt_emit \<Rightarrow> u32 \<times> xt_emit" where
  "xt_l32r at lit_offset =
     (let imm16 = ucast lit_offset :: u16
      in emit24 (push_bit 8 (ucast imm16) OR nib at 4 OR 1))"

definition xt_beqz :: "u8 \<Rightarrow> u32 \<Rightarrow> xt_emit \<Rightarrow> u32 \<times> xt_emit" where
  "xt_beqz as rel = emit24 (enc_bxxz 0x1 as rel)"

definition xt_bnez :: "u8 \<Rightarrow> u32 \<Rightarrow> xt_emit \<Rightarrow> u32 \<times> xt_emit" where
  "xt_bnez as rel = emit24 (enc_bxxz 0x5 as rel)"

text \<open>BEQI and BNEI are not implemented: they write nothing.\<close>

definition xt_beqi :: "u8 \<Rightarrow> u32 \<Rightarrow> u32 \<Rightarrow> xt_emit \<Rightarrow> u32 \<times> xt_emit" where
  "xt_beqi as imm rel e = (0, e)"

definition xt_bnei :: "u8 \<Rightarrow> u32 \<Rightarrow> u32 \<Rightarrow> xt_emit \<Rightarrow> u32 \<times> xt_emit" where
  "xt_bnei as imm rel e = (0, e)"

definition xt_j :: "u32 \<Rightarrow> xt_emit \<Rightarrow> u32 \<times> xt_emit" where
  "xt_j rel = (let off = rel - 4; imm18 = off AND 0x3FFFF in emit24 (push_bit 6 imm18 OR 0x06))"

definition xt_call0 :: "u32 \<Rightarrow> xt_emit \<Rightarrow> u32 \<times> xt_emit" where
  "xt_call0 rel =
     (let off = rel - 4; off = signed_drop_bit 2 off; imm18 = off AND 0x3FFFF
      in emit24 (push_bit 6 imm18 OR 0x05))"

definition xt_jx :: "u8 \<Rightarrow> xt_emit \<Rightarrow> u32 \<times> xt_emit" where
  "xt_jx as = emit24 (nib as 8 OR push_bit 4 0xA OR 0)"

definition xt_callx0 :: "u8 \<Rightarrow> xt_emit \<Rightarrow> u32 \<times> xt_emit" where
  "xt_callx0 as = emit24 (nib as 8 OR push_bit 4 0xC OR 0)"

definition xt_ret :: "xt_emit \<Rightarrow> u32 \<times> xt_emit" where
  "xt_ret = emit24 0x000080"

definition xt_slli :: "u8 \<Rightarrow> u8 \<Rightarrow> u8 \<Rightarrow> xt_emit \<Rightarrow> u32 \<times> xt_emit" where
  "xt_slli ar as sa =
     (let sa1 = 32 - sa; op2 = drop_bit 4 sa1 AND 1
      in emit24 (enc_rrr op2 0x1 ar as (sa1 AND 0xF)))"

definition xt_srli :: "u8 \<Rightarrow> u8 \<Rightarrow> u8 \<Rightarrow> xt_emit \<Rightarrow> u32 \<times> xt_emit" where
  "xt_srli ar as sa = emit24 (enc_rrr 0x4 0x1 ar sa as)"

definition xt_srai :: "u8 \<Rightarrow> u8 \<Rightarrow> u8 \<Rightarrow> xt_emit \<Rightarrow> u32 \<times> xt_emit" where
  "xt_srai ar as sa =
     (let op2 = 0x2 OR (drop_bit 4 sa AND 1)
      in emit24 (enc_rrr op2 0x1 ar (sa AND 0xF) as))"

definition xt_extui :: "u8 \<Rightarrow> u8 \<Rightarrow> u8 \<Rightarrow> u8 \<Rightarrow> xt_emit \<Rightarrow> u32 \<times> xt_emit" where
  "xt_extui ar at shiftimm maskimm =
     (let sh_lo4 = shiftimm AND 0xF; sh_hi1 = drop_bit 4 shiftimm AND 1
      in emit24 (enc_rrr (maskimm AND 0xF) (0x4 OR sh_hi1) ar sh_lo4 at))"

end
