(* ===== verification/Xt_Sim.thy ===== *)
theory Xt_Sim
  imports Cpu
begin

text \<open>
  The Xtensa simulator of jit/xtensa_sim.c that runs compiled blocks on the host. The three
  callbacks of \<open>struct xt_sim\<close> are the fields of \<open>sim_env\<close>, \<open>None\<close> for a NULL pointer:
  \<open>call_thunk\<close> may change the whole simulator state, \<open>read_literal\<close> gives a literal, and
  \<open>translate\<close> maps an address to an index of the host memory \<open>sim_host\<close> (\<open>None\<close> for NULL). The
  user pointer \<open>sim_user\<close> leads to the CPU, as in the only use of the simulator, \<open>enter_block_sim\<close>.
\<close>

datatype sim_status = XT_SIM_RUN | XT_SIM_RETURNED | XT_SIM_BAD_OPCODE | XT_SIM_OUT_OF_RANGE

record xt_sim =
  sim_a :: "nat \<Rightarrow> u32"
  sim_code :: "u8 array"
  sim_code_size :: u32
  sim_pc :: u32
  sim_status :: sim_status
  sim_host :: "u8 array"
  sim_user :: cpu_state

record sim_env =
  call_thunk :: "(u32 \<Rightarrow> xt_sim \<Rightarrow> xt_sim) option"
  read_literal :: "(xt_sim \<Rightarrow> u32 \<Rightarrow> u32) option"
  translate :: "(xt_sim \<Rightarrow> u32 \<Rightarrow> nat option) option"

abbreviation (input) SENTINEL_RET :: u32 where "SENTINEL_RET \<equiv> 0"

definition xt_sim_init :: "u8 array \<Rightarrow> u32 \<Rightarrow> u8 array \<Rightarrow> cpu_state \<Rightarrow> xt_sim" where
  "xt_sim_init code code_size host user =
     \<lparr>sim_a = (\<lambda>_. 0), sim_code = code, sim_code_size = code_size, sim_pc = 0,
      sim_status = XT_SIM_RUN, sim_host = host, sim_user = user\<rparr>"

section \<open>Fetch and fields\<close>

text \<open>Three bytes, the first the lowest. The bound check is on \<open>u32\<close>, and so wraps.\<close>

definition bytes3 :: "u8 \<Rightarrow> u8 \<Rightarrow> u8 \<Rightarrow> u32" where
  "bytes3 b0 b1 b2 = ucast b0 OR push_bit 8 (ucast b1) OR push_bit 16 (ucast b2)"

definition fetch24 :: "xt_sim \<Rightarrow> u32 \<times> xt_sim" where
  "fetch24 s =
     (if sim_code_size s < sim_pc s + 3 then (0, s\<lparr>sim_status := XT_SIM_OUT_OF_RANGE\<rparr>)
      else let pc = sim_pc s in
        (bytes3 (sim_code s (unat pc)) (sim_code s (unat (pc + 1))) (sim_code s (unat (pc + 2))),
         s\<lparr>sim_pc := pc + 3\<rparr>))"

definition sign_extend :: "u32 \<Rightarrow> nat \<Rightarrow> u32" where
  "sign_extend v bits = (let m = push_bit (bits - 1) 1 in (v XOR m) - m)"

definition fld_op0 :: "u32 \<Rightarrow> nat" where "fld_op0 w = unat (w AND 0xF)"
definition fld_t :: "u32 \<Rightarrow> nat" where "fld_t w = unat (drop_bit 4 w AND 0xF)"
definition fld_s :: "u32 \<Rightarrow> nat" where "fld_s w = unat (drop_bit 8 w AND 0xF)"
definition fld_r :: "u32 \<Rightarrow> nat" where "fld_r w = unat (drop_bit 12 w AND 0xF)"
definition fld_op1 :: "u32 \<Rightarrow> nat" where "fld_op1 w = unat (drop_bit 16 w AND 0xF)"
definition fld_op2 :: "u32 \<Rightarrow> nat" where "fld_op2 w = unat (drop_bit 20 w AND 0xF)"
definition fld_imm8 :: "u32 \<Rightarrow> u32" where "fld_imm8 w = drop_bit 16 w AND 0xFF"
definition fld_imm16 :: "u32 \<Rightarrow> u32" where "fld_imm16 w = drop_bit 8 w AND 0xFFFF"

section \<open>Loads and stores\<close>

definition host_ptr :: "sim_env \<Rightarrow> xt_sim \<Rightarrow> u32 \<Rightarrow> nat option" where
  "host_ptr E s addr = (case translate E of None \<Rightarrow> None | Some f \<Rightarrow> f s addr)"

definition set_reg :: "nat \<Rightarrow> u32 \<Rightarrow> xt_sim \<Rightarrow> xt_sim" where
  "set_reg r v s = s\<lparr>sim_a := (sim_a s)(r := v)\<rparr>"

text \<open>\<open>n\<close> bytes of the host memory, the lowest first; a NULL pointer reads as zero.\<close>

primrec host_word :: "u8 array \<Rightarrow> nat \<Rightarrow> nat \<Rightarrow> u32" where
  "host_word f p 0 = 0"
| "host_word f p (Suc n) = host_word f p n OR push_bit (8 * n) (ucast (f (p + n)))"

primrec host_store :: "u8 array \<Rightarrow> nat \<Rightarrow> u32 \<Rightarrow> nat \<Rightarrow> u8 array" where
  "host_store f p w 0 = f"
| "host_store f p w (Suc n) = (host_store f p w n)(p + n := ucast (drop_bit (8 * n) w AND 0xFF))"

definition sim_load :: "sim_env \<Rightarrow> nat \<Rightarrow> nat \<Rightarrow> u32 \<Rightarrow> xt_sim \<Rightarrow> xt_sim" where
  "sim_load E n t addr s =
     set_reg t (case host_ptr E s addr of None \<Rightarrow> 0 | Some p \<Rightarrow> host_word (sim_host s) p n) s"

definition sim_store :: "sim_env \<Rightarrow> nat \<Rightarrow> nat \<Rightarrow> u32 \<Rightarrow> xt_sim \<Rightarrow> xt_sim" where
  "sim_store E n t addr s =
     (case host_ptr E s addr of None \<Rightarrow> s
      | Some p \<Rightarrow> s\<lparr>sim_host := host_store (sim_host s) p (sim_a s t) n\<rparr>)"

section \<open>The instruction families\<close>

definition exec_l32r :: "sim_env \<Rightarrow> u32 \<Rightarrow> u32 \<Rightarrow> xt_sim \<Rightarrow> xt_sim" where
  "exec_l32r E pc_start w s =
     (let rel = sign_extend (fld_imm16 w) 16;
          target_off = ((pc_start + 3) AND NOT 3) + push_bit 2 rel
      in set_reg (fld_t w) (case read_literal E of None \<Rightarrow> 0 | Some f \<Rightarrow> f s target_off) s)"

definition exec_rri8 :: "sim_env \<Rightarrow> u32 \<Rightarrow> xt_sim \<Rightarrow> xt_sim" where
  "exec_rri8 E w s =
     (let r = fld_r w; t = fld_t w; sr = fld_s w; imm = fld_imm8 w
      in if r = 0x0 then sim_load E 1 t (sim_a s sr + imm) s
         else if r = 0x4 then sim_store E 1 t (sim_a s sr + imm) s
         else if r = 0x1 then sim_load E 2 t (sim_a s sr + push_bit 1 imm) s
         else if r = 0x5 then sim_store E 2 t (sim_a s sr + push_bit 1 imm) s
         else if r = 0x2 then sim_load E 4 t (sim_a s sr + push_bit 2 imm) s
         else if r = 0x6 then sim_store E 4 t (sim_a s sr + push_bit 2 imm) s
         else if r = 0xC then set_reg t (sim_a s sr + sign_extend imm 8) s
         else if r = 0xA then set_reg t (sign_extend (push_bit 8 (of_nat sr) OR imm) 12) s
         else s\<lparr>sim_status := XT_SIM_BAD_OPCODE\<rparr>)"

definition exec_call0 :: "u32 \<Rightarrow> u32 \<Rightarrow> xt_sim \<Rightarrow> xt_sim" where
  "exec_call0 pc_start w s =
     (let off = sign_extend (drop_bit 6 w AND 0x3FFFF) 18;
          target = (pc_start AND NOT 3) + 4 + push_bit 2 off
      in (set_reg 0 (sim_pc s) s)\<lparr>sim_pc := target\<rparr>)"

definition exec_j :: "u32 \<Rightarrow> u32 \<Rightarrow> xt_sim \<Rightarrow> xt_sim" where
  "exec_j pc_start w s =
     s\<lparr>sim_pc := pc_start + 4 + sign_extend (drop_bit 6 w AND 0x3FFFF) 18\<rparr>"

definition exec_bxxz :: "u32 \<Rightarrow> u32 \<Rightarrow> xt_sim \<Rightarrow> xt_sim" where
  "exec_bxxz pc_start w s =
     (let sel = fld_t w; sr = fld_s w; off = sign_extend (drop_bit 12 w AND 0xFFF) 12;
          target = pc_start + 4 + off
      in if sel = 0x1 then (if sim_a s sr = 0 then s\<lparr>sim_pc := target\<rparr> else s)
         else if sel = 0x5 then (if sim_a s sr \<noteq> 0 then s\<lparr>sim_pc := target\<rparr> else s)
         else s\<lparr>sim_status := XT_SIM_BAD_OPCODE\<rparr>)"

text \<open>JX, CALLX0 and RET; the other encodings with \<open>op1 = op2 = r = 0\<close> fall through.\<close>

definition exec_jump :: "sim_env \<Rightarrow> nat \<Rightarrow> nat \<Rightarrow> xt_sim \<Rightarrow> xt_sim option" where
  "exec_jump E sr t s =
     (if t = 0xA then
        (let target = sim_a s sr
         in Some (if sr = 0 \<and> target = SENTINEL_RET then s\<lparr>sim_status := XT_SIM_RETURNED\<rparr>
                  else s\<lparr>sim_pc := target\<rparr>))
      else if t = 0xC then
        (let fn_token = sim_a s sr; s = set_reg 0 (sim_pc s) s
         in Some (case call_thunk E of None \<Rightarrow> s | Some f \<Rightarrow> f fn_token s))
      else if t = 0x8 then
        Some (if sim_a s 0 = SENTINEL_RET then s\<lparr>sim_status := XT_SIM_RETURNED\<rparr>
              else s\<lparr>sim_pc := sim_a s 0\<rparr>)
      else None)"

definition exec_shift :: "nat \<Rightarrow> nat \<Rightarrow> nat \<Rightarrow> nat \<Rightarrow> xt_sim \<Rightarrow> xt_sim option" where
  "exec_shift op2 r sr t s =
     (if op2 = 0 \<or> op2 = 1 then
        (let sa1 = op2 * 16 + t; sa = 32 - sa1
         in Some (set_reg r (if 32 \<le> sa then 0 else push_bit sa (sim_a s sr)) s))
      else if op2 = 2 \<or> op2 = 3 then
        (let sa = (op2 mod 2) * 16 + sr
         in Some (set_reg r (if 32 \<le> sa then signed_drop_bit 31 (sim_a s t)
                            else signed_drop_bit sa (sim_a s t)) s))
      else if op2 = 4 then Some (set_reg r (drop_bit sr (sim_a s t)) s)
      else None)"

definition exec_rrr :: "sim_env \<Rightarrow> u32 \<Rightarrow> xt_sim \<Rightarrow> xt_sim" where
  "exec_rrr E w s =
     (let op2 = fld_op2 w; op1 = fld_op1 w; r = fld_r w; sr = fld_s w; t = fld_t w;
          bad = s\<lparr>sim_status := XT_SIM_BAD_OPCODE\<rparr>
      in case (if op1 = 0 \<and> op2 = 0 \<and> r = 0 then exec_jump E sr t s else None) of Some s' \<Rightarrow> s'
      | None \<Rightarrow>
         if op1 = 0 \<and> op2 = 0x1 then set_reg r (sim_a s sr AND sim_a s t) s
         else if op1 = 0 \<and> op2 = 0x2 then set_reg r (sim_a s sr OR sim_a s t) s
         else if op1 = 0 \<and> op2 = 0x3 then set_reg r (sim_a s sr XOR sim_a s t) s
         else if op1 = 0 \<and> op2 = 0x8 then set_reg r (sim_a s sr + sim_a s t) s
         else if op1 = 0 \<and> op2 = 0xC then set_reg r (sim_a s sr - sim_a s t) s
         else case (if op1 = 1 then exec_shift op2 r sr t s else None) of Some s' \<Rightarrow> s'
         | None \<Rightarrow>
           if op1 = 4 \<or> op1 = 5 then
             let shift = (op1 mod 2) * 16 + sr; width = op2 + 1;
                 m = (if width = 32 then 0xFFFFFFFF else push_bit width 1 - 1)
             in set_reg r (drop_bit shift (sim_a s t) AND m) s
           else bad)"

section \<open>Step and run\<close>

definition exec_word :: "sim_env \<Rightarrow> u32 \<Rightarrow> u32 \<Rightarrow> xt_sim \<Rightarrow> xt_sim" where
  "exec_word E pc_start w s =
     (let op0 = fld_op0 w
      in if op0 = 0x1 then exec_l32r E pc_start w s
         else if op0 = 0x2 then exec_rri8 E w s
         else if w AND 0x3F = 0x05 then exec_call0 pc_start w s
         else if w AND 0x3F = 0x06 then exec_j pc_start w s
         else if op0 = 0x6 then exec_bxxz pc_start w s
         else if op0 = 0x0 then exec_rrr E w s
         else s\<lparr>sim_status := XT_SIM_BAD_OPCODE\<rparr>)"

definition sim_step :: "sim_env \<Rightarrow> xt_sim \<Rightarrow> xt_sim" where
  "sim_step E s =
     (let pc_start = sim_pc s; (w, s) = fetch24 s
      in if sim_status s \<noteq> XT_SIM_RUN then s else exec_word E pc_start w s)"

primrec sim_run :: "sim_env \<Rightarrow> nat \<Rightarrow> xt_sim \<Rightarrow> xt_sim" where
  "sim_run E 0 s = s"
| "sim_run E (Suc max_steps) s =
     (if sim_status s = XT_SIM_RUN then sim_run E max_steps (sim_step E s) else s)"

definition xt_sim_run :: "sim_env \<Rightarrow> u32 \<Rightarrow> xt_sim \<Rightarrow> xt_sim" where
  "xt_sim_run E max_steps s = sim_run E (unat max_steps) s"

end
