(* ===== verification/Emit_Laws.thy ===== *)
theory Emit_Laws
  imports Emit Interfaces
begin

text \<open>
  The emit buffer as a sink of bytes: the words already stored and the accumulator together hold
  the bytes emitted so far, an instruction is emitted whole or not at all, and nothing is written
  beyond the capacity.
\<close>

section \<open>Bytes of a word\<close>

lemma byte_of_or [simp]: "byte_of (x OR y) i = byte_of x i OR byte_of y i"
  by (rule bit_word_eqI) (auto simp: byte_of_def bit_simps)

lemma byte_of_0 [simp]: "byte_of 0 i = 0"
  by (simp add: byte_of_def)

lemma byte_of_shifted:
  assumes "k < 4" "j < 4"
  shows "byte_of (push_bit (8 * k) (ucast (b :: u8))) j = (if j = k then b else 0)"
proof (rule bit_word_eqI)
  fix n assume "n < LENGTH(8)"
  then have "8 * k \<le> 8 * j + n \<and> 8 * j + n - 8 * k < 8 \<longleftrightarrow> j = k" by auto
  moreover have "8 * j + n < 32" using \<open>n < LENGTH(8)\<close> assms by simp
  ultimately show "bit (byte_of (push_bit (8 * k) (ucast b)) j) n = bit (if j = k then b else 0) n"
    using \<open>n < LENGTH(8)\<close> by (auto simp: byte_of_def bit_simps dest: bit_imp_le_length)
qed

lemma unat_and_3: "unat ((w :: u32) AND 3) = unat w mod 4"
proof -
  have "w AND 3 = take_bit 2 w" by (simp add: take_bit_eq_mask mask_eq_exp_minus_1)
  then show ?thesis by (simp add: take_bit_eq_mod unat_mod)
qed

lemma unat_add_u32: "unat (a :: u32) + unat b < 2 ^ 32 \<Longrightarrow> unat (a + b) = unat a + unat b"
  by (simp add: unat_word_ariths)

text \<open>The bytes emitted so far: those of the words already stored, then those in the accumulator.\<close>

definition emitted :: "xt_emit \<Rightarrow> u8 list" where
  "emitted e =
     (let n = unat (xt_len e); d = n - n mod 4
      in map (\<lambda>i. if i < d then xt_buf e i else byte_of (xt_word_acc e) (i - d)) [0..<n])"

definition emit_ok :: "xt_emit \<Rightarrow> bool" where
  "emit_ok e \<longleftrightarrow> unat (xt_len e) \<le> unat (xt_cap e) \<and> unat (xt_cap e) + 4 \<le> 2 ^ 32
     \<and> (\<forall>j<4. unat (xt_len e) mod 4 \<le> j \<longrightarrow> byte_of (xt_word_acc e) j = 0)"

definition emit_room :: "xt_emit \<Rightarrow> nat" where
  "emit_room e = unat (xt_cap e) - unat (xt_len e)"

lemma emit_byte_len:
  assumes "emit_ok e" "0 < emit_room e"
  shows "unat (xt_len e + 1) = unat (xt_len e) + 1"
    "xt_len e + 1 AND 3 = 0 \<longleftrightarrow> unat (xt_len e) mod 4 = 3"
    "unat ((xt_len e AND 3) * 8) = 8 * (unat (xt_len e) mod 4)"
proof -
  let ?n = "unat (xt_len e)"
  show len: "unat (xt_len e + 1) = ?n + 1"
    using assms by (subst unat_add_u32) (auto simp: emit_ok_def emit_room_def)
  have "xt_len e + 1 AND 3 = 0 \<longleftrightarrow> (?n + 1) mod 4 = 0"
    using unat_and_3 [of "xt_len e + 1"] by (simp add: len unat_eq_0 [symmetric])
  also have "\<dots> \<longleftrightarrow> ?n mod 4 = 3" by presburger
  finally show "xt_len e + 1 AND 3 = 0 \<longleftrightarrow> ?n mod 4 = 3" .
  have "?n mod 4 < 4" by simp
  then show "unat ((xt_len e AND 3) * 8) = 8 * (?n mod 4)"
    by (simp add: unat_word_ariths unat_and_3)
qed

lemma emit_byte_form:
  fixes e :: xt_emit and b :: u8
  assumes "emit_ok e" "0 < emit_room e"
  defines "n \<equiv> unat (xt_len e)"
  defines "a \<equiv> xt_word_acc e OR push_bit (8 * (n mod 4)) (ucast b)"
  shows "emit_byte_packed b e = (if n mod 4 = 3
      then e\<lparr>xt_word_acc := 0, xt_len := xt_len e + 1, xt_buf := store32 (n - 3) a (xt_buf e)\<rparr>
      else e\<lparr>xt_word_acc := a, xt_len := xt_len e + 1\<rparr>)"
proof -
  note l = emit_byte_len [OF assms(1,2), folded n_def]
  have "unat (xt_len e + 1 - 4) = n - 3" if "n mod 4 = 3"
  proof -
    have "3 \<le> n" using that mod_less_eq_dividend [of n 4] by linarith
    then show ?thesis using l(1) by (simp only: unat_sub_if_size word_size) simp
  qed
  then show ?thesis by (auto simp: emit_byte_packed_def Let_def l(2,3) a_def)
qed

lemma acc_bytes:
  assumes "emit_ok e" "j < 4"
  defines "k \<equiv> unat (xt_len e) mod 4"
  shows "byte_of (xt_word_acc e OR push_bit (8 * k) (ucast (b :: u8))) j
    = (if j < k then byte_of (xt_word_acc e) j else if j = k then b else 0)"
proof -
  have k: "k < 4" by (simp add: k_def)
  have "k \<le> j \<Longrightarrow> byte_of (xt_word_acc e) j = 0"
    using assms(1,2) by (auto simp: emit_ok_def k_def)
  then show ?thesis by (auto simp: byte_of_shifted [OF k assms(2)])
qed

lemma put_byte:
  assumes "emit_ok e" "0 < emit_room e"
  shows "emitted (emit_byte_packed b e) = emitted e @ [b]"
    "emit_ok (emit_byte_packed b e)" "emit_room (emit_byte_packed b e) = emit_room e - 1"
proof -
  define n where "n = unat (xt_len e)"
  define k where "k = n mod 4"
  define a where "a = xt_word_acc e OR push_bit (8 * k) (ucast b)"
  have n: "n < unat (xt_cap e)" "unat (xt_cap e) + 4 \<le> 2 ^ 32"
    using assms by (auto simp: emit_ok_def emit_room_def n_def)
  have k: "k < 4" by (simp add: k_def)
  note len = emit_byte_len(1) [OF assms, folded n_def]
  note e' = emit_byte_form [OF assms, of b, folded n_def, folded k_def, folded a_def]
  note a = acc_bytes [OF assms(1), of _ b, folded n_def, folded k_def, folded a_def]
  show "emit_room (emit_byte_packed b e) = emit_room e - 1"
    by (simp add: e' emit_room_def len n_def)
  have d: "n = (n - k) + k" "k \<le> n" by (simp_all add: k_def)
  have "emit_ok (emit_byte_packed b e) \<and> emitted (emit_byte_packed b e) = emitted e @ [b]"
  proof (cases "k = 3")
    case True
    then have m: "(n + 1) mod 4 = 0" unfolding k_def by presburger
    have "(if i < n + 1 then store32 (n - 3) a (xt_buf e) i else x)
        = (if i < n - 3 then xt_buf e i else if i < n then byte_of (xt_word_acc e) (i - (n - 3)) else b)"
      if "i < n + 1" for i x
      using that True d a by (auto simp: store32_def eval_nat_numeral less_Suc_eq)
    then have "emitted (emit_byte_packed b e) = emitted e @ [b]"
      using True m by (simp add: emitted_def Let_def e' len k_def [symmetric] n_def [symmetric]) linarith
    with True n show ?thesis by (auto simp: e' emit_ok_def len)
  next
    case False
    then have m: "(n + 1) mod 4 = k + 1" using k unfolding k_def by presburger
    then have "n + 1 - (k + 1) = n - k" by simp
    with m False have "emitted (emit_byte_packed b e) = emitted e @ [b]"
      using k d a by (auto simp: emitted_def Let_def e' len k_def [symmetric] n_def [symmetric])
    with False m n a show ?thesis by (auto simp: e' emit_ok_def len)
  qed
  then show "emitted (emit_byte_packed b e) = emitted e @ [b]" "emit_ok (emit_byte_packed b e)" by simp_all
qed

section \<open>The sink\<close>

interpretation emit: byte_sink emit_byte_packed emitted emit_ok emit_room
  by unfold_locales (rule put_byte; assumption)+

lemma emit_byte_keeps [simp]:
  "xt_cap (emit_byte_packed b e) = xt_cap e" "xt_overflow (emit_byte_packed b e) = xt_overflow e"
  by (simp_all add: emit_byte_packed_def Let_def)

lemma emit24_fits:
  assumes "emit_ok e"
  shows "xt_cap e < xt_len e + 3 \<longleftrightarrow> emit_room e < 3"
proof -
  have "unat (xt_len e + 3) = unat (xt_len e) + 3"
    using assms by (subst unat_add_u32) (auto simp: emit_ok_def)
  then show ?thesis using assms by (auto simp: emit_room_def emit_ok_def word_less_nat_alt)
qed

lemma emit24_bytes:
  assumes "emit_ok e" "3 \<le> emit_room e"
  shows "fst (emit24 w e) = 3" "emit_ok (snd (emit24 w e))"
    "emitted (snd (emit24 w e)) = emitted e @ [byte_of w 0, byte_of w 1, byte_of w 2]"
    "emit_room (snd (emit24 w e)) = emit_room e - 3"
    "xt_overflow (snd (emit24 w e)) = xt_overflow e" "xt_cap (snd (emit24 w e)) = xt_cap e"
  using emit.put_list [of e "[byte_of w 0, byte_of w 1, byte_of w 2]"] assms emit24_fits [OF assms(1)]
  by (simp_all add: emit24_def)

lemma emit24_full: "emit_ok e \<Longrightarrow> emit_room e < 3 \<Longrightarrow> emit24 w e = (0, e\<lparr>xt_overflow := True\<rparr>)"
  using emit24_fits by (simp add: emit24_def)

lemma emitted_length [simp]: "length (emitted e) = unat (xt_len e)"
  by (simp add: emitted_def Let_def)

lemma unat_and_not_3: "unat ((w :: u32) AND NOT 3) = unat w - unat w mod 4"
proof -
  have "(w AND NOT 3) + (w AND 3) = (w AND NOT 3) OR (w AND 3)"
    by (rule disjunctive_add) (auto simp: bit_simps)
  also have "\<dots> = w" by (rule bit_word_eqI) (auto simp: bit_simps)
  finally have "w AND NOT 3 = w - (w AND 3)" by (simp add: eq_diff_eq)
  moreover have "w AND 3 \<le> w" by (simp add: word_le_nat_alt unat_and_3)
  ultimately show ?thesis by (simp add: unat_sub unat_and_3 word_le_nat_alt)
qed

lemma unat_and_minus_4: "unat ((w :: u32) AND - 4) = unat w - unat w mod 4"
  using unat_and_not_3 [of w] by simp

lemma store32_at: "store32 off w f i = (if off \<le> i \<and> i < off + 4 then byte_of w (i - off) else f i)"
  by (auto simp: store32_def eval_nat_numeral less_Suc_eq)

lemma flush_bytes:
  assumes "i < unat (xt_len e)"
  shows "xt_buf (xt_flush_pending e) i = emitted e ! i"
proof -
  let ?n = "unat (xt_len e)" let ?d = "?n - ?n mod 4"
  have "xt_len e AND 3 = 0 \<longleftrightarrow> ?n mod 4 = 0" by (simp flip: unat_eq_0 add: unat_and_3)
  moreover have "?n < ?d + 4" using mod_less_divisor [of 4 ?n] by linarith
  ultimately show ?thesis
    using assms by (auto simp: xt_flush_pending_def Let_def emitted_def store32_at unat_and_minus_4)
qed

lemma store32_bounds: "off + 4 \<le> n \<Longrightarrow> untouched n f (store32 off w f)"
  by (simp add: store32_at untouched_def)

lemma emit_byte_bounds:
  assumes "emit_ok e" "0 < emit_room e"
  shows "untouched (unat (xt_cap e)) (xt_buf e) (xt_buf (emit_byte_packed b e))"
proof (cases "xt_len e + 1 AND 3 = 0")
  case True
  let ?n = "unat (xt_len e)"
  have n: "?n < unat (xt_cap e)" "unat (xt_cap e) + 4 \<le> 2 ^ 32" using assms by (auto simp: emit_ok_def emit_room_def)
  then have l: "unat (xt_len e + 1) = ?n + 1" by (subst unat_add_u32) simp_all
  have "(?n + 1) mod 4 = 0" using True unat_and_3 [of "xt_len e + 1"] by (simp add: l)
  then have "3 \<le> ?n" by presburger
  then have "unat (xt_len e + 1 - 4) = ?n - 3" using l by (simp only: unat_sub_if_size word_size) simp
  with n show ?thesis using \<open>3 \<le> ?n\<close>
    by (auto simp: emit_byte_packed_def Let_def True intro!: store32_bounds)
qed (simp add: emit_byte_packed_def Let_def)

lemma emit24_bounds:
  assumes "emit_ok e"
  shows "untouched (unat (xt_cap e)) (xt_buf e) (xt_buf (snd (emit24 w e)))"
proof (cases "emit_room e < 3")
  case True
  then show ?thesis using emit24_full [OF assms] by simp
next
  case False
  have "untouched (unat (xt_cap e)) (xt_buf e) (xt_buf (fold emit_byte_packed bs e))"
    if "length bs \<le> emit_room e" for bs
    using that assms
  proof (induction bs arbitrary: e)
    case (Cons b bs)
    then have r: "0 < emit_room e" by simp
    have "untouched (unat (xt_cap e)) (xt_buf (emit_byte_packed b e)) (xt_buf (fold emit_byte_packed (b # bs) e))"
      using Cons emit.put_ok [OF Cons.prems(2) r] emit.put_room [OF Cons.prems(2) r]
        Cons.IH [of "emit_byte_packed b e"] by simp
    with emit_byte_bounds [OF Cons.prems(2) r] show ?case by (rule untouched_trans)
  qed simp
  from this [of "[byte_of w 0, byte_of w 1, byte_of w 2]"] False show ?thesis
    by (simp add: emit24_def emit24_fits assms)
qed

lemma word_slot_room:
  assumes "emit_ok e" "4 dvd unat (xt_cap e)" "unat (xt_len e) mod 4 \<noteq> 0"
  shows "unat (xt_len e) - unat (xt_len e) mod 4 + 4 \<le> unat (xt_cap e)"
proof -
  obtain q where q: "unat (xt_cap e) = 4 * q" using assms(2) by (rule dvdE)
  have "unat (xt_len e) \<noteq> 4 * q" using assms(3) by auto
  then have "4 * (unat (xt_len e) div 4) < 4 * q"
    using assms(1) q by (simp add: emit_ok_def) linarith
  then show ?thesis using q minus_mod_eq_mult_div [of "unat (xt_len e)" 4] by simp
qed

lemma flush_bounds:
  assumes "emit_ok e" "4 dvd unat (xt_cap e)"
  shows "untouched (unat (xt_cap e)) (xt_buf e) (xt_buf (xt_flush_pending e))"
proof (cases "unat (xt_len e) mod 4 = 0")
  case True
  then have "xt_len e AND 3 = 0" by (simp flip: unat_eq_0 add: unat_and_3)
  then show ?thesis by (simp add: xt_flush_pending_def)
next
  case False
  have "unat (xt_len e) - unat (xt_len e) mod 4 + 4 \<le> unat (xt_cap e)"
    using assms False by (rule word_slot_room)
  then show ?thesis by (auto simp: xt_flush_pending_def Let_def unat_and_minus_4 intro!: store32_bounds)
qed

end
