(* ===== verification/Xt_Insn.thy ===== *)
theory Xt_Insn
  imports Emit_Laws Xt_Sim
begin

text \<open>
  The instructions the encoder can emit, as a datatype: what each does according to the Xtensa
  manual (\<open>insn_sem\<close>), the operand ranges the encoder asserts (\<open>insn_ok\<close>), and the proof that the
  word each encoder emits makes the simulator do just that. Encoder and simulator were written
  independently of each other in the program; here they are compared with one specification.
\<close>

section \<open>Sign extension and fields\<close>

lemma unat_take_bit_lt: "unat (take_bit n w) < 2 ^ n"
  by (simp add: unsigned_take_bit_eq)

lemma sign_extend_take_bit:
  assumes "n < 31"
  shows "sign_extend (take_bit (Suc n) v) (Suc n) = signed_take_bit n v"
proof (cases "bit v n")
  case False
  then have "take_bit (Suc n) v = take_bit n v"
    by (intro bit_word_eqI) (auto simp: bit_simps less_Suc_eq)
  moreover have "take_bit n v XOR push_bit n 1 = take_bit n v + push_bit n 1"
    by (subst disjunctive_add_eq_xor, rule bit_word_eqI) (auto simp: bit_simps)
  ultimately show ?thesis
    using False by (simp add: sign_extend_def Let_def signed_take_bit_eq_if_positive)
next
  case True
  have "take_bit (Suc n) v XOR push_bit n 1 = take_bit n v"
    by (rule bit_word_eqI) (use True assms in \<open>auto simp: bit_simps less_Suc_eq\<close>)
  moreover have "take_bit n v OR NOT (mask n) = take_bit n v + NOT (mask n)"
    by (subst disjunctive_add_eq_or, rule bit_word_eqI) (auto simp: bit_simps)
  ultimately show ?thesis
    using True by (simp add: sign_extend_def Let_def signed_take_bit_eq_if_negative
        flip: minus_exp_eq_not_mask)
qed

lemma signed_take_bit_small:
  assumes "n < 31" "- (2 ^ n) \<le> sint (v :: u32)" "sint v < 2 ^ n"
  shows "signed_take_bit n v = v"
proof -
  have "signed_take_bit n (word_of_int k :: u32) = word_of_int (signed_take_bit n k)" for k
    by (rule bit_word_eqI) (use assms(1) in \<open>auto simp: bit_simps min_def\<close>)
  from this [of "sint v"] show ?thesis
    using signed_take_bit_int_eq_self [OF assms(2,3)] by simp
qed

text \<open>The fields of a word put together from nibbles.\<close>

lemma bit_nib: "bit (nib x n) i \<longleftrightarrow> n \<le> i \<and> i < n + 4 \<and> i < 32 \<and> bit x (i - n)"
  by (auto simp: nib_def bit_simps low_mask4)

lemma small_reg: "x < 16 \<Longrightarrow> x AND 15 = (x :: u8)"
  by (simp add: low_mask4 word_unat_eq_iff unat_mod take_bit_eq_mod word_less_nat_alt)

lemma field_eq:
  assumes "\<forall>i<4. bit (w :: u32) (k + i) = bit (x :: u8) i" "x < 16"
  shows "unat (drop_bit k w AND 15) = unat x"
proof -
  have "drop_bit k w AND 15 = ucast (x AND 15)"
    by (rule bit_word_eqI) (use assms(1) in \<open>auto simp: bit_simps low_mask4\<close>)
  then show ?thesis using assms(2) by (simp add: small_reg)
qed

lemma fields_rrr:
  assumes "op2 < 16" "op1 < 16" "r < 16" "s < 16" "t < 16"
  defines "w \<equiv> enc_rrr op2 op1 r s t"
  shows "fld_op0 w = 0" "fld_op2 w = unat op2" "fld_op1 w = unat op1" "fld_r w = unat r"
    "fld_s w = unat s" "fld_t w = unat t"
proof -
  have "fld_op0 w = unat (0 :: u8)"
    using field_eq [of w 0 0] by (simp add: fld_op0_def w_def enc_rrr_def bit_simps bit_nib)
  then show "fld_op0 w = 0" by simp
  show "fld_op2 w = unat op2" "fld_op1 w = unat op1" "fld_r w = unat r" "fld_s w = unat s" "fld_t w = unat t"
    unfolding fld_op2_def fld_op1_def fld_r_def fld_s_def fld_t_def
    by (rule field_eq; use assms in \<open>auto simp: enc_rrr_def bit_simps bit_nib\<close>)+
qed

lemma fields_rri8:
  fixes r s t imm :: u8
  assumes "r < 16" "s < 16" "t < 16"
  defines "w \<equiv> enc_rri8 r s t imm"
  shows "fld_op0 w = 2" "fld_r w = unat r" "fld_s w = unat s" "fld_t w = unat t" "fld_imm8 w = ucast imm"
proof -
  have "fld_op0 w = unat (2 :: u8)"
    using field_eq [of w 0 2] by (auto simp: fld_op0_def w_def enc_rri8_def bit_simps bit_nib)
  then show "fld_op0 w = 2" by simp
  show "fld_r w = unat r" "fld_s w = unat s" "fld_t w = unat t"
    unfolding fld_r_def fld_s_def fld_t_def
    by (rule field_eq; use assms in \<open>auto simp: enc_rri8_def bit_simps bit_nib\<close>)+
  show "fld_imm8 w = ucast imm"
    unfolding fld_imm8_def w_def enc_rri8_def
    by (rule bit_word_eqI) (auto simp: bit_simps bit_nib low_mask8 dest: bit_imp_le_length)
qed

section \<open>The instructions\<close>

datatype insn =
    I_AND u8 u8 u8 | I_OR u8 u8 u8 | I_XOR u8 u8 u8 | I_ADD u8 u8 u8 | I_SUB u8 u8 u8 | I_MOV u8 u8
  | I_ADDI u8 u8 u32 | I_MOVI u8 u32
  | I_L8UI u8 u8 u32 | I_S8I u8 u8 u32 | I_L16UI u8 u8 u32 | I_S16I u8 u8 u32 | I_L32I u8 u8 u32 | I_S32I u8 u8 u32
  | I_L32R u8 u32
  | I_BEQZ u8 u32 | I_BNEZ u8 u32 | I_J u32 | I_CALL0 u32 | I_JX u8 | I_CALLX0 u8 | I_RET
  | I_SLLI u8 u8 u8 | I_SRLI u8 u8 u8 | I_SRAI u8 u8 u8 | I_EXTUI u8 u8 u8 u8

fun emit_insn :: "insn \<Rightarrow> xt_emit \<Rightarrow> u32 \<times> xt_emit" where
  "emit_insn (I_AND r s t) = xt_and r s t"
| "emit_insn (I_OR r s t) = xt_or r s t"
| "emit_insn (I_XOR r s t) = xt_xor r s t"
| "emit_insn (I_ADD r s t) = xt_add r s t"
| "emit_insn (I_SUB r s t) = xt_sub r s t"
| "emit_insn (I_MOV r s) = xt_mov r s"
| "emit_insn (I_ADDI t s imm) = xt_addi t s imm"
| "emit_insn (I_MOVI t imm) = xt_movi t imm"
| "emit_insn (I_L8UI t s off) = xt_l8ui t s off"
| "emit_insn (I_S8I t s off) = xt_s8i t s off"
| "emit_insn (I_L16UI t s off) = xt_l16ui t s off"
| "emit_insn (I_S16I t s off) = xt_s16i t s off"
| "emit_insn (I_L32I t s off) = xt_l32i t s off"
| "emit_insn (I_S32I t s off) = xt_s32i t s off"
| "emit_insn (I_L32R t off) = xt_l32r t off"
| "emit_insn (I_BEQZ s rel) = xt_beqz s rel"
| "emit_insn (I_BNEZ s rel) = xt_bnez s rel"
| "emit_insn (I_J rel) = xt_j rel"
| "emit_insn (I_CALL0 rel) = xt_call0 rel"
| "emit_insn (I_JX s) = xt_jx s"
| "emit_insn (I_CALLX0 s) = xt_callx0 s"
| "emit_insn I_RET = xt_ret"
| "emit_insn (I_SLLI r s sa) = xt_slli r s sa"
| "emit_insn (I_SRLI r t sa) = xt_srli r t sa"
| "emit_insn (I_SRAI r t sa) = xt_srai r t sa"
| "emit_insn (I_EXTUI r t sh m) = xt_extui r t sh m"

definition srange :: "nat \<Rightarrow> u32 \<Rightarrow> bool" where
  "srange n v \<longleftrightarrow> - (2 ^ n) \<le> sint v \<and> sint v < 2 ^ n"

fun insn_ok :: "insn \<Rightarrow> bool" where
  "insn_ok (I_AND r s t) = (r < 16 \<and> s < 16 \<and> t < 16)"
| "insn_ok (I_OR r s t) = (r < 16 \<and> s < 16 \<and> t < 16)"
| "insn_ok (I_XOR r s t) = (r < 16 \<and> s < 16 \<and> t < 16)"
| "insn_ok (I_ADD r s t) = (r < 16 \<and> s < 16 \<and> t < 16)"
| "insn_ok (I_SUB r s t) = (r < 16 \<and> s < 16 \<and> t < 16)"
| "insn_ok (I_MOV r s) = (r < 16 \<and> s < 16)"
| "insn_ok (I_ADDI t s imm) = (t < 16 \<and> s < 16 \<and> srange 7 imm)"
| "insn_ok (I_MOVI t imm) = (t < 16 \<and> srange 11 imm)"
| "insn_ok (I_L8UI t s off) = (t < 16 \<and> s < 16 \<and> off \<le> 255)"
| "insn_ok (I_S8I t s off) = (t < 16 \<and> s < 16 \<and> off \<le> 255)"
| "insn_ok (I_L16UI t s off) = (t < 16 \<and> s < 16 \<and> off \<le> 510 \<and> off AND 1 = 0)"
| "insn_ok (I_S16I t s off) = (t < 16 \<and> s < 16 \<and> off \<le> 510 \<and> off AND 1 = 0)"
| "insn_ok (I_L32I t s off) = (t < 16 \<and> s < 16 \<and> off \<le> 1020 \<and> off AND 3 = 0)"
| "insn_ok (I_S32I t s off) = (t < 16 \<and> s < 16 \<and> off \<le> 1020 \<and> off AND 3 = 0)"
| "insn_ok (I_L32R t off) = (t < 16)"
| "insn_ok (I_BEQZ s rel) = (s < 16 \<and> srange 11 (rel - 4))"
| "insn_ok (I_BNEZ s rel) = (s < 16 \<and> srange 11 (rel - 4))"
| "insn_ok (I_J rel) = srange 17 (rel - 4)"
| "insn_ok (I_CALL0 rel) = (rel AND 3 = 0 \<and> srange 17 (signed_drop_bit 2 (rel - 4)))"
| "insn_ok (I_JX s) = (s < 16)"
| "insn_ok (I_CALLX0 s) = (s < 16)"
| "insn_ok I_RET = True"
| "insn_ok (I_SLLI r s sa) = (r < 16 \<and> s < 16 \<and> 1 \<le> sa \<and> sa \<le> 31)"
| "insn_ok (I_SRLI r t sa) = (r < 16 \<and> t < 16 \<and> sa \<le> 15)"
| "insn_ok (I_SRAI r t sa) = (r < 16 \<and> t < 16 \<and> sa \<le> 31)"
| "insn_ok (I_EXTUI r t sh m) = (r < 16 \<and> t < 16 \<and> sh \<le> 31 \<and> m \<le> 15)"

definition areg :: "xt_sim \<Rightarrow> u8 \<Rightarrow> u32" where
  "areg s r = sim_a s (unat r)"

definition wreg :: "u8 \<Rightarrow> u32 \<Rightarrow> xt_sim \<Rightarrow> xt_sim" where
  "wreg r = set_reg (unat r)"

definition return_or :: "u32 \<Rightarrow> bool \<Rightarrow> xt_sim \<Rightarrow> xt_sim" where
  "return_or target cookie s =
     (if cookie \<and> target = 0 then s\<lparr>sim_status := XT_SIM_RETURNED\<rparr> else s\<lparr>sim_pc := target\<rparr>)"

fun insn_sem :: "sim_env \<Rightarrow> u32 \<Rightarrow> insn \<Rightarrow> xt_sim \<Rightarrow> xt_sim" where
  "insn_sem E pc (I_AND r s t) x = wreg r (areg x s AND areg x t) x"
| "insn_sem E pc (I_OR r s t) x = wreg r (areg x s OR areg x t) x"
| "insn_sem E pc (I_XOR r s t) x = wreg r (areg x s XOR areg x t) x"
| "insn_sem E pc (I_ADD r s t) x = wreg r (areg x s + areg x t) x"
| "insn_sem E pc (I_SUB r s t) x = wreg r (areg x s - areg x t) x"
| "insn_sem E pc (I_MOV r s) x = wreg r (areg x s) x"
| "insn_sem E pc (I_ADDI t s imm) x = wreg t (areg x s + imm) x"
| "insn_sem E pc (I_MOVI t imm) x = wreg t imm x"
| "insn_sem E pc (I_L8UI t s off) x = sim_load E 1 (unat t) (areg x s + off) x"
| "insn_sem E pc (I_S8I t s off) x = sim_store E 1 (unat t) (areg x s + off) x"
| "insn_sem E pc (I_L16UI t s off) x = sim_load E 2 (unat t) (areg x s + off) x"
| "insn_sem E pc (I_S16I t s off) x = sim_store E 2 (unat t) (areg x s + off) x"
| "insn_sem E pc (I_L32I t s off) x = sim_load E 4 (unat t) (areg x s + off) x"
| "insn_sem E pc (I_S32I t s off) x = sim_store E 4 (unat t) (areg x s + off) x"
| "insn_sem E pc (I_L32R t off) x =
     wreg t (case read_literal E of None \<Rightarrow> 0
             | Some f \<Rightarrow> f x (((pc + 3) AND NOT 3) + 4 * signed_take_bit 15 off)) x"
| "insn_sem E pc (I_BEQZ s rel) x = (if areg x s = 0 then x\<lparr>sim_pc := pc + rel\<rparr> else x)"
| "insn_sem E pc (I_BNEZ s rel) x = (if areg x s \<noteq> 0 then x\<lparr>sim_pc := pc + rel\<rparr> else x)"
| "insn_sem E pc (I_J rel) x = x\<lparr>sim_pc := pc + rel\<rparr>"
| "insn_sem E pc (I_CALL0 rel) x = (wreg 0 (sim_pc x) x)\<lparr>sim_pc := (pc AND NOT 3) + rel\<rparr>"
| "insn_sem E pc (I_JX s) x = return_or (areg x s) (s = 0) x"
| "insn_sem E pc (I_CALLX0 s) x =
     (let y = wreg 0 (sim_pc x) x in case call_thunk E of None \<Rightarrow> y | Some f \<Rightarrow> f (areg x s) y)"
| "insn_sem E pc I_RET x = return_or (areg x 0) True x"
| "insn_sem E pc (I_SLLI r s sa) x = wreg r (push_bit (unat sa) (areg x s)) x"
| "insn_sem E pc (I_SRLI r t sa) x = wreg r (drop_bit (unat sa) (areg x t)) x"
| "insn_sem E pc (I_SRAI r t sa) x = wreg r (signed_drop_bit (unat sa) (areg x t)) x"
| "insn_sem E pc (I_EXTUI r t sh m) x = wreg r (take_bit (unat m + 1) (drop_bit (unat sh) (areg x t))) x"

lemmas xt_defs = xt_and_def xt_or_def xt_xor_def xt_add_def xt_sub_def xt_mov_def xt_addi_def xt_movi_def
  xt_l8ui_def xt_s8i_def xt_l16ui_def xt_s16i_def xt_l32i_def xt_s32i_def xt_l32r_def xt_beqz_def xt_bnez_def
  xt_j_def xt_call0_def xt_jx_def xt_callx0_def xt_ret_def xt_slli_def xt_srli_def xt_srai_def xt_extui_def

definition encodes :: "u32 \<Rightarrow> insn \<Rightarrow> bool" where
  "encodes w i \<longleftrightarrow> emit_insn i = emit24 w \<and> (\<forall>E pc x. exec_word E pc w x = insn_sem E pc i x) \<and> w < 2 ^ 24"

lemma low6_class:
  "w AND 0x3F = 5 \<Longrightarrow> fld_op0 w = 5" "w AND 0x3F = 6 \<Longrightarrow> fld_op0 w = 6"
proof -
  have e: "fld_op0 w = unat ((w AND 0x3F) AND 0xF)" by (simp add: fld_op0_def and.assoc)
  show "w AND 0x3F = 5 \<Longrightarrow> fld_op0 w = 5" "w AND 0x3F = 6 \<Longrightarrow> fld_op0 w = 6"
    unfolding e by simp_all
qed

lemma exec_word_class:
  "fld_op0 w = 0 \<Longrightarrow> exec_word E pc w x = exec_rrr E w x"
  "fld_op0 w = 1 \<Longrightarrow> exec_word E pc w x = exec_l32r E pc w x"
  "fld_op0 w = 2 \<Longrightarrow> exec_word E pc w x = exec_rri8 E w x"
  "w AND 0x3F = 0x05 \<Longrightarrow> exec_word E pc w x = exec_call0 pc w x"
  "w AND 0x3F = 0x06 \<Longrightarrow> exec_word E pc w x = exec_j pc w x"
  using low6_class [of w] by (auto simp: exec_word_def Let_def)

lemma unat_small_eq: "x < 16 \<Longrightarrow> (unat (x :: u8) = n) = (x = of_nat n)" if "n < 16"
  using that by (auto simp: word_unat_eq_iff unat_of_nat_u8)

lemma less24: "\<forall>i\<ge>24. \<not> bit w i \<Longrightarrow> w < 2 ^ 24" for w :: u32
proof -
  assume "\<forall>i\<ge>24. \<not> bit w i"
  then have "w = take_bit 24 w" by (intro bit_word_eqI) (metis bit_take_bit_iff linorder_not_le)
  then have "unat w < 2 ^ 24" by (metis unat_take_bit_lt)
  then show ?thesis by (simp add: word_less_nat_alt)
qed

lemma word24_rrr: "enc_rrr op2 op1 r s t < 2 ^ 24" "enc_rri8 r s t imm < 2 ^ 24"
  by (rule less24; auto simp: enc_rrr_def enc_rri8_def bit_simps bit_nib dest: bit_imp_le_length)+

lemma encodes_arith:
  assumes "r < 16" "s < 16" "t < 16"
  shows "encodes (enc_rrr 1 0 r s t) (I_AND r s t)" "encodes (enc_rrr 2 0 r s t) (I_OR r s t)"
    "encodes (enc_rrr 3 0 r s t) (I_XOR r s t)" "encodes (enc_rrr 8 0 r s t) (I_ADD r s t)"
    "encodes (enc_rrr 0xC 0 r s t) (I_SUB r s t)" "encodes (enc_rrr 2 0 r s s) (I_MOV r s)"
  using assms
  by (simp_all add: encodes_def xt_defs exec_word_class fields_rrr exec_rrr_def areg_def wreg_def word24_rrr [simplified])

section \<open>Immediates and memory offsets\<close>

lemma srange_ext:
  "srange 7 v \<Longrightarrow> sign_extend (v AND 0xFF) 8 = v" "srange 11 v \<Longrightarrow> sign_extend (v AND 0xFFF) 12 = v"
  "srange 17 v \<Longrightarrow> sign_extend (v AND 0x3FFFF) 18 = v"
  "sign_extend (v AND 0xFFFF) 16 = signed_take_bit 15 v"
  using sign_extend_take_bit [of 7 v] sign_extend_take_bit [of 11 v] sign_extend_take_bit [of 17 v]
    sign_extend_take_bit [of 15 v] signed_take_bit_small [of 7 v] signed_take_bit_small [of 11 v]
    signed_take_bit_small [of 17 v]
  by (simp_all add: take_bit_eq_mask mask_eq_exp_minus_1 srange_def)

lemma ucast_low8: "(ucast (ucast (v :: u32) :: u8) :: u32) = v AND 0xFF"
  by (rule bit_word_eqI) (auto simp: bit_simps low_mask8)

lemma encodes_imm:
  assumes "t < 16" "s < 16"
  shows "srange 7 imm \<Longrightarrow> encodes (enc_rri8 0xC s t (ucast imm)) (I_ADDI t s imm)"
    "srange 11 imm \<Longrightarrow> encodes (enc_rri8 0xA (ucast (drop_bit 8 (imm AND 0xFFF) AND 0xF)) t (ucast ((imm AND 0xFFF) AND 0xFF))) (I_MOVI t imm)"
proof -
  show "encodes (enc_rri8 0xC s t (ucast imm)) (I_ADDI t s imm)" if "srange 7 imm"
    using assms that
    by (simp add: encodes_def xt_defs exec_word_class fields_rri8 exec_rri8_def areg_def wreg_def
        word24_rrr [simplified] ucast_low8 srange_ext)
  let ?hi = "ucast (drop_bit 8 (imm AND 0xFFF) AND 0xF) :: u8"
  let ?w = "enc_rri8 0xA ?hi t (ucast ((imm AND 0xFFF) AND 0xFF))"
  have hi: "?hi < 16"
  proof -
    have "?hi = take_bit 4 ?hi" by (rule bit_word_eqI) (auto simp: bit_simps low_mask4)
    then have "unat ?hi < 16" using unat_take_bit_lt [of 4 ?hi] by simp
    then show ?thesis by (simp add: word_less_nat_alt)
  qed
  have "push_bit 8 (of_nat (fld_s ?w)) OR fld_imm8 ?w = imm AND 0xFFF"
  proof -
    have 1: "0xFFF = (mask 12 :: u32)" by (simp add: mask_eq_exp_minus_1)
    have "push_bit 8 (of_nat (unat ?hi)) OR ucast (ucast ((imm AND 0xFFF) AND 0xFF) :: u8) = imm AND 0xFFF"
      unfolding 1 by (rule bit_word_eqI) (auto simp: bit_simps low_mask4 low_mask8)
    then show ?thesis using assms hi by (simp add: fields_rri8)
  qed
  then show "encodes ?w (I_MOVI t imm)" if "srange 11 imm"
    using assms that hi
    by (simp add: encodes_def xt_defs exec_word_class fields_rri8 exec_rri8_def areg_def wreg_def
        word24_rrr [simplified] srange_ext Let_def)
qed

lemma low_bits_of_bound: "unat (v :: u32) < 2 ^ n \<Longrightarrow> take_bit n v = v"
proof -
  assume "unat v < 2 ^ n"
  then have "unat (take_bit n v) = unat v" by (simp add: unsigned_take_bit_eq take_bit_nat_eq_self_iff)
  then show ?thesis by (simp add: word_unat_eq_iff)
qed

lemma offsets:
  "off \<le> 255 \<Longrightarrow> (ucast (ucast (off :: u32) :: u8) :: u32) = off"
  "off \<le> 510 \<Longrightarrow> off AND 1 = 0 \<Longrightarrow> push_bit 1 (ucast (ucast (drop_bit 1 off) :: u8)) = off"
  "off \<le> 1020 \<Longrightarrow> off AND 3 = 0 \<Longrightarrow> push_bit 2 (ucast (ucast (drop_bit 2 off) :: u8)) = off"
proof -
  show "off \<le> 255 \<Longrightarrow> (ucast (ucast off :: u8) :: u32) = off"
    using low_bits_of_bound [of off 8] by (simp add: ucast_low8 low_mask8 word_le_nat_alt)
  have aligned: "push_bit n (ucast (ucast (drop_bit n off) :: u8)) = off"
    if "take_bit (8 + n) off = off" "take_bit n off = 0" for n
  proof (rule bit_word_eqI)
    fix i assume "i < LENGTH(32)"
    have "bit off i \<Longrightarrow> i < 8 + n" "bit off i \<Longrightarrow> n \<le> i"
      using that by (metis bit_take_bit_iff) (metis that(2) bit_take_bit_iff bit_0_eq bot_apply bot_bool_def linorder_not_le)
    then show "bit (push_bit n (ucast (ucast (drop_bit n off) :: u8)) :: u32) i = bit off i"
      using \<open>i < LENGTH(32)\<close> by (auto simp: bit_simps)
  qed
  show "push_bit 1 (ucast (ucast (drop_bit 1 off) :: u8)) = off" if "off \<le> 510" "off AND 1 = 0"
  proof (rule aligned)
    show "take_bit (8 + 1) off = off"
      using that(1) by (intro low_bits_of_bound) (auto simp: word_le_nat_alt)
    show "take_bit 1 off = 0" using that(2) by (simp add: take_bit_eq_mask mask_eq_exp_minus_1)
  qed
  show "push_bit 2 (ucast (ucast (drop_bit 2 off) :: u8)) = off" if "off \<le> 1020" "off AND 3 = 0"
  proof (rule aligned)
    show "take_bit (8 + 2) off = off"
      using that(1) by (intro low_bits_of_bound) (auto simp: word_le_nat_alt)
    show "take_bit 2 off = 0" using that(2) by (simp add: take_bit_eq_mask mask_eq_exp_minus_1)
  qed
qed

lemma exec_rri8_enc:
  assumes "r < 16" "s < 16" "t < 16"
  shows "exec_word E pc (enc_rri8 r s t imm) x
   = (let a = sim_a x (unat s); i = ucast imm; t = unat t
      in if r = 0x0 then sim_load E 1 t (a + i) x
         else if r = 0x4 then sim_store E 1 t (a + i) x
         else if r = 0x1 then sim_load E 2 t (a + push_bit 1 i) x
         else if r = 0x5 then sim_store E 2 t (a + push_bit 1 i) x
         else if r = 0x2 then sim_load E 4 t (a + push_bit 2 i) x
         else if r = 0x6 then sim_store E 4 t (a + push_bit 2 i) x
         else if r = 0xC then set_reg t (a + sign_extend i 8) x
         else if r = 0xA then set_reg t (sign_extend (push_bit 8 (of_nat (unat s)) OR i) 12) x
         else x\<lparr>sim_status := XT_SIM_BAD_OPCODE\<rparr>)"
proof -
  have "unat r = n \<longleftrightarrow> r = of_nat n" if "n < 16" for n
    using that by (auto simp: word_unat_eq_iff unat_of_nat_u8)
  from this [of 4] this [of 1] this [of 5] this [of 2] this [of 6] this [of 12] this [of 10]
  show ?thesis
    using assms by (simp add: exec_word_class fields_rri8 exec_rri8_def Let_def unat_eq_0)
qed

lemma encodes_mem:
  assumes "t < 16" "s < 16"
  shows "off \<le> 255 \<Longrightarrow> encodes (enc_rri8 0x0 s t (ucast off)) (I_L8UI t s off)"
    "off \<le> 255 \<Longrightarrow> encodes (enc_rri8 0x4 s t (ucast off)) (I_S8I t s off)"
    "off \<le> 510 \<Longrightarrow> off AND 1 = 0 \<Longrightarrow> encodes (enc_rri8 0x1 s t (ucast (drop_bit 1 off))) (I_L16UI t s off)"
    "off \<le> 510 \<Longrightarrow> off AND 1 = 0 \<Longrightarrow> encodes (enc_rri8 0x5 s t (ucast (drop_bit 1 off))) (I_S16I t s off)"
    "off \<le> 1020 \<Longrightarrow> off AND 3 = 0 \<Longrightarrow> encodes (enc_rri8 0x2 s t (ucast (drop_bit 2 off))) (I_L32I t s off)"
    "off \<le> 1020 \<Longrightarrow> off AND 3 = 0 \<Longrightarrow> encodes (enc_rri8 0x6 s t (ucast (drop_bit 2 off))) (I_S32I t s off)"
  unfolding encodes_def using assms
  by (simp_all add: xt_defs exec_rri8_enc areg_def word24_rrr [simplified] Let_def offsets [simplified])

lemma bit_6: "bit (6 :: int) i \<longleftrightarrow> i = 1 \<or> i = 2" and bit_5: "bit (5 :: int) i \<longleftrightarrow> i = 0 \<or> i = 2"
proof -
  have "6 = (push_bit 1 1 OR push_bit 2 1 :: int)" "5 = (1 OR push_bit 2 1 :: int)" by simp_all
  then show "bit (6 :: int) i \<longleftrightarrow> i = 1 \<or> i = 2" "bit (5 :: int) i \<longleftrightarrow> i = 0 \<or> i = 2"
    by (auto simp only: bit_simps) auto
qed

lemma masks: "(v :: 'a::len word) AND 0xFFF = take_bit 12 v" "v AND 0x3FFFF = take_bit 18 v" "v AND 0xFFFF = take_bit 16 v"
  "v AND 0x3F = take_bit 6 v" "v AND 3 = take_bit 2 v" "v AND 1 = take_bit 1 v"
  by (simp_all add: take_bit_eq_mask mask_eq_exp_minus_1)

lemma fields_branch:
  fixes v :: u32
  assumes "s < 16" "t < 16"
  defines "w \<equiv> push_bit 12 (v AND 0xFFF) OR nib s 8 OR nib t 4 OR 6"
  shows "fld_s w = unat s" "fld_t w = unat t" "drop_bit 12 w AND 0xFFF = v AND 0xFFF" "w < 2 ^ 24" "fld_op0 w = 6"
    "bit t 0 \<Longrightarrow> w AND 0x3F \<noteq> 6"
proof -
  show "fld_s w = unat s" "fld_t w = unat t"
    unfolding fld_s_def fld_t_def w_def masks
    by (rule field_eq; use assms(1,2) in \<open>auto simp: bit_simps bit_nib bit_6\<close>)+
  show "drop_bit 12 w AND 0xFFF = v AND 0xFFF"
    unfolding w_def masks by (rule bit_word_eqI) (auto simp: bit_simps bit_nib bit_6)
  show "w < 2 ^ 24" unfolding w_def masks by (rule less24) (auto simp: bit_simps bit_nib bit_6)
  have "fld_op0 w = unat (6 :: u8)"
    using field_eq [of w 0 6] by (auto simp: fld_op0_def w_def bit_simps bit_nib)
  then show "fld_op0 w = 6" by simp
  show "w AND 0x3F \<noteq> 6" if "bit t 0"
  proof
    assume "w AND 0x3F = 6"
    then have "bit (w AND 0x3F) 4 = bit (6 :: u32) 4" by simp
    moreover have "bit (w AND 0x3F) 4 = bit w 4" unfolding masks by (simp add: bit_simps)
    ultimately show False using that by (simp add: w_def bit_simps bit_nib)
  qed
qed

lemma encodes_bxxz:
  assumes "s < 16" "t < 16" "bit t 0" "srange 11 (rel - 4)"
  shows "exec_word E pc (enc_bxxz t s rel) x
    = (if t = 1 then (if sim_a x (unat s) = 0 then x\<lparr>sim_pc := pc + rel\<rparr> else x)
       else if t = 5 then (if sim_a x (unat s) \<noteq> 0 then x\<lparr>sim_pc := pc + rel\<rparr> else x)
       else x\<lparr>sim_status := XT_SIM_BAD_OPCODE\<rparr>)"
    "enc_bxxz t s rel < 2 ^ 24"
proof -
  define w where "w = enc_bxxz t s rel"
  note f = fields_branch [OF assms(1,2), of "rel - 4", folded w_def [unfolded enc_bxxz_def Let_def]]
  have "unat t = n \<longleftrightarrow> t = of_nat n" if "n < 16" for n
    using that by (auto simp: word_unat_eq_iff unat_of_nat_u8)
  from this [of 1] this [of 5] have sel: "unat t = 1 \<longleftrightarrow> t = 1" "unat t = 5 \<longleftrightarrow> t = 5" by simp_all
  have "exec_word E pc w x = exec_bxxz pc w x"
    using f(5) f(6) [OF assms(3)] low6_class(1) [of w] by (auto simp: exec_word_def Let_def)
  moreover have "pc + 4 + (rel - 4) = pc + rel" by simp
  ultimately show "exec_word E pc (enc_bxxz t s rel) x
    = (if t = 1 then (if sim_a x (unat s) = 0 then x\<lparr>sim_pc := pc + rel\<rparr> else x)
       else if t = 5 then (if sim_a x (unat s) \<noteq> 0 then x\<lparr>sim_pc := pc + rel\<rparr> else x)
       else x\<lparr>sim_status := XT_SIM_BAD_OPCODE\<rparr>)"
    unfolding w_def [symmetric] by (simp only: exec_bxxz_def f(1-3) srange_ext(2) [OF assms(4)] Let_def sel)
  show "enc_bxxz t s rel < 2 ^ 24" using f(4) by (simp only: w_def)
qed

lemma encodes_branch:
  assumes "s < 16" "srange 11 (rel - 4)"
  shows "encodes (enc_bxxz 0x1 s rel) (I_BEQZ s rel)" "encodes (enc_bxxz 0x5 s rel) (I_BNEZ s rel)"
proof -
  have t: "(1 :: u8) < 16" "(5 :: u8) < 16" "bit (1 :: u8) 0" "bit (5 :: u8) 0" by simp_all
  show "encodes (enc_bxxz 0x1 s rel) (I_BEQZ s rel)" "encodes (enc_bxxz 0x5 s rel) (I_BNEZ s rel)"
    unfolding encodes_def encodes_bxxz(1) [OF assms(1) t(1) t(3) assms(2)]
      encodes_bxxz(1) [OF assms(1) t(2) t(4) assms(2)]
    using encodes_bxxz(2) [OF assms(1) t(1) t(3) assms(2)] encodes_bxxz(2) [OF assms(1) t(2) t(4) assms(2)]
    by (simp_all add: xt_defs areg_def)
qed

lemma fields_offset18:
  fixes v c :: u32
  assumes "c = 5 \<or> c = 6"
  defines "w \<equiv> push_bit 6 (v AND 0x3FFFF) OR c"
  shows "drop_bit 6 w AND 0x3FFFF = v AND 0x3FFFF" "w < 2 ^ 24" "w AND 0x3F = c"
proof -
  show "drop_bit 6 w AND 0x3FFFF = v AND 0x3FFFF"
    unfolding w_def masks by (rule bit_word_eqI) (use assms(1) in \<open>auto simp: bit_simps bit_5 bit_6\<close>)
  show "w < 2 ^ 24"
    unfolding w_def masks by (rule less24) (use assms(1) in \<open>auto simp: bit_simps bit_5 bit_6\<close>)
  show "w AND 0x3F = c"
    unfolding w_def masks by (rule bit_word_eqI) (use assms(1) in \<open>auto simp: bit_simps bit_5 bit_6\<close>)
qed

lemma encodes_j:
  assumes "srange 17 (rel - 4)"
  shows "encodes (push_bit 6 ((rel - 4) AND 0x3FFFF) OR 6) (I_J rel)"
  using fields_offset18 [of 6 "rel - 4"] assms
  by (simp add: encodes_def xt_defs Let_def exec_word_class exec_j_def srange_ext algebra_simps)

lemma aligned_minus_4:
  assumes "(v :: u32) AND 3 = 0"
  shows "(v - 4) AND 3 = 0"
proof -
  have "unat v mod 4 = 0" using assms unat_and_3 [of v] by simp
  then obtain q where q: "unat v = 4 * q" by auto
  have "unat (v - 4) = (if 4 \<le> unat v then unat v - 4 else 4 * 1073741824 + unat v - 4)"
    by (simp only: unat_sub_if_size word_size) simp
  also have "\<dots> mod 4 = 0" using q by (cases q) auto
  finally have "unat ((v - 4) AND 3) = 0" by (simp only: unat_and_3)
  then show ?thesis by (simp only: unat_eq_0)
qed

lemma encodes_call0:
  assumes "rel AND 3 = 0" "srange 17 (signed_drop_bit 2 (rel - 4))"
  shows "encodes (push_bit 6 (signed_drop_bit 2 (rel - 4) AND 0x3FFFF) OR 5) (I_CALL0 rel)"
proof -
  have "push_bit 2 (signed_drop_bit 2 v) = v" if "v AND 3 = 0" for v :: u32
  proof (rule bit_word_eqI)
    fix i assume i: "i < LENGTH(32)"
    have "take_bit 2 v = 0" using that unfolding masks .
    then have "i < 2 \<Longrightarrow> \<not> bit v i" by (metis bit_take_bit_iff bit_0_eq bot_apply bot_bool_def)
    with i show "bit (push_bit 2 (signed_drop_bit 2 v)) i = bit v i"
      by (cases "i < 2") (auto simp: bit_simps not_less dest!: le_Suc_ex)
  qed
  from this [OF aligned_minus_4 [OF assms(1)]] have "push_bit 2 (signed_drop_bit 2 (rel - 4)) = rel - 4" .
  then show ?thesis
    using fields_offset18 [of 5 "signed_drop_bit 2 (rel - 4)"] assms
    by (simp add: encodes_def xt_defs Let_def exec_word_class exec_call0_def srange_ext areg_def wreg_def
        algebra_simps)
qed

lemma encodes_l32r:
  assumes "t < 16"
  shows "encodes (push_bit 8 (ucast (ucast off :: u16)) OR nib t 4 OR 1) (I_L32R t off)"
proof -
  define w where "w = push_bit 8 (ucast (ucast off :: u16)) OR nib t 4 OR (1 :: u32)"
  have "fld_op0 w = unat (1 :: u8)"
    using field_eq [of w 0 1] by (auto simp: fld_op0_def w_def bit_simps bit_nib)
  moreover have "fld_t w = unat t"
    unfolding fld_t_def by (rule field_eq) (use assms in \<open>auto simp: w_def bit_simps bit_nib\<close>)
  moreover have "fld_imm16 w = off AND 0xFFFF"
    unfolding fld_imm16_def w_def masks by (rule bit_word_eqI) (auto simp: bit_simps bit_nib)
  moreover have "w < 2 ^ 24" unfolding w_def by (rule less24) (auto simp: bit_simps bit_nib)
  moreover have "push_bit 2 v = 4 * v" for v :: u32 by (simp add: push_bit_eq_mult)
  ultimately show ?thesis
    unfolding w_def [symmetric] encodes_def
    by (simp add: xt_defs Let_def w_def [symmetric] exec_word_class exec_l32r_def wreg_def srange_ext cong: option.case_cong)
qed

lemma jump_word: "nib s 8 OR push_bit 4 0xA OR 0 = enc_rrr 0 0 0 s 0xA" "nib s 8 OR push_bit 4 0xC OR 0 = enc_rrr 0 0 0 s 0xC"
  "0x80 = enc_rrr 0 0 0 0 0x8"
  by (simp_all add: enc_rrr_def nib_def)

lemma encodes_jump:
  "s < 16 \<Longrightarrow> encodes (nib s 8 OR push_bit 4 0xA OR 0) (I_JX s)"
  "s < 16 \<Longrightarrow> encodes (nib s 8 OR push_bit 4 0xC OR 0) (I_CALLX0 s)"
  "encodes 0x80 I_RET"
proof -
  have run: "exec_word E pc (enc_rrr 0 0 0 s t) x =
      (case exec_jump E (unat s) (unat t) x of Some y \<Rightarrow> y | None \<Rightarrow> x\<lparr>sim_status := XT_SIM_BAD_OPCODE\<rparr>)"
    if "s < 16" "t < 16" for E pc s t x
    using that by (simp add: exec_word_class fields_rrr exec_rrr_def Let_def split: option.split)
  show "s < 16 \<Longrightarrow> encodes (nib s 8 OR push_bit 4 0xA OR 0) (I_JX s)"
    "s < 16 \<Longrightarrow> encodes (nib s 8 OR push_bit 4 0xC OR 0) (I_CALLX0 s)"
    "encodes 0x80 I_RET"
    unfolding encodes_def xt_defs jump_word emit_insn.simps insn_sem.simps
    by (simp_all add: run exec_jump_def areg_def wreg_def return_or_def word24_rrr [simplified] Let_def unat_eq_0
        cong: option.case_cong)
qed

lemma unat_nat_u8: "n < 256 \<Longrightarrow> (unat (x :: u8) = n) = (x = of_nat n)"
  by (auto simp: word_unat_eq_iff unat_of_nat_u8)

lemma unat_sub_32: "sa \<le> 31 \<Longrightarrow> unat (32 - (sa :: u8)) = 32 - unat sa"
  by (simp add: unat_sub word_le_nat_alt)

lemma hi_bit: "unat (x :: u8) < 32 \<Longrightarrow> unat (drop_bit 4 x AND 1) = unat x div 16"
  by (simp add: masks unsigned_take_bit_eq take_bit_eq_mod drop_bit_eq_div unat_div unat_mod)

lemma lo_hi: "unat (x :: u8) div 16 * 16 + unat (x AND 15) = unat x"
  by (simp add: unat_low4)

lemma low4_reg: "(x :: u8) AND 15 < 16"
  by (simp add: word_less_nat_alt unat_low4)

lemma encodes_slli:
  assumes "r < 16" "s < 16" "1 \<le> sa" "sa \<le> 31"
  shows "encodes (enc_rrr (drop_bit 4 (32 - sa) AND 1) 0x1 r s ((32 - sa) AND 0xF)) (I_SLLI r s sa)"
proof -
  let ?x = "32 - sa"
  have x: "unat ?x = 32 - unat sa" "unat ?x < 32" "1 \<le> unat sa" "unat sa \<le> 31"
    using assms(3,4) by (simp_all add: unat_sub_32 word_le_nat_alt)
  have hi: "unat (drop_bit 4 ?x AND 1) = unat ?x div 16" using x(2) by (rule hi_bit)
  then have hi_lt: "drop_bit 4 ?x AND 1 < 16" using x(2) by (simp add: word_less_nat_alt)
  have "exec_shift (unat (drop_bit 4 ?x AND 1)) (unat r) (unat s) (unat (?x AND 15)) z
      = Some (set_reg (unat r) (push_bit (unat sa) (sim_a z (unat s))) z)" for z
  proof -
    have "unat ?x div 16 = 0 \<or> unat ?x div 16 = 1" using x(2) by linarith
    then show ?thesis using x lo_hi [of ?x] by (auto simp: exec_shift_def hi Let_def)
  qed
  then show ?thesis
    using assms hi_lt low4_reg [of ?x]
    by (simp add: encodes_def xt_defs Let_def exec_word_class fields_rrr exec_rrr_def areg_def wreg_def
        word24_rrr [simplified])
qed

lemma encodes_srli:
  assumes "r < 16" "t < 16" "sa \<le> 15"
  shows "encodes (enc_rrr 0x4 0x1 r sa t) (I_SRLI r t sa)"
proof -
  have "sa < 16" using assms(3) by (simp add: word_le_nat_alt word_less_nat_alt)
  then show ?thesis
    using assms by (simp add: encodes_def xt_defs exec_word_class fields_rrr exec_rrr_def exec_shift_def
        areg_def wreg_def word24_rrr [simplified])
qed

lemma encodes_srai:
  assumes "r < 16" "t < 16" "sa \<le> 31"
  shows "encodes (enc_rrr (0x2 OR (drop_bit 4 sa AND 1)) 0x1 r (sa AND 0xF) t) (I_SRAI r t sa)"
proof -
  have sa: "unat sa < 32" using assms(3) by (simp add: word_le_nat_alt)
  have hi: "unat (drop_bit 4 sa AND 1) = unat sa div 16" using sa by (rule hi_bit)
  have "drop_bit 4 sa AND 1 = 0 \<or> drop_bit 4 sa AND 1 = 1"
    using hi sa unat_nat_u8 [of 0 "drop_bit 4 sa AND 1"] unat_nat_u8 [of 1 "drop_bit 4 sa AND 1"]
    by simp linarith
  moreover have "unat (2 OR y) = 2 + unat y" if "y = 0 \<or> y = 1" for y :: u8
    using that by auto
  ultimately have op: "unat (2 OR (drop_bit 4 sa AND 1)) = 2 + unat sa div 16"
    using hi by metis
  from op have op_lt: "2 OR (drop_bit 4 sa AND 1) < 16" using sa by (simp add: word_less_nat_alt)
  have "exec_shift (unat (2 OR (drop_bit 4 sa AND 1))) (unat r) (unat (sa AND 15)) (unat t) z
      = Some (set_reg (unat r) (signed_drop_bit (unat sa) (sim_a z (unat t))) z)" for z
  proof -
    have "unat sa div 16 = 0 \<or> unat sa div 16 = 1" using sa by linarith
    then show ?thesis using sa lo_hi [of sa] by (auto simp: exec_shift_def op Let_def)
  qed
  then show ?thesis
    using assms op_lt low4_reg [of sa]
    by (simp add: encodes_def xt_defs Let_def exec_word_class fields_rrr exec_rrr_def areg_def wreg_def
        word24_rrr [simplified])
qed

lemma encodes_extui:
  assumes "r < 16" "t < 16" "sh \<le> 31" "m \<le> 15"
  shows "encodes (enc_rrr (m AND 0xF) (0x4 OR (drop_bit 4 sh AND 1)) r (sh AND 0xF) t) (I_EXTUI r t sh m)"
proof -
  have sh: "unat sh < 32" and m: "m < 16" using assms(3,4) by (simp_all add: word_le_nat_alt word_less_nat_alt)
  have hi: "unat (drop_bit 4 sh AND 1) = unat sh div 16" using sh by (rule hi_bit)
  have "drop_bit 4 sh AND 1 = 0 \<or> drop_bit 4 sh AND 1 = 1"
    using hi sh unat_nat_u8 [of 0 "drop_bit 4 sh AND 1"] unat_nat_u8 [of 1 "drop_bit 4 sh AND 1"]
    by simp linarith
  moreover have "unat (4 OR y) = 4 + unat y" if "y = 0 \<or> y = 1" for y :: u8
    using that by auto
  ultimately have op: "unat (4 OR (drop_bit 4 sh AND 1)) = 4 + unat sh div 16"
    using hi by metis
  from op have op_lt: "4 OR (drop_bit 4 sh AND 1) < 16" using sh by (simp add: word_less_nat_alt)
  have "unat sh div 16 = 0 \<or> unat sh div 16 = 1" using sh by linarith
  moreover have "push_bit (unat m + 1) 1 - 1 = (mask (unat m + 1) :: u32)" by (simp add: mask_eq_exp_minus_1)
  moreover have "unat m < 16" using m by (simp add: word_less_nat_alt)
  ultimately show ?thesis
    using assms op_lt low4_reg [of sh] small_reg [OF m] m lo_hi [of sh] op
    by (auto simp: encodes_def xt_defs Let_def exec_word_class fields_rrr exec_rrr_def areg_def wreg_def
        word24_rrr [simplified] take_bit_eq_mask)
qed

lemma encoders_correct:
  assumes "insn_ok i"
  shows "\<exists>w. encodes w i"
  using assms
  by (cases i)
    (auto intro: encodes_arith encodes_imm encodes_mem encodes_l32r encodes_branch encodes_j encodes_call0
      encodes_jump encodes_slli encodes_srli encodes_srai encodes_extui)

end
