(* ===== verification/Xt_Program.thy ===== *)
theory Xt_Program
  imports Xt_Insn
begin

text \<open>
  Whole programs: a list of instructions emitted into a fresh buffer and run by the simulator.
\<close>

definition emit_prog :: "insn list \<Rightarrow> xt_emit \<Rightarrow> xt_emit" where
  "emit_prog prog e = foldl (\<lambda>e i. snd (emit_insn i e)) e prog"

definition word_bytes :: "u32 \<Rightarrow> u8 list" where
  "word_bytes w = [byte_of w 0, byte_of w 1, byte_of w 2]"

lemma bytes3_word_bytes: "w < 2 ^ 24 \<Longrightarrow> bytes3 (byte_of w 0) (byte_of w 1) (byte_of w 2) = w"
proof -
  assume "w < 2 ^ 24"
  then have "take_bit 24 w = w" by (intro low_bits_of_bound) (simp add: word_less_nat_alt)
  then have b: "bit w i \<Longrightarrow> i < 24" for i by (metis bit_take_bit_iff)
  show ?thesis
  proof (rule bit_word_eqI)
    fix i assume "i < LENGTH(32)"
    then consider "i < 8" | "8 \<le> i" "i < 16" | "16 \<le> i" "i < 24" | "24 \<le> i" "i < 32" by fastforce
    then show "bit (bytes3 (byte_of w 0) (byte_of w 1) (byte_of w 2)) i = bit w i"
      by cases (auto simp: bytes3_def byte_of_def bit_simps dest: b)
  qed
qed

lemma emit_insn_word: "insn_ok i \<Longrightarrow> \<exists>w. encodes w i \<and> emit_insn i = emit24 w"
  using encoders_correct [of i] unfolding encodes_def by blast

lemma emit24_state:
  assumes "emit_ok e"
  shows "emit_ok (snd (emit24 w e))" "xt_cap (snd (emit24 w e)) = xt_cap e"
    "xt_overflow (snd (emit24 w e)) \<longleftrightarrow> xt_overflow e \<or> emit_room e < 3"
    "emit_room (snd (emit24 w e)) = (if emit_room e < 3 then emit_room e else emit_room e - 3)"
    "emitted (snd (emit24 w e)) = (if emit_room e < 3 then emitted e else emitted e @ word_bytes w)"
proof -
  show "emit_ok (snd (emit24 w e))" "xt_cap (snd (emit24 w e)) = xt_cap e"
    "xt_overflow (snd (emit24 w e)) \<longleftrightarrow> xt_overflow e \<or> emit_room e < 3"
    "emit_room (snd (emit24 w e)) = (if emit_room e < 3 then emit_room e else emit_room e - 3)"
    "emitted (snd (emit24 w e)) = (if emit_room e < 3 then emitted e else emitted e @ word_bytes w)"
    using assms emit24_full [OF assms] emit24_bytes [OF assms]
    by (cases "emit_room e < 3"; simp add: emit_ok_def emit_room_def emitted_def Let_def word_bytes_def)+
qed

lemma emit_prog_state:
  assumes "emit_ok e" "\<forall>i\<in>set prog. insn_ok i"
  shows "emit_ok (emit_prog prog e) \<and> xt_cap (emit_prog prog e) = xt_cap e
    \<and> (xt_overflow (emit_prog prog e) \<longleftrightarrow> xt_overflow e \<or> emit_room e < 3 * length prog)
    \<and> (\<exists>ws. list_all2 encodes ws prog \<and>
         (3 * length prog \<le> emit_room e \<longrightarrow> emitted (emit_prog prog e) = emitted e @ concat (map word_bytes ws)))
    \<and> untouched (unat (xt_cap e)) (xt_buf e) (xt_buf (emit_prog prog e))"
  using assms
proof (induction prog arbitrary: e)
  case Nil
  then show ?case by (auto simp: emit_prog_def)
next
  case (Cons i prog)
  from Cons.prems(2) obtain w where w: "encodes w i" "emit_insn i = emit24 w" using emit_insn_word by auto
  define e1 where "e1 = snd (emit24 w e)"
  note s = emit24_state [OF Cons.prems(1), of w, folded e1_def]
  have run: "emit_prog (i # prog) e = emit_prog prog e1" by (simp add: emit_prog_def w(2) e1_def)
  from Cons.IH [OF s(1)] Cons.prems(2) obtain ws where
    IH: "emit_ok (emit_prog prog e1)" "xt_cap (emit_prog prog e1) = xt_cap e1"
      "xt_overflow (emit_prog prog e1) \<longleftrightarrow> xt_overflow e1 \<or> emit_room e1 < 3 * length prog"
      "list_all2 encodes ws prog"
      "3 * length prog \<le> emit_room e1 \<longrightarrow> emitted (emit_prog prog e1) = emitted e1 @ concat (map word_bytes ws)"
      "untouched (unat (xt_cap e1)) (xt_buf e1) (xt_buf (emit_prog prog e1))"
    by auto
  have "untouched (unat (xt_cap e)) (xt_buf e) (xt_buf e1)"
    unfolding e1_def by (rule emit24_bounds) (rule Cons.prems(1))
  then have "untouched (unat (xt_cap e)) (xt_buf e) (xt_buf (emit_prog prog e1))"
    using IH(6) s(2) by (auto intro: untouched_trans)
  moreover have "list_all2 encodes (w # ws) (i # prog)" using w(1) IH(4) by simp
  moreover have "3 * length (i # prog) \<le> emit_room e \<longrightarrow>
      emitted (emit_prog prog e1) = emitted e @ concat (map word_bytes (w # ws))"
    using IH(5) s(4,5) by auto
  ultimately show ?case
    using IH(1-3) s(2-4) unfolding run by (auto simp: s(2))
qed

lemma emit_ok_init: "unat cap + 4 \<le> 2 ^ 32 \<Longrightarrow> emit_ok (xt_init buf cap)"
  by (simp add: emit_ok_def xt_init_def)

lemma init_simps [simp]:
  "emitted (xt_init buf cap) = []" "emit_room (xt_init buf cap) = unat cap" "xt_overflow (xt_init buf cap) = False"
  "xt_cap (xt_init buf cap) = cap" "xt_buf (xt_init buf cap) = buf"
  by (simp_all add: emitted_def emit_room_def xt_init_def)

lemma nth_concat_words:
  assumes "k < length ws"
  shows "concat (map word_bytes ws) ! (3 * k) = byte_of (ws ! k) 0"
    "concat (map word_bytes ws) ! (3 * k + 1) = byte_of (ws ! k) 1"
    "concat (map word_bytes ws) ! (3 * k + 2) = byte_of (ws ! k) 2"
    "length (concat (map word_bytes ws)) = 3 * length ws"
proof -
  have "concat (map word_bytes ws) ! (3 * k + j) = word_bytes (ws ! k) ! j" if "j < 3" for j
    using assms that
  proof (induction ws arbitrary: k)
    case (Cons w ws)
    show ?case
    proof (cases k)
      case 0
      then have "(word_bytes w @ concat (map word_bytes ws)) ! j = word_bytes w ! j"
        using Cons.prems(2) by (subst nth_append) (simp add: word_bytes_def)
      with 0 show ?thesis by simp
    next
      case (Suc k')
      then have "(word_bytes w @ concat (map word_bytes ws)) ! (3 * k + j) = concat (map word_bytes ws) ! (3 * k' + j)"
        by (simp add: nth_append word_bytes_def)
      with Suc Cons show ?thesis by simp
    qed
  qed simp
  from this [of 0] this [of 1] this [of 2]
  show "concat (map word_bytes ws) ! (3 * k) = byte_of (ws ! k) 0"
    "concat (map word_bytes ws) ! (3 * k + 1) = byte_of (ws ! k) 1"
    "concat (map word_bytes ws) ! (3 * k + 2) = byte_of (ws ! k) 2"
    by (simp_all add: word_bytes_def)
  show "length (concat (map word_bytes ws)) = 3 * length ws"
    by (induction ws) (simp_all add: word_bytes_def)
qed

section \<open>The properties of encoder and simulator\<close>

text \<open>C36: code that was emitted without overflow runs as written: after emitting any list of
  instructions within the ranges the encoder asserts and flushing, the simulator at the address of
  the k-th one does what that instruction is specified to do.\<close>

theorem emitted_program_runs:
  assumes "\<forall>i\<in>set prog. insn_ok i" "unat cap + 4 \<le> 2 ^ 32"
    "e = emit_prog prog (xt_init buf cap)" "\<not> xt_overflow e" "k < length prog"
    "sim_status x = XT_SIM_RUN" "sim_pc x = of_nat (3 * k)"
    "sim_code x = xt_buf (xt_flush_pending e)" "sim_code_size x = xt_len e"
  shows "sim_step E x = insn_sem E (of_nat (3 * k)) (prog ! k) (x\<lparr>sim_pc := of_nat (3 * k + 3)\<rparr>)"
proof -
  note ok = emit_ok_init [OF assms(2), of buf]
  from emit_prog_state [OF ok assms(1)] assms(3,4) obtain ws where
    ws: "emit_ok e" "xt_cap e = cap" "list_all2 encodes ws prog" "3 * length prog \<le> unat cap"
      "emitted e = concat (map word_bytes ws)"
    by auto
  have len: "length ws = length prog" using ws(3) by (rule list_all2_lengthD)
  with assms(5) have kw: "k < length ws" by simp
  note nth = nth_concat_words [OF this]
  have n: "unat (xt_len e) = 3 * length prog" using nth(4) emitted_length [of e] ws(5) len by simp
  have small: "3 * k + 3 \<le> 3 * length prog" using assms(5) by simp
  have un: "unat (of_nat m :: u32) = m" if "m \<le> 3 * length prog" for m
    using that ws(4) assms(2) by (simp add: unat_of_nat_u32)
  have pc: "of_nat (3 * k) + 3 = (of_nat (3 * k + 3) :: u32)" "of_nat (3 * k) + 1 = (of_nat (3 * k + 1) :: u32)"
    "of_nat (3 * k) + 2 = (of_nat (3 * k + 2) :: u32)" by simp_all
  have b: "xt_buf (xt_flush_pending e) m = concat (map word_bytes ws) ! m" if "m < 3 * length prog" for m
    using flush_bytes [of m e] that n ws(5) by simp
  have w: "encodes (ws ! k) (prog ! k)" using ws(3) kw by (rule list_all2_nthD)
  then have "bytes3 (byte_of (ws ! k) 0) (byte_of (ws ! k) 1) (byte_of (ws ! k) 2) = ws ! k"
    by (intro bytes3_word_bytes) (simp add: encodes_def)
  moreover have "\<not> xt_len e < of_nat (3 * k + 3)"
    using n un [OF small] small by (simp add: word_less_nat_alt del: of_nat_add of_nat_mult)
  ultimately have "fetch24 x = (ws ! k, x\<lparr>sim_pc := of_nat (3 * k + 3)\<rparr>)"
    using assms(7-9) small un [of "3 * k"] un [of "3 * k + 1"] un [of "3 * k + 2"] b [of "3 * k"] b [of "3 * k + 1"]
      b [of "3 * k + 2"] nth(1-3)
    by (simp only: fetch24_def Let_def pc if_False)
  then show ?thesis
    using w assms(6,7) by (simp add: sim_step_def encodes_def del: of_nat_add of_nat_mult)
qed

theorem emitted_program_runs_witness:
  "let e = emit_prog [I_MOVI 2 5, I_ADD 3 2 2] (xt_init (\<lambda>_. 0) 64);
       x = (\<lambda>c. (xt_sim_init (xt_buf (xt_flush_pending e)) (xt_len e) (\<lambda>_. 0) c)\<lparr>sim_pc := of_nat (3 * 1)\<rparr>)
   in \<forall>E c. sim_step E (x c) = insn_sem E (of_nat (3 * 1)) (I_ADD 3 2 2) ((x c)\<lparr>sim_pc := of_nat (3 * 1 + 3)\<rparr>)"
proof -
  let ?P = "[I_MOVI 2 5, I_ADD 3 2 2]"
  have ok: "\<forall>i\<in>set ?P. insn_ok i" by (simp add: srange_def)
  have "\<not> xt_overflow (emit_prog ?P (xt_init (\<lambda>_. 0) 64))"
    using emit_prog_state [OF emit_ok_init ok, of 64 "\<lambda>_. 0"] by simp
  from emitted_program_runs [OF ok _ refl this, of 1] show ?thesis
    by (simp add: Let_def xt_sim_init_def)
qed

text \<open>C37: the overflow flag is exact: it is raised precisely when the instructions do not fit the
  capacity, no byte beyond the capacity is ever written, and neither is one by the final flush when
  the capacity is a multiple of 4.\<close>

theorem emit_overflow_exact:
  assumes "\<forall>i\<in>set prog. insn_ok i" "unat cap + 4 \<le> 2 ^ 32" "e = emit_prog prog (xt_init buf cap)"
  shows "(xt_overflow e \<longleftrightarrow> unat cap < 3 * length prog) \<and> unat (xt_len e) \<le> unat cap
    \<and> untouched (unat cap) buf (xt_buf e)
    \<and> (4 dvd unat cap \<longrightarrow> untouched (unat cap) buf (xt_buf (xt_flush_pending e)))"
proof -
  note s = emit_prog_state [OF emit_ok_init [OF assms(2), of buf] assms(1), folded assms(3)]
  have "untouched (unat cap) buf (xt_buf (xt_flush_pending e))" if "4 dvd unat cap"
    using s flush_bounds [of e] that by (auto intro: untouched_trans)
  with s show ?thesis by (auto simp: emit_ok_def)
qed

theorem emit_overflow_exact_witness:
  "xt_overflow (emit_prog [I_RET, I_RET, I_RET] (xt_init (\<lambda>_. 0) 8))"
  using emit_overflow_exact [of "[I_RET, I_RET, I_RET]" 8 _ "\<lambda>_. 0", OF _ _ refl] by simp

text \<open>\<open>xt_raw32\<close> ignores the word that is being packed: after one 3-byte instruction, the raw
  word's first byte follows it, but the instruction's bytes are flushed over the raw word and the
  buffer keeps its old content where the instruction should be.\<close>

theorem raw32_loses_pending:
  "let e = snd (emit24 w (xt_init buf 64)); e' = xt_flush_pending (snd (xt_raw32 v e))
   in xt_buf e' 0 = buf 0 \<and> xt_buf e' 4 = byte_of w 0 \<and> xt_buf e' 3 = byte_of v 0"
proof -
  have b: "byte_of (ucast (b :: u8)) 0 = b" "byte_of (push_bit 8 (ucast b)) 0 = 0" "byte_of (push_bit 16 (ucast b)) 0 = 0"
    for b
    using byte_of_shifted [of 0 0 b] byte_of_shifted [of 1 0 b] byte_of_shifted [of 2 0 b] by simp_all
  show ?thesis
    by (simp add: emit24_def emit_byte_packed_def xt_init_def xt_raw32_def xt_flush_pending_def store32_def
        Let_def b)
qed

text \<open>the simulator's end-of-code check wraps: with the program counter at the top of the 32-bit
  range it passes for every code of 2 bytes or more and reads far outside the code.\<close>

theorem fetch_past_end:
  "fetch24 (x\<lparr>sim_pc := 0xFFFFFFFF, sim_code_size := 2\<rparr>)
   = (bytes3 (sim_code x 0xFFFFFFFF) (sim_code x 0) (sim_code x 1), x\<lparr>sim_pc := 2, sim_code_size := 2\<rparr>)"
  by (simp add: fetch24_def Let_def)

end
