(* ===== verification/Codecache.thy ===== *)
theory Codecache
  imports Prelude "HOL-Library.Monad_Syntax"
begin

text \<open>
  The code cache of src/jit/codecache.c: one arena out of which the translated blocks are
  allocated. Three allocators are chosen at compile time by GBJIT_JIT_EVICT; the file has one group of
  definitions for each: the free list with coldness eviction (\<open>cold_\<close>, value 1), the ring
  (\<open>ring_\<close>, value 2) and the bump allocator (\<open>bump_\<close>, value 0).

  A pointer into the arena is its offset from \<open>cc->base\<close>; \<open>NULL\<close> is \<open>None\<close>. The arena is seen through
  \<open>cc_words\<close>, the 32-bit word at each offset that is a multiple of 4; the header of a free span at
  \<open>o\<close> is the words at \<open>o\<close> (its size) and \<open>o + 4\<close> (the offset of the next span).

  The record is extensible: the dispatcher that owns the cache extends it, so that the eviction
  callbacks, which get the dispatcher as \<open>evict_ctx\<close>, are functions on the same state. They are
  arguments of the allocators, \<open>None\<close> for \<open>NULL\<close>.

  The walks of the free list and the allocation loop need not end on a state whose list is
  damaged, so they are partial functions into \<open>option\<close>, with \<open>None\<close> for not returning.
\<close>

section \<open>The cache\<close>

definition CC_NIL :: u32 where "CC_NIL = 0xFFFFFFFF"
definition CC_ALIGN :: u32 where "CC_ALIGN = 8"
definition HDR_SIZE :: u32 where "HDR_SIZE = 8" \<comment> \<open>\<open>sizeof(cc_free_hdr)\<close>\<close>

definition cc_align :: "u32 \<Rightarrow> u32" where
  "cc_align v = (v + (CC_ALIGN - 1)) AND NOT (CC_ALIGN - 1)"

record codecache =
  cc_used :: u32
  cc_cap :: u32
  cc_free_head :: u32
  cc_words :: "u32 \<Rightarrow> u32"

definition hdr_size :: "(u32 \<Rightarrow> u32) \<Rightarrow> u32 \<Rightarrow> u32" where "hdr_size w p = w p"
definition hdr_next :: "(u32 \<Rightarrow> u32) \<Rightarrow> u32 \<Rightarrow> u32" where "hdr_next w p = w (p + 4)"

definition set_size :: "u32 \<Rightarrow> u32 \<Rightarrow> 'a codecache_scheme \<Rightarrow> 'a codecache_scheme" where
  "set_size p v cc = cc\<lparr>cc_words := (cc_words cc)(p := v)\<rparr>"

definition set_next :: "u32 \<Rightarrow> u32 \<Rightarrow> 'a codecache_scheme \<Rightarrow> 'a codecache_scheme" where
  "set_next p v cc = cc\<lparr>cc_words := (cc_words cc)(p + 4 := v)\<rparr>"

text \<open>The store through \<open>free_head\<close> or \<open>prev->next\<close> that ends every list update.\<close>

definition set_link :: "u32 \<Rightarrow> u32 \<Rightarrow> 'a codecache_scheme \<Rightarrow> 'a codecache_scheme" where
  "set_link prev v cc = (if prev = CC_NIL then cc\<lparr>cc_free_head := v\<rparr> else set_next prev v cc)"

text \<open>The whole arena as one free span, in \<open>codecache_init\<close> and in the coldness \<open>codecache_reset\<close>.\<close>

definition one_span :: "'a codecache_scheme \<Rightarrow> 'a codecache_scheme" where
  "one_span cc = (if HDR_SIZE \<le> cc_cap cc
     then (set_next 0 CC_NIL (set_size 0 (cc_cap cc) cc))\<lparr>cc_free_head := 0\<rparr> else cc)"

text \<open>\<open>evict\<close> is GBJIT_JIT_EVICT.\<close>

definition codecache_init :: "nat \<Rightarrow> u32 \<Rightarrow> 'a codecache_scheme \<Rightarrow> 'a codecache_scheme" where
  "codecache_init evict cap cc =
    (let cc = cc\<lparr>cc_used := 0, cc_cap := cap AND NOT (CC_ALIGN - 1), cc_free_head := CC_NIL\<rparr>
     in if evict = 1 then one_span cc else cc)"

section \<open>Coldness: the free-list allocator\<close>

text \<open>The size both \<open>codecache_alloc\<close> and \<open>codecache_free\<close> work with.\<close>

definition span_size :: "u32 \<Rightarrow> u32" where
  "span_size n = (let n = cc_align n in if n < HDR_SIZE then HDR_SIZE else n)"

text \<open>The inner loop: the first span that is large enough, with its predecessor, or \<open>CC_NIL\<close>.\<close>

partial_function (option) first_fit :: "(u32 \<Rightarrow> u32) \<Rightarrow> u32 \<Rightarrow> u32 \<Rightarrow> u32 \<Rightarrow> (u32 \<times> u32) option" where
  "first_fit w n prev cur =
    (if cur = CC_NIL then Some (prev, cur)
     else if n \<le> hdr_size w cur then Some (prev, cur)
     else first_fit w n cur (hdr_next w cur))"

text \<open>Taking the span found: its front is carved off, or the whole span is unlinked.\<close>

definition take_span :: "u32 \<Rightarrow> u32 \<Rightarrow> u32 \<Rightarrow> 'a codecache_scheme \<Rightarrow> 'a codecache_scheme" where
  "take_span n prev cur cc =
    (let leftover = hdr_size (cc_words cc) cur - n; next = hdr_next (cc_words cc) cur
     in if HDR_SIZE \<le> leftover
        then set_link prev (cur + n) (set_next (cur + n) next (set_size (cur + n) leftover cc))
        else set_link prev next cc)"

partial_function (option) cold_alloc_loop ::
  "('a codecache_scheme \<Rightarrow> (u32 \<times> 'a codecache_scheme) option) option \<Rightarrow> u32 \<Rightarrow> 'a codecache_scheme
    \<Rightarrow> (u32 option \<times> 'a codecache_scheme) option" where
  "cold_alloc_loop evict n cc =
    do {
      (prev, cur) \<leftarrow> first_fit (cc_words cc) n CC_NIL (cc_free_head cc);
      if cur \<noteq> CC_NIL then Some (Some cur, take_span n prev cur cc)
      else case evict of
          None \<Rightarrow> Some (None, cc)
        | Some f \<Rightarrow>
            do {
              (freed, cc) \<leftarrow> f cc;
              if freed = 0 then Some (None, cc) else cold_alloc_loop evict n cc
            }
    }"

definition cold_alloc ::
  "('a codecache_scheme \<Rightarrow> (u32 \<times> 'a codecache_scheme) option) option \<Rightarrow> u32 \<Rightarrow> 'a codecache_scheme
    \<Rightarrow> (u32 option \<times> 'a codecache_scheme) option" where
  "cold_alloc evict sz cc =
    (let n = span_size sz in if cc_cap cc < n then Some (None, cc) else cold_alloc_loop evict n cc)"

partial_function (option) free_walk :: "(u32 \<Rightarrow> u32) \<Rightarrow> u32 \<Rightarrow> u32 \<Rightarrow> u32 \<Rightarrow> (u32 \<times> u32) option" where
  "free_walk w p prev cur =
    (if cur \<noteq> CC_NIL \<and> cur < p then free_walk w p cur (hdr_next w cur) else Some (prev, cur))"

text \<open>Merging the span at \<open>p\<close> with the one after it, and the one before it with the span at \<open>p\<close>.\<close>

definition merge_next :: "u32 \<Rightarrow> u32 \<Rightarrow> 'a codecache_scheme \<Rightarrow> 'a codecache_scheme" where
  "merge_next p cur cc =
    (let w = cc_words cc
     in if cur \<noteq> CC_NIL \<and> p + hdr_size w p = cur
        then set_next p (hdr_next w cur) (set_size p (hdr_size w p + hdr_size w cur) cc)
        else cc)"

definition merge_prev :: "u32 \<Rightarrow> u32 \<Rightarrow> 'a codecache_scheme \<Rightarrow> 'a codecache_scheme" where
  "merge_prev prev p cc =
    (let w = cc_words cc
     in if prev \<noteq> CC_NIL \<and> prev + hdr_size w prev = p
        then set_next prev (hdr_next w p) (set_size prev (hdr_size w prev + hdr_size w p) cc)
        else cc)"

definition cold_free :: "u32 \<Rightarrow> u32 \<Rightarrow> 'a codecache_scheme \<Rightarrow> 'a codecache_scheme option" where
  "cold_free p sz cc =
    (let n = span_size sz
     in do {
       (prev, cur) \<leftarrow> free_walk (cc_words cc) p CC_NIL (cc_free_head cc);
       Some (merge_prev prev p (merge_next p cur (set_link prev p (set_next p cur (set_size p n cc)))))
     })"

definition cold_reset :: "'a codecache_scheme \<Rightarrow> 'a codecache_scheme" where
  "cold_reset cc = one_span (cc\<lparr>cc_used := 0, cc_free_head := CC_NIL\<rparr>)"

definition cold_trim :: "u32 \<Rightarrow> u32 \<Rightarrow> u32 \<Rightarrow> 'a codecache_scheme \<Rightarrow> 'a codecache_scheme option" where
  "cold_trim block actual reserved cc =
    (let actual = cc_align actual; reserved = cc_align reserved
     in if actual < reserved then cold_free (block + actual) (reserved - actual) cc else Some cc)"

section \<open>The ring\<close>

definition ring_alloc ::
  "(u32 \<Rightarrow> u32 \<Rightarrow> 'a codecache_scheme \<Rightarrow> 'a codecache_scheme option) option \<Rightarrow> u32 \<Rightarrow> 'a codecache_scheme
    \<Rightarrow> (u32 option \<times> 'a codecache_scheme) option" where
  "ring_alloc evict_range sz cc =
    (let n = cc_align sz
     in if cc_cap cc < n then Some (None, cc)
        else let cc = (if cc_cap cc < cc_used cc + n then cc\<lparr>cc_used := 0\<rparr> else cc);
                 start = cc_used cc
             in do {
                  cc \<leftarrow> (case evict_range of None \<Rightarrow> Some cc | Some f \<Rightarrow> f start (start + n) cc);
                  Some (Some start, cc\<lparr>cc_used := cc_used cc + n\<rparr>)
                })"

definition ring_free :: "u32 \<Rightarrow> u32 \<Rightarrow> 'a codecache_scheme \<Rightarrow> 'a codecache_scheme" where
  "ring_free p sz cc = cc"

definition ring_reset :: "'a codecache_scheme \<Rightarrow> 'a codecache_scheme" where
  "ring_reset cc = cc\<lparr>cc_used := 0\<rparr>"

definition ring_trim :: "u32 \<Rightarrow> u32 \<Rightarrow> u32 \<Rightarrow> 'a codecache_scheme \<Rightarrow> 'a codecache_scheme" where
  "ring_trim block actual reserved cc = cc\<lparr>cc_used := block + cc_align actual\<rparr>"

section \<open>The bump allocator\<close>

definition bump_alloc :: "u32 \<Rightarrow> 'a codecache_scheme \<Rightarrow> u32 option \<times> 'a codecache_scheme" where
  "bump_alloc sz cc =
    (let cc = cc\<lparr>cc_used := cc_align (cc_used cc)\<rparr>
     in if cc_cap cc < cc_used cc + sz then (None, cc)
        else (Some (cc_used cc), cc\<lparr>cc_used := cc_used cc + sz\<rparr>))"

definition bump_free :: "u32 \<Rightarrow> u32 \<Rightarrow> 'a codecache_scheme \<Rightarrow> 'a codecache_scheme" where
  "bump_free p sz cc = cc"

definition bump_reset :: "'a codecache_scheme \<Rightarrow> 'a codecache_scheme" where
  "bump_reset cc = cc\<lparr>cc_used := 0\<rparr>"

definition bump_trim :: "u32 \<Rightarrow> u32 \<Rightarrow> u32 \<Rightarrow> 'a codecache_scheme \<Rightarrow> 'a codecache_scheme" where
  "bump_trim block actual reserved cc = cc\<lparr>cc_used := block + cc_align actual\<rparr>"

section \<open>Publishing code\<close>

text \<open>A memory barrier on the device and a cache-line flush on the host: no effect on the state.\<close>

definition codecache_finalize :: "u32 \<Rightarrow> u32 \<Rightarrow> 'a codecache_scheme \<Rightarrow> 'a codecache_scheme" where
  "codecache_finalize block sz cc = cc"

end
