(* ===== verification/Codecache_List.thy ===== *)
theory Codecache_List
  imports Codecache
begin

text \<open>
  The free list of the coldness allocator as a list of spans. \<open>seg\<close> relates the headers in the arena
  to the list, \<open>free_list\<close> is the invariant (spans on the 8-byte grid, inside the arena, in address
  order and never adjacent), \<open>free_bytes\<close> the bytes the list stands for. \<open>fit\<close> and \<open>put_back\<close> are the
  allocation and the release on lists; the operations on the arena implement them.
\<close>

type_synonym span = "u32 \<times> u32"

definition al8 :: "u32 \<Rightarrow> bool" where
  "al8 v \<longleftrightarrow> 8 dvd unat v"

definition span_end :: "span \<Rightarrow> nat" where
  "span_end s = unat (fst s) + unat (snd s)"

definition span_bytes :: "span \<Rightarrow> nat set" where
  "span_bytes s = {unat (fst s)..<span_end s}"

definition free_bytes :: "span list \<Rightarrow> nat set" where
  "free_bytes xs = (\<Union>s\<in>set xs. span_bytes s)"

definition span_ok :: "nat \<Rightarrow> span \<Rightarrow> bool" where
  "span_ok cap s \<longleftrightarrow> al8 (fst s) \<and> al8 (snd s) \<and> 0 < unat (snd s) \<and> span_end s \<le> cap"

definition in_order :: "span list \<Rightarrow> bool" where
  "in_order xs \<longleftrightarrow> sorted_wrt (\<lambda>s t. span_end s \<le> unat (fst t)) xs"

definition apart :: "span list \<Rightarrow> bool" where
  "apart xs \<longleftrightarrow> sorted_wrt (\<lambda>s t. span_end s < unat (fst t)) xs"

fun seg :: "(u32 \<Rightarrow> u32) \<Rightarrow> u32 \<Rightarrow> span list \<Rightarrow> u32 \<Rightarrow> bool" where
  "seg w p [] q \<longleftrightarrow> p = q"
| "seg w p (s # xs) q \<longleftrightarrow> p = fst s \<and> hdr_size w p = snd s \<and> seg w (hdr_next w p) xs q"

definition free_list :: "span list \<Rightarrow> 'a codecache_scheme \<Rightarrow> bool" where
  "free_list xs cc \<longleftrightarrow> seg (cc_words cc) (cc_free_head cc) xs CC_NIL
     \<and> (\<forall>s\<in>set xs. span_ok (unat (cc_cap cc)) s) \<and> apart xs"

section \<open>The 8-byte grid\<close>

lemma unat_8: "unat (8 :: u32) = 8" "unat (4 :: u32) = 4" "unat CC_NIL = 4294967295"
  by (simp_all add: CC_NIL_def)

lemma not_al8_nil [simp]: "\<not> al8 CC_NIL"
  by (simp add: al8_def unat_8)

lemma al8_nil: "al8 p \<Longrightarrow> p \<noteq> CC_NIL"
  by auto

lemma al8_add: "al8 p \<Longrightarrow> al8 n \<Longrightarrow> al8 (p + n)"
  unfolding al8_def unat_word_ariths by (simp add: dvd_mod)

lemma al8_sub: "al8 p \<Longrightarrow> al8 n \<Longrightarrow> n \<le> p \<Longrightarrow> al8 (p - n)"
  by (simp add: al8_def unat_sub word_le_nat_alt)

lemma al8_plus4: "al8 p \<Longrightarrow> \<not> al8 (p + 4)"
  unfolding al8_def unat_word_ariths unat_8 by (simp add: dvd_mod_iff) presburger

lemma clear_low3: "unat ((u :: u32) AND NOT (8 - 1)) = unat u div 8 * 8"
proof -
  have "u AND NOT (8 - 1) = u AND NOT (mask 3)" by (simp add: mask_eq_exp_minus_1)
  also have "\<dots> = push_bit 3 (drop_bit 3 u)"
    by (rule bit_word_eqI) (auto simp: bit_simps)
  also have "\<dots> = u - take_bit 3 u"
    using bits_ident [of 3 u] by (simp add: algebra_simps)
  finally have "u AND NOT (8 - 1) = u - take_bit 3 u" .
  moreover have "unat (take_bit 3 u) = unat u mod 8"
    by (simp add: take_bit_eq_mod unat_mod)
  moreover from this have "take_bit 3 u \<le> u" by (simp add: word_le_nat_alt)
  ultimately have "unat (u AND NOT (8 - 1)) = unat u - unat u mod 8" by (simp add: unat_sub)
  then show ?thesis by (simp add: minus_mod_eq_div_mult)
qed

lemma cc_align_unat: "unat v \<le> 4294967288 \<Longrightarrow> unat (cc_align v) = (unat v + 7) div 8 * 8"
proof -
  assume "unat v \<le> 4294967288"
  then have "unat (v + (8 - 1)) = unat v + 7" by (simp add: unat_word_ariths)
  then show ?thesis by (simp only: cc_align_def CC_ALIGN_def clear_low3)
qed

lemma al8_align: "al8 (cc_align v)"
  by (simp only: al8_def cc_align_def CC_ALIGN_def clear_low3) simp

lemma cc_align_ge: "unat v \<le> 4294967288 \<Longrightarrow> unat v \<le> unat (cc_align v) \<and> unat (cc_align v) < unat v + 8"
  by (simp add: cc_align_unat) linarith

lemma al8_span_size: "al8 (span_size n)"
  using al8_align [of n] by (simp add: span_size_def Let_def HDR_SIZE_def) (simp add: al8_def unat_8)

lemma span_size_unat:
  "unat n \<le> 4294967288 \<Longrightarrow> unat (span_size n) = (if unat n = 0 then 8 else (unat n + 7) div 8 * 8)"
  by (auto simp: span_size_def Let_def HDR_SIZE_def word_less_nat_alt cc_align_unat unat_8)

lemma span_size_aligned: "al8 n \<Longrightarrow> n \<noteq> 0 \<Longrightarrow> span_size n = n"
proof -
  assume n: "al8 n" "n \<noteq> 0"
  then have "unat n \<le> 4294967288" using unsigned_less [of n, where ?'a = nat] by (auto simp: al8_def)
  moreover have "unat n \<noteq> 0" using n(2) by (simp add: unat_eq_0)
  ultimately have "unat (span_size n) = unat n" using n(1) by (auto simp: span_size_unat al8_def)
  then show ?thesis by (simp add: word_unat_eq_iff)
qed

section \<open>Headers in the arena\<close>

lemma hdr_upd:
  assumes "al8 a" "al8 b"
  shows "hdr_size (w(a := v)) b = (if b = a then v else hdr_size w b)"
    "hdr_next (w(a := v)) b = hdr_next w b"
    "hdr_size (w(a + 4 := v)) b = hdr_size w b"
    "hdr_next (w(a + 4 := v)) b = (if b = a then v else hdr_next w b)"
  using al8_plus4 [OF assms(1)] al8_plus4 [OF assms(2)] assms by (auto simp: hdr_size_def hdr_next_def)

lemma seg_append: "seg w p (xs @ ys) q \<longleftrightarrow> (\<exists>r. seg w p xs r \<and> seg w r ys q)"
  by (induction xs arbitrary: p) auto

lemma seg_appendI: "seg w p xs r \<Longrightarrow> seg w r ys q \<Longrightarrow> seg w p (xs @ ys) q"
  by (auto simp: seg_append)

lemma seg_frame:
  assumes "\<forall>s\<in>set xs. hdr_size w' (fst s) = hdr_size w (fst s) \<and> hdr_next w' (fst s) = hdr_next w (fst s)"
  shows "seg w' p xs q = seg w p xs q"
  using assms by (induction xs arbitrary: p) auto

lemma seg_upd:
  assumes "al8 a" "\<forall>s\<in>set xs. al8 (fst s) \<and> fst s \<noteq> a"
  shows "seg (w(a := v)) p xs q = seg w p xs q" "seg (w(a + 4 := v)) p xs q = seg w p xs q"
  using assms by (auto intro!: seg_frame simp: hdr_upd)

definition last_off :: "u32 \<Rightarrow> span list \<Rightarrow> u32" where
  "last_off prev xs = (if xs = [] then prev else fst (last xs))"

definition head_off :: "span list \<Rightarrow> u32" where
  "head_off xs = (case xs of [] \<Rightarrow> CC_NIL | s # _ \<Rightarrow> fst s)"

lemma last_off_simps [simp]: "last_off prev [] = prev" "last_off prev (xs @ [s]) = fst s"
  "last_off prev (s # xs) = last_off (fst s) xs"
  by (simp_all add: last_off_def)

lemma head_off_simps [simp]: "head_off [] = CC_NIL" "head_off (s # xs) = fst s"
  by (simp_all add: head_off_def)

lemma seg_head: "seg w p xs CC_NIL \<Longrightarrow> p = head_off xs"
  by (cases xs) auto

text \<open>The two walks stop where the corresponding list functions split the list.\<close>

lemma first_fit_walk:
  assumes "seg w cur xs CC_NIL" "\<forall>s\<in>set xs. al8 (fst s)"
  shows "first_fit w n prev cur = Some (last_off prev (takeWhile (\<lambda>s. snd s < n) xs),
      head_off (dropWhile (\<lambda>s. snd s < n) xs))"
  using assms
proof (induction xs arbitrary: prev cur)
  case Nil
  then show ?case by (simp add: first_fit.simps)
next
  case (Cons s xs)
  then show ?case by (subst first_fit.simps) (auto simp: al8_nil linorder_not_less)
qed

lemma free_walk_walk:
  assumes "seg w cur xs CC_NIL" "\<forall>s\<in>set xs. al8 (fst s)"
  shows "free_walk w p prev cur = Some (last_off prev (takeWhile (\<lambda>s. fst s < p) xs),
      head_off (dropWhile (\<lambda>s. fst s < p) xs))"
  using assms
proof (induction xs arbitrary: prev cur)
  case Nil
  then show ?case by (simp add: free_walk.simps)
next
  case (Cons s xs)
  then show ?case by (subst free_walk.simps) (auto simp: al8_nil)
qed

text \<open>Storing a new successor for the last span of a prefix redirects the end of that prefix.\<close>

lemma set_link_seg:
  assumes "seg (cc_words cc) (cc_free_head cc) ys r" "\<forall>s\<in>set ys. al8 (fst s)" "distinct (map fst ys)"
    "cc' = set_link (last_off CC_NIL ys) v cc"
  shows "seg (cc_words cc') (cc_free_head cc') ys v"
proof (cases ys rule: rev_cases)
  case Nil
  with assms show ?thesis by (simp add: set_link_def)
next
  case (snoc us s)
  from snoc assms(2) have s: "al8 (fst s)" "fst s \<noteq> CC_NIL" by (auto intro: al8_nil)
  with snoc assms(4) have cc': "cc' = set_next (fst s) v cc" by (simp add: set_link_def)
  have "\<forall>t\<in>set us. al8 (fst t) \<and> fst t \<noteq> fst s"
    using snoc assms(2,3) by (auto simp: image_iff)
  from seg_upd(2) [OF s(1) this] snoc assms(1) s(1) show ?thesis
    by (auto simp: cc' set_next_def seg_append hdr_upd)
qed

lemma set_link_other:
  assumes "al8 b" "\<forall>s\<in>set ys. al8 (fst s) \<and> fst s \<noteq> b"
  shows "hdr_size (cc_words (set_link (last_off CC_NIL ys) v cc)) b = hdr_size (cc_words cc) b"
    "hdr_next (cc_words (set_link (last_off CC_NIL ys) v cc)) b = hdr_next (cc_words cc) b"
proof -
  have "last ys \<in> set ys" if "ys \<noteq> []" using that by simp
  then show "hdr_size (cc_words (set_link (last_off CC_NIL ys) v cc)) b = hdr_size (cc_words cc) b"
    "hdr_next (cc_words (set_link (last_off CC_NIL ys) v cc)) b = hdr_next (cc_words cc) b"
    using assms by (auto simp: set_link_def set_next_def last_off_def hdr_upd)
qed

lemma set_link_after:
  assumes "\<forall>t\<in>set zs. al8 (fst t)" "\<forall>y\<in>set ys. al8 (fst y)" "\<forall>y\<in>set ys. \<forall>t\<in>set zs. fst y \<noteq> fst t"
  shows "seg (cc_words (set_link (last_off CC_NIL ys) v cc)) p zs q = seg (cc_words cc) p zs q"
proof (rule seg_frame, rule ballI)
  fix t assume "t \<in> set zs"
  with assms have "al8 (fst t)" "\<forall>s\<in>set ys. al8 (fst s) \<and> fst s \<noteq> fst t" by auto
  note other = set_link_other [OF this]
  show "hdr_size (cc_words (set_link (last_off CC_NIL ys) v cc)) (fst t) = hdr_size (cc_words cc) (fst t)
      \<and> hdr_next (cc_words (set_link (last_off CC_NIL ys) v cc)) (fst t) = hdr_next (cc_words cc) (fst t)"
    by (simp add: other)
qed

section \<open>What the operations leave alone\<close>

lemma set_link_frame [simp]:
  "cc_cap (set_link prev v cc) = cc_cap cc" "cc_used (set_link prev v cc) = cc_used cc"
  "codecache.more (set_link prev v cc) = codecache.more cc"
  by (simp_all add: set_link_def set_next_def)

lemma set_hdr_frame [simp]:
  "cc_cap (set_size p v cc) = cc_cap cc" "cc_used (set_size p v cc) = cc_used cc"
  "codecache.more (set_size p v cc) = codecache.more cc" "cc_free_head (set_size p v cc) = cc_free_head cc"
  "cc_words (set_size p v cc) = (cc_words cc)(p := v)"
  "cc_cap (set_next p v cc) = cc_cap cc" "cc_used (set_next p v cc) = cc_used cc"
  "codecache.more (set_next p v cc) = codecache.more cc" "cc_free_head (set_next p v cc) = cc_free_head cc"
  "cc_words (set_next p v cc) = (cc_words cc)(p + 4 := v)"
  by (simp_all add: set_size_def set_next_def)

lemma take_span_frame [simp]:
  "cc_cap (take_span n prev cur cc) = cc_cap cc" "cc_used (take_span n prev cur cc) = cc_used cc"
  "codecache.more (take_span n prev cur cc) = codecache.more cc"
  by (simp_all add: take_span_def Let_def)

lemma merge_frame [simp]:
  "cc_cap (merge_next p cur cc) = cc_cap cc" "cc_used (merge_next p cur cc) = cc_used cc"
  "codecache.more (merge_next p cur cc) = codecache.more cc"
  "cc_cap (merge_prev prev p cc) = cc_cap cc" "cc_used (merge_prev prev p cc) = cc_used cc"
  "codecache.more (merge_prev prev p cc) = codecache.more cc"
  "cc_free_head (merge_next p cur cc) = cc_free_head cc" "cc_free_head (merge_prev prev p cc) = cc_free_head cc"
  by (simp_all add: merge_next_def merge_prev_def Let_def)

section \<open>Order\<close>

lemma in_order_append:
  "in_order (xs @ ys) \<longleftrightarrow> in_order xs \<and> in_order ys \<and> (\<forall>s\<in>set xs. \<forall>t\<in>set ys. span_end s \<le> unat (fst t))"
  by (simp add: in_order_def sorted_wrt_append)

lemma in_order_Cons: "in_order (s # xs) \<longleftrightarrow> (\<forall>t\<in>set xs. span_end s \<le> unat (fst t)) \<and> in_order xs"
  by (simp add: in_order_def)

lemma apart_append:
  "apart (xs @ ys) \<longleftrightarrow> apart xs \<and> apart ys \<and> (\<forall>s\<in>set xs. \<forall>t\<in>set ys. span_end s < unat (fst t))"
  by (simp add: apart_def sorted_wrt_append)

lemma apart_Cons: "apart (s # xs) \<longleftrightarrow> (\<forall>t\<in>set xs. span_end s < unat (fst t)) \<and> apart xs"
  by (simp add: apart_def)

lemma order_simps [simp]: "in_order []" "apart []"
  by (simp_all add: in_order_def apart_def)

lemma apart_in_order: "apart xs \<Longrightarrow> in_order xs"
  unfolding apart_def in_order_def by (erule sorted_wrt_mono_rel [rotated]) simp

lemma in_order_distinct: "in_order xs \<Longrightarrow> \<forall>s\<in>set xs. span_ok cap s \<Longrightarrow> distinct (map fst xs)"
  by (induction xs) (fastforce simp: in_order_Cons span_ok_def span_end_def)+

lemma in_order_inj: "in_order (xs @ s # ys) \<Longrightarrow> \<forall>t\<in>set (xs @ s # ys). span_ok cap t \<Longrightarrow> t \<in> set (xs @ ys) \<Longrightarrow> fst t \<noteq> fst s"
  using in_order_distinct [of "xs @ s # ys" cap] by (auto simp: image_iff)

lemma ordered_before:
  assumes "in_order (ys @ zs)" "\<forall>t\<in>set (ys @ zs). span_ok cap t" "y \<in> set ys" "t \<in> set zs"
  shows "unat (fst y) < unat (fst t)" "fst y \<noteq> fst t"
proof -
  have "span_end y \<le> unat (fst t)" "span_ok cap y" using assms by (auto simp: in_order_append)
  then show "unat (fst y) < unat (fst t)" by (simp add: span_ok_def span_end_def)
  then show "fst y \<noteq> fst t" by auto
qed

section \<open>Taking a span\<close>

definition rest_of :: "u32 \<Rightarrow> span \<Rightarrow> span list" where
  "rest_of n s = (if HDR_SIZE \<le> snd s - n then [(fst s + n, snd s - n)] else [])"

definition fit :: "u32 \<Rightarrow> span list \<Rightarrow> (u32 \<times> span list) option" where
  "fit n xs = (case dropWhile (\<lambda>s. snd s < n) xs of [] \<Rightarrow> None
     | s # zs \<Rightarrow> Some (fst s, takeWhile (\<lambda>s. snd s < n) xs @ rest_of n s @ zs))"

lemma rest_of_ok:
  assumes "span_ok cap s" "cap < 2 ^ 32" "al8 n" "0 < unat n" "n \<le> snd s"
  shows "\<forall>t\<in>set (rest_of n s). span_ok cap t \<and> unat (fst t) = unat (fst s) + unat n \<and> span_end t = span_end s"
    "free_bytes (rest_of n s) = {unat (fst s) + unat n..<span_end s}"
proof -
  have al: "al8 (fst s)" "al8 (snd s)" "unat (fst s) + unat (snd s) \<le> cap" "unat n \<le> unat (snd s)"
    using assms by (auto simp: span_ok_def span_end_def word_le_nat_alt)
  then have u: "unat (fst s + n) = unat (fst s) + unat n" "unat (snd s - n) = unat (snd s) - unat n"
    using assms by (simp_all add: unat_word_ariths unat_sub)
  have h: "HDR_SIZE \<le> snd s - n \<longleftrightarrow> unat (snd s) \<noteq> unat n"
  proof -
    have "8 dvd unat (snd s) - unat n" using al(2) assms(3) by (simp add: al8_def)
    then have "8 \<le> unat (snd s) - unat n \<longleftrightarrow> unat (snd s) \<noteq> unat n" using al(4) by auto
    then show ?thesis by (simp add: HDR_SIZE_def word_le_nat_alt u(2))
  qed
  show "\<forall>t\<in>set (rest_of n s). span_ok cap t \<and> unat (fst t) = unat (fst s) + unat n \<and> span_end t = span_end s"
    using al assms h by (auto simp: rest_of_def span_ok_def span_end_def u al8_add al8_sub)
  show "free_bytes (rest_of n s) = {unat (fst s) + unat n..<span_end s}"
    using al h by (auto simp: rest_of_def free_bytes_def span_bytes_def span_end_def u)
qed

lemma take_span_list:
  assumes f: "free_list (ys @ s # zs) cc" and n: "al8 n" "0 < unat n" "n \<le> snd s"
    and cc': "cc' = take_span n (last_off CC_NIL ys) (fst s) cc"
  shows "free_list (ys @ rest_of n s @ zs) cc'"
proof -
  let ?w = "cc_words cc" let ?p = "fst s" let ?q = "fst s + n"
  define cap where "cap = unat (cc_cap cc)"
  have cap: "cap < 2 ^ 32" unfolding cap_def using unsigned_less [where ?'a = nat, of "cc_cap cc"] by simp
  from f have ok: "\<forall>t\<in>set (ys @ s # zs). span_ok cap t" and ap: "apart (ys @ s # zs)"
    and sg: "seg ?w (cc_free_head cc) ys ?p" "hdr_size ?w ?p = snd s" "seg ?w (hdr_next ?w ?p) zs CC_NIL"
    by (auto simp: free_list_def seg_append cap_def)
  note r = rest_of_ok [OF _ cap n] ok
  have s: "span_ok cap s" using ok by simp
  note r = rest_of_ok [OF s cap n]
  have "\<forall>t\<in>set (ys @ rest_of n s @ zs). span_ok cap t" using ok r(1) by auto
  moreover have "apart (ys @ rest_of n s @ zs)"
  proof -
    have "apart (rest_of n s)" by (simp add: rest_of_def apart_def)
    then show ?thesis using ap r(1) n(2) by (fastforce simp: apart_append apart_Cons)
  qed
  moreover have "seg (cc_words cc') (cc_free_head cc') (ys @ rest_of n s @ zs) CC_NIL"
  proof -
    have al: "\<forall>t\<in>set ys. al8 (fst t)" "\<forall>t\<in>set zs. al8 (fst t)" and d: "distinct (map fst ys)"
      using ok in_order_distinct [of ys cap] ap by (auto simp: span_ok_def apart_append apart_in_order)
    have yz: "\<forall>y\<in>set ys. \<forall>t\<in>set zs. fst y \<noteq> fst t"
      using ordered_before(2) [OF apart_in_order [OF ap] ok] by auto
    note after = set_link_after [OF al(2,1) yz]
    show ?thesis
    proof (cases "HDR_SIZE \<le> snd s - n")
      case False
      then have "cc' = set_link (last_off CC_NIL ys) (hdr_next ?w ?p) cc"
        by (simp add: cc' take_span_def sg Let_def)
      note l = set_link_seg [OF sg(1) al(1) d this] this
      have "seg (cc_words cc') (hdr_next ?w ?p) zs CC_NIL" unfolding l(2) after by (rule sg(3))
      from seg_appendI [OF l(1) this] False show ?thesis by (simp add: rest_of_def)
    next
      case True
      define c2 where "c2 = set_next ?q (hdr_next ?w ?p) (set_size ?q (snd s - n) cc)"
      have cc'2: "cc' = set_link (last_off CC_NIL ys) ?q c2"
        using True by (simp add: cc' take_span_def sg Let_def c2_def)
      have q: "al8 ?q" "unat ?q = unat ?p + unat n" using r(1) True by (auto simp: rest_of_def span_ok_def)
      have fy: "\<forall>y\<in>set ys. al8 (fst y) \<and> fst y \<noteq> ?q"
        using ordered_before(1) [OF apart_in_order [OF ap] ok, of _ s] al q n(2) by fastforce
      have "\<forall>y\<in>set zs. unat ?q < unat (fst y)"
        using ap q n(3) by (auto simp: apart_append apart_Cons span_end_def word_le_nat_alt)
      with al have fz: "\<forall>y\<in>set zs. al8 (fst y) \<and> fst y \<noteq> ?q" by auto
      have "seg (cc_words c2) (cc_free_head c2) ys ?p" using sg(1) by (simp add: c2_def seg_upd q fy)
      note l = set_link_seg [OF this al(1) d cc'2]
      have c2q: "hdr_size (cc_words cc') ?q = snd s - n" "hdr_next (cc_words cc') ?q = hdr_next ?w ?p"
        unfolding cc'2 using fy by (simp_all add: set_link_other [OF q(1)] c2_def hdr_upd q)
      have "seg (cc_words cc') (hdr_next ?w ?p) zs CC_NIL"
        unfolding cc'2 after using sg(3) by (simp add: c2_def seg_upd q fz)
      then have "seg (cc_words cc') ?q ((?q, snd s - n) # zs) CC_NIL" using c2q by simp
      from seg_appendI [OF l this] True show ?thesis by (simp add: rest_of_def)
    qed
  qed
  ultimately show ?thesis using cc' by (simp add: free_list_def cap_def)
qed

section \<open>Putting a span back\<close>

definition glue :: "span \<Rightarrow> span list \<Rightarrow> span list" where
  "glue s zs = (case zs of [] \<Rightarrow> [s]
     | t # zs' \<Rightarrow> if fst s + snd s = fst t then (fst s, snd s + snd t) # zs' else s # zs)"

definition put_back :: "span \<Rightarrow> span list \<Rightarrow> span list" where
  "put_back s xs =
    (let ys = takeWhile (\<lambda>t. fst t < fst s) xs; zs = dropWhile (\<lambda>t. fst t < fst s) xs
     in if ys = [] then glue s zs else butlast ys @ glue (last ys) (glue s zs))"

lemma head_glue [simp]: "head_off (glue s zs) = fst s"
  by (auto simp: glue_def split: list.splits)

lemma distinct_glue: "distinct (map fst (ys @ s # zs)) \<Longrightarrow> distinct (map fst (ys @ glue s zs))"
  by (cases zs) (simp_all add: glue_def)

lemma al8_glue: "\<forall>t\<in>set (ys @ s # zs). al8 (fst t) \<Longrightarrow> \<forall>t\<in>set (ys @ glue s zs). al8 (fst t)"
  by (auto simp: glue_def split: list.splits)

lemma merge_next_seg:
  assumes "seg (cc_words cc) h (ys @ s # zs) CC_NIL" "\<forall>t\<in>set (ys @ s # zs). al8 (fst t)"
    "distinct (map fst (ys @ s # zs))" "cc' = merge_next (fst s) (head_off zs) cc"
  shows "seg (cc_words cc') h (ys @ glue s zs) CC_NIL"
proof (cases "\<exists>t zs'. zs = t # zs' \<and> fst s + snd s = fst t")
  case False
  then have "glue s zs = s # zs" by (auto simp: glue_def split: list.splits)
  moreover from False assms have "cc' = cc"
    by (cases zs) (auto simp: merge_next_def Let_def seg_append)
  ultimately show ?thesis using assms(1) by simp
next
  case True
  then obtain t zs' where zs: "zs = t # zs'" "fst s + snd s = fst t" by blast
  let ?w = "cc_words cc"
  define w1 where "w1 = ?w(fst s := snd s + snd t)"
  from zs assms(1) have sg: "seg ?w h ys (fst s)" "hdr_size ?w (fst s) = snd s" "hdr_size ?w (fst t) = snd t"
    "seg ?w (hdr_next ?w (fst t)) zs' CC_NIL" by (auto simp: seg_append)
  have al: "al8 (fst s)" "al8 (fst t)" and dt: "fst t \<noteq> fst s" using assms zs by auto
  have fr: "\<forall>y\<in>set ys. al8 (fst y) \<and> fst y \<noteq> fst s" "\<forall>y\<in>set zs'. al8 (fst y) \<and> fst y \<noteq> fst s"
    using assms(2,3) zs by (auto simp: image_iff)
  have "cc_words cc' = w1(fst s + 4 := hdr_next ?w (fst t))"
    using zs sg al dt by (auto simp: assms(4) merge_next_def Let_def w1_def hdr_upd al8_nil)
  with sg fr al zs show ?thesis
    by (auto simp: glue_def w1_def seg_upd hdr_upd intro!: seg_appendI)
qed

lemma merge_prev_next: "p \<noteq> CC_NIL \<Longrightarrow> merge_prev prev p cc = (if prev = CC_NIL then cc else merge_next prev p cc)"
  by (simp add: merge_prev_def merge_next_def Let_def)

lemma span_sum: "span_ok cap s \<Longrightarrow> cap < 2 ^ 32 \<Longrightarrow> unat (fst s + snd s) = span_end s"
  by (simp add: span_ok_def span_end_def unat_word_ariths)

lemma glue_order:
  assumes o: "in_order (s # zs)" and a: "apart zs" and ok: "\<forall>t\<in>set (s # zs). span_ok cap t" and cap: "cap < 2 ^ 32"
  shows "apart (glue s zs)" "\<forall>t\<in>set (glue s zs). span_ok cap t \<and> fst s \<le> fst t"
    "free_bytes (glue s zs) = free_bytes (s # zs)" "in_order (glue s zs)"
proof -
  have "apart (glue s zs) \<and> (\<forall>t\<in>set (glue s zs). span_ok cap t \<and> fst s \<le> fst t)
    \<and> free_bytes (glue s zs) = free_bytes (s # zs)"
  proof (cases "\<exists>t zs'. zs = t # zs' \<and> fst s + snd s = fst t")
    case True
    then obtain t zs' where zs: "zs = t # zs'" "fst s + snd s = fst t" by blast
    let ?u = "(fst s, snd s + snd t)"
    from zs ok have s: "span_ok cap s" and t: "span_ok cap t" by auto
    have st: "unat (fst t) = span_end s" using span_sum [OF s cap] zs by simp
    have u: "unat (snd s + snd t) = unat (snd s) + unat (snd t)"
      using s t st cap by (simp add: span_ok_def span_end_def unat_word_ariths)
    then have e: "span_end ?u = span_end t" using st by (simp add: span_end_def)
    have "span_ok cap ?u" using s t e u by (simp add: span_ok_def al8_add)
    moreover have "apart (?u # zs')" using a zs e by (simp add: apart_Cons)
    moreover have "\<forall>x\<in>set zs'. fst s \<le> fst x"
      using o zs by (auto simp: in_order_Cons span_end_def word_le_nat_alt)
    moreover have "span_bytes ?u = span_bytes s \<union> span_bytes t"
      using e st by (auto simp: span_bytes_def span_end_def)
    ultimately show ?thesis using ok zs by (auto simp: glue_def free_bytes_def)
  next
    case False
    then have g: "glue s zs = s # zs" by (auto simp: glue_def split: list.splits)
    have lt: "span_end s < unat (fst t)" if "t \<in> set zs" for t
    proof (cases zs)
      case (Cons h zs')
      have "span_end s \<le> unat (fst h)" using o Cons by (simp add: in_order_Cons)
      moreover have "span_end s \<noteq> unat (fst h)"
        using False Cons span_sum [of cap s] ok cap by (auto simp: word_unat_eq_iff)
      moreover have "unat (fst h) \<le> unat (fst t)"
        using that Cons a ok by (auto simp: apart_Cons span_end_def)
      ultimately show ?thesis by simp
    qed (use that in simp)
    then have "\<forall>t\<in>set zs. fst s \<le> fst t" by (force simp: span_end_def word_le_nat_alt)
    with lt a ok g show ?thesis by (simp add: apart_Cons)
  qed
  then show "apart (glue s zs)" "\<forall>t\<in>set (glue s zs). span_ok cap t \<and> fst s \<le> fst t"
    "free_bytes (glue s zs) = free_bytes (s # zs)" "in_order (glue s zs)"
    by (simp_all add: apart_in_order)
qed

lemma split_by_offset:
  assumes "apart xs" "\<forall>t\<in>set xs. span_ok cap t" "span_ok cap s" "span_bytes s \<inter> free_bytes xs = {}"
    "ys = takeWhile (\<lambda>t. fst t < fst s) xs" "zs = dropWhile (\<lambda>t. fst t < fst s) xs"
  shows "in_order (ys @ s # zs)" "xs = ys @ zs"
proof -
  show xs: "xs = ys @ zs" using assms(5,6) by simp
  have dj: "span_bytes s \<inter> span_bytes t = {}" if "t \<in> set xs" for t
    using that assms(4) by (auto simp: free_bytes_def)
  have "span_end t \<le> unat (fst s)" if "t \<in> set ys" for t
  proof -
    have "fst t < fst s" "t \<in> set xs" using that assms(5) by (auto dest: set_takeWhileD)
    with dj [OF this(2)] assms(3) show ?thesis
      by (force simp: span_bytes_def span_end_def span_ok_def word_less_nat_alt)
  qed
  moreover have "span_end s \<le> unat (fst t)" if t: "t \<in> set zs" for t
  proof -
    have "dropWhile (\<lambda>t. fst t < fst s) xs \<noteq> []" using t assms(6) by (metis empty_iff list.set(1))
    from hd_dropWhile [OF this] have "fst s \<le> fst (hd zs)" by (simp add: assms(6) linorder_not_less)
    moreover have "unat (fst (hd zs)) \<le> unat (fst t)"
      using t assms(1) xs by (cases zs) (auto simp: apart_append apart_Cons span_end_def)
    ultimately have "fst s \<le> fst t" by (force simp: word_le_nat_alt)
    moreover have "t \<in> set xs" using t xs by simp
    ultimately show ?thesis using dj [of t] assms(2)
      by (force simp: span_bytes_def span_end_def span_ok_def word_le_nat_alt)
  qed
  ultimately show "in_order (ys @ s # zs)"
    using assms(1) xs by (force simp: in_order_append in_order_Cons apart_append dest: apart_in_order)
qed

lemma put_back_ok:
  assumes xs: "apart xs" "\<forall>t\<in>set xs. span_ok cap t" and s: "span_ok cap s" "span_bytes s \<inter> free_bytes xs = {}"
    and cap: "cap < 2 ^ 32"
  shows "apart (put_back s xs)" "\<forall>t\<in>set (put_back s xs). span_ok cap t"
    "free_bytes (put_back s xs) = free_bytes xs \<union> span_bytes s"
proof -
  define ys where "ys = takeWhile (\<lambda>t. fst t < fst s) xs"
  define zs where "zs = dropWhile (\<lambda>t. fst t < fst s) xs"
  note sp = split_by_offset [OF xs s ys_def zs_def]
  from sp xs s have o: "in_order (s # zs)" "apart zs" "\<forall>t\<in>set (s # zs). span_ok cap t"
    by (auto simp: in_order_append in_order_Cons apart_append)
  note g = glue_order [OF o cap]
  have "apart (put_back s xs) \<and> (\<forall>t\<in>set (put_back s xs). span_ok cap t)
    \<and> free_bytes (put_back s xs) = free_bytes xs \<union> span_bytes s"
  proof (cases ys rule: rev_cases)
    case Nil
    then have "put_back s xs = glue s zs" by (simp add: put_back_def ys_def zs_def)
    moreover have "free_bytes (s # zs) = free_bytes xs \<union> span_bytes s"
      using sp(2) Nil by (auto simp: free_bytes_def)
    ultimately show ?thesis using g by simp
  next
    case (snoc us t)
    then have p: "put_back s xs = us @ glue t (glue s zs)"
      by (simp add: put_back_def ys_def [symmetric] zs_def [symmetric])
    have t: "span_ok cap t" "span_end t \<le> unat (fst s)" using snoc sp xs by (auto simp: in_order_append in_order_Cons)
    have "in_order (t # glue s zs)"
      using g(2,4) t(2) by (force simp: in_order_Cons word_le_nat_alt)
    then have o': "in_order (t # glue s zs)" "apart (glue s zs)" "\<forall>u\<in>set (t # glue s zs). span_ok cap u"
      using g(1,2) t(1) by auto
    note g' = glue_order [OF o' cap]
    have us: "apart us" "\<forall>u\<in>set us. span_ok cap u" "\<forall>u\<in>set us. span_end u < unat (fst t)"
      using xs sp(2) snoc by (auto simp: apart_append apart_Cons)
    have "apart (us @ glue t (glue s zs))"
      using us g'(1,2) by (force simp: apart_append word_le_nat_alt)
    moreover have "free_bytes (us @ glue t (glue s zs)) = free_bytes xs \<union> span_bytes s"
      using g(3) g'(3) sp(2) snoc by (auto simp: free_bytes_def)
    ultimately show ?thesis using p us(2) g'(2) by auto
  qed
  then show "apart (put_back s xs)" "\<forall>t\<in>set (put_back s xs). span_ok cap t"
    "free_bytes (put_back s xs) = free_bytes xs \<union> span_bytes s" by blast+
qed

text \<open>\<open>codecache_free\<close> implements \<open>put_back\<close>.\<close>

lemma cold_free_list:
  assumes f: "free_list xs cc" and s: "span_ok (unat (cc_cap cc)) (p, n)"
    and dj: "span_bytes (p, n) \<inter> free_bytes xs = {}" and sz: "span_size sz = n"
  shows "\<exists>cc'. cold_free p sz cc = Some cc' \<and> free_list (put_back (p, n) xs) cc'
    \<and> cc_cap cc' = cc_cap cc \<and> cc_used cc' = cc_used cc \<and> codecache.more cc' = codecache.more cc"
proof -
  let ?s = "(p, n)"
  define cap where "cap = unat (cc_cap cc)"
  have cap: "cap < 2 ^ 32" unfolding cap_def using unsigned_less [where ?'a = nat, of "cc_cap cc"] by simp
  define ys where "ys = takeWhile (\<lambda>t. fst t < p) xs"
  define zs where "zs = dropWhile (\<lambda>t. fst t < p) xs"
  from f have xs: "apart xs" "\<forall>t\<in>set xs. span_ok cap t" and sg: "seg (cc_words cc) (cc_free_head cc) xs CC_NIL"
    by (auto simp: free_list_def cap_def)
  note s = s [folded cap_def]
  have sp: "in_order (ys @ ?s # zs)" "xs = ys @ zs"
    using split_by_offset [OF xs s dj, of ys zs] by (simp_all add: ys_def zs_def)
  have alx: "\<forall>t\<in>set xs. al8 (fst t)" and p: "al8 p" "p \<noteq> CC_NIL"
    using xs(2) s by (auto simp: span_ok_def al8_nil)
  have al: "\<forall>t\<in>set (ys @ ?s # zs). al8 (fst t)" using alx p sp(2) by auto
  have d: "distinct (map fst (ys @ ?s # zs))"
    using in_order_distinct [OF sp(1), of cap] xs(2) s sp(2) by auto
  have fr: "\<forall>t\<in>set ys. al8 (fst t) \<and> fst t \<noteq> p" "\<forall>t\<in>set zs. al8 (fst t) \<and> fst t \<noteq> p"
    "\<forall>y\<in>set ys. \<forall>t\<in>set zs. fst y \<noteq> fst t" "\<forall>t\<in>set ys. al8 (fst t)" "\<forall>t\<in>set zs. al8 (fst t)"
    using d al by (auto simp: image_iff)
  define c1 where "c1 = set_next p (head_off zs) (set_size p n cc)"
  define c2 where "c2 = set_link (last_off CC_NIL ys) p c1"
  define c3 where "c3 = merge_next p (head_off zs) c2"
  define c4 where "c4 = merge_prev (last_off CC_NIL ys) p c3"
  have w: "free_walk (cc_words cc) p CC_NIL (cc_free_head cc) = Some (last_off CC_NIL ys, head_off zs)"
    using free_walk_walk [OF sg alx] by (simp add: ys_def zs_def)
  have res: "cold_free p sz cc = Some c4"
    by (simp add: cold_free_def w sz Let_def c4_def c3_def c2_def c1_def)
  obtain r where "seg (cc_words cc) (cc_free_head cc) ys r" "seg (cc_words cc) r zs CC_NIL"
    using sg sp(2) by (auto simp: seg_append)
  moreover from this(2) have "r = head_off zs" by (rule seg_head)
  ultimately have sy: "seg (cc_words c1) (cc_free_head c1) ys (head_off zs)" and sz1: "seg (cc_words c1) (head_off zs) zs CC_NIL"
    by (simp_all add: c1_def seg_upd p fr)
  have "seg (cc_words c2) (cc_free_head c2) ys p"
    using set_link_seg [OF sy _ _ c2_def] fr d by simp
  moreover have "seg (cc_words c2) p (?s # zs) CC_NIL"
    using sz1 by (simp add: c2_def set_link_other [OF p(1) fr(1)] set_link_after [OF fr(5,4,3)])
      (simp add: c1_def hdr_upd p)
  ultimately have "seg (cc_words c2) (cc_free_head c2) (ys @ ?s # zs) CC_NIL" by (rule seg_appendI)
  then have s3: "seg (cc_words c3) (cc_free_head c3) (ys @ glue ?s zs) CC_NIL"
    using merge_next_seg [OF _ al d, of c2 "cc_free_head c2" c3] by (simp add: c3_def)
  have "seg (cc_words c4) (cc_free_head c4) (put_back ?s xs) CC_NIL"
  proof (cases ys rule: rev_cases)
    case Nil
    then show ?thesis using s3 by (simp add: c4_def merge_prev_def put_back_def ys_def [symmetric] zs_def [symmetric])
  next
    case (snoc us t)
    then have pb: "put_back ?s xs = us @ glue t (glue ?s zs)"
      by (simp add: put_back_def ys_def [symmetric] zs_def [symmetric])
    have "c4 = merge_next (fst t) (head_off (glue ?s zs)) c3"
      using snoc fr(4) by (auto simp: c4_def merge_prev_next p al8_nil)
    moreover have "\<forall>u\<in>set (us @ t # glue ?s zs). al8 (fst u)" using al8_glue [OF al] snoc by simp
    moreover have "distinct (map fst (us @ t # glue ?s zs))" using distinct_glue [OF d] snoc by simp
    moreover have "seg (cc_words c3) (cc_free_head c3) (us @ t # glue ?s zs) CC_NIL" using s3 snoc by simp
    ultimately have "seg (cc_words c4) (cc_free_head c3) (us @ glue t (glue ?s zs)) CC_NIL"
      by (intro merge_next_seg)
    then show ?thesis by (simp add: pb c4_def)
  qed
  moreover have keep: "cc_cap c4 = cc_cap cc" "cc_used c4 = cc_used cc" "codecache.more c4 = codecache.more cc"
    by (simp_all add: c4_def c3_def c2_def c1_def)
  ultimately have "free_list (put_back ?s xs) c4"
    unfolding free_list_def keep cap_def [symmetric] using put_back_ok(1,2) [OF xs s dj cap] by blast
  with res keep show ?thesis by blast
qed

end
