(* ===== verification/Codecache_Laws.thy ===== *)
theory Codecache_Laws
  imports Codecache_List Interfaces
begin

text \<open>
  What the code cache promises: the coldness allocator returns a block exactly when enough
  consecutive bytes are free and takes exactly those bytes, releasing gives them back, a block that is
  allocated, trimmed and released leaves the free bytes as they were, and the bump and coldness
  allocators never hand out a byte twice.
\<close>

section \<open>The list operations on bytes\<close>

lemma window_in_span:
  assumes "apart xs" "\<forall>t\<in>set xs. span_ok cap t" "{a..<a + k} \<subseteq> free_bytes xs" "0 < k"
  shows "\<exists>s\<in>set xs. {a..<a + k} \<subseteq> span_bytes s"
  using assms
proof (induction xs)
  case Nil
  then show ?case by (simp add: free_bytes_def)
next
  case (Cons s xs)
  have fb: "free_bytes (s # xs) = span_bytes s \<union> free_bytes xs" by (simp add: free_bytes_def)
  have gap: "span_end s < i" if "i \<in> free_bytes xs" for i
    using that Cons.prems(1) by (fastforce simp: free_bytes_def span_bytes_def apart_Cons)
  show ?case
  proof (cases "a < span_end s")
    case True
    have "a + k \<le> span_end s"
    proof (rule ccontr)
      assume "\<not> a + k \<le> span_end s"
      then have "span_end s \<in> {a..<a + k}" using True by simp
      with Cons.prems(3) have "span_end s \<in> free_bytes xs" unfolding fb by (auto simp: span_bytes_def)
      from gap [OF this] show False by simp
    qed
    moreover have "a \<in> span_bytes s"
      using Cons.prems(3,4) gap [of a] True unfolding fb by fastforce
    ultimately show ?thesis by (auto simp: span_bytes_def)
  next
    case False
    then have "{a..<a + k} \<inter> span_bytes s = {}" by (auto simp: span_bytes_def)
    then have "{a..<a + k} \<subseteq> free_bytes xs" using Cons.prems(3) unfolding fb by blast
    with Cons.IH Cons.prems show ?thesis by (auto simp: apart_Cons)
  qed
qed

definition window :: "nat \<Rightarrow> span list \<Rightarrow> bool" where
  "window k xs \<longleftrightarrow> (\<exists>a. {a..<a + k} \<subseteq> free_bytes xs)"

lemma fit_none:
  assumes "apart xs" "\<forall>t\<in>set xs. span_ok cap t" "0 < unat n"
  shows "fit n xs = None \<longleftrightarrow> \<not> window (unat n) xs"
proof -
  have "fit n xs = None \<longleftrightarrow> dropWhile (\<lambda>s. snd s < n) xs = []"
    by (simp add: fit_def del: dropWhile_eq_Nil_conv split: list.split)
  then have "fit n xs = None \<longleftrightarrow> (\<forall>s\<in>set xs. snd s < n)" by simp
  also have "(\<forall>s\<in>set xs. snd s < n) \<longleftrightarrow> \<not> window (unat n) xs"
  proof -
    have "window (unat n) xs \<longleftrightarrow> (\<exists>s\<in>set xs. n \<le> snd s)"
    proof
      assume "window (unat n) xs"
      then obtain a where "{a..<a + unat n} \<subseteq> free_bytes xs" by (auto simp: window_def)
      from window_in_span [OF assms(1,2) this assms(3)] obtain s where
        s: "s \<in> set xs" "{a..<a + unat n} \<subseteq> span_bytes s" by blast
      then have "unat n \<le> unat (snd s)" using assms(3) by (simp add: span_bytes_def span_end_def)
      with s show "\<exists>s\<in>set xs. n \<le> snd s" by (auto simp: word_le_nat_alt)
    next
      assume "\<exists>s\<in>set xs. n \<le> snd s"
      then obtain s where s: "s \<in> set xs" "n \<le> snd s" by blast
      then have "{unat (fst s)..<unat (fst s) + unat n} \<subseteq> free_bytes xs"
        by (force simp: free_bytes_def span_bytes_def span_end_def word_le_nat_alt)
      then show "window (unat n) xs" by (auto simp: window_def)
    qed
    then show ?thesis by (auto simp: linorder_not_less)
  qed
  finally show ?thesis .
qed

lemma fit_some:
  assumes "fit n xs = Some (p, ys)"
  obtains us s zs where "xs = us @ s # zs" "p = fst s" "n \<le> snd s" "ys = us @ rest_of n s @ zs"
    "dropWhile (\<lambda>s. snd s < n) xs = s # zs" "takeWhile (\<lambda>s. snd s < n) xs = us"
proof -
  define us where "us = takeWhile (\<lambda>s. snd s < n) xs"
  from assms obtain s zs where d: "dropWhile (\<lambda>s. snd s < n) xs = s # zs" "p = fst s" "ys = us @ rest_of n s @ zs"
    by (auto simp: fit_def us_def split: list.splits)
  have "xs = us @ s # zs" using d(1) takeWhile_dropWhile_id [of "\<lambda>s. snd s < n" xs] by (simp add: us_def)
  moreover have "n \<le> snd s"
    using hd_dropWhile [of "\<lambda>s. snd s < n" xs] d(1) by (simp del: dropWhile_eq_Nil_conv add: linorder_not_less)
  ultimately show ?thesis using that d us_def by blast
qed

lemma fit_bytes:
  assumes "apart xs" "\<forall>t\<in>set xs. span_ok cap t" "cap < 2 ^ 32" "al8 n" "0 < unat n" "fit n xs = Some (p, ys)"
  shows "{unat p..<unat p + unat n} \<subseteq> free_bytes xs" "al8 p" "unat p + unat n \<le> cap"
    "free_bytes ys = free_bytes xs - {unat p..<unat p + unat n}"
proof -
  from fit_some [OF assms(6)] obtain us s zs where
    s: "xs = us @ s # zs" "p = fst s" "n \<le> snd s" "ys = us @ rest_of n s @ zs" by metis
  have ok: "span_ok cap s" using assms(2) s by simp
  note r = rest_of_ok [OF ok assms(3-5) s(3)]
  have le: "unat p + unat n \<le> span_end s" using s by (simp add: span_end_def word_le_nat_alt)
  then show "{unat p..<unat p + unat n} \<subseteq> free_bytes xs" using s by (force simp: free_bytes_def span_bytes_def)
  show "al8 p" "unat p + unat n \<le> cap" using ok s le by (auto simp: span_ok_def)
  have eq: "free_bytes ys = free_bytes us \<union> free_bytes (rest_of n s) \<union> free_bytes zs"
    "free_bytes xs = free_bytes us \<union> span_bytes s \<union> free_bytes zs"
    using s by (auto simp: free_bytes_def)
  have "i < unat p" if "i \<in> free_bytes us" for i
    using that assms(1) s by (fastforce simp: free_bytes_def span_bytes_def apart_append)
  moreover have "span_end s < i" if "i \<in> free_bytes zs" for i
    using that assms(1) s by (fastforce simp: free_bytes_def span_bytes_def apart_append apart_Cons)
  ultimately show "free_bytes ys = free_bytes xs - {unat p..<unat p + unat n}"
    unfolding eq r(2) using le s(2) by (force simp: span_bytes_def)
qed

section \<open>Allocation on the arena\<close>

lemma cold_loop_step:
  assumes f: "free_list xs cc" and n: "al8 n" "0 < unat n"
  shows "fit n xs = Some (p, ys) \<Longrightarrow>
      \<exists>cc'. cold_alloc_loop evict n cc = Some (Some p, cc') \<and> free_list ys cc'
        \<and> cc_cap cc' = cc_cap cc \<and> cc_used cc' = cc_used cc \<and> codecache.more cc' = codecache.more cc"
    "fit n xs = None \<Longrightarrow> cold_alloc_loop evict n cc = (case evict of None \<Rightarrow> Some (None, cc)
      | Some f \<Rightarrow> Option.bind (f cc) (\<lambda>(freed, cc). if freed = 0 then Some (None, cc) else cold_alloc_loop evict n cc))"
proof -
  have alx: "\<forall>s\<in>set xs. al8 (fst s)" and sg: "seg (cc_words cc) (cc_free_head cc) xs CC_NIL"
    using f by (auto simp: free_list_def span_ok_def)
  note w = first_fit_walk [OF sg alx, of n CC_NIL]
  show "\<exists>cc'. cold_alloc_loop evict n cc = Some (Some p, cc') \<and> free_list ys cc'
        \<and> cc_cap cc' = cc_cap cc \<and> cc_used cc' = cc_used cc \<and> codecache.more cc' = codecache.more cc"
    if "fit n xs = Some (p, ys)"
  proof -
    from fit_some [OF that] obtain us s zs where
      s: "xs = us @ s # zs" "p = fst s" "n \<le> snd s" "ys = us @ rest_of n s @ zs"
        "dropWhile (\<lambda>s. snd s < n) xs = s # zs" "takeWhile (\<lambda>s. snd s < n) xs = us" by metis
    define cc' where "cc' = take_span n (last_off CC_NIL us) (fst s) cc"
    have "fst s \<noteq> CC_NIL" using alx s(1) by (auto intro: al8_nil)
    then have "cold_alloc_loop evict n cc = Some (Some p, cc')"
      using w s(2,5,6) by (subst cold_alloc_loop.simps) (simp add: cc'_def)
    moreover have "free_list ys cc'"
      using take_span_list [OF f [unfolded s(1)] n s(3) cc'_def] s(4) by simp
    ultimately show ?thesis by (simp add: cc'_def)
  qed
  show "cold_alloc_loop evict n cc = (case evict of None \<Rightarrow> Some (None, cc)
      | Some f \<Rightarrow> Option.bind (f cc) (\<lambda>(freed, cc). if freed = 0 then Some (None, cc) else cold_alloc_loop evict n cc))"
    if "fit n xs = None"
  proof -
    have "dropWhile (\<lambda>s. snd s < n) xs = []" using that by (simp add: fit_def split: list.splits)
    with w have "first_fit (cc_words cc) n CC_NIL (cc_free_head cc)
        = Some (last_off CC_NIL (takeWhile (\<lambda>s. snd s < n) xs), CC_NIL)" by (simp only: head_off_simps)
    then show ?thesis by (subst cold_alloc_loop.simps) (simp split: option.split)
  qed
qed

lemma span_size_pos: "8 \<le> unat (span_size n)" "0 < unat (span_size n)"
  by (simp_all add: span_size_def Let_def HDR_SIZE_def word_less_nat_alt)

lemma free_bytes_bound: "\<forall>t\<in>set xs. span_ok cap t \<Longrightarrow> free_bytes xs \<subseteq> {..<cap}"
  by (auto simp: free_bytes_def span_bytes_def span_ok_def)

lemma window_bound: "\<forall>t\<in>set xs. span_ok cap t \<Longrightarrow> window k xs \<Longrightarrow> 0 < k \<Longrightarrow> k \<le> cap"
proof -
  assume ok: "\<forall>t\<in>set xs. span_ok cap t" and "window k xs" and k: "0 < k"
  then obtain a where "{a..<a + k} \<subseteq> {..<cap}" using free_bytes_bound [OF ok] by (auto simp: window_def)
  moreover have "a + k - 1 \<in> {a..<a + k}" using k by auto
  ultimately have "a + k - 1 \<in> {..<cap}" by blast
  with k show "k \<le> cap" by simp
qed

lemma cold_alloc_cases:
  assumes f: "free_list xs cc"
  shows "\<exists>r cc' ys. cold_alloc None sz cc = Some (r, cc') \<and> free_list ys cc' \<and> cc_cap cc' = cc_cap cc
    \<and> (case r of None \<Rightarrow> \<not> window (unat (span_size sz)) xs \<and> cc' = cc \<and> ys = xs
        | Some p \<Rightarrow> al8 p \<and> unat p + unat (span_size sz) \<le> unat (cc_cap cc)
            \<and> {unat p..<unat p + unat (span_size sz)} \<subseteq> free_bytes xs
            \<and> free_bytes ys = free_bytes xs - {unat p..<unat p + unat (span_size sz)})"
proof -
  define n where "n = span_size sz"
  have n: "al8 n" "0 < unat n" by (simp_all add: n_def al8_span_size span_size_pos)
  have cap: "unat (cc_cap cc) < 2 ^ 32" using unsigned_less [where ?'a = nat, of "cc_cap cc"] by simp
  have xs: "apart xs" "\<forall>t\<in>set xs. span_ok (unat (cc_cap cc)) t" using f by (auto simp: free_list_def)
  show ?thesis
  proof (cases "cc_cap cc < n")
    case True
    then have "\<not> window (unat n) xs" using window_bound [OF xs(2)] n(2) by (fastforce simp: word_less_nat_alt)
    with True f show ?thesis by (auto simp: cold_alloc_def n_def Let_def)
  next
    case False
    then have c: "cold_alloc None sz cc = cold_alloc_loop None n cc" by (simp add: cold_alloc_def n_def Let_def)
    show ?thesis
    proof (cases "fit n xs")
      case None
      with cold_loop_step(2) [OF f n None, of None] fit_none [OF xs n(2)] c f show ?thesis by (auto simp: n_def)
    next
      case (Some q)
      then obtain p ys where q: "fit n xs = Some (p, ys)" by (cases q) auto
      from cold_loop_step(1) [OF f n q, of None] fit_bytes [OF xs cap n q] c show ?thesis
        unfolding n_def by fastforce
    qed
  qed
qed

text \<open>C30: the coldness allocator's \<open>codecache_alloc\<close> (without an eviction callback) always returns. It
  returns a block exactly when some run of free bytes is as long as the request rounded up to the
  8-byte grid; the block is on the grid, inside the arena, consists of free bytes, and precisely these
  bytes leave the free list, which stays sorted, disjoint and fully coalesced.\<close>

theorem cold_alloc_correct:
  assumes "free_list xs cc"
  shows "\<exists>r cc' ys. cold_alloc None sz cc = Some (r, cc') \<and> free_list ys cc'
    \<and> (r = None \<longleftrightarrow> \<not> window (unat (span_size sz)) xs) \<and> (r = None \<longrightarrow> cc' = cc)
    \<and> (\<forall>p. r = Some p \<longrightarrow> al8 p \<and> unat p + unat (span_size sz) \<le> unat (cc_cap cc)
        \<and> {unat p..<unat p + unat (span_size sz)} \<subseteq> free_bytes xs
        \<and> free_bytes ys = free_bytes xs - {unat p..<unat p + unat (span_size sz)})"
proof -
  from cold_alloc_cases [OF assms, of sz] obtain r cc' ys where
    r: "cold_alloc None sz cc = Some (r, cc')" "free_list ys cc'"
      "case r of None \<Rightarrow> \<not> window (unat (span_size sz)) xs \<and> cc' = cc \<and> ys = xs
        | Some p \<Rightarrow> al8 p \<and> unat p + unat (span_size sz) \<le> unat (cc_cap cc)
            \<and> {unat p..<unat p + unat (span_size sz)} \<subseteq> free_bytes xs
            \<and> free_bytes ys = free_bytes xs - {unat p..<unat p + unat (span_size sz)}" by blast
  then show ?thesis by (intro exI [of _ r] exI [of _ cc'] exI [of _ ys]) (auto simp: window_def split: option.splits)
qed

theorem cold_alloc_correct_witness:
  "let cc = codecache_init 1 256 \<lparr>cc_used = 0, cc_cap = 0, cc_free_head = 0, cc_words = \<lambda>_. 0\<rparr>
   in \<exists>r cc'. cold_alloc None 300 cc = Some (r, cc') \<and> r = None \<and> cc' = cc"
proof -
  let ?cc = "codecache_init 1 256 \<lparr>cc_used = 0, cc_cap = 0, cc_free_head = 0, cc_words = \<lambda>_. 0\<rparr>"
  note d = codecache_init_def CC_ALIGN_def CC_NIL_def one_span_def HDR_SIZE_def set_next_def set_size_def
  have f: "free_list [(0, 256)] ?cc"
    by (simp add: d free_list_def hdr_size_def hdr_next_def span_ok_def al8_def span_end_def apart_def)
  have "\<not> window (unat (span_size 300)) [(0, 256)]"
    by (auto simp: window_def free_bytes_def span_bytes_def span_end_def span_size_unat)
  with cold_alloc_correct [OF f, of 300] show ?thesis by (auto simp: Let_def)
qed

section \<open>Uniqueness of the free list\<close>

lemma free_bytes_least:
  assumes "apart (s # xs)" "\<forall>t\<in>set (s # xs). span_ok cap t" "i \<in> free_bytes (s # xs)"
  shows "unat (fst s) \<le> i" "i < span_end s \<or> span_end s < i" "i < span_end s \<longleftrightarrow> i \<notin> free_bytes xs"
  using assms by (fastforce simp: free_bytes_def span_bytes_def apart_Cons span_end_def span_ok_def)+

lemma free_list_unique:
  assumes "apart xs" "\<forall>t\<in>set xs. span_ok cap t" "apart ys" "\<forall>t\<in>set ys. span_ok cap t"
    "free_bytes xs = free_bytes ys"
  shows "xs = ys"
  using assms
proof (induction xs arbitrary: ys)
  case Nil
  then show ?case by (cases ys) (auto simp: free_bytes_def span_bytes_def span_ok_def span_end_def)
next
  case (Cons s xs)
  have in_s: "i \<in> free_bytes (s # xs)" if "unat (fst s) \<le> i" "i < span_end s" for i
    using that by (simp add: free_bytes_def span_bytes_def)
  have s0: "unat (fst s) < span_end s" using Cons.prems(2) by (simp add: span_ok_def span_end_def)
  then have "unat (fst s) \<in> free_bytes ys" using in_s Cons.prems(5) by auto
  then obtain t ys' where ys: "ys = t # ys'" by (cases ys) (auto simp: free_bytes_def)
  have in_t: "i \<in> free_bytes (t # ys')" if "unat (fst t) \<le> i" "i < span_end t" for i
    using that by (simp add: free_bytes_def span_bytes_def)
  have t0: "unat (fst t) < span_end t" using Cons.prems(4) ys by (simp add: span_ok_def span_end_def)
  note xs = Cons.prems(1,2) and yt = Cons.prems(3,4) [unfolded ys] and eq = Cons.prems(5) [unfolded ys]
  have lo: "unat (fst s) = unat (fst t)"
    using free_bytes_least(1) [OF xs, of "unat (fst t)"] free_bytes_least(1) [OF yt, of "unat (fst s)"]
      in_s in_t s0 t0 eq by (metis le_antisym order_refl)
  have "\<not> span_end s < span_end t"
    using free_bytes_least(2) [OF xs, of "span_end s"] in_t [of "span_end s"] lo s0 eq by auto
  moreover have "\<not> span_end t < span_end s"
    using free_bytes_least(2) [OF yt, of "span_end t"] in_s [of "span_end t"] lo t0 eq by auto
  ultimately have hi: "span_end s = span_end t" by simp
  with lo have "s = t" by (simp add: span_end_def prod_eq_iff word_unat_eq_iff)
  moreover have "free_bytes xs = free_bytes ys'"
  proof -
    have sub: "free_bytes zs = free_bytes (u # zs) - span_bytes u" if "apart (u # zs)" for u zs
      using that by (fastforce simp: free_bytes_def span_bytes_def apart_Cons)
    show ?thesis using sub [OF xs(1)] sub [OF yt(1)] eq \<open>s = t\<close> by simp
  qed
  then have "xs = ys'" using Cons.IH [of ys'] xs yt by (simp add: apart_Cons)
  ultimately show ?case using ys by simp
qed

section \<open>The life of a block\<close>

lemma cold_free_correct:
  assumes f: "free_list xs cc" and p: "al8 p" and b: "unat p + unat (span_size sz) \<le> unat (cc_cap cc)"
    and dj: "{unat p..<unat p + unat (span_size sz)} \<inter> free_bytes xs = {}"
  obtains cc' ys where "cold_free p sz cc = Some cc'" "free_list ys cc'" "cc_cap cc' = cc_cap cc"
    "free_bytes ys = free_bytes xs \<union> {unat p..<unat p + unat (span_size sz)}"
    "cc_used cc' = cc_used cc" "codecache.more cc' = codecache.more cc"
proof -
  let ?n = "span_size sz"
  have s: "span_ok (unat (cc_cap cc)) (p, ?n)"
    using p b by (simp add: span_ok_def span_end_def al8_span_size span_size_pos)
  have d: "span_bytes (p, ?n) \<inter> free_bytes xs = {}" using dj by (simp add: span_bytes_def span_end_def)
  have "unat (cc_cap cc) < 2 ^ 32" using unsigned_less [where ?'a = nat, of "cc_cap cc"] by simp
  moreover have "apart xs" "\<forall>t\<in>set xs. span_ok (unat (cc_cap cc)) t" using f by (auto simp: free_list_def)
  ultimately have "free_bytes (put_back (p, ?n) xs) = free_bytes xs \<union> span_bytes (p, ?n)"
    using put_back_ok(3) s d by blast
  with cold_free_list [OF f s d refl] that show ?thesis by (auto simp: span_bytes_def span_end_def)
qed

text \<open>Trimming gives the tail of the reservation back.\<close>

lemma cold_trim_correct:
  assumes f: "free_list xs cc" and p: "al8 p" and n: "0 < unat actual" "unat actual \<le> unat reserved" "unat reserved \<le> 4294967288"
    and b: "unat p + unat (span_size reserved) \<le> unat (cc_cap cc)"
    and dj: "{unat p..<unat p + unat (span_size reserved)} \<inter> free_bytes xs = {}"
  obtains cc' ys where "cold_trim p actual reserved cc = Some cc'" "free_list ys cc'" "cc_cap cc' = cc_cap cc"
    "free_bytes ys = free_bytes xs \<union> {unat p + unat (span_size actual)..<unat p + unat (span_size reserved)}"
proof -
  let ?a = "cc_align actual" let ?r = "cc_align reserved"
  have ua: "unat (span_size actual) = unat ?a" "unat (span_size reserved) = unat ?r"
    using n by (simp_all add: span_size_unat cc_align_unat)
  show ?thesis
  proof (cases "?a < ?r")
    case False
    then have "cold_trim p actual reserved cc = Some cc" by (simp add: cold_trim_def Let_def)
    with False f that show ?thesis by (auto simp: ua word_le_nat_alt linorder_not_less)
  next
    case True
    then have lt: "unat ?a < unat ?r" by (simp add: word_less_nat_alt)
    have al: "al8 (?r - ?a)" using True by (intro al8_sub al8_align) simp
    moreover have "?r - ?a \<noteq> 0" using True by auto
    ultimately have sz: "span_size (?r - ?a) = ?r - ?a" by (rule span_size_aligned)
    have ud: "unat (?r - ?a) = unat ?r - unat ?a" using True by (simp add: unat_sub)
    have up: "unat (p + ?a) = unat p + unat ?a"
      using b lt unsigned_less [where ?'a = nat, of "cc_cap cc"] by (simp add: ua unat_word_ariths)
    have t: "cold_trim p actual reserved cc = cold_free (p + ?a) (?r - ?a) cc"
      using True by (simp add: cold_trim_def Let_def)
    have b': "unat (p + ?a) + unat (span_size (?r - ?a)) \<le> unat (cc_cap cc)"
      using b lt by (simp add: sz ud up ua)
    have e: "{unat (p + ?a)..<unat (p + ?a) + unat (span_size (?r - ?a))} = {unat p + unat ?a..<unat p + unat ?r}"
      using lt by (simp add: sz ud up)
    have dj': "{unat (p + ?a)..<unat (p + ?a) + unat (span_size (?r - ?a))} \<inter> free_bytes xs = {}"
    proof -
      have "{unat p + unat ?a..<unat p + unat ?r} \<subseteq> {unat p..<unat p + unat ?r}" by auto
      with dj show ?thesis unfolding e ua by blast
    qed
    have pa: "al8 (p + ?a)" using p by (simp add: al8_add al8_align)
    from cold_free_correct [OF f pa b' dj'] that show ?thesis unfolding t ua e by metis
  qed
qed

text \<open>C15: a block's life in the coldness allocator. A reservation that is granted, trimmed to the size
  really emitted and later released with that size leaves the arena with exactly the free list it
  had before; in between, exactly the block's own bytes are missing from it.\<close>

theorem block_lifecycle:
  assumes "free_list xs cc" "cold_alloc None reserved cc = Some (Some p, c1)"
    "0 < unat actual" "unat actual \<le> unat reserved" "unat reserved \<le> 4294967288"
  shows "\<exists>c2 ys c3. cold_trim p actual reserved c1 = Some c2 \<and> free_list ys c2
    \<and> free_bytes ys = free_bytes xs - {unat p..<unat p + unat (span_size actual)}
    \<and> cold_free p actual c2 = Some c3 \<and> free_list xs c3"
proof -
  from cold_alloc_cases [OF assms(1), of reserved] assms(2) obtain us where
    c1: "free_list us c1" "cc_cap c1 = cc_cap cc" "al8 p" "unat p + unat (span_size reserved) \<le> unat (cc_cap cc)"
      "{unat p..<unat p + unat (span_size reserved)} \<subseteq> free_bytes xs"
      "free_bytes us = free_bytes xs - {unat p..<unat p + unat (span_size reserved)}" by auto
  have le: "unat (span_size actual) \<le> unat (span_size reserved)"
    using assms(3-5) by (simp add: span_size_unat div_le_mono)
  have dj: "{unat p..<unat p + unat (span_size reserved)} \<inter> free_bytes us = {}" using c1(6) by auto
  obtain c2 ys where c2: "cold_trim p actual reserved c1 = Some c2" "free_list ys c2" "cc_cap c2 = cc_cap c1"
    "free_bytes ys = free_bytes us \<union> {unat p + unat (span_size actual)..<unat p + unat (span_size reserved)}"
    using cold_trim_correct [OF c1(1,3) assms(3-5)] c1(2,4) dj by auto
  have ys: "free_bytes ys = free_bytes xs - {unat p..<unat p + unat (span_size actual)}"
    using c2(4) c1(5,6) le by auto
  then have dj2: "{unat p..<unat p + unat (span_size actual)} \<inter> free_bytes ys = {}" by auto
  have b2: "unat p + unat (span_size actual) \<le> unat (cc_cap c2)" using c2(3) c1(2,4) le by simp
  obtain c3 zs where c3: "cold_free p actual c2 = Some c3" "free_list zs c3" "cc_cap c3 = cc_cap c2"
    "free_bytes zs = free_bytes ys \<union> {unat p..<unat p + unat (span_size actual)}"
    using cold_free_correct [OF c2(2) c1(3) b2 dj2] by metis
  have "free_bytes zs = free_bytes xs" using c3(4) ys c1(5) le by auto
  then have "zs = xs"
    using free_list_unique [of zs "unat (cc_cap cc)" xs] c3 c2 c1 assms(1) by (auto simp: free_list_def)
  with c2 c3 ys show ?thesis by blast
qed

theorem block_lifecycle_witness:
  "let cc = codecache_init 1 256 \<lparr>cc_used = 0, cc_cap = 0, cc_free_head = 0, cc_words = \<lambda>_. 0\<rparr>;
       c1 = snd (the (cold_alloc None 100 cc)); c2 = the (cold_trim 0 50 100 c1)
   in free_list [(0, 256)] (the (cold_free 0 50 c2))"
proof -
  let ?cc = "codecache_init 1 256 \<lparr>cc_used = 0, cc_cap = 0, cc_free_head = 0, cc_words = \<lambda>_. 0\<rparr>"
  note d = codecache_init_def CC_ALIGN_def CC_NIL_def one_span_def HDR_SIZE_def set_next_def set_size_def
  have f: "free_list [(0, 256)] ?cc"
    by (simp add: d free_list_def hdr_size_def hdr_next_def span_ok_def al8_def span_end_def apart_def)
  have a: "cold_alloc None 100 ?cc = Some (Some 0, snd (the (cold_alloc None 100 ?cc)))"
    by (simp add: d cold_alloc_def span_size_def cc_align_def cold_alloc_loop.simps [of None] first_fit.simps hdr_size_def)
  from block_lifecycle [OF f a, of 50] show ?thesis by (auto simp: Let_def)
qed

section \<open>Blocks never overlap\<close>

definition bump_inv :: "nat \<Rightarrow> codecache \<Rightarrow> nat set \<Rightarrow> bool" where
  "bump_inv cap cc A \<longleftrightarrow> unat (cc_cap cc) = cap \<and> 8 dvd cap \<and> cap < 2 ^ 31
     \<and> unat (cc_used cc) \<le> cap \<and> A \<subseteq> {..<unat (cc_used cc)}"

definition cold_inv :: "codecache \<Rightarrow> nat set \<Rightarrow> bool" where
  "cold_inv cc A \<longleftrightarrow> (\<exists>xs. free_list xs cc \<and> A \<inter> free_bytes xs = {})"

lemma bump_alloc_inv:
  assumes i: "bump_inv cap cc A" and n: "unat n < 2 ^ 31" and a: "bump_alloc n cc = (r, cc')"
  shows "block_bytes (n, r) \<inter> A = {} \<and> block_bytes (n, r) \<subseteq> {..<cap} \<and> bump_inv cap cc' (A \<union> block_bytes (n, r))"
proof -
  have c: "unat (cc_cap cc) = cap" "8 dvd cap" "cap < 2147483648" "unat (cc_used cc) \<le> cap" "A \<subseteq> {..<unat (cc_used cc)}"
    using i by (auto simp: bump_inv_def)
  define u where "u = cc_align (cc_used cc)"
  have u: "unat u = (unat (cc_used cc) + 7) div 8 * 8" using c by (simp add: u_def cc_align_unat)
  have le: "unat (cc_used cc) \<le> unat u" "unat u \<le> cap" using c(2,4) u by (auto elim!: dvdE)
  have un: "unat (u + n) = unat u + unat n" using le(2) c(3) n by (simp add: unat_word_ariths)
  have A: "A \<subseteq> {..<unat u}" using c(5) le(1) by auto
  show ?thesis
  proof (cases "cc_cap cc < u + n")
    case True
    then have "r = None \<and> cc' = cc\<lparr>cc_used := u\<rparr>" using a by (auto simp: bump_alloc_def Let_def u_def)
    with c le A show ?thesis by (simp add: bump_inv_def)
  next
    case False
    then have "r = Some u \<and> cc' = cc\<lparr>cc_used := u + n\<rparr>" using a by (auto simp: bump_alloc_def Let_def u_def)
    moreover have "unat u + unat n \<le> cap" using False un c(1) by (simp add: word_less_nat_alt)
    moreover from A have "{unat u..<unat u + unat n} \<inter> A = {}" "A \<subseteq> {..<unat u + unat n}" by auto
    ultimately show ?thesis using c un by (auto simp: bump_inv_def)
  qed
qed

lemma cold_alloc_inv:
  assumes i: "cold_inv cc A" and n: "unat n \<le> 4294967288" and a: "cold_alloc None n cc = Some (r, cc')"
  shows "block_bytes (n, r) \<inter> A = {} \<and> block_bytes (n, r) \<subseteq> {..<unat (cc_cap cc)}
    \<and> cold_inv cc' (A \<union> block_bytes (n, r)) \<and> cc_cap cc' = cc_cap cc"
proof -
  from i obtain xs where xs: "free_list xs cc" "A \<inter> free_bytes xs = {}" by (auto simp: cold_inv_def)
  have le: "unat n \<le> unat (span_size n)" using n by (simp add: span_size_unat) linarith
  show ?thesis
  proof (cases r)
    case None
    with cold_alloc_cases [OF xs(1), of n] a xs show ?thesis by (auto simp: cold_inv_def)
  next
    case (Some p)
    from cold_alloc_cases [OF xs(1), of n] a Some obtain ys where
      y: "free_list ys cc'" "cc_cap cc' = cc_cap cc" "unat p + unat (span_size n) \<le> unat (cc_cap cc)"
        "{unat p..<unat p + unat (span_size n)} \<subseteq> free_bytes xs"
        "free_bytes ys = free_bytes xs - {unat p..<unat p + unat (span_size n)}" by auto
    have sub: "block_bytes (n, r) \<subseteq> {unat p..<unat p + unat (span_size n)}" using Some le by auto
    then have "(A \<union> block_bytes (n, r)) \<inter> free_bytes ys = {}" using y(4,5) xs(2) by blast
    moreover have "block_bytes (n, r) \<subseteq> {..<unat (cc_cap cc)}" using sub y(3) by auto
    moreover have "block_bytes (n, r) \<inter> A = {}" using sub y(4) xs(2) by blast
    ultimately show ?thesis using y(1,2) by (auto simp: cold_inv_def)
  qed
qed

interpretation bump: allocator "\<lambda>n cc r cc'. bump_alloc n cc = (r, cc')" "bump_inv cap" "\<lambda>_. cap" "\<lambda>n. unat n < 2 ^ 31" for cap
  by unfold_locales (use bump_alloc_inv in auto)

interpretation cold: allocator "\<lambda>n cc r cc'. cold_alloc None n cc = Some (r, cc')" cold_inv "\<lambda>cc. unat (cc_cap cc)" "\<lambda>n. unat n \<le> 4294967288"
  by unfold_locales (use cold_alloc_inv in auto)

lemma init_cap: "unat (cc_cap (codecache_init e cap cc)) = unat cap div 8 * 8" "8 dvd unat (cc_cap (codecache_init e cap cc))"
proof -
  have "cc_cap (codecache_init e cap cc) = cap AND NOT (8 - 1)"
    by (simp only: codecache_init_def CC_ALIGN_def Let_def one_span_def split: if_split) simp
  then show "unat (cc_cap (codecache_init e cap cc)) = unat cap div 8 * 8" "8 dvd unat (cc_cap (codecache_init e cap cc))"
    by (simp_all only: clear_low3) simp
qed

lemma bump_init: "unat cap < 2 ^ 31 \<Longrightarrow> bump_inv (unat cap div 8 * 8) (codecache_init 0 cap cc) {}"
  using init_cap [of 0 cap cc] by (simp add: bump_inv_def codecache_init_def Let_def)

lemma cold_init_words:
  fixes cc :: "'a codecache_scheme" and cap :: u32
  defines "i \<equiv> codecache_init 1 cap cc"
  shows "HDR_SIZE \<le> cc_cap i \<Longrightarrow> cc_words i = (cc_words cc)(0 := cc_cap i, 4 := CC_NIL) \<and> cc_free_head i = 0"
    "\<not> HDR_SIZE \<le> cc_cap i \<Longrightarrow> cc_free_head i = CC_NIL"
  unfolding i_def by (auto simp: codecache_init_def Let_def one_span_def set_next_def set_size_def)

lemma cold_init:
  fixes cc :: "'a codecache_scheme" and cap :: u32
  defines "i \<equiv> codecache_init 1 cap cc"
  shows "free_list (if HDR_SIZE \<le> cc_cap i then [(0, cc_cap i)] else []) i"
proof -
  note w = cold_init_words [of cap cc, folded i_def] and c = init_cap(2) [of 1 cap cc, folded i_def]
  show ?thesis
  proof (cases "HDR_SIZE \<le> cc_cap i")
    case True
    then have "8 \<le> unat (cc_cap i)" by (simp add: HDR_SIZE_def word_le_nat_alt)
    with w(1) [OF True] True c show ?thesis
      by (simp add: free_list_def hdr_size_def hdr_next_def span_ok_def span_end_def al8_def apart_def)
  next
    case False
    with w(2) show ?thesis by (simp add: free_list_def)
  qed
qed

text \<open>C18: from a fresh arena of less than 2 GiB, for any sequence of requests of less than 2 GiB each, the blocks that
  the bump allocator or the free-list allocator (without eviction) hands out are pairwise disjoint and inside the arena.
  The bound is needed: a request near 4 GiB wraps the bump allocator's comparison and is granted.\<close>

theorem blocks_never_overlap:
  fixes cc cc' :: codecache
  assumes "unat cap < 2 ^ 31" "\<forall>b\<in>set bs. unat (fst b) < 2 ^ 31"
    "alloc_run (\<lambda>n cc r cc'. bump_alloc n cc = (r, cc')) (codecache_init 0 cap cc) bs cc'
      \<or> alloc_run (\<lambda>n cc r cc'. cold_alloc None n cc = Some (r, cc')) (codecache_init 1 cap cc) bs cc'"
  shows "sorted_wrt (\<lambda>b c. block_bytes b \<inter> block_bytes c = {}) bs \<and> (\<forall>b\<in>set bs. block_bytes b \<subseteq> {..<unat cap})"
proof -
  have le: "unat cap div 8 * 8 \<le> unat cap" by simp
  from assms(3) show ?thesis
  proof
    assume r: "alloc_run (\<lambda>n cc r cc'. bump_alloc n cc = (r, cc')) (codecache_init 0 cap cc) bs cc'"
    from bump.run_disjoint [OF r bump_init [OF assms(1)] assms(2)] le show ?thesis by fastforce
  next
    assume r: "alloc_run (\<lambda>n cc r cc'. cold_alloc None n cc = Some (r, cc')) (codecache_init 1 cap cc) bs cc'"
    have "cold_inv (codecache_init 1 cap cc) {}" using cold_init [of cap cc] by (auto simp: cold_inv_def)
    from cold.run_disjoint [OF r this] assms(2) le show ?thesis unfolding init_cap by fastforce
  qed
qed

theorem blocks_never_overlap_witness:
  "let bs = [(100, Some 0), (20, Some 104), (30, None)]
   in sorted_wrt (\<lambda>b c. block_bytes b \<inter> block_bytes c = {}) bs \<and> (\<forall>b\<in>set bs. block_bytes b \<subseteq> {..<128})"
proof -
  let ?cc = "codecache_init 0 128 \<lparr>cc_used = 0, cc_cap = 0, cc_free_head = 0, cc_words = \<lambda>_. 0\<rparr>"
  let ?bs = "[(100, Some 0), (20, Some 104), (30, None)] :: (u32 \<times> u32 option) list"
  note d = codecache_init_def CC_ALIGN_def bump_alloc_def cc_align_def Let_def
  let ?st = "\<lambda>u. \<lparr>cc_used = u, cc_cap = 128, cc_free_head = CC_NIL, cc_words = \<lambda>_. 0\<rparr>"
  have s: "bump_alloc 100 ?cc = (Some 0, ?st 100)" "bump_alloc 20 (?st 100) = (Some 104, ?st 124)"
    "bump_alloc 30 (?st 124) = (None, ?st 128)" by (simp_all add: d)
  have "alloc_run (\<lambda>n cc r cc'. bump_alloc n cc = (r, cc')) ?cc ?bs (?st 128)"
    by (rule alloc_one, rule s(1), rule alloc_one, rule s(2), rule alloc_one, rule s(3), rule alloc_none)
  with blocks_never_overlap [of 128 ?bs] show ?thesis by (auto simp: Let_def)
qed

section \<open>The ring\<close>

lemma ring_alloc_spec:
  fixes cc :: "'a codecache_scheme"
  assumes c: "unat (cc_cap cc) < 2 ^ 31" "unat (cc_used cc) \<le> unat (cc_cap cc)" "al8 (cc_used cc)"
    and le: "cc_align n \<le> cc_cap cc"
  obtains p where "al8 p" "unat p + unat (cc_align n) \<le> unat (cc_cap cc)"
    "unat (p + cc_align n) = unat p + unat (cc_align n)" "p = cc_used cc \<or> p = 0"
    "ring_alloc (Some f) n cc = map_option (\<lambda>c. (Some p, c\<lparr>cc_used := cc_used c + cc_align n\<rparr>))
      (f p (p + cc_align n) (cc\<lparr>cc_used := p\<rparr>))"
proof -
  let ?n = "cc_align n"
  have le': "unat ?n \<le> unat (cc_cap cc)" using le by (simp add: word_le_nat_alt)
  have nl: "\<not> cc_cap cc < ?n" using le by simp
  have u: "unat (cc_used cc + ?n) = unat (cc_used cc) + unat ?n" using c le' by (simp add: unat_word_ariths)
  have m: "Option.bind x (\<lambda>c. Some (g c)) = map_option g x" for x :: "'a codecache_scheme option" and g :: "'a codecache_scheme \<Rightarrow> 'b"
    by (cases x) simp_all
  show ?thesis
  proof (cases "cc_cap cc < cc_used cc + ?n")
    case True
    then show ?thesis using nl le' by (intro that [of 0]) (simp_all add: ring_alloc_def Let_def al8_def m)
  next
    case False
    moreover from False have "unat (cc_used cc) + unat ?n \<le> unat (cc_cap cc)"
      by (simp add: u [symmetric] word_le_nat_alt [symmetric])
    ultimately show ?thesis using nl u c(3)
      by (intro that [of "cc_used cc"]) (simp_all add: ring_alloc_def Let_def m)
  qed
qed

text \<open>A request near \<open>2^32\<close> wraps in the bump allocator and is granted although it exceeds the arena.\<close>

lemma bump_alloc_wraps:
  "bump_alloc 0xFFFFFFF8 \<lparr>cc_used = 16, cc_cap = 64, cc_free_head = CC_NIL, cc_words = w\<rparr>
   = (Some 16, \<lparr>cc_used = 8, cc_cap = 64, cc_free_head = CC_NIL, cc_words = w\<rparr>)"
  by (simp add: bump_alloc_def cc_align_def CC_ALIGN_def)

end
