(* ===== verification/Block.thy ===== *)
theory Block
  imports Codecache Cpu Interp
begin

text \<open>
  The data of the dispatcher: \<open>gbjit_block\<close> of src/jit/codegen.h and \<open>gbjit_dispatcher\<close> of
  src/jit/dispatcher.h.

  A \<open>gbjit_block *\<close> is a block reference. \<open>d_blk\<close> is what the reference points to and \<open>d_live\<close> says
  whether the block is allocated; freeing a block leaves its contents behind, so that reading through
  a dangling reference is possible in the model and has to be excluded by an invariant. The linked
  lists of bucket nodes and SMC page nodes are lists of references; their nodes are private to the
  dispatcher and the host allocator is taken to succeed on them, as in the code.

  The dispatcher extends the code cache it contains. The run loop's file-static
  \<open>s_run_prev\<close> is a field. The statistics counters are those of the build without DEBUG, where
  GBJIT_STAT_INC is empty; the chain patching fields \<open>chain_lit_off\<close> and \<open>n_chain_lit\<close> are never
  set and are left out.
\<close>

type_synonym bref = nat

definition GBJIT_CHAIN_PREDICTOR_WAYS :: nat where "GBJIT_CHAIN_PREDICTOR_WAYS = 2"
definition GBJIT_BLOCK_BUCKETS :: u32 where "GBJIT_BLOCK_BUCKETS = 1024"
definition GBJIT_SMC_PAGE_SHIFT :: nat where "GBJIT_SMC_PAGE_SHIFT = 8"
definition GBJIT_SMC_PAGE_COUNT :: u32 where "GBJIT_SMC_PAGE_COUNT = 256"

record gbjit_block =
  gb_pc_start :: u16
  gb_pc_end :: u16
  n_ops :: u32
  blk_code :: u32 \<comment> \<open>\<open>code - cc.base\<close>\<close>
  code_size :: u32
  entry_off :: u32
  predicted_next :: "bref option array"
  predicted_next_pc :: "u16 array"
  predicted_next_victim :: u8
  succ_pc :: "u16 array"
  tag :: u64
  self_loop :: bool

record dispatcher = codecache +
  d_cpu :: cpu_state
  d_blk :: "bref \<Rightarrow> gbjit_block"
  d_live :: "bref \<Rightarrow> bool"
  buckets :: "bref list array"
  smc_pages :: "bref list array"
  interp_fallback :: bool
  no_cache :: bool
  prefetch_enabled :: bool
  prefetch_depth :: u8
  evict_on_full :: bool
  jit_epoch :: u64
  run_prev :: "bref option"
  arena_set :: bool \<comment> \<open>\<open>d->arena != NULL\<close>\<close>

abbreviation d_mmu :: "dispatcher \<Rightarrow> mmu" where
  "d_mmu d \<equiv> cpu_mmu (d_cpu d)"

definition set_cpu :: "cpu_state \<Rightarrow> dispatcher \<Rightarrow> dispatcher" where
  "set_cpu c d = d\<lparr>d_cpu := c\<rparr>"

definition set_mmu :: "mmu \<Rightarrow> dispatcher \<Rightarrow> dispatcher" where
  "set_mmu m d = d\<lparr>d_cpu := (d_cpu d)\<lparr>cpu_mmu := m\<rparr>\<rparr>"

definition set_blk :: "bref \<Rightarrow> gbjit_block \<Rightarrow> dispatcher \<Rightarrow> dispatcher" where
  "set_blk b v d = d\<lparr>d_blk := (d_blk d)(b := v)\<rparr>"

definition set_tag :: "bref \<Rightarrow> u64 \<Rightarrow> dispatcher \<Rightarrow> dispatcher" where
  "set_tag b t d = set_blk b ((d_blk d b)\<lparr>tag := t\<rparr>) d"

text \<open>\<open>gbjit_block_free\<close>\<close>

definition gbjit_block_free :: "bref \<Rightarrow> dispatcher \<Rightarrow> dispatcher" where
  "gbjit_block_free b d = d\<lparr>d_live := (d_live d)(b := False)\<rparr>"

text \<open>\<open>codecache_free\<close> of the chosen allocator, under \<open>#if GBJIT_JIT_EVICT\<close>; \<open>evict\<close> is that macro.\<close>

definition cc_release :: "nat \<Rightarrow> u32 \<Rightarrow> u32 \<Rightarrow> dispatcher \<Rightarrow> dispatcher option" where
  "cc_release evict p sz d = (if evict = 1 then cold_free p sz d
     else if evict = 2 then Some (ring_free p sz d) else Some d)"

definition cc_reset :: "nat \<Rightarrow> dispatcher \<Rightarrow> dispatcher" where
  "cc_reset evict d = (if evict = 1 then cold_reset d else if evict = 2 then ring_reset d else bump_reset d)"

end
