(* ===== verification/Dispatcher.thy ===== *)
theory Dispatcher
  imports Block
begin

text \<open>
  The block table of src/jit/dispatcher.c: lookup and insertion, the registration of blocks on the
  256-byte pages of their source, removal, invalidation, eviction and shutdown. \<open>evict\<close> is the macro
  GBJIT_JIT_EVICT that selects the code cache's allocator. Loops over arrays are folds over the range
  of indices. \<open>None\<close> is not returning (a damaged free list).
\<close>

primrec fold_opt :: "('x \<Rightarrow> 's \<Rightarrow> 's option) \<Rightarrow> 'x list \<Rightarrow> 's \<Rightarrow> 's option" where
  "fold_opt f [] s = Some s"
| "fold_opt f (x # xs) s = Option.bind (f x s) (fold_opt f xs)"

section \<open>The bucket table\<close>

definition bucket_of :: "u16 \<Rightarrow> nat" where
  "bucket_of pc = unat ((ucast pc :: u32) AND (GBJIT_BLOCK_BUCKETS - 1))"

definition find_block :: "dispatcher \<Rightarrow> u16 \<Rightarrow> bref option" where
  "find_block d pc = find (\<lambda>b. gb_pc_start (d_blk d b) = pc) (buckets d (bucket_of pc))"

text \<open>The pages a block is registered on, from \<open>first_page\<close> to \<open>last_page\<close>.\<close>

definition page_of :: "u16 \<Rightarrow> u32" where
  "page_of a = drop_bit GBJIT_SMC_PAGE_SHIFT (ucast a)"

definition first_page :: "gbjit_block \<Rightarrow> u32" where
  "first_page B = page_of (gb_pc_start B)"

definition last_page :: "gbjit_block \<Rightarrow> u32" where
  "last_page B =
     (let p = (if 0 < gb_pc_end B then page_of (gb_pc_end B - 1) else first_page B)
      in if GBJIT_SMC_PAGE_COUNT \<le> p then GBJIT_SMC_PAGE_COUNT - 1 else p)"

definition pages_of :: "gbjit_block \<Rightarrow> nat list" where
  "pages_of B = [unat (first_page B)..<Suc (unat (last_page B))]"

definition register_page :: "bref \<Rightarrow> nat \<Rightarrow> dispatcher \<Rightarrow> dispatcher" where
  "register_page b p d =
     (let d = d\<lparr>smc_pages := (smc_pages d)(p := b # smc_pages d p)\<rparr>; m = d_mmu d
      in if jit_page_state m p = 0
         then set_mmu (m\<lparr>jit_page_state := (jit_page_state m)(p := 1)\<rparr>) d else d)"

definition insert_block :: "nat \<Rightarrow> bref \<Rightarrow> dispatcher \<Rightarrow> dispatcher" where
  "insert_block evict b d =
     (let idx = bucket_of (gb_pc_start (d_blk d b));
          d = (if evict = 1 then set_tag b (jit_epoch d + 1) (d\<lparr>jit_epoch := jit_epoch d + 1\<rparr>) else d);
          d = d\<lparr>buckets := (buckets d)(idx := b # buckets d idx)\<rparr>
      in fold (register_page b) (pages_of (d_blk d b)) d)"

section \<open>Removal\<close>

definition remove_block_from_buckets :: "bref \<Rightarrow> dispatcher \<Rightarrow> dispatcher" where
  "remove_block_from_buckets b d =
     (let idx = bucket_of (gb_pc_start (d_blk d b))
      in d\<lparr>buckets := (buckets d)(idx := remove1 b (buckets d idx))\<rparr>)"

definition remove_block_from_smc :: "bref \<Rightarrow> dispatcher \<Rightarrow> dispatcher" where
  "remove_block_from_smc b d =
     fold (\<lambda>p d. d\<lparr>smc_pages := (smc_pages d)(p := removeAll b (smc_pages d p))\<rparr>)
       (pages_of (d_blk d b)) d"

definition clear_way :: "bref \<Rightarrow> nat \<Rightarrow> gbjit_block \<Rightarrow> gbjit_block" where
  "clear_way b s B =
     (if predicted_next B s = Some b
      then B\<lparr>predicted_next := (predicted_next B)(s := None),
             predicted_next_pc := (predicted_next_pc B)(s := 0)\<rparr>
      else B)"

definition clear_predictions :: "bref \<Rightarrow> gbjit_block \<Rightarrow> gbjit_block" where
  "clear_predictions b B = fold (clear_way b) [0..<GBJIT_CHAIN_PREDICTOR_WAYS] B"

definition clear_dangling_predictions :: "bref \<Rightarrow> dispatcher \<Rightarrow> dispatcher" where
  "clear_dangling_predictions b d =
     fold (\<lambda>i d. fold (\<lambda>x d. set_blk x (clear_predictions b (d_blk d x)) d) (buckets d i) d)
       [0..<unat GBJIT_BLOCK_BUCKETS] d"

text \<open>The three removals that precede every release of a block.\<close>

definition unlink_block :: "bref \<Rightarrow> dispatcher \<Rightarrow> dispatcher" where
  "unlink_block b d = clear_dangling_predictions b (remove_block_from_buckets b (remove_block_from_smc b d))"

section \<open>Invalidation\<close>

definition invalidate_block :: "nat \<Rightarrow> bref \<Rightarrow> dispatcher \<Rightarrow> dispatcher option" where
  "invalidate_block evict b d =
     (let d = unlink_block b d
      in map_option (gbjit_block_free b) (cc_release evict (blk_code (d_blk d b)) (code_size (d_blk d b)) d))"

definition gbjit_dispatcher_invalidate_addr :: "nat \<Rightarrow> u16 \<Rightarrow> dispatcher \<Rightarrow> dispatcher option" where
  "gbjit_dispatcher_invalidate_addr evict a d =
     (let page = page_of a
      in if GBJIT_SMC_PAGE_COUNT \<le> page then Some d
         else fold_opt (invalidate_block evict) (smc_pages d (unat page))
                (d\<lparr>smc_pages := (smc_pages d)(unat page := [])\<rparr>))"

text \<open>The two loops \<open>evict_all\<close> and \<open>gbjit_dispatcher_shutdown\<close> share.\<close>

definition drop_tables :: "dispatcher \<Rightarrow> dispatcher" where
  "drop_tables d =
     (let d = fold (\<lambda>i d. (fold gbjit_block_free (buckets d i) d)\<lparr>buckets := (buckets d)(i := [])\<rparr>)
                [0..<unat GBJIT_BLOCK_BUCKETS] d
      in fold (\<lambda>p d. d\<lparr>smc_pages := (smc_pages d)(p := [])\<rparr>) [0..<unat GBJIT_SMC_PAGE_COUNT] d)"

definition evict_all :: "nat \<Rightarrow> dispatcher \<Rightarrow> dispatcher" where
  "evict_all evict d = cc_reset evict (drop_tables d)"

definition gbjit_dispatcher_shutdown :: "nat \<Rightarrow> dispatcher \<Rightarrow> dispatcher" where
  "gbjit_dispatcher_shutdown evict d =
     (let d = drop_tables d in (if arena_set d then cc_reset evict d else d)\<lparr>arena_set := False\<rparr>)"

section \<open>Eviction\<close>

definition all_blocks :: "dispatcher \<Rightarrow> bref list" where
  "all_blocks d = concat (map (buckets d) [0..<unat GBJIT_BLOCK_BUCKETS])"

definition colder :: "dispatcher \<Rightarrow> bref \<Rightarrow> bref option \<Rightarrow> bref option" where
  "colder d b v = (case v of None \<Rightarrow> Some b
     | Some x \<Rightarrow> if tag (d_blk d b) < tag (d_blk d x) then Some b else v)"

definition drop_prev :: "bref \<Rightarrow> dispatcher \<Rightarrow> dispatcher" where
  "drop_prev b d = (if run_prev d = Some b then d\<lparr>run_prev := None\<rparr> else d)"

definition dispatcher_evict_coldest :: "dispatcher \<Rightarrow> (u32 \<times> dispatcher) option" where
  "dispatcher_evict_coldest d =
     (case fold (colder d) (all_blocks d) None of
        None \<Rightarrow> Some (0, d)
      | Some v \<Rightarrow>
          let off = blk_code (d_blk d v); sz = code_size (d_blk d v);
              d = gbjit_block_free v (drop_prev v (unlink_block v d))
          in map_option (\<lambda>d. (sz, d)) (cold_free off sz d))"

definition overlaps :: "u32 \<Rightarrow> u32 \<Rightarrow> gbjit_block \<Rightarrow> bool" where
  "overlaps start finish B \<longleftrightarrow> blk_code B < finish \<and> start < blk_code B + code_size B"

partial_function (option) dispatcher_evict_range :: "u32 \<Rightarrow> u32 \<Rightarrow> dispatcher \<Rightarrow> dispatcher option" where
  "dispatcher_evict_range start finish d =
     (case find (\<lambda>b. overlaps start finish (d_blk d b)) (all_blocks d) of
        None \<Rightarrow> Some d
      | Some v \<Rightarrow> dispatcher_evict_range start finish (gbjit_block_free v (drop_prev v (unlink_block v d))))"

section \<open>Initialisation\<close>

text \<open>\<open>arena_ok\<close> is whether \<open>ensure_arena_exec\<close> succeeds and \<open>cap\<close> is GBJIT_ARENA_BYTES; \<open>d0\<close> is the zeroed
  structure.\<close>

definition gbjit_dispatcher_init :: "nat \<Rightarrow> bool \<Rightarrow> u32 \<Rightarrow> cpu_state \<Rightarrow> dispatcher \<Rightarrow> bool \<times> dispatcher" where
  "gbjit_dispatcher_init evict arena_ok cap c d0 =
     (let d = d0\<lparr>cc_used := 0, cc_cap := 0, cc_free_head := 0, d_cpu := c, buckets := (\<lambda>_. []), smc_pages := (\<lambda>_. []),
               interp_fallback := False, no_cache := False, prefetch_enabled := False, prefetch_depth := 0,
               evict_on_full := False, jit_epoch := 0, arena_set := False\<rparr>
      in if \<not> arena_ok then (False, d)
         else (True, (codecache_init evict cap (d\<lparr>arena_set := True\<rparr>))\<lparr>interp_fallback := False, prefetch_enabled := True,
                       prefetch_depth := 4, evict_on_full := False\<rparr>))"

end
