(* ===== verification/Dispatcher_Laws.thy ===== *)
theory Dispatcher_Laws
  imports Dispatcher Codecache_Laws
begin

text \<open>
  Lemmas about the block table. First the loops in closed form, then the invariants: \<open>table_inv\<close> (hash
  buckets, page registers and successor predictions agree with each other and hold only live blocks)
  and \<open>arena_inv\<close> (with the coldness allocator, blocks and free list share the arena without overlap). Every
  removal, invalidation, insertion and eviction preserves them; \<open>without Bs d d'\<close> says that exactly the
  blocks \<open>Bs\<close> are gone and the others unchanged up to their predictions.
\<close>

section \<open>Closed forms of the loops\<close>

definition tbl :: "dispatcher \<Rightarrow> bref set" where
  "tbl d = (\<Union>i<1024. set (buckets d i))"

lemma buckets_count [simp]: "unat GBJIT_BLOCK_BUCKETS = 1024" "unat GBJIT_SMC_PAGE_COUNT = 256"
  by (simp_all add: GBJIT_BLOCK_BUCKETS_def GBJIT_SMC_PAGE_COUNT_def)

lemma set_all_blocks [simp]: "set (all_blocks d) = tbl d"
  by (auto simp: all_blocks_def tbl_def)

lemma bucket_of_less [simp]: "bucket_of pc < 1024"
proof -
  have "(ucast pc :: u32) AND (1024 - 1) \<le> 1023" by (rule word_and_le1 [THEN order_trans]) simp
  then show ?thesis by (simp add: bucket_of_def GBJIT_BLOCK_BUCKETS_def word_le_nat_alt)
qed

lemma fold_pages:
  assumes "\<And>x. f (f x) = f x"
  shows "fold (\<lambda>p d. d\<lparr>smc_pages := (smc_pages d)(p := f (smc_pages d p))\<rparr>) ps d
    = d\<lparr>smc_pages := (\<lambda>p. if p \<in> set ps then f (smc_pages d p) else smc_pages d p)\<rparr>"
proof (induction ps arbitrary: d)
  case Nil
  then show ?case by simp
next
  case (Cons q ps)
  show ?case unfolding fold_Cons o_def Cons.IH using assms by (auto intro!: dispatcher.equality simp: fun_eq_iff)
qed

lemma remove_smc_form: "remove_block_from_smc b d
  = d\<lparr>smc_pages := (\<lambda>p. if p \<in> set (pages_of (d_blk d b)) then removeAll b (smc_pages d p) else smc_pages d p)\<rparr>"
  unfolding remove_block_from_smc_def by (rule fold_pages) simp

lemma fold_blocks:
  assumes "\<And>B. g (g B) = g B"
  shows "fold (\<lambda>x d. set_blk x (g (d_blk d x)) d) xs d
    = d\<lparr>d_blk := (\<lambda>x. if x \<in> set xs then g (d_blk d x) else d_blk d x)\<rparr>"
proof (induction xs arbitrary: d)
  case Nil
  then show ?case by simp
next
  case (Cons y xs)
  show ?case unfolding fold_Cons o_def Cons.IH using assms
    by (auto intro!: dispatcher.equality simp: fun_eq_iff set_blk_def)
qed

lemma fold_bucket_blocks:
  assumes "\<And>B. g (g B) = g B"
  shows "fold (\<lambda>i d. fold (\<lambda>x d. set_blk x (g (d_blk d x)) d) (buckets d i) d) is d
    = d\<lparr>d_blk := (\<lambda>x. if x \<in> (\<Union>i\<in>set is. set (buckets d i)) then g (d_blk d x) else d_blk d x)\<rparr>"
proof (induction "is" arbitrary: d)
  case Nil
  then show ?case by simp
next
  case (Cons j "is")
  show ?case unfolding fold_Cons o_def Cons.IH unfolding fold_blocks [OF assms] using assms
    by (auto intro!: dispatcher.equality simp: fun_eq_iff)
qed

lemma clear_predictions_form: "clear_predictions b B = clear_way b 1 (clear_way b 0 B)"
  by (simp add: clear_predictions_def GBJIT_CHAIN_PREDICTOR_WAYS_def upt_rec numeral_2_eq_2)

lemma clear_predictions_idem: "clear_predictions b (clear_predictions b B) = clear_predictions b B"
  by (auto simp: clear_predictions_form clear_way_def)

lemma clear_dangling_form: "clear_dangling_predictions b d
  = d\<lparr>d_blk := (\<lambda>x. if x \<in> tbl d then clear_predictions b (d_blk d x) else d_blk d x)\<rparr>"
  unfolding clear_dangling_predictions_def fold_bucket_blocks [of "clear_predictions b", OF clear_predictions_idem] tbl_def
  by (simp add: atLeast0LessThan)

text \<open>What clearing predictions leaves alone, and what it achieves.\<close>

definition same_block :: "gbjit_block \<Rightarrow> gbjit_block \<Rightarrow> bool" where
  "same_block B B' \<longleftrightarrow> gb_pc_start B' = gb_pc_start B \<and> gb_pc_end B' = gb_pc_end B
     \<and> n_ops B' = n_ops B \<and> blk_code B' = blk_code B \<and> code_size B' = code_size B \<and> entry_off B' = entry_off B
     \<and> succ_pc B' = succ_pc B \<and> tag B' = tag B \<and> self_loop B' = self_loop B"

lemma same_block_refl [simp]: "same_block B B"
  by (simp add: same_block_def)

lemma same_block_trans: "same_block A B \<Longrightarrow> same_block B C \<Longrightarrow> same_block A C"
  by (simp add: same_block_def)

lemma clear_same: "same_block B (clear_predictions b B)"
  by (simp add: same_block_def clear_predictions_form clear_way_def)

lemma clear_next:
  "s < GBJIT_CHAIN_PREDICTOR_WAYS \<Longrightarrow> predicted_next (clear_predictions b B) s = Some x \<longleftrightarrow>
     predicted_next B s = Some x \<and> x \<noteq> b"
  "s < GBJIT_CHAIN_PREDICTOR_WAYS \<Longrightarrow> predicted_next (clear_predictions b B) s = Some x \<Longrightarrow>
     predicted_next_pc (clear_predictions b B) s = predicted_next_pc B s"
  by (auto simp: clear_predictions_form clear_way_def GBJIT_CHAIN_PREDICTOR_WAYS_def less_Suc_eq numeral_2_eq_2
      split: if_splits)

lemma same_block_pages: "same_block B B' \<Longrightarrow> pages_of B' = pages_of B"
  by (simp add: same_block_def pages_of_def first_page_def last_page_def)

section \<open>The table invariant\<close>

text \<open>
  \<open>table_inv ex d\<close>: the buckets hold live blocks under the hash of their PC, no PC twice; every page
  lists exactly the blocks whose source overlaps it, except for the page \<open>ex\<close> whose list is detached;
  and the successor predictions of cached blocks point to cached blocks that start at the predicted PC.
\<close>

definition buckets_ok :: "dispatcher \<Rightarrow> bool" where
  "buckets_ok d \<longleftrightarrow> (\<forall>i<1024. distinct (buckets d i)
       \<and> (\<forall>b\<in>set (buckets d i). d_live d b \<and> bucket_of (gb_pc_start (d_blk d b)) = i))
     \<and> inj_on (\<lambda>b. gb_pc_start (d_blk d b)) (tbl d)"

definition pages_ok :: "nat option \<Rightarrow> dispatcher \<Rightarrow> bool" where
  "pages_ok ex d \<longleftrightarrow> (\<forall>p<256. if ex = Some p then smc_pages d p = []
     else distinct (smc_pages d p) \<and> set (smc_pages d p) = {b \<in> tbl d. p \<in> set (pages_of (d_blk d b))})"

definition predictions_ok :: "dispatcher \<Rightarrow> bool" where
  "predictions_ok d \<longleftrightarrow> (\<forall>b\<in>tbl d. \<forall>s<GBJIT_CHAIN_PREDICTOR_WAYS. \<forall>x.
     predicted_next (d_blk d b) s = Some x \<longrightarrow> x \<in> tbl d \<and> gb_pc_start (d_blk d x) = predicted_next_pc (d_blk d b) s)"

definition table_inv :: "nat option \<Rightarrow> dispatcher \<Rightarrow> bool" where
  "table_inv ex d \<longleftrightarrow> buckets_ok d \<and> pages_ok ex d \<and> predictions_ok d"

lemma find_SomeD: "find P xs = Some x \<Longrightarrow> x \<in> set xs \<and> P x"
  by (auto simp: find_Some_iff)

lemma tblI: "i < 1024 \<Longrightarrow> b \<in> set (buckets d i) \<Longrightarrow> b \<in> tbl d"
  by (auto simp: tbl_def)

lemma tbl_bucket: "buckets_ok d \<Longrightarrow> b \<in> tbl d \<longleftrightarrow> b \<in> set (buckets d (bucket_of (gb_pc_start (d_blk d b))))"
  by (auto simp: buckets_ok_def tbl_def intro: bucket_of_less)

lemma find_block_correct:
  assumes "buckets_ok d"
  shows "find_block d pc = Some b \<longleftrightarrow> b \<in> tbl d \<and> gb_pc_start (d_blk d b) = pc"
proof
  assume "find_block d pc = Some b"
  then have "b \<in> set (buckets d (bucket_of pc))" "gb_pc_start (d_blk d b) = pc"
    by (auto simp: find_block_def dest: find_SomeD)
  then show "b \<in> tbl d \<and> gb_pc_start (d_blk d b) = pc" by (auto intro: tblI bucket_of_less)
next
  assume b: "b \<in> tbl d \<and> gb_pc_start (d_blk d b) = pc"
  then have "b \<in> set (buckets d (bucket_of pc))" using assms tbl_bucket by blast
  with b have "find_block d pc \<noteq> None" by (auto simp: find_block_def find_None_iff)
  then obtain x where x: "find_block d pc = Some x" by blast
  then have "x \<in> tbl d" "gb_pc_start (d_blk d x) = pc"
    by (auto simp: find_block_def dest!: find_SomeD intro: tblI [OF bucket_of_less])
  with b assms have "x = b" by (auto simp: buckets_ok_def inj_on_def)
  with x show "find_block d pc = Some b" by simp
qed

text \<open>Unlinking and freeing one block.\<close>

definition drop_block :: "bref \<Rightarrow> dispatcher \<Rightarrow> dispatcher" where
  "drop_block b d = gbjit_block_free b (unlink_block b d)"

lemma unlink_form: "unlink_block b d = d
    \<lparr>buckets := (buckets d)(bucket_of (gb_pc_start (d_blk d b)) := remove1 b (buckets d (bucket_of (gb_pc_start (d_blk d b))))),
     smc_pages := (\<lambda>p. if p \<in> set (pages_of (d_blk d b)) then removeAll b (smc_pages d p) else smc_pages d p),
     d_blk := (\<lambda>x. if x \<in> tbl (remove_block_from_buckets b d) then clear_predictions b (d_blk d x) else d_blk d x)\<rparr>"
  by (rule dispatcher.equality)
    (simp_all add: unlink_block_def clear_dangling_form remove_smc_form remove_block_from_buckets_def Let_def tbl_def
      cong: if_cong)

lemma tbl_remove:
  assumes "buckets_ok d"
  shows "tbl (remove_block_from_buckets b d) = tbl d - {b}"
proof -
  let ?k = "bucket_of (gb_pc_start (d_blk d b))"
  have "\<forall>i<1024. distinct (buckets d i)" "\<forall>i<1024. b \<in> set (buckets d i) \<longrightarrow> i = ?k"
    using assms by (auto simp: buckets_ok_def)
  then show ?thesis
    by (auto simp: tbl_def remove_block_from_buckets_def Let_def set_remove1_eq split: if_splits)
qed

lemma drop_block_parts:
  assumes "buckets_ok d"
  shows "tbl (drop_block b d) = tbl d - {b}"
    "d_blk (drop_block b d) = (\<lambda>x. if x \<in> tbl d - {b} then clear_predictions b (d_blk d x) else d_blk d x)"
    "\<And>x. same_block (d_blk d x) (d_blk (drop_block b d) x)"
    "d_cpu (drop_block b d) = d_cpu d" "run_prev (drop_block b d) = run_prev d"
    "codecache.truncate (drop_block b d) = codecache.truncate d"
proof -
  show t: "tbl (drop_block b d) = tbl d - {b}"
    using tbl_remove [OF assms, of b] by (simp add: drop_block_def gbjit_block_free_def unlink_form tbl_def remove_block_from_buckets_def Let_def)
  show f: "d_blk (drop_block b d) = (\<lambda>x. if x \<in> tbl d - {b} then clear_predictions b (d_blk d x) else d_blk d x)"
    by (simp add: drop_block_def gbjit_block_free_def unlink_form tbl_remove [OF assms])
  show "\<And>x. same_block (d_blk d x) (d_blk (drop_block b d) x)" by (simp add: f clear_same)
  show "d_cpu (drop_block b d) = d_cpu d" "run_prev (drop_block b d) = run_prev d"
    "codecache.truncate (drop_block b d) = codecache.truncate d"
    by (simp_all add: drop_block_def gbjit_block_free_def unlink_form codecache.defs)
qed

lemma drop_block_inv:
  assumes t: "table_inv ex d" and b: "b \<in> tbl d"
  shows "table_inv ex (drop_block b d)"
proof -
  let ?d = "drop_block b d"
  have bo: "buckets_ok d" and po: "pages_ok ex d" and pr: "predictions_ok d" using t by (simp_all add: table_inv_def)
  note parts = drop_block_parts [where b = b, OF bo]
  have st: "gb_pc_start (d_blk ?d x) = gb_pc_start (d_blk d x)" "pages_of (d_blk ?d x) = pages_of (d_blk d x)" for x
    using parts(3) [of x] same_block_pages [OF parts(3) [of x]] by (simp_all add: same_block_def)
  have sub: "set (buckets ?d i) \<subseteq> set (buckets d i) \<and> (distinct (buckets d i) \<longrightarrow> distinct (buckets ?d i))" for i
    using set_remove1_subset [of b "buckets d i"] by (auto simp: drop_block_def gbjit_block_free_def unlink_form)
  have live: "d_live ?d x \<longleftrightarrow> d_live d x \<and> x \<noteq> b" for x by (simp add: drop_block_def gbjit_block_free_def unlink_form)
  have "buckets_ok ?d"
    unfolding buckets_ok_def parts(1) st live
  proof (intro conjI allI impI ballI)
    show "inj_on (\<lambda>x. gb_pc_start (d_blk d x)) (tbl d - {b})" using bo by (auto simp: buckets_ok_def inj_on_def)
  qed (use bo sub parts(1) tblI [of _ _ ?d] in \<open>fastforce simp: buckets_ok_def\<close>)+
  moreover have "pages_ok ex ?d"
    using po unfolding pages_ok_def st parts(1)
    by (auto simp: drop_block_def gbjit_block_free_def unlink_form distinct_removeAll split: if_splits)
  moreover have "predictions_ok ?d"
    using pr unfolding predictions_ok_def st parts(1) parts(2)
    by (auto simp: clear_next clear_same [unfolded same_block_def])
  ultimately show ?thesis by (simp add: table_inv_def)
qed

section \<open>The arena\<close>

text \<open>With the coldness allocator the cached blocks occupy disjoint parts of the arena outside the free list.\<close>

definition blk_bytes :: "gbjit_block \<Rightarrow> nat set" where
  "blk_bytes B = {unat (blk_code B)..<unat (blk_code B) + unat (span_size (code_size B))}"

definition arena_inv :: "nat \<Rightarrow> dispatcher \<Rightarrow> bool" where
  "arena_inv evict d \<longleftrightarrow> evict = 1 \<longrightarrow> (\<exists>xs. free_list xs d
     \<and> (\<forall>b\<in>tbl d. al8 (blk_code (d_blk d b)) \<and> blk_bytes (d_blk d b) \<subseteq> {..<unat (cc_cap d)}
          \<and> blk_bytes (d_blk d b) \<inter> free_bytes xs = {})
     \<and> (\<forall>b\<in>tbl d. \<forall>c\<in>tbl d. b \<noteq> c \<longrightarrow> blk_bytes (d_blk d b) \<inter> blk_bytes (d_blk d c) = {}))"

lemma more_eq:
  assumes "codecache.more d' = codecache.more (d :: dispatcher)"
  shows "d_cpu d' = d_cpu d" "d_blk d' = d_blk d" "d_live d' = d_live d" "buckets d' = buckets d"
    "smc_pages d' = smc_pages d" "interp_fallback d' = interp_fallback d" "no_cache d' = no_cache d"
    "prefetch_enabled d' = prefetch_enabled d" "prefetch_depth d' = prefetch_depth d"
    "evict_on_full d' = evict_on_full d" "jit_epoch d' = jit_epoch d" "run_prev d' = run_prev d"
  using assms by (cases d; cases d'; simp)+

lemma more_table:
  assumes "codecache.more d' = codecache.more (d :: dispatcher)"
  shows "tbl d' = tbl d" "table_inv ex d' = table_inv ex d"
  by (simp_all add: tbl_def table_inv_def buckets_ok_def pages_ok_def predictions_ok_def more_eq [OF assms])

lemma blk_bytes_same: "same_block B B' \<Longrightarrow> blk_bytes B' = blk_bytes B"
  by (simp add: same_block_def blk_bytes_def)

lemma free_list_trunc: "codecache.truncate d' = codecache.truncate d \<Longrightarrow> free_list xs d' = free_list xs d"
  by (simp add: codecache.defs free_list_def)

text \<open>What it means for a block to be gone and everything else to be kept.\<close>

definition without :: "bref set \<Rightarrow> dispatcher \<Rightarrow> dispatcher \<Rightarrow> bool" where
  "without Bs d d' \<longleftrightarrow> tbl d' = tbl d - Bs \<and> d_cpu d' = d_cpu d \<and> (\<forall>x. same_block (d_blk d x) (d_blk d' x))
     \<and> cc_cap d' = cc_cap d \<and> cc_used d' = cc_used d"

lemma without_refl: "without {} d d"
  by (simp add: without_def)

lemma without_trans: "without Bs d d' \<Longrightarrow> without Cs d' d'' \<Longrightarrow> without (Bs \<union> Cs) d d''"
  by (auto simp: without_def same_block_def)

lemma release_ok:
  assumes t: "table_inv ex d" and a: "arena_inv evict d" and b: "b \<in> tbl d"
  shows "\<exists>d'. cc_release evict (blk_code (d_blk d b)) (code_size (d_blk d b)) (drop_block b d) = Some d'
    \<and> table_inv ex d' \<and> arena_inv evict d' \<and> without {b} d d' \<and> codecache.more d' = codecache.more (drop_block b d)"
proof -
  let ?d = "drop_block b d" let ?B = "d_blk d b"
  have bo: "buckets_ok d" using t by (simp add: table_inv_def)
  note parts = drop_block_parts [where b = b, OF bo] and t' = drop_block_inv [OF t b]
  have cap: "cc_cap ?d = cc_cap d" "cc_used ?d = cc_used d" using parts(6) by (simp_all add: codecache.defs)
  have w: "without {b} d ?d" using parts(1,3,4) cap by (simp add: without_def)
  show ?thesis
  proof (cases "evict = 1")
    case False
    then show ?thesis using t' w
      by (cases "evict = 2") (simp_all add: cc_release_def ring_free_def arena_inv_def)
  next
    case True
    with a obtain xs where xs: "free_list xs d"
      "\<forall>x\<in>tbl d. al8 (blk_code (d_blk d x)) \<and> blk_bytes (d_blk d x) \<subseteq> {..<unat (cc_cap d)} \<and> blk_bytes (d_blk d x) \<inter> free_bytes xs = {}"
      "\<forall>x\<in>tbl d. \<forall>c\<in>tbl d. x \<noteq> c \<longrightarrow> blk_bytes (d_blk d x) \<inter> blk_bytes (d_blk d c) = {}"
      by (auto simp: arena_inv_def)
    have f: "free_list xs ?d" using xs(1) free_list_trunc [OF parts(6)] by simp
    have top: "unat (blk_code ?B) + unat (span_size (code_size ?B)) \<le> unat (cc_cap ?d)"
    proof -
      have "unat (blk_code ?B) + unat (span_size (code_size ?B)) - 1 \<in> blk_bytes ?B"
        using span_size_pos(2) [of "code_size ?B"] by (auto simp: blk_bytes_def)
      then have "unat (blk_code ?B) + unat (span_size (code_size ?B)) - 1 < unat (cc_cap d)" using xs(2) b by blast
      then show ?thesis by (simp add: cap)
    qed
    obtain d' ys where d': "cold_free (blk_code ?B) (code_size ?B) ?d = Some d'" "free_list ys d'" "cc_cap d' = cc_cap ?d"
      "free_bytes ys = free_bytes xs \<union> blk_bytes ?B" "cc_used d' = cc_used ?d" "codecache.more d' = codecache.more ?d"
      using cold_free_correct [OF f _ top] xs(2) b unfolding blk_bytes_def by metis
    note m = more_eq [OF d'(6)] more_table [OF d'(6)]
    have bl: "blk_bytes (d_blk ?d x) = blk_bytes (d_blk d x)" "blk_code (d_blk ?d x) = blk_code (d_blk d x)" for x
      using blk_bytes_same [OF parts(3) [where x = x]] parts(3) [where x = x] by (simp_all add: same_block_def)
    have "arena_inv evict d'"
      unfolding arena_inv_def m(2,13) bl parts(1) d'(3) cap
    proof (intro impI exI [of _ ys] conjI ballI)
      show "free_list ys d'" by (rule d'(2))
    next
      fix x assume "x \<in> tbl d - {b}"
      then show "blk_bytes (d_blk d x) \<inter> free_bytes ys = {}" using xs(2,3) b unfolding d'(4) by blast
    qed (use xs in auto)
    moreover have "without {b} d d'" using w m d'(3,5) by (simp add: without_def)
    ultimately show ?thesis using d'(1,6) t' m(14) True by (simp add: cc_release_def)
  qed
qed

text \<open>Freeing a block in the host heap commutes with everything the allocator does.\<close>

lemma live_commute:
  "set_link prev v (d\<lparr>d_live := l\<rparr>) = (set_link prev v d)\<lparr>d_live := l\<rparr>"
  "merge_next p cur (d\<lparr>d_live := l\<rparr>) = (merge_next p cur d)\<lparr>d_live := l\<rparr>"
  "merge_prev prev p (d\<lparr>d_live := l\<rparr>) = (merge_prev prev p d)\<lparr>d_live := l\<rparr>"
  "set_next p v (d\<lparr>d_live := l\<rparr>) = (set_next p v d)\<lparr>d_live := l\<rparr>"
  "set_size p v (d\<lparr>d_live := l\<rparr>) = (set_size p v d)\<lparr>d_live := l\<rparr>"
  by (simp_all add: set_link_def merge_next_def merge_prev_def set_next_def set_size_def Let_def)

lemma cold_free_live: "cold_free p n (d\<lparr>d_live := l\<rparr>) = map_option (\<lambda>d. d\<lparr>d_live := l\<rparr>) (cold_free p n d)"
  by (cases "free_walk (cc_words d) p CC_NIL (cc_free_head d)") (auto simp: cold_free_def Let_def live_commute)

lemma cold_free_keeps_live: "cold_free p n d = Some d' \<Longrightarrow> d_live d' = d_live (d :: dispatcher)"
  by (auto simp: cold_free_def Let_def bind_eq_Some_conv more_eq(3) [OF merge_frame(3)] intro!: more_eq(3))

lemma release_live: "cc_release evict p n (gbjit_block_free b d) = map_option (gbjit_block_free b) (cc_release evict p n d)"
proof (cases "cold_free p n d")
  case None
  then show ?thesis by (simp add: cc_release_def gbjit_block_free_def cold_free_live ring_free_def)
next
  case (Some d')
  then show ?thesis using cold_free_keeps_live [OF Some]
    by (simp add: cc_release_def gbjit_block_free_def cold_free_live ring_free_def)
qed

lemma invalidate_block_ok:
  assumes t: "table_inv ex d" and a: "arena_inv evict d" and b: "b \<in> tbl d"
  shows "\<exists>d'. invalidate_block evict b d = Some d' \<and> table_inv ex d' \<and> arena_inv evict d' \<and> without {b} d d'
    \<and> run_prev d' = run_prev d"
proof -
  have bo: "buckets_ok d" using t by (simp add: table_inv_def)
  note parts = drop_block_parts [where b = b, OF bo]
  have "same_block (d_blk d b) (d_blk (unlink_block b d) b)"
    using parts(3) [of b] by (simp add: drop_block_def gbjit_block_free_def)
  then have "invalidate_block evict b d
      = cc_release evict (blk_code (d_blk d b)) (code_size (d_blk d b)) (drop_block b d)"
    by (simp add: invalidate_block_def Let_def drop_block_def release_live same_block_def)
  with release_ok [OF assms] parts(5) more_eq(12) show ?thesis by metis
qed

lemma invalidate_list_ok:
  assumes "table_inv ex d" "arena_inv evict d" "distinct bs" "set bs \<subseteq> tbl d"
  shows "\<exists>d'. fold_opt (invalidate_block evict) bs d = Some d' \<and> table_inv ex d' \<and> arena_inv evict d'
    \<and> without (set bs) d d' \<and> run_prev d' = run_prev d"
  using assms
proof (induction bs arbitrary: d)
  case Nil
  then show ?case by (simp add: without_refl)
next
  case (Cons b bs)
  then have "b \<in> tbl d" by simp
  from invalidate_block_ok [OF Cons.prems(1,2) this] obtain d1 where
    d1: "invalidate_block evict b d = Some d1" "table_inv ex d1" "arena_inv evict d1" "without {b} d d1"
      "run_prev d1 = run_prev d" by blast
  have "set bs \<subseteq> tbl d1" using Cons.prems(3,4) d1(4) by (auto simp: without_def)
  with Cons.IH [OF d1(2,3)] Cons.prems(3) obtain d2 where
    d2: "fold_opt (invalidate_block evict) bs d1 = Some d2" "table_inv ex d2" "arena_inv evict d2"
      "without (set bs) d1 d2" "run_prev d2 = run_prev d1" by auto
  from without_trans [OF d1(4) d2(4)] d1 d2 show ?case by simp
qed

lemma page_of_less: "unat (page_of a) < 256"
proof -
  have "unat (page_of a) = unat a div 256"
    by (simp add: page_of_def GBJIT_SMC_PAGE_SHIFT_def unsigned_drop_bit_eq drop_bit_eq_div unat_div)
  moreover have "unat a < 65536" using unsigned_less [where ?'a = nat, of a] by simp
  ultimately show ?thesis by simp
qed

definition on_page :: "nat \<Rightarrow> dispatcher \<Rightarrow> bref set" where
  "on_page p d = {b \<in> tbl d. p \<in> set (pages_of (d_blk d b))}"

lemma without_pages: "without Bs d d' \<Longrightarrow> pages_of (d_blk d' x) = pages_of (d_blk d x)"
  by (auto simp: without_def intro: same_block_pages)

lemma invalidate_addr_ok:
  assumes t: "table_inv None d" and a: "arena_inv evict d"
  shows "\<exists>d'. gbjit_dispatcher_invalidate_addr evict addr d = Some d' \<and> table_inv None d' \<and> arena_inv evict d'
    \<and> without (on_page (unat (page_of addr)) d) d d' \<and> run_prev d' = run_prev d"
proof -
  let ?p = "unat (page_of addr)"
  define d0 where "d0 = d\<lparr>smc_pages := (smc_pages d)(?p := [])\<rparr>"
  have p: "\<not> GBJIT_SMC_PAGE_COUNT \<le> page_of addr"
    using page_of_less [of addr] by (simp add: word_le_nat_alt)
  have pg: "distinct (smc_pages d ?p)" "set (smc_pages d ?p) = on_page ?p d"
    using t page_of_less [of addr] by (simp_all add: table_inv_def pages_ok_def on_page_def)
  have tb: "tbl d0 = tbl d" by (simp add: d0_def tbl_def)
  have t0: "table_inv (Some ?p) d0"
    using t by (auto simp: table_inv_def buckets_ok_def pages_ok_def predictions_ok_def tb) (simp_all add: d0_def)
  have a0: "arena_inv evict d0" using a by (simp add: arena_inv_def tb) (simp add: d0_def free_list_def)
  have w0: "without {} d d0" by (simp add: without_def tb) (simp add: d0_def)
  have "set (smc_pages d ?p) \<subseteq> tbl d0" using pg(2) tb by (auto simp: on_page_def)
  from invalidate_list_ok [OF t0 a0 pg(1) this] obtain d' where
    d': "fold_opt (invalidate_block evict) (smc_pages d ?p) d0 = Some d'" "table_inv (Some ?p) d'" "arena_inv evict d'"
      "without (on_page ?p d) d0 d'" "run_prev d' = run_prev d0" unfolding pg(2) by blast
  have w: "without (on_page ?p d) d d'" using without_trans [OF w0 d'(4)] by simp
  have "\<forall>b\<in>tbl d'. ?p \<notin> set (pages_of (d_blk d' b))"
    using w without_pages [OF w] by (auto simp: without_def on_page_def)
  then have "table_inv None d'"
    using d'(2) by (auto simp: table_inv_def pages_ok_def split: if_splits)
  with d' w p show ?thesis by (auto simp: gbjit_dispatcher_invalidate_addr_def Let_def d0_def [symmetric]) (simp add: d0_def)
qed

section \<open>Insertion\<close>

lemma register_pages_form:
  "distinct ps \<Longrightarrow> fold (register_page b) ps d = set_mmu ((d_mmu d)\<lparr>jit_page_state :=
       (\<lambda>p. if p \<in> set ps \<and> jit_page_state (d_mmu d) p = 0 then 1 else jit_page_state (d_mmu d) p)\<rparr>)
     (d\<lparr>smc_pages := (\<lambda>p. if p \<in> set ps then b # smc_pages d p else smc_pages d p)\<rparr>)"
proof (induction ps arbitrary: d)
  case Nil
  then show ?case by (simp add: set_mmu_def)
next
  case (Cons q ps)
  then have q: "q \<notin> set ps" "distinct ps" by auto
  show ?case unfolding fold_Cons o_def Cons.IH [OF q(2)] using q(1)
    by (auto intro!: dispatcher.equality cpu_state.equality mmu.equality simp: register_page_def set_mmu_def Let_def fun_eq_iff)
qed

lemma pages_distinct: "distinct (pages_of B)"
  by (simp add: pages_of_def)

definition fresh_block :: "bref \<Rightarrow> dispatcher \<Rightarrow> bool" where
  "fresh_block b d \<longleftrightarrow> d_live d b \<and> b \<notin> tbl d \<and> find_block d (gb_pc_start (d_blk d b)) = None
     \<and> predicted_next (d_blk d b) = (\<lambda>_. None)"

lemma insert_form:
  fixes d :: dispatcher and b :: bref
  defines "B \<equiv> d_blk d b"
  shows "tbl (insert_block evict b d) = insert b (tbl d)"
    "buckets (insert_block evict b d) = (buckets d)(bucket_of (gb_pc_start B) := b # buckets d (bucket_of (gb_pc_start B)))"
    "d_live (insert_block evict b d) = d_live d"
    "smc_pages (insert_block evict b d) = (\<lambda>p. if p \<in> set (pages_of B) then b # smc_pages d p else smc_pages d p)"
    "x \<noteq> b \<Longrightarrow> d_blk (insert_block evict b d) x = d_blk d x"
    "d_blk (insert_block evict b d) b = B\<lparr>tag := if evict = 1 then jit_epoch d + 1 else tag B\<rparr>"
    "d_mmu (insert_block evict b d) = (d_mmu d)\<lparr>jit_page_state :=
       (\<lambda>p. if p \<in> set (pages_of B) \<and> jit_page_state (d_mmu d) p = 0 then 1 else jit_page_state (d_mmu d) p)\<rparr>"
    "run_prev (insert_block evict b d) = run_prev d"
    "codecache.truncate (insert_block evict b d) = codecache.truncate d"
proof -
  have pg: "pages_of (B\<lparr>tag := t\<rparr>) = pages_of B" for t by (simp add: pages_of_def first_page_def last_page_def)
  show bu: "buckets (insert_block evict b d) = (buckets d)(bucket_of (gb_pc_start B) := b # buckets d (bucket_of (gb_pc_start B)))"
    by (simp add: insert_block_def Let_def register_pages_form pages_distinct set_mmu_def B_def set_tag_def set_blk_def)
  show "tbl (insert_block evict b d) = insert b (tbl d)"
    unfolding tbl_def bu by (auto split: if_splits) (metis bucket_of_less lessThan_iff)
  show "d_live (insert_block evict b d) = d_live d"
    "smc_pages (insert_block evict b d) = (\<lambda>p. if p \<in> set (pages_of B) then b # smc_pages d p else smc_pages d p)"
    "x \<noteq> b \<Longrightarrow> d_blk (insert_block evict b d) x = d_blk d x"
    "d_blk (insert_block evict b d) b = B\<lparr>tag := if evict = 1 then jit_epoch d + 1 else tag B\<rparr>"
    "d_mmu (insert_block evict b d) = (d_mmu d)\<lparr>jit_page_state :=
       (\<lambda>p. if p \<in> set (pages_of B) \<and> jit_page_state (d_mmu d) p = 0 then 1 else jit_page_state (d_mmu d) p)\<rparr>"
    "run_prev (insert_block evict b d) = run_prev d"
    "codecache.truncate (insert_block evict b d) = codecache.truncate d"
    using pg by (simp_all add: insert_block_def Let_def register_pages_form pages_distinct set_mmu_def B_def set_tag_def set_blk_def
        codecache.defs cong: if_cong)
qed

lemma insert_same: "same_block (d_blk d x) ((d_blk (insert_block evict b d) x)\<lparr>tag := tag (d_blk d x)\<rparr>)"
  by (cases "x = b") (simp_all add: insert_form same_block_def)

lemma fresh_new:
  assumes "buckets_ok d" "fresh_block b d"
  shows "d_live d b" "b \<notin> tbl d" "\<forall>x\<in>tbl d. gb_pc_start (d_blk d x) \<noteq> gb_pc_start (d_blk d b)"
proof -
  show "d_live d b" "b \<notin> tbl d" using assms(2) by (simp_all add: fresh_block_def)
  show "\<forall>x\<in>tbl d. gb_pc_start (d_blk d x) \<noteq> gb_pc_start (d_blk d b)"
  proof
    fix x assume "x \<in> tbl d"
    with find_block_correct [OF assms(1), of "gb_pc_start (d_blk d b)" x] assms(2)
    show "gb_pc_start (d_blk d x) \<noteq> gb_pc_start (d_blk d b)" by (auto simp: fresh_block_def)
  qed
qed

lemma insert_inv:
  assumes t: "table_inv None d" and f: "fresh_block b d"
  shows "table_inv None (insert_block evict b d)"
proof -
  let ?d = "insert_block evict b d"
  have bo: "buckets_ok d" and po: "pages_ok None d" and pr: "predictions_ok d" using t by (simp_all add: table_inv_def)
  have st: "gb_pc_start (d_blk ?d x) = gb_pc_start (d_blk d x)" "pages_of (d_blk ?d x) = pages_of (d_blk d x)"
    "predicted_next (d_blk ?d x) = predicted_next (d_blk d x)" "predicted_next_pc (d_blk ?d x) = predicted_next_pc (d_blk d x)" for x
    by (cases "x = b", simp_all add: insert_form pages_of_def first_page_def last_page_def)+
  have new: "d_live d b" "b \<notin> tbl d" "\<forall>x\<in>tbl d. gb_pc_start (d_blk d x) \<noteq> gb_pc_start (d_blk d b)"
    using fresh_new [OF bo f] by auto
  have "\<forall>i<1024. b \<notin> set (buckets d i)" using new(2) tblI by blast
  moreover have "d_live d x \<and> bucket_of (gb_pc_start (d_blk d x)) = bucket_of pc" if "x \<in> set (buckets d (bucket_of pc))" for x pc
    using bo bucket_of_less [of pc] that unfolding buckets_ok_def by blast
  ultimately have "buckets_ok ?d"
    using bo new unfolding buckets_ok_def st insert_form(1,3) by (auto simp: insert_form(2) inj_on_def)
  moreover have "pages_ok None ?d"
    using po new(2) unfolding pages_ok_def st insert_form(1) by (auto simp: insert_form(4))
  moreover have "predictions_ok ?d"
    using pr f unfolding predictions_ok_def st insert_form(1) by (auto simp: fresh_block_def)
  ultimately show ?thesis by (simp add: table_inv_def)
qed

lemma insert_find:
  assumes t: "table_inv None d" and f: "fresh_block b d"
  shows "find_block (insert_block evict b d) pc = (if pc = gb_pc_start (d_blk d b) then Some b else find_block d pc)"
proof -
  let ?d = "insert_block evict b d"
  have bo: "buckets_ok d" "buckets_ok ?d" using t insert_inv [OF t f] by (simp_all add: table_inv_def)
  have st: "gb_pc_start (d_blk ?d x) = gb_pc_start (d_blk d x)" for x by (cases "x = b") (simp_all add: insert_form)
  have new: "b \<notin> tbl d" "\<forall>x\<in>tbl d. gb_pc_start (d_blk d x) \<noteq> gb_pc_start (d_blk d b)"
    using fresh_new [OF bo(1) f] by auto
  have "find_block ?d pc = Some x \<longleftrightarrow> (if pc = gb_pc_start (d_blk d b) then Some b else find_block d pc) = Some x" for x
    using new find_block_correct [OF bo(2)] find_block_correct [OF bo(1)] by (auto simp: st insert_form(1))
  then show ?thesis by (metis option.exhaust)
qed

section \<open>Eviction\<close>

lemma drop_prev_parts [simp]:
  "tbl (drop_prev b d) = tbl d" "table_inv ex (drop_prev b d) = table_inv ex d"
  "arena_inv evict (drop_prev b d) = arena_inv evict d" "without Bs d0 (drop_prev b d) = without Bs d0 d"
  "run_prev (drop_prev b d) = (if run_prev d = Some b then None else run_prev d)"
  by (simp_all add: drop_prev_def tbl_def table_inv_def buckets_ok_def pages_ok_def predictions_ok_def
      arena_inv_def free_list_def without_def)

lemma colder_fold:
  "fold (colder d) bs v = None \<longleftrightarrow> bs = [] \<and> v = None"
  "fold (colder d) bs v = Some x \<Longrightarrow> (x \<in> set bs \<or> v = Some x)
     \<and> (\<forall>b\<in>set bs. tag (d_blk d x) \<le> tag (d_blk d b)) \<and> (\<forall>y. v = Some y \<longrightarrow> tag (d_blk d x) \<le> tag (d_blk d y))"
proof (induction bs arbitrary: v)
  case Nil
  {
    case 1
    then show ?case by simp
  next
    case 2
    then show ?case by simp
  }
next
  case (Cons b bs)
  {
    case 1
    show ?case using Cons.IH(1) [of "colder d b v"] by (auto simp: colder_def split: option.splits if_splits)
  next
    case 2
    then have "fold (colder d) bs (colder d b v) = Some x" by simp
    from Cons.IH(2) [OF this] show ?case
      by (auto simp: colder_def split: option.splits if_splits)
  }
qed

lemma finite_tbl [simp]: "finite (tbl d)"
  by (simp add: tbl_def)

lemma drop_prev_drop: "gbjit_block_free v (drop_prev v (unlink_block v d)) = drop_block v (drop_prev v d)"
  by (rule dispatcher.equality)
    (simp_all add: drop_prev_def drop_block_def gbjit_block_free_def unlink_form tbl_def remove_block_from_buckets_def Let_def
      cong: if_cong)

lemma drop_prev_fields [simp]: "d_blk (drop_prev v d) = d_blk d" "cc_cap (drop_prev v d) = cc_cap d"
  "free_list xs (drop_prev v d) = free_list xs d" "buckets_ok (drop_prev v d) = buckets_ok d"
  by (simp_all add: drop_prev_def free_list_def buckets_ok_def tbl_def)

lemma without_drop_prev [simp]: "without Bs (drop_prev v d) d' = without Bs d d'"
  by (simp add: drop_prev_def without_def tbl_def)

lemma coldest_ok:
  assumes t: "table_inv None d" and a: "arena_inv 1 d" and ne: "tbl d \<noteq> {}"
  shows "\<exists>v d'. dispatcher_evict_coldest d = Some (code_size (d_blk d v), d') \<and> v \<in> tbl d
    \<and> (\<forall>b\<in>tbl d. tag (d_blk d v) \<le> tag (d_blk d b))
    \<and> table_inv None d' \<and> arena_inv 1 d' \<and> without {v} d d'
    \<and> run_prev d' = (if run_prev d = Some v then None else run_prev d)"
proof -
  have "all_blocks d \<noteq> []" using ne set_all_blocks [of d] by force
  then obtain v where v: "fold (colder d) (all_blocks d) None = Some v"
    using colder_fold(1) [of d "all_blocks d" None] by auto
  from colder_fold(2) [OF v] have m: "v \<in> tbl d" "\<forall>b\<in>tbl d. tag (d_blk d v) \<le> tag (d_blk d b)" by auto
  define d0 where "d0 = drop_prev v d"
  have "table_inv None d0" "arena_inv 1 d0" "v \<in> tbl d0" using t a m(1) by (simp_all add: d0_def)
  from release_ok [OF this] obtain d' where
    d': "cold_free (blk_code (d_blk d v)) (code_size (d_blk d v)) (drop_block v d0) = Some d'" "table_inv None d'" "arena_inv 1 d'"
      "without {v} d d'" "codecache.more d' = codecache.more (drop_block v d0)"
    by (auto simp: cc_release_def d0_def)
  have "dispatcher_evict_coldest d = Some (code_size (d_blk d v), d')"
    using d'(1) by (simp add: dispatcher_evict_coldest_def v Let_def drop_prev_drop d0_def)
  moreover have "run_prev d' = (if run_prev d = Some v then None else run_prev d)"
    using more_eq(12) [OF d'(5)] t by (simp add: drop_block_parts(5) d0_def table_inv_def)
  ultimately show ?thesis using m d' by blast
qed

lemma coldest_empty: "tbl d = {} \<Longrightarrow> dispatcher_evict_coldest d = Some (0, d)"
proof -
  assume "tbl d = {}"
  then have "all_blocks d = []" by (metis set_all_blocks set_empty)
  then show ?thesis by (simp add: dispatcher_evict_coldest_def)
qed

lemma range_ok:
  assumes t: "table_inv None d"
  shows "\<exists>d'. dispatcher_evict_range s f d = Some d' \<and> table_inv None d'
    \<and> without {b \<in> tbl d. overlaps s f (d_blk d b)} d d'
    \<and> run_prev d' = (case run_prev d of Some b \<Rightarrow> if b \<in> tbl d \<and> overlaps s f (d_blk d b) then None else Some b | None \<Rightarrow> None)"
  using t
proof (induction "card (tbl d)" arbitrary: d rule: less_induct)
  case less
  show ?case
  proof (cases "find (\<lambda>b. overlaps s f (d_blk d b)) (all_blocks d)")
    case None
    then have none: "{b \<in> tbl d. overlaps s f (d_blk d b)} = {}" by (auto simp: find_None_iff)
    have "without {b \<in> tbl d. overlaps s f (d_blk d b)} d d" unfolding none by (rule without_refl)
    with None none less.prems show ?thesis
      by (subst dispatcher_evict_range.simps) (auto split: option.split)
  next
    case (Some v)
    then have v: "v \<in> tbl d" "overlaps s f (d_blk d v)" by (auto dest: find_SomeD)
    define d1 where "d1 = drop_block v (drop_prev v d)"
    have bo: "buckets_ok (drop_prev v d)" using less.prems by (simp add: table_inv_def)
    note parts = drop_block_parts [where b = v, OF bo, folded d1_def, simplified]
    have t1: "table_inv None d1" unfolding d1_def by (rule drop_block_inv) (use less.prems v in simp_all)
    have w1: "without {v} d d1"
      using parts(1,3,4) parts(6) by (simp add: without_def codecache.defs) (simp add: drop_prev_def)
    have "card (tbl d1) < card (tbl d)" unfolding parts(1) using v(1) by (intro psubset_card_mono) auto
    from less.hyps [OF this t1] obtain d' where
      d': "dispatcher_evict_range s f d1 = Some d'" "table_inv None d'" "without {b \<in> tbl d1. overlaps s f (d_blk d1 b)} d1 d'"
        "run_prev d' = (case run_prev d1 of Some b \<Rightarrow> if b \<in> tbl d1 \<and> overlaps s f (d_blk d1 b) then None else Some b | None \<Rightarrow> None)"
      by blast
    have ov: "overlaps s f (d_blk d1 b) = overlaps s f (d_blk d b)" for b
      using parts(3) [where x = b] by (simp add: same_block_def overlaps_def)
    have "{v} \<union> {b \<in> tbl d1. overlaps s f (d_blk d1 b)} = {b \<in> tbl d. overlaps s f (d_blk d b)}"
      using v by (auto simp: ov parts(1))
    with without_trans [OF w1 d'(3)] have "without {b \<in> tbl d. overlaps s f (d_blk d b)} d d'" by simp
    moreover have "dispatcher_evict_range s f d = Some d'"
      using Some d'(1) by (subst dispatcher_evict_range.simps) (simp add: drop_prev_drop d1_def)
    moreover have "run_prev d1 = (if run_prev d = Some v then None else run_prev d)" using parts(5) by simp
    ultimately show ?thesis using d'(2,4) v by (auto simp: ov parts(1) split: option.splits)
  qed
qed

text \<open>Both eviction loops of the coldness allocator end: every round removes a block from the table.\<close>

lemma evicting_alloc:
  assumes "table_inv None d" "arena_inv 1 d" "\<forall>b\<in>tbl d. code_size (d_blk d b) \<noteq> 0"
  shows "\<exists>r d' Bs. cold_alloc (Some dispatcher_evict_coldest) sz d = Some (r, d') \<and> table_inv None d' \<and> arena_inv 1 d'
    \<and> Bs \<subseteq> tbl d \<and> without Bs d d' \<and> (\<forall>x\<in>Bs. \<forall>y\<in>tbl d - Bs. tag (d_blk d x) \<le> tag (d_blk d y))
    \<and> (\<forall>b. run_prev d' = Some b \<longrightarrow> run_prev d = Some b \<and> b \<notin> Bs)
    \<and> (case r of None \<Rightarrow> cc_cap d < span_size sz \<or> tbl d' = {}
        | Some p \<Rightarrow> al8 p \<and> unat p + unat (span_size sz) \<le> unat (cc_cap d)
            \<and> (\<forall>b\<in>tbl d'. blk_bytes (d_blk d' b) \<inter> {unat p..<unat p + unat (span_size sz)} = {}))"
proof (cases "cc_cap d < span_size sz")
  case True
  then show ?thesis using assms
    by (intro exI [of _ None] exI [of _ d] exI [of _ "{}"]) (simp add: cold_alloc_def without_refl)
next
  case False
  define n where "n = span_size sz"
  have n: "al8 n" "0 < unat n" by (simp_all add: n_def al8_span_size span_size_pos)
  have "\<exists>r d' Bs. cold_alloc_loop (Some dispatcher_evict_coldest) n d = Some (r, d') \<and> table_inv None d' \<and> arena_inv 1 d'
    \<and> Bs \<subseteq> tbl d \<and> without Bs d d' \<and> (\<forall>x\<in>Bs. \<forall>y\<in>tbl d - Bs. tag (d_blk d x) \<le> tag (d_blk d y))
    \<and> (\<forall>b. run_prev d' = Some b \<longrightarrow> run_prev d = Some b \<and> b \<notin> Bs)
    \<and> (case r of None \<Rightarrow> tbl d' = {}
        | Some p \<Rightarrow> al8 p \<and> unat p + unat n \<le> unat (cc_cap d)
            \<and> (\<forall>b\<in>tbl d'. blk_bytes (d_blk d' b) \<inter> {unat p..<unat p + unat n} = {}))"
    using assms
  proof (induction "card (tbl d)" arbitrary: d rule: less_induct)
    case less
    from less.prems(2) obtain xs where xs: "free_list xs d"
      "\<forall>x\<in>tbl d. al8 (blk_code (d_blk d x)) \<and> blk_bytes (d_blk d x) \<subseteq> {..<unat (cc_cap d)} \<and> blk_bytes (d_blk d x) \<inter> free_bytes xs = {}"
      "\<forall>x\<in>tbl d. \<forall>c\<in>tbl d. x \<noteq> c \<longrightarrow> blk_bytes (d_blk d x) \<inter> blk_bytes (d_blk d c) = {}"
      by (auto simp: arena_inv_def)
    show ?case
    proof (cases "fit n xs")
      case (Some q)
      then obtain p ys where q: "fit n xs = Some (p, ys)" by (cases q) auto
      from cold_loop_step(1) [OF xs(1) n q] obtain d' where
        d': "cold_alloc_loop (Some dispatcher_evict_coldest) n d = Some (Some p, d')" "free_list ys d'"
          "cc_cap d' = cc_cap d" "cc_used d' = cc_used d" "codecache.more d' = codecache.more d" by metis
      note m = more_eq [OF d'(5)] more_table [OF d'(5)]
      have "apart xs" "\<forall>t\<in>set xs. span_ok (unat (cc_cap d)) t" "unat (cc_cap d) < 2 ^ 32"
        using xs(1) unsigned_less [where ?'a = nat, of "cc_cap d"] by (auto simp: free_list_def)
      note fb = fit_bytes [OF this n q]
      have "arena_inv 1 d'" unfolding arena_inv_def m(2,13) d'(3)
        using d'(2) xs(2,3) fb(4) by (intro impI exI [of _ ys]) auto
      moreover have "without {} d d'" using m d'(3,4) by (simp add: without_def)
      moreover have "\<forall>b\<in>tbl d'. blk_bytes (d_blk d' b) \<inter> {unat p..<unat p + unat n} = {}"
        unfolding m(2,13) using xs(2) fb(1) by blast
      ultimately show ?thesis using d'(1) m less.prems(1) fb(2,3)
        by (intro exI [of _ "Some p"] exI [of _ d'] exI [of _ "{}"]) simp
    next
      case None
      note step = cold_loop_step(2) [OF xs(1) n None, of "Some dispatcher_evict_coldest", simplified]
      show ?thesis
      proof (cases "tbl d = {}")
        case True
        then show ?thesis using step coldest_empty [OF True] less.prems
          by (intro exI [of _ None] exI [of _ d] exI [of _ "{}"]) (simp add: without_refl)
      next
        case False
        from coldest_ok [OF less.prems(1,2) False] obtain v d1 where
          v: "dispatcher_evict_coldest d = Some (code_size (d_blk d v), d1)" "v \<in> tbl d"
            "\<forall>b\<in>tbl d. tag (d_blk d v) \<le> tag (d_blk d b)" "table_inv None d1" "arena_inv 1 d1" "without {v} d d1"
            "run_prev d1 = (if run_prev d = Some v then None else run_prev d)" by blast
        have t1: "tbl d1 = tbl d - {v}" and s1: "\<And>x. same_block (d_blk d x) (d_blk d1 x)" and c1: "cc_cap d1 = cc_cap d"
          using v(6) by (simp_all add: without_def)
        have sz1: "\<forall>b\<in>tbl d1. code_size (d_blk d1 b) \<noteq> 0" using less.prems(3) s1 t1 by (simp add: same_block_def)
        have "card (tbl d1) < card (tbl d)" unfolding t1 using v(2) by (intro psubset_card_mono) auto
        from less.hyps [OF this v(4,5) sz1] obtain r d' Bs where
          d': "cold_alloc_loop (Some dispatcher_evict_coldest) n d1 = Some (r, d')" "table_inv None d'" "arena_inv 1 d'"
            "Bs \<subseteq> tbl d1" "without Bs d1 d'" "\<forall>x\<in>Bs. \<forall>y\<in>tbl d1 - Bs. tag (d_blk d1 x) \<le> tag (d_blk d1 y)"
            "\<forall>b. run_prev d' = Some b \<longrightarrow> run_prev d1 = Some b \<and> b \<notin> Bs"
            "case r of None \<Rightarrow> tbl d' = {} | Some p \<Rightarrow> al8 p \<and> unat p + unat n \<le> unat (cc_cap d1)
              \<and> (\<forall>b\<in>tbl d'. blk_bytes (d_blk d' b) \<inter> {unat p..<unat p + unat n} = {})" by blast
        have "cold_alloc_loop (Some dispatcher_evict_coldest) n d = Some (r, d')"
          using step v(1,2) d'(1) less.prems(3) by simp
        moreover have "without ({v} \<union> Bs) d d'" by (rule without_trans [OF v(6) d'(5)])
        moreover have "\<forall>x\<in>{v} \<union> Bs. \<forall>y\<in>tbl d - ({v} \<union> Bs). tag (d_blk d x) \<le> tag (d_blk d y)"
          using d'(6) v(3) s1 by (auto simp: t1 same_block_def)
        moreover have "\<forall>b. run_prev d' = Some b \<longrightarrow> run_prev d = Some b \<and> b \<notin> {v} \<union> Bs"
          using d'(7) v(7) by (auto split: if_splits)
        ultimately show ?thesis using d'(2,3,4) d'(8) [unfolded c1] v(2)
          by (intro exI [of _ r] exI [of _ d'] exI [of _ "{v} \<union> Bs"]) (auto simp: t1)
      qed
    qed
  qed
  moreover have "cold_alloc (Some dispatcher_evict_coldest) sz d = cold_alloc_loop (Some dispatcher_evict_coldest) n d"
    using False by (simp add: cold_alloc_def n_def Let_def)
  ultimately show ?thesis unfolding n_def [symmetric] by (elim ex_forward) (simp split: option.splits)
qed

end
