(* ===== verification/Dispatch_Run.thy ===== *)
theory Dispatch_Run
  imports Dispatcher
begin

text \<open>
  The run loop \<open>gbjit_dispatcher_run_until\<close> of src/jit/dispatcher.c with the default build options: the halt
  loop is on (4 cycles a step), the service shortcut is off and the self-loop fast path is on (64 rounds).
  \<open>batch\<close> is the number of chained blocks a round may run: GBJIT_DISPATCHER_CHAIN_BATCH, 4, on the device and 0 on
  the host port, where that code is not compiled.

  Two collaborators are arguments. \<open>compile\<close> is \<open>gbjit_compile_block\<close> of src/jit/codegen.c applied to
  the code cache, the CPU and the literal resolver: from a PC and the dispatcher it returns a block, or \<open>None\<close>
  for \<open>NULL\<close>; it may call the eviction callbacks, so it acts on the dispatcher. \<open>enter\<close> is
  \<open>enter_block_sim\<close> or \<open>enter_block_native\<close>: it runs a block's code on the CPU. The simulator returns since the
  number of simulated instructions is capped. The outer \<open>option\<close> is again \<open>None\<close> for not returning.
\<close>

type_synonym compiler = "u16 \<Rightarrow> dispatcher \<Rightarrow> (bref option \<times> dispatcher) option"
type_synonym executor = "bref \<Rightarrow> dispatcher \<Rightarrow> cpu_state"

section \<open>Stale code\<close>

definition bank_dirty_step :: "nat \<Rightarrow> dispatcher \<Rightarrow> dispatcher option" where
  "bank_dirty_step evict d =
     (if rom_bank_dirty (d_mmu d) = 0 then Some d
      else map_option (\<lambda>d. (set_mmu ((d_mmu d)\<lparr>rom_bank_dirty := 0\<rparr>) d)\<lparr>run_prev := None\<rparr>)
             (fold_opt (\<lambda>p. gbjit_dispatcher_invalidate_addr evict (push_bit GBJIT_SMC_PAGE_SHIFT (of_nat p)))
                [0x40..<0x80] d))"

definition smc_page_step :: "nat \<Rightarrow> nat \<Rightarrow> dispatcher \<Rightarrow> dispatcher option" where
  "smc_page_step evict p d =
     (if jit_page_state (d_mmu d) p \<noteq> 2 then Some d
      else map_option (\<lambda>d. set_mmu ((d_mmu d)\<lparr>jit_page_state := (jit_page_state (d_mmu d))(p := 0)\<rparr>) d)
             (gbjit_dispatcher_invalidate_addr evict (push_bit GBJIT_SMC_PAGE_SHIFT (of_nat p)) d))"

definition smc_dirty_step :: "nat \<Rightarrow> dispatcher \<Rightarrow> dispatcher option" where
  "smc_dirty_step evict d =
     (if jit_smc_dirty (d_mmu d) = 0 then Some d
      else map_option (\<lambda>d. (set_mmu ((d_mmu d)\<lparr>jit_smc_dirty := 0\<rparr>) d)\<lparr>run_prev := None\<rparr>)
             (fold_opt (smc_page_step evict) [0..<unat GBJIT_SMC_PAGE_COUNT] d))"

section \<open>Interrupts and HALT\<close>

definition service :: "dispatcher \<Rightarrow> dispatcher" where
  "service d =
     (let (served, c) = sm83_service_interrupts (d_cpu d); d = set_cpu c d
      in if served \<noteq> 0 then d\<lparr>run_prev := None\<rparr> else d)"

definition GBJIT_HALT_STEP_CYCLES :: u64 where "GBJIT_HALT_STEP_CYCLES = 4"

definition irq_pending :: "mmu \<Rightarrow> bool" where
  "irq_pending m \<longleftrightarrow> io m IF_REG AND ie m AND 0x1F \<noteq> 0"

text \<open>The body of the halt loop up to the interrupt test.\<close>

definition halt_step :: "cpu_state \<Rightarrow> cpu_state" where
  "halt_step c =
     (let c = c\<lparr>cpu_cycles := cpu_cycles c + GBJIT_HALT_STEP_CYCLES\<rparr>; m = cpu_mmu c
      in if gb_cycles_reached (cpu_cycles c) (ppu_next_event_cycles m) \<or> io m LCDC_REG \<noteq> ppu_last_lcdc m
         then c\<lparr>cpu_mmu := ppu_tick (cpu_cycles c) m\<rparr> else c)"

partial_function (option) halt_loop :: "u64 \<Rightarrow> dispatcher \<Rightarrow> dispatcher option" where
  "halt_loop until d =
     (let d = set_cpu (halt_step (d_cpu d)) d
      in if irq_pending (d_mmu d) then Some (service d)
         else if cpu_halted (d_cpu d) \<noteq> 0 \<and> cpu_cycles (d_cpu d) < until then halt_loop until d
         else Some d)"

section \<open>Finding the block\<close>

definition predicted :: "gbjit_block \<Rightarrow> u16 \<Rightarrow> bref option" where
  "predicted B pc =
     (case find (\<lambda>s. predicted_next_pc B s = pc \<and> predicted_next B s \<noteq> None) [0..<GBJIT_CHAIN_PREDICTOR_WAYS] of
        None \<Rightarrow> None | Some s \<Rightarrow> predicted_next B s)"

definition lookup_block :: "dispatcher \<Rightarrow> bref option" where
  "lookup_block d =
     (let pc = cpu_pc (d_cpu d)
      in if no_cache d then None
         else case run_prev d of None \<Rightarrow> find_block d pc
           | Some p \<Rightarrow> (case predicted (d_blk d p) pc of Some b \<Rightarrow> Some b | None \<Rightarrow> find_block d pc))"

text \<open>One successor of the prefetcher; \<open>False\<close> is the early return. \<open>again\<close> is the recursive call.\<close>

definition prefetch_one :: "compiler \<Rightarrow> nat \<Rightarrow> (bref \<Rightarrow> dispatcher \<Rightarrow> dispatcher option) \<Rightarrow> bref \<Rightarrow> nat
    \<Rightarrow> dispatcher \<Rightarrow> (bool \<times> dispatcher) option" where
  "prefetch_one compile evict again b i d =
     (let pc = succ_pc (d_blk d b) i
      in if pc = 0xFFFF \<or> find_block d pc \<noteq> None then Some (True, d)
         else do {
           (nb, d) \<leftarrow> compile pc d;
           case nb of None \<Rightarrow> Some (False, d)
           | Some n \<Rightarrow> map_option (Pair True) (again n (insert_block evict n d))
         })"

primrec prefetch_successors :: "compiler \<Rightarrow> nat \<Rightarrow> nat \<Rightarrow> bref \<Rightarrow> dispatcher \<Rightarrow> dispatcher option" where
  "prefetch_successors compile evict 0 b d = Some d"
| "prefetch_successors compile evict (Suc depth) b d =
     (if no_cache d then Some d
      else let one = prefetch_one compile evict (prefetch_successors compile evict depth) b
      in do {
        (on, d) \<leftarrow> one 0 d;
        if on then map_option snd (one 1 d) else Some d
      })"

text \<open>Compiling the block at the current PC, with the retry into an emptied arena.\<close>

definition compile_here :: "compiler \<Rightarrow> nat \<Rightarrow> dispatcher \<Rightarrow> (bref option \<times> dispatcher) option" where
  "compile_here compile evict d =
     (let d = (if no_cache d then cc_reset evict d else d)
      in do {
        (b, d) \<leftarrow> compile (cpu_pc (d_cpu d)) d;
        if b = None \<and> evict_on_full d
        then (let d = (evict_all evict d)\<lparr>run_prev := None\<rparr> in compile (cpu_pc (d_cpu d)) d)
        else Some (b, d)
      })"

definition record_successor :: "bref \<Rightarrow> dispatcher \<Rightarrow> dispatcher" where
  "record_successor b d =
     (case run_prev d of None \<Rightarrow> d
      | Some p \<Rightarrow>
          let P = d_blk d p; pc = cpu_pc (d_cpu d); v = unat (predicted_next_victim P) mod GBJIT_CHAIN_PREDICTOR_WAYS
          in if no_cache d \<or> (\<exists>s\<in>set [0..<GBJIT_CHAIN_PREDICTOR_WAYS]. predicted_next_pc P s = pc \<and> predicted_next P s = Some b)
             then d
             else set_blk p (P\<lparr>predicted_next := (predicted_next P)(v := Some b),
                               predicted_next_pc := (predicted_next_pc P)(v := pc),
                               predicted_next_victim := of_nat (v + 1)\<rparr>) d)"

section \<open>Running the block\<close>

definition GBJIT_SELFLOOP_MAX :: nat where "GBJIT_SELFLOOP_MAX = 64"

definition self_loop_ready :: "u64 \<Rightarrow> u16 \<Rightarrow> bref \<Rightarrow> dispatcher \<Rightarrow> bool" where
  "self_loop_ready until sp0 b d \<longleftrightarrow>
     (let c = d_cpu d; m = cpu_mmu c
      in \<not> no_cache d \<and> self_loop (d_blk d b) \<and> cpu_pc c = gb_pc_start (d_blk d b) \<and> cpu_sp c = sp0
         \<and> cpu_halted c = 0 \<and> cpu_ime_pending c = 0 \<and> cpu_stopped c = 0
         \<and> jit_smc_dirty m = 0 \<and> rom_bank_dirty m = 0 \<and> \<not> irq_pending m \<and> cpu_cycles c < until)"

primrec spin :: "executor \<Rightarrow> u64 \<Rightarrow> u16 \<Rightarrow> bref \<Rightarrow> nat \<Rightarrow> dispatcher \<Rightarrow> dispatcher" where
  "spin enter until sp0 b 0 d = d"
| "spin enter until sp0 b (Suc n) d =
     (let d = set_cpu (enter b d) d; c = d_cpu d
      in if cpu_pc c \<noteq> gb_pc_start (d_blk d b) \<or> cpu_sp c \<noteq> sp0 \<or> until \<le> cpu_cycles c then d
         else spin enter until sp0 b n d)"

text \<open>The device port's batch of chained blocks.\<close>

definition batch_stops :: "u64 \<Rightarrow> cpu_state \<Rightarrow> bool" where
  "batch_stops until c \<longleftrightarrow> until \<le> cpu_cycles c \<or> cpu_halted c \<noteq> 0 \<or> cpu_ime_pending c \<noteq> 0
     \<or> jit_smc_dirty (cpu_mmu c) \<noteq> 0 \<or> rom_bank_dirty (cpu_mmu c) \<noteq> 0"

primrec chain_batch :: "executor \<Rightarrow> nat \<Rightarrow> u64 \<Rightarrow> nat \<Rightarrow> dispatcher \<Rightarrow> dispatcher" where
  "chain_batch enter evict until 0 d = d"
| "chain_batch enter evict until (Suc n) d =
     (case run_prev d of None \<Rightarrow> d
      | Some p \<Rightarrow>
          if batch_stops until (d_cpu d) then d
          else case predicted (d_blk d p) (cpu_pc (d_cpu d)) of None \<Rightarrow> d
           | Some b \<Rightarrow>
               let d = (if evict = 1 then set_tag b (jit_epoch d + 1) (d\<lparr>jit_epoch := jit_epoch d + 1\<rparr>) else d)
               in chain_batch enter evict until n ((set_cpu (enter b d) d)\<lparr>run_prev := Some b\<rparr>))"

text \<open>The tail of an iteration once the block is there; \<open>False\<close> is the final \<open>break\<close>.\<close>

definition run_block :: "executor \<Rightarrow> nat \<Rightarrow> nat \<Rightarrow> u64 \<Rightarrow> bref \<Rightarrow> dispatcher \<Rightarrow> bool \<times> dispatcher" where
  "run_block enter batch evict until b d =
     (let d = record_successor b d;
          d = (if evict = 1 then set_tag b (jit_epoch d + 1) (d\<lparr>jit_epoch := jit_epoch d + 1\<rparr>) else d);
          sp0 = cpu_sp (d_cpu d);
          d = set_cpu (enter b d) d;
          d = (if no_cache d then (gbjit_block_free b d)\<lparr>run_prev := None\<rparr> else d\<lparr>run_prev := Some b\<rparr>)
      in if self_loop_ready until sp0 b d then (True, spin enter until sp0 b GBJIT_SELFLOOP_MAX d)
         else let d = (if no_cache d then d else chain_batch enter evict until batch d)
         in (cpu_stopped (d_cpu d) = 0, d))"

definition step_interp :: "dispatcher \<Rightarrow> dispatcher" where
  "step_interp d = set_cpu (snd (sm83_step (d_cpu d))) d"

text \<open>One iteration of the loop.\<close>

definition run_iter :: "compiler \<Rightarrow> executor \<Rightarrow> nat \<Rightarrow> nat \<Rightarrow> u64 \<Rightarrow> dispatcher \<Rightarrow> (bool \<times> dispatcher) option" where
  "run_iter compile enter batch evict until d =
     do {
       d \<leftarrow> bank_dirty_step evict d;
       d \<leftarrow> smc_dirty_step evict d;
       let d = service d;
       if cpu_halted (d_cpu d) \<noteq> 0 then map_option (Pair True) (halt_loop until d)
       else if cpu_ime_pending (d_cpu d) \<noteq> 0 then Some (True, (step_interp d)\<lparr>run_prev := None\<rparr>)
       else if interp_fallback d then Some (True, step_interp d)
       else case lookup_block d of
           Some b \<Rightarrow> Some (run_block enter batch evict until b d)
         | None \<Rightarrow>
             do {
               (r, d) \<leftarrow> compile_here compile evict d;
               case r of
                 None \<Rightarrow> Some (True, (step_interp d)\<lparr>run_prev := None\<rparr>)
               | Some b \<Rightarrow>
                   do {
                     let d = (if no_cache d then d else insert_block evict b d);
                     d \<leftarrow> (if prefetch_enabled d then prefetch_successors compile evict (unat (prefetch_depth d)) b d else Some d);
                     Some (run_block enter batch evict until b d)
                   }
             }
     }"

partial_function (option) dispatch_loop :: "compiler \<Rightarrow> executor \<Rightarrow> nat \<Rightarrow> nat \<Rightarrow> u64 \<Rightarrow> dispatcher \<Rightarrow> dispatcher option" where
  "dispatch_loop compile enter batch evict until d =
     (if cpu_cycles (d_cpu d) < until
      then do {
        (on, d) \<leftarrow> run_iter compile enter batch evict until d;
        if on then dispatch_loop compile enter batch evict until d else Some d
      }
      else Some d)"

definition gbjit_dispatcher_run_until :: "compiler \<Rightarrow> executor \<Rightarrow> nat \<Rightarrow> nat \<Rightarrow> u64 \<Rightarrow> dispatcher \<Rightarrow> dispatcher option" where
  "gbjit_dispatcher_run_until compile enter batch evict until d =
     dispatch_loop compile enter batch evict until (d\<lparr>run_prev := None\<rparr>)"

end
