(* ===== verification/Coherence.thy ===== *)
theory Coherence
  imports Dispatcher_Laws Dispatch_Run Mmu_Safety Interp_Run
begin

text \<open>
  Coherence of the block cache with guest memory. \<open>snap b a\<close> is the byte at the guest address \<open>a\<close> that the block
  \<open>b\<close> was translated from. \<open>cached_ok\<close> is the invariant: a cached block's source byte is unchanged or the change
  has been noticed, that is, the bank switch is flagged or the block's page is marked dirty. Writes and PPU
  advances keep it, insertion establishes it for the new block, and the clean-up passes of the run loop turn it
  into \<open>coherent\<close>, where nothing is stale. Not covered are sources that the program does not watch: echo RAM, OAM, IO and
  cartridge RAM, and blocks that run over the end of the address space.
\<close>

section \<open>Source bytes and pages\<close>

definition in_src :: "gbjit_block \<Rightarrow> u16 \<Rightarrow> bool" where
  "in_src B a \<longleftrightarrow> gb_pc_start B \<le> a \<and> a < gb_pc_end B"

definition tracked :: "u16 \<Rightarrow> bool" where
  "tracked a \<longleftrightarrow> a < 0x8000 \<or> code_ram a \<and> ram_cell a = a"

lemma page_of_div: "unat (page_of a) = unat a div 256"
  by (simp add: page_of_def GBJIT_SMC_PAGE_SHIFT_def unsigned_drop_bit_eq drop_bit_eq_div unat_div)

lemma page_shift: "p < 256 \<Longrightarrow> unat (page_of (push_bit GBJIT_SMC_PAGE_SHIFT (of_nat p))) = p"
proof -
  assume p: "p < 256"
  have "unat (push_bit GBJIT_SMC_PAGE_SHIFT (of_nat p) :: u16) = p * 256"
    using p by (simp add: GBJIT_SMC_PAGE_SHIFT_def push_bit_eq_mult unat_word_ariths unat_of_nat_u16)
  then show ?thesis by (simp add: page_of_div)
qed

lemma src_page: "in_src B a \<Longrightarrow> unat a div 256 \<in> set (pages_of B)"
proof -
  assume a: "in_src B a"
  then have lt: "unat (gb_pc_start B) \<le> unat a" "unat a < unat (gb_pc_end B)"
    by (simp_all add: in_src_def word_le_nat_alt word_less_nat_alt)
  then have e: "unat (gb_pc_end B - 1) = unat (gb_pc_end B) - 1" "0 < gb_pc_end B"
    by (simp_all add: unat_minus_one word_less_nat_alt unat_gt_0 [symmetric])
  have "unat (last_page B) = (unat (gb_pc_end B) - 1) div 256"
    using e page_of_less [of "gb_pc_end B - 1"]
    by (simp add: last_page_def Let_def page_of_div word_le_nat_alt)
  moreover have "unat a div 256 \<le> (unat (gb_pc_end B) - 1) div 256" "unat (gb_pc_start B) div 256 \<le> unat a div 256"
    using lt by (auto intro: div_le_mono)
  ultimately show ?thesis by (simp add: pages_of_def first_page_def page_of_div less_Suc_eq_le del: upt_Suc)
qed

lemma page_list_bound: "p \<in> set (pages_of B) \<Longrightarrow> p < 256"
proof -
  assume "p \<in> set (pages_of B)"
  then have "p \<le> unat (last_page B)" by (auto simp: pages_of_def)
  moreover have "unat (last_page B) < 256"
    using page_of_less by (auto simp: last_page_def Let_def first_page_def GBJIT_SMC_PAGE_COUNT_def)
  ultimately show ?thesis by simp
qed

lemma code_page_div: "ram_cell a = a \<Longrightarrow> code_page a = unat a div 256"
  by (simp add: code_page_def unsigned_drop_bit_eq drop_bit_eq_div unat_div)

section \<open>Memory events\<close>

datatype mem_event = Write u64 u16 u8 | Tick u64

fun do_event :: "mem_event \<Rightarrow> mmu \<Rightarrow> mmu" where
  "do_event (Write clk a v) m = mmu_write8 clk a v m"
| "do_event (Tick clk) m = ppu_tick clk m"

lemma mark_flags:
  "rom_bank_dirty (smc_mark a m) = rom_bank_dirty m"
  "jit_smc_dirty (smc_mark a m) = jit_smc_dirty m \<or> jit_smc_dirty (smc_mark a m) = 1"
  "jit_page_state (smc_mark a m) p = jit_page_state m p
    \<or> jit_page_state m p = 1 \<and> jit_page_state (smc_mark a m) p = 2 \<and> jit_smc_dirty (smc_mark a m) = 1"
  by (auto simp: smc_mark_def Let_def)

lemma mbc_flags:
  "rom_bank_dirty (mbc_write a v m) = rom_bank_dirty m \<or> rom_bank_dirty (mbc_write a v m) = 1"
  "jit_smc_dirty (mbc_write a v m) = jit_smc_dirty m" "jit_page_state (mbc_write a v m) = jit_page_state m"
  by (auto simp: mbc_write_def select_bank_def Let_def)

lemma write_flags:
  fixes m :: mmu and clk :: u64 and a :: u16 and v :: u8
  defines "m' \<equiv> mmu_write8 clk a v m"
  shows "rom_bank_dirty m' = rom_bank_dirty m \<or> rom_bank_dirty m' = 1"
    "jit_smc_dirty m' = jit_smc_dirty m \<or> jit_smc_dirty m' = 1"
    "jit_page_state m' p = jit_page_state m p \<or> jit_page_state m p = 1 \<and> jit_page_state m' p = 2 \<and> jit_smc_dirty m' = 1"
  unfolding m'_def mmu_write8_def
  by (simp_all add: Let_def io_write_frame mbc_flags mark_flags)

lemma noticed_mono: "noticed b m \<Longrightarrow> noticed b (do_event e m)"
proof (cases e)
  case (Write clk a v)
  assume "noticed b m"
  with Write write_flags(1,2) [of clk a v m] write_flags(3) [of clk a v m "code_page b"]
  show ?thesis by (auto simp: noticed_def split: if_splits)
qed (simp add: noticed_def)

definition marks :: "dispatcher \<Rightarrow> bool" where
  "marks d \<longleftrightarrow> (\<forall>b\<in>tbl d. \<forall>p\<in>set (pages_of (d_blk d b)). jit_page_state (d_mmu d) p \<in> {1, 2})
     \<and> (\<forall>p<256. jit_page_state (d_mmu d) p \<in> {0, 1, 2}
          \<and> (jit_page_state (d_mmu d) p = 2 \<longrightarrow> jit_smc_dirty (d_mmu d) = 1))"

definition cached_ok :: "(bref \<Rightarrow> u16 \<Rightarrow> u8) \<Rightarrow> dispatcher \<Rightarrow> bool" where
  "cached_ok snap d \<longleftrightarrow> marks d \<and> (\<forall>b\<in>tbl d. \<forall>a. in_src (d_blk d b) a \<and> tracked a \<longrightarrow>
     mmu_read8 (d_mmu d) a = snap b a \<or> 0x4000 \<le> a \<and> noticed a (d_mmu d))"

definition coherent :: "(bref \<Rightarrow> u16 \<Rightarrow> u8) \<Rightarrow> dispatcher \<Rightarrow> bool" where
  "coherent snap d \<longleftrightarrow> (\<forall>b\<in>tbl d. \<forall>a. in_src (d_blk d b) a \<and> tracked a \<longrightarrow> mmu_read8 (d_mmu d) a = snap b a)"

lemma set_mmu_table [simp]:
  "tbl (set_mmu m d) = tbl d" "table_inv ex (set_mmu m d) = table_inv ex d" "arena_inv evict (set_mmu m d) = arena_inv evict d"
  "d_blk (set_mmu m d) = d_blk d" "d_mmu (set_mmu m d) = m" "on_page p (set_mmu m d) = on_page p d"
  "run_prev (set_mmu m d) = run_prev d"
  by (simp_all add: set_mmu_def tbl_def table_inv_def buckets_ok_def pages_ok_def predictions_ok_def arena_inv_def
      free_list_def on_page_def)

lemma run_prev_table [simp]:
  "tbl (d\<lparr>run_prev := r\<rparr>) = tbl d" "table_inv ex (d\<lparr>run_prev := r\<rparr>) = table_inv ex d"
  "arena_inv evict (d\<lparr>run_prev := r\<rparr>) = arena_inv evict d" "on_page p (d\<lparr>run_prev := r\<rparr>) = on_page p d"
  by (simp_all add: tbl_def table_inv_def buckets_ok_def pages_ok_def predictions_ok_def arena_inv_def
      free_list_def on_page_def)

lemma rom_low_stable: "a < 0x4000 \<Longrightarrow> mmu_read8 m a = rom m (unat a)"
  by (simp add: mmu_read8_def)

lemma event_changes:
  assumes "mmu_read8 (do_event e m) a \<noteq> mmu_read8 m a" "tracked a"
  obtains clk x v where "e = Write clk x v" "a < 0x8000 \<Longrightarrow> noticed a (do_event e m)"
    "\<not> a < 0x8000 \<Longrightarrow> jit_page_state m (code_page a) = 1 \<Longrightarrow> noticed a (do_event e m)"
proof (cases e)
  case (Write clk x v)
  then show ?thesis using assms that change_noticed [of a m clk x v] by (auto simp: tracked_def)
next
  case (Tick clk)
  have "mmu_read8 (ppu_tick clk m) a = mmu_read8 m a"
  proof (cases "a < 0x8000")
    case True
    then show ?thesis by (rule rom_read_bank) simp_all
  next
    case False
    with assms(2) have p: "plain_ram a" "\<not> (0xFE00 \<le> a \<and> a < 0xFEA0)" by (auto simp: tracked_def code_ram_def)
    from p(1) show ?thesis using p(2)
      by (elim plain_ram_cases) (auto simp: region_reads word_le_nat_alt word_less_nat_alt)
  qed
  with assms(1) Tick show ?thesis by simp
qed

lemma event_ok:
  assumes c: "cached_ok snap d" and t: "table_inv None d"
  shows "cached_ok snap (set_mmu (do_event e (d_mmu d)) d)"
proof -
  let ?m = "d_mmu d" let ?m' = "do_event e ?m"
  have fl: "jit_page_state ?m' p = jit_page_state ?m p
      \<or> jit_page_state ?m p = 1 \<and> jit_page_state ?m' p = 2 \<and> jit_smc_dirty ?m' = 1"
    "jit_smc_dirty ?m' = jit_smc_dirty ?m \<or> jit_smc_dirty ?m' = 1" for p
    using write_flags(2,3) by (cases e; simp)+
  have mk: "marks d" using c by (simp add: cached_ok_def)
  have "marks (set_mmu ?m' d)"
    unfolding marks_def set_mmu_table
  proof (intro conjI ballI allI impI)
    fix b p assume "b \<in> tbl d" "p \<in> set (pages_of (d_blk d b))"
    with mk have "jit_page_state ?m p \<in> {1, 2}" by (auto simp: marks_def)
    with fl(1) [of p] show "jit_page_state ?m' p \<in> {1, 2}" by auto
  next
    fix p :: nat assume p: "p < 256"
    with fl(1) [of p] mk show "jit_page_state ?m' p \<in> {0, 1, 2}" by (auto simp: marks_def)
    assume "jit_page_state ?m' p = 2"
    with p fl(1) [of p] fl(2) mk show "jit_smc_dirty ?m' = 1" by (auto simp: marks_def)
  qed
  moreover have "mmu_read8 ?m' a = snap b a \<or> 0x4000 \<le> a \<and> noticed a ?m'"
    if b: "b \<in> tbl d" and a: "in_src (d_blk d b) a" "tracked a" for a b
  proof (cases "0x4000 \<le> a \<and> noticed a ?m")
    case True
    then show ?thesis using noticed_mono by blast
  next
    case False
    with c b a have eq: "mmu_read8 ?m a = snap b a" by (auto simp: cached_ok_def)
    show ?thesis
    proof (cases "mmu_read8 ?m' a = mmu_read8 ?m a")
      case True
      with eq show ?thesis by simp
    next
      case ch: False
      have "rom ?m' = rom ?m" by (cases e) (simp_all add: write_rom_parts)
      with ch have a4: "0x4000 \<le> a" using rom_low_stable [of a] by force
      have "jit_page_state ?m (code_page a) = 1" if hi: "\<not> a < 0x8000"
      proof -
        have cell: "ram_cell a = a" using a(2) hi by (simp add: tracked_def)
        then have "jit_page_state ?m (code_page a) \<in> {1, 2}"
          using mk b src_page [OF a(1)] by (auto simp: marks_def code_page_div)
        moreover have "code_page a < 256"
          using src_page [OF a(1)] page_list_bound cell by (auto simp: code_page_div)
        ultimately show ?thesis using mk False hi a4 by (auto simp: noticed_def marks_def)
      qed
      with event_changes [OF ch a(2)] a4 show ?thesis by metis
    qed
  qed
  ultimately show ?thesis by (auto simp: cached_ok_def)
qed

lemma set_mmu_set_mmu [simp]: "set_mmu m (set_mmu m' d) = set_mmu m d"
  by (simp add: set_mmu_def)

lemma events_ok:
  assumes "cached_ok snap d" "table_inv None d"
  shows "cached_ok snap (set_mmu (fold do_event es (d_mmu d)) d)"
  using assms
proof (induction es arbitrary: d)
  case Nil
  then show ?case by (simp add: set_mmu_def)
next
  case (Cons e es)
  from Cons.IH [of "set_mmu (do_event e (d_mmu d)) d"] event_ok [OF Cons.prems] Cons.prems(2)
  show ?case by simp
qed

section \<open>The two clean-up passes\<close>

lemma invalidate_pages:
  assumes "table_inv None d" "arena_inv evict d" "\<forall>p\<in>set ps. p < 256"
  shows "\<exists>d'. fold_opt (\<lambda>p. gbjit_dispatcher_invalidate_addr evict (push_bit GBJIT_SMC_PAGE_SHIFT (of_nat p))) ps d = Some d'
    \<and> table_inv None d' \<and> arena_inv evict d' \<and> without (\<Union>p\<in>set ps. on_page p d) d d'"
  using assms
proof (induction ps arbitrary: d)
  case Nil
  then show ?case by (simp add: without_refl)
next
  case (Cons p ps)
  let ?a = "push_bit GBJIT_SMC_PAGE_SHIFT (of_nat p) :: u16"
  have p: "unat (page_of ?a) = p" using Cons.prems(3) by (simp add: page_shift)
  from invalidate_addr_ok [OF Cons.prems(1,2), of ?a] obtain d1 where
    d1: "gbjit_dispatcher_invalidate_addr evict ?a d = Some d1" "table_inv None d1" "arena_inv evict d1" "without (on_page p d) d d1"
    unfolding p by blast
  from Cons.IH [OF d1(2,3)] Cons.prems(3) obtain d2 where
    d2: "fold_opt (\<lambda>p. gbjit_dispatcher_invalidate_addr evict (push_bit GBJIT_SMC_PAGE_SHIFT (of_nat p))) ps d1 = Some d2"
      "table_inv None d2" "arena_inv evict d2" "without (\<Union>q\<in>set ps. on_page q d1) d1 d2" by auto
  have "on_page q d1 = on_page q d - on_page p d" for q
    using d1(4) without_pages [OF d1(4)] by (auto simp: on_page_def without_def)
  then have "on_page p d \<union> (\<Union>q\<in>set ps. on_page q d1) = (\<Union>q\<in>set (p # ps). on_page q d)" by auto
  with without_trans [OF d1(4) d2(4)] d1 d2 show ?case by simp
qed

text \<open>Removing blocks and clearing flags that no remaining block depends on keeps \<open>cached_ok\<close>.\<close>

definition left :: "bref set \<Rightarrow> dispatcher \<Rightarrow> dispatcher \<Rightarrow> bool" where
  "left Bs d d' \<longleftrightarrow> tbl d' = tbl d - Bs \<and> (\<forall>x. same_block (d_blk d x) (d_blk d' x))"

lemma without_left: "without Bs d d' \<Longrightarrow> left Bs d d'"
  by (simp add: without_def left_def)

lemma left_src: "left Bs d d' \<Longrightarrow> in_src (d_blk d' x) a = in_src (d_blk d x) a \<and> pages_of (d_blk d' x) = pages_of (d_blk d x)"
  by (simp add: left_def same_block_def in_src_def pages_of_def first_page_def last_page_def)

lemma left_trans: "left Bs d d' \<Longrightarrow> left Cs d' d'' \<Longrightarrow> left (Bs \<union> Cs) d d''"
  by (auto simp: left_def same_block_def)

lemma left_set_mmu [simp]: "left Bs d (set_mmu m d') = left Bs d d'" "left Bs d (d'\<lparr>run_prev := r\<rparr>) = left Bs d d'"
  by (simp_all add: left_def set_mmu_def tbl_def)

definition dirty_bank_blocks :: "dispatcher \<Rightarrow> bref set" where
  "dirty_bank_blocks d = (if rom_bank_dirty (d_mmu d) = 0 then {} else \<Union>p\<in>{0x40..<0x80}. on_page p d)"

definition dirty_page_blocks :: "dispatcher \<Rightarrow> bref set" where
  "dirty_page_blocks d = (if jit_smc_dirty (d_mmu d) = 0 then {}
     else \<Union>p\<in>{p. p < 256 \<and> jit_page_state (d_mmu d) p = 2}. on_page p d)"

lemma bank_step_ok:
  assumes t: "table_inv None d" and ar: "arena_inv evict d"
  shows "\<exists>d'. bank_dirty_step evict d = Some d' \<and> table_inv None d' \<and> arena_inv evict d' \<and> left (dirty_bank_blocks d) d d'
    \<and> d_mmu d' = (d_mmu d)\<lparr>rom_bank_dirty := 0\<rparr>"
proof (cases "rom_bank_dirty (d_mmu d) = 0")
  case True
  moreover have "(d_mmu d)\<lparr>rom_bank_dirty := 0\<rparr> = d_mmu d" using True by (intro mmu.equality) simp_all
  ultimately show ?thesis using assms by (simp add: bank_dirty_step_def dirty_bank_blocks_def without_left without_refl)
next
  case False
  define ps where "ps = [0x40..<0x80::nat]"
  have ps: "\<forall>p\<in>set ps. p < 256" "set ps = {0x40..<0x80}" unfolding ps_def set_upt by simp_all
  from invalidate_pages [OF t ar ps(1)] obtain d1 where
    d1: "fold_opt (\<lambda>p. gbjit_dispatcher_invalidate_addr evict (push_bit GBJIT_SMC_PAGE_SHIFT (of_nat p))) ps d = Some d1"
      "table_inv None d1" "arena_inv evict d1" "without (\<Union>p\<in>{0x40..<0x80}. on_page p d) d d1" unfolding ps(2) by blast
  then have "d_mmu d1 = d_mmu d" by (simp add: without_def)
  moreover have "bank_dirty_step evict d = map_option (\<lambda>d. (set_mmu ((d_mmu d)\<lparr>rom_bank_dirty := 0\<rparr>) d)\<lparr>run_prev := None\<rparr>)
      (fold_opt (\<lambda>p. gbjit_dispatcher_invalidate_addr evict (push_bit GBJIT_SMC_PAGE_SHIFT (of_nat p))) ps d)"
    unfolding bank_dirty_step_def ps_def by (rule if_not_P) (rule False)
  ultimately show ?thesis using d1 False
    by (intro exI [of _ "(set_mmu ((d_mmu d1)\<lparr>rom_bank_dirty := 0\<rparr>) d1)\<lparr>run_prev := None\<rparr>"])
      (simp add: dirty_bank_blocks_def without_left)
qed

lemma smc_pages_ok:
  assumes "table_inv None d" "arena_inv evict d" "\<forall>p\<in>set ps. p < 256" "distinct ps"
  shows "\<exists>d'. fold_opt (smc_page_step evict) ps d = Some d' \<and> table_inv None d' \<and> arena_inv evict d'
    \<and> left (\<Union>p\<in>{p\<in>set ps. jit_page_state (d_mmu d) p = 2}. on_page p d) d d'
    \<and> d_mmu d' = (d_mmu d)\<lparr>jit_page_state := (\<lambda>p. if p \<in> set ps \<and> jit_page_state (d_mmu d) p = 2 then 0 else jit_page_state (d_mmu d) p)\<rparr>"
  using assms
proof (induction ps arbitrary: d)
  case Nil
  then show ?case by (simp add: without_refl without_left)
next
  case (Cons p ps)
  let ?s = "jit_page_state (d_mmu d)"
  let ?B = "if ?s p = 2 then on_page p d else {}"
  obtain d1 where d1: "smc_page_step evict p d = Some d1" "table_inv None d1" "arena_inv evict d1" "left ?B d d1"
    "d_mmu d1 = (d_mmu d)\<lparr>jit_page_state := ?s(p := if ?s p = 2 then 0 else ?s p)\<rparr>"
  proof (cases "?s p = 2")
    case False
    moreover have "?s(p := ?s p) = ?s" by simp
    ultimately show ?thesis using Cons.prems that [of d] by (simp add: smc_page_step_def without_left without_refl)
  next
    case True
    let ?a = "push_bit GBJIT_SMC_PAGE_SHIFT (of_nat p) :: u16"
    have p: "unat (page_of ?a) = p" using Cons.prems(3) by (simp add: page_shift)
    from invalidate_addr_ok [OF Cons.prems(1,2), of ?a] obtain d1 where
      d1: "gbjit_dispatcher_invalidate_addr evict ?a d = Some d1" "table_inv None d1" "arena_inv evict d1" "without (on_page p d) d d1"
      unfolding p by blast
    then have "d_mmu d1 = d_mmu d" by (simp add: without_def)
    with d1 True show ?thesis
      by (intro that [of "set_mmu ((d_mmu d1)\<lparr>jit_page_state := (jit_page_state (d_mmu d1))(p := 0)\<rparr>) d1"])
        (simp_all add: smc_page_step_def without_left)
  qed
  from Cons.IH [OF d1(2,3)] Cons.prems(3,4) obtain d2 where
    d2: "fold_opt (smc_page_step evict) ps d1 = Some d2" "table_inv None d2" "arena_inv evict d2"
      "left (\<Union>q\<in>{q\<in>set ps. jit_page_state (d_mmu d1) q = 2}. on_page q d1) d1 d2"
      "d_mmu d2 = (d_mmu d1)\<lparr>jit_page_state := (\<lambda>q. if q \<in> set ps \<and> jit_page_state (d_mmu d1) q = 2 then 0 else jit_page_state (d_mmu d1) q)\<rparr>"
    by auto
  have pn: "p \<notin> set ps" using Cons.prems(4) by simp
  have s1: "jit_page_state (d_mmu d1) q = ?s q" if "q \<in> set ps" for q
    using that pn by (auto simp: d1(5))
  have "on_page q d1 = on_page q d - ?B" for q
    using d1(4) left_src [OF d1(4)] by (auto simp: on_page_def left_def)
  then have "?B \<union> (\<Union>q\<in>{q\<in>set ps. jit_page_state (d_mmu d1) q = 2}. on_page q d1)
      = (\<Union>q\<in>{q\<in>set (p # ps). ?s q = 2}. on_page q d)" using s1 by auto
  with left_trans [OF d1(4) d2(4)] have "left (\<Union>q\<in>{q\<in>set (p # ps). ?s q = 2}. on_page q d) d d2" by simp
  moreover have "d_mmu d2 = (d_mmu d)\<lparr>jit_page_state := (\<lambda>q. if q \<in> set (p # ps) \<and> ?s q = 2 then 0 else ?s q)\<rparr>"
    using pn by (auto simp: d2(5) d1(5) fun_eq_iff intro!: mmu.equality)
  ultimately show ?case using d1(1) d2(1-3) by simp
qed

lemma smc_step_ok:
  assumes t: "table_inv None d" and ar: "arena_inv evict d"
  shows "\<exists>d'. smc_dirty_step evict d = Some d' \<and> table_inv None d' \<and> arena_inv evict d' \<and> left (dirty_page_blocks d) d d'
    \<and> d_mmu d' = (if jit_smc_dirty (d_mmu d) = 0 then d_mmu d else (d_mmu d)\<lparr>jit_smc_dirty := 0,
         jit_page_state := (\<lambda>p. if p < 256 \<and> jit_page_state (d_mmu d) p = 2 then 0 else jit_page_state (d_mmu d) p)\<rparr>)"
proof (cases "jit_smc_dirty (d_mmu d) = 0")
  case True
  then show ?thesis using assms by (simp add: smc_dirty_step_def dirty_page_blocks_def without_left without_refl)
next
  case False
  have "\<forall>p\<in>set [0..<256]. p < 256" "distinct [0..<256]" by simp_all
  from smc_pages_ok [OF t ar this] obtain d1 where
    d1: "fold_opt (smc_page_step evict) [0..<256] d = Some d1" "table_inv None d1" "arena_inv evict d1"
      "left (\<Union>p\<in>{p\<in>set [0..<256]. jit_page_state (d_mmu d) p = 2}. on_page p d) d d1"
      "d_mmu d1 = (d_mmu d)\<lparr>jit_page_state := (\<lambda>p. if p \<in> set [0..<256] \<and> jit_page_state (d_mmu d) p = 2 then 0 else jit_page_state (d_mmu d) p)\<rparr>"
    by blast
  have "{p\<in>set [0..<256]. jit_page_state (d_mmu d) p = 2} = {p. p < 256 \<and> jit_page_state (d_mmu d) p = 2}" by auto
  with d1 False show ?thesis
    by (intro exI [of _ "(set_mmu ((d_mmu d1)\<lparr>jit_smc_dirty := 0\<rparr>) d1)\<lparr>run_prev := None\<rparr>"])
      (simp add: smc_dirty_step_def dirty_page_blocks_def)
qed

lemma read_flags: "mmu_read8 (m\<lparr>rom_bank_dirty := x\<rparr>) a = mmu_read8 m a" "mmu_read8 (m\<lparr>jit_smc_dirty := x\<rparr>) a = mmu_read8 m a"
  "mmu_read8 (m\<lparr>jit_page_state := s\<rparr>) a = mmu_read8 m a"
  by (simp_all add: mmu_read8_def rom_off_def joyp_read_def Let_def)

lemma cleaned_ok:
  assumes t: "table_inv None d" and ar: "arena_inv evict d" and c: "cached_ok snap d"
  shows "\<exists>d1 d2. bank_dirty_step evict d = Some d1 \<and> smc_dirty_step evict d1 = Some d2
    \<and> table_inv None d2 \<and> arena_inv evict d2 \<and> coherent snap d2 \<and> cached_ok snap d2
    \<and> tbl d2 = tbl d - (dirty_bank_blocks d \<union> dirty_page_blocks d)"
proof -
  let ?m = "d_mmu d"
  from bank_step_ok [OF t ar] obtain d1 where
    d1: "bank_dirty_step evict d = Some d1" "table_inv None d1" "arena_inv evict d1" "left (dirty_bank_blocks d) d d1"
      "d_mmu d1 = ?m\<lparr>rom_bank_dirty := 0\<rparr>" by blast
  from smc_step_ok [OF d1(2,3)] obtain d2 where
    d2: "smc_dirty_step evict d1 = Some d2" "table_inv None d2" "arena_inv evict d2" "left (dirty_page_blocks d1) d1 d2"
      "d_mmu d2 = (if jit_smc_dirty (d_mmu d1) = 0 then d_mmu d1 else (d_mmu d1)\<lparr>jit_smc_dirty := 0,
         jit_page_state := (\<lambda>p. if p < 256 \<and> jit_page_state (d_mmu d1) p = 2 then 0 else jit_page_state (d_mmu d1) p)\<rparr>)" by blast
  have on1: "on_page p d1 = on_page p d - dirty_bank_blocks d" for p
    using d1(4) left_src [OF d1(4)] by (auto simp: on_page_def left_def)
  have "dirty_bank_blocks d \<union> dirty_page_blocks d1 = dirty_bank_blocks d \<union> dirty_page_blocks d"
    by (auto simp: dirty_page_blocks_def d1(5) on1)
  with left_trans [OF d1(4) d2(4)] have l: "left (dirty_bank_blocks d \<union> dirty_page_blocks d) d d2" by simp
  then have tb: "tbl d2 = tbl d - (dirty_bank_blocks d \<union> dirty_page_blocks d)" by (simp add: left_def)
  have rd: "mmu_read8 (d_mmu d2) a = mmu_read8 ?m a" for a by (simp add: d2(5) d1(5) read_flags)
  have mk: "marks d" using c by (simp add: cached_ok_def)
  have pres: "mmu_read8 ?m a = snap b a" if b: "b \<in> tbl d2" and a: "in_src (d_blk d b) a" "tracked a" for a b
  proof (rule ccontr)
    assume ne: "mmu_read8 ?m a \<noteq> snap b a"
    have bd: "b \<in> tbl d" "b \<notin> dirty_bank_blocks d" "b \<notin> dirty_page_blocks d" using b tb by auto
    with c a ne have n: "0x4000 \<le> a" "noticed a ?m" by (auto simp: cached_ok_def)
    have on: "b \<in> on_page (unat a div 256) d" using src_page [OF a(1)] bd(1) by (simp add: on_page_def)
    show False
    proof (cases "a < 0x8000")
      case True
      then have "0x40 \<le> unat a div 256" "unat a div 256 < 0x80"
        using n(1) div_le_mono [of "0x4000" "unat a" 256] by (simp_all add: word_le_nat_alt word_less_nat_alt less_mult_imp_div_less)
      with on bd(2) n(2) True show False by (auto simp: dirty_bank_blocks_def noticed_def)
    next
      case False
      then have "ram_cell a = a" using a(2) by (simp add: tracked_def)
      then have "jit_page_state ?m (unat a div 256) = 2" "jit_smc_dirty ?m = 1"
        using n(2) False by (simp_all add: noticed_def code_page_div)
      moreover have "unat a div 256 < 256" using src_page [OF a(1)] page_list_bound by blast
      ultimately show False using on bd(3) by (auto simp: dirty_page_blocks_def)
    qed
  qed
  have co: "coherent snap d2" using pres left_src [OF l] by (simp add: coherent_def rd)
  have st2: "jit_page_state (d_mmu d2) p = (if jit_smc_dirty ?m \<noteq> 0 \<and> p < 256 \<and> jit_page_state ?m p = 2 then 0 else jit_page_state ?m p)" for p
    by (simp add: d2(5) d1(5))
  have "marks d2"
    unfolding marks_def
  proof (intro conjI ballI allI impI)
    fix b p assume b: "b \<in> tbl d2" and "p \<in> set (pages_of (d_blk d2 b))"
    then have p: "p \<in> set (pages_of (d_blk d b))" "p < 256" using left_src [OF l] page_list_bound by auto
    have bd: "b \<in> tbl d" "b \<notin> dirty_page_blocks d" using b tb by auto
    then have "jit_page_state ?m p \<in> {1, 2}" using mk p by (auto simp: marks_def)
    moreover have "jit_smc_dirty ?m = 0 \<or> jit_page_state ?m p \<noteq> 2"
      using bd p by (auto simp: dirty_page_blocks_def on_page_def)
    ultimately show "jit_page_state (d_mmu d2) p \<in> {1, 2}" by (auto simp: st2)
  next
    fix p :: nat assume p: "p < 256"
    show "jit_page_state (d_mmu d2) p \<in> {0, 1, 2}" using mk p by (auto simp: st2 marks_def)
    assume "jit_page_state (d_mmu d2) p = 2"
    with p mk show "jit_smc_dirty (d_mmu d2) = 1" by (auto simp: st2 marks_def split: if_splits)
  qed
  then have "cached_ok snap d2" using co by (auto simp: cached_ok_def coherent_def)
  with d1(1) d2(1-3) co tb show ?thesis by blast
qed

lemma tick_reads: "tracked a \<Longrightarrow> mmu_read8 (ppu_tick clk m) a = mmu_read8 m a"
  using event_changes [of "Tick clk" m a] by fastforce

lemma push16_rom: "rom (cpu_mmu (push16 v c)) = rom (cpu_mmu c)"
  by (simp add: push16_def wr16_def mmu_write16_def Let_def write_rom_parts)

lemma service_reads:
  assumes "tracked a" "fst (sm83_service_interrupts (d_cpu d)) = 0 \<or> a < 0x4000"
  shows "mmu_read8 (d_mmu (service d)) a = mmu_read8 (d_mmu d) a"
proof -
  let ?s = "sm83_service_interrupts (d_cpu d)" and ?t = "ppu_tick (cpu_cycles (d_cpu d)) (d_mmu d)"
  have m: "d_mmu (service d) = cpu_mmu (snd ?s)" by (simp add: service_def Let_def case_prod_beta set_cpu_def)
  have t: "mmu_read8 ?t a = mmu_read8 (d_mmu d) a" by (rule tick_reads [OF assms(1)])
  show ?thesis
  proof (cases "fst ?s = 0")
    case True
    then have "cpu_mmu (snd ?s) = ?t" by (auto simp: sm83_service_interrupts_def Let_def split: option.splits if_splits)
    then show ?thesis by (simp add: m t)
  next
    case False
    have "rom (cpu_mmu (snd ?s)) = rom ?t" by (simp add: sm83_service_interrupts_def Let_def push16_rom split: option.split)
    then have "mmu_read8 (cpu_mmu (snd ?s)) a = mmu_read8 ?t a" using assms(2) False by (simp add: rom_low_stable)
    then show ?thesis by (simp add: m t)
  qed
qed

section \<open>Inserting keeps the cache coherent\<close>

lemma insert_src: "in_src (d_blk (insert_block evict b d) x) a = in_src (d_blk d x) a"
    "pages_of (d_blk (insert_block evict b d) x) = pages_of (d_blk d x)"
  by (cases "x = b", simp_all add: insert_form in_src_def pages_of_def first_page_def last_page_def)+

lemma insert_cached:
  assumes t: "table_inv None d" and f: "fresh_block b d" and c: "cached_ok snap d"
    and r: "\<forall>a. in_src (d_blk d b) a \<and> tracked a \<longrightarrow> mmu_read8 (d_mmu d) a = snap b a"
  shows "cached_ok snap (insert_block evict b d)"
proof -
  let ?d = "insert_block evict b d" let ?m = "d_mmu d"
  have mk: "marks d" using c by (simp add: cached_ok_def)
  have st: "jit_page_state (d_mmu ?d) p = (if p \<in> set (pages_of (d_blk d b)) \<and> jit_page_state ?m p = 0 then 1 else jit_page_state ?m p)"
    "jit_smc_dirty (d_mmu ?d) = jit_smc_dirty ?m" "rom_bank_dirty (d_mmu ?d) = rom_bank_dirty ?m" for p
    by (simp_all add: insert_form(7))
  have rd: "mmu_read8 (d_mmu ?d) a = mmu_read8 ?m a" for a by (simp add: insert_form(7) read_flags)
  have nt: "noticed a ?m \<Longrightarrow> noticed a (d_mmu ?d)" for a by (auto simp: noticed_def st split: if_splits)
  have "marks ?d"
    unfolding marks_def insert_src insert_form(1)
  proof (intro conjI ballI allI impI)
    fix x p assume x: "x \<in> insert b (tbl d)" "p \<in> set (pages_of (d_blk d x))"
    then have "jit_page_state ?m p \<in> {0, 1, 2}" using mk page_list_bound by (simp add: marks_def)
    then show "jit_page_state (d_mmu ?d) p \<in> {1, 2}" using x mk by (auto simp: st marks_def)
  next
    fix p :: nat assume p: "p < 256"
    then have "jit_page_state ?m p \<in> {0, 1, 2}" using mk by (simp add: marks_def)
    then show "jit_page_state (d_mmu ?d) p \<in> {0, 1, 2}" by (auto simp: st)
    assume "jit_page_state (d_mmu ?d) p = 2"
    then show "jit_smc_dirty (d_mmu ?d) = 1" using p mk by (auto simp: st marks_def split: if_splits)
  qed
  then show ?thesis using c r nt by (auto simp: cached_ok_def insert_src insert_form(1) rd)
qed

section \<open>A small cache to evaluate the theorems on\<close>

definition no_block :: gbjit_block where
  "no_block = \<lparr>gb_pc_start = 0, gb_pc_end = 0, n_ops = 0, blk_code = 0, code_size = 0, entry_off = 0,
     predicted_next = (\<lambda>_. None), predicted_next_pc = (\<lambda>_. 0), predicted_next_victim = 0, succ_pc = (\<lambda>_. 0),
     tag = 0, self_loop = False\<rparr>"

definition zero_dispatcher :: "cpu_state \<Rightarrow> dispatcher" where
  "zero_dispatcher c = \<lparr>cc_used = 0, cc_cap = 0, cc_free_head = 0, cc_words = (\<lambda>_. 0), d_cpu = c, d_blk = (\<lambda>_. no_block),
     d_live = (\<lambda>_. False), buckets = (\<lambda>_. []), smc_pages = (\<lambda>_. []), interp_fallback = False, no_cache = False,
     prefetch_enabled = False, prefetch_depth = 0, evict_on_full = False, jit_epoch = 0, run_prev = None, arena_set = False\<rparr>"

text \<open>A block translated from \<open>[0xC010, 0xC020)\<close>, compiled but not inserted.\<close>

definition one_block :: dispatcher where
  "one_block = (zero_dispatcher (static_cpu\<lparr>cpu_mmu := static_mmu\<lparr>jit_page_state := \<lambda>_. 0\<rparr>\<rparr>))
     \<lparr>d_blk := (\<lambda>_. no_block)(7 := no_block\<lparr>gb_pc_start := 0xC010, gb_pc_end := 0xC020\<rparr>), d_live := (\<lambda>b. b = 7)\<rparr>"

text \<open>A block translated from \<open>[0xE110, 0xE120)\<close>, compiled but not inserted.\<close>

definition echo_block :: dispatcher where
  "echo_block = one_block\<lparr>d_blk := (\<lambda>_. no_block)(7 := no_block\<lparr>gb_pc_start := 0xE110, gb_pc_end := 0xE120\<rparr>)\<rparr>"

lemma empty_table: "(\<And>i. buckets d i = []) \<Longrightarrow> (\<And>p. smc_pages d p = []) \<Longrightarrow> tbl d = {} \<and> table_inv None d"
  by (simp add: tbl_def table_inv_def buckets_ok_def pages_ok_def predictions_ok_def)

lemma one_block_facts:
  "table_inv None one_block" "tbl one_block = {}" "fresh_block 7 one_block" "cached_ok snap one_block" "arena_inv 0 one_block"
  using empty_table [of one_block]
  by (simp_all add: one_block_def zero_dispatcher_def fresh_block_def no_block_def find_block_def cached_ok_def marks_def
      static_cpu_def arena_inv_def)

section \<open>The properties\<close>



text \<open>C1: the two clean-up passes at the top of the run loop leave no stale block. Start from a cache that is
  consistent with memory (\<open>cached_ok\<close>: every source byte of a cached block is as compiled, or its change has been
  noticed). Let any number of memory events happen: writes through \<open>mmu_write8\<close>, at any address, bank switches
  included, and advances of the PPU. Then \<open>bank_dirty_step\<close> and \<open>smc_dirty_step\<close> return; they drop exactly the
  blocks registered on a switched or a dirty page; every block that is left was compiled from the bytes that memory
  now holds, at all tracked source addresses (ROM, VRAM, WRAM by its own addresses, HRAM); and the table, arena and
  consistency invariants hold again, so that the next round can start from them. The interrupt service that follows
  before a block is looked up keeps the table; the bytes stay those compiled, all of them when no interrupt is served,
  and those of bank 0, where the vectors are, when the push of the return address may have overwritten others.
  Not covered: stores that the inlined PUSH, CALL, RST and LD (HL+/-),A make without \<open>mmu_write8\<close> (they are no
  events here); code in the echo area; blocks that run over FFFF; and what the loop does after it has looked up a block.\<close>

theorem no_stale_code:
  fixes d0 :: dispatcher
  assumes "table_inv None d0" "arena_inv evict d0" "cached_ok snap d0" "d = set_mmu (fold do_event es (d_mmu d0)) d0"
  shows "\<exists>d1 d2. bank_dirty_step evict d = Some d1 \<and> smc_dirty_step evict d1 = Some d2
    \<and> table_inv None d2 \<and> arena_inv evict d2 \<and> cached_ok snap d2 \<and> coherent snap d2
    \<and> tbl d2 = tbl d0 - (dirty_bank_blocks d \<union> dirty_page_blocks d)
    \<and> tbl (service d2) = tbl d2
    \<and> (\<forall>b\<in>tbl d2. \<forall>a. in_src (d_blk d2 b) a \<and> tracked a
         \<and> (fst (sm83_service_interrupts (d_cpu d2)) = 0 \<or> a < 0x4000)
         \<longrightarrow> mmu_read8 (d_mmu (service d2)) a = snap b a)"
proof -
  have d: "table_inv None d" "arena_inv evict d" "tbl d = tbl d0" "cached_ok snap d"
    using assms(1-3) events_ok [OF assms(3,1), of es] by (simp_all add: assms(4))
  have "tbl (service x) = tbl x" for x by (simp add: service_def Let_def case_prod_beta set_cpu_def tbl_def)
  with cleaned_ok [OF d(1,2,4)] show ?thesis unfolding d(3)
    by (elim ex_forward) (auto simp: service_reads coherent_def)
qed

lemma C011_write: "jit_page_state (mmu_write8 0 0xC011 9 (static_mmu\<lparr>jit_page_state := (\<lambda>_. 0)(0xC0 := 1)\<rparr>)) 0xC0 = 2
  \<and> jit_smc_dirty (mmu_write8 0 0xC011 9 (static_mmu\<lparr>jit_page_state := (\<lambda>_. 0)(0xC0 := 1)\<rparr>)) = 1"
  by (simp add: region_writes smc_mark_def static_mmu_def Let_def)

theorem no_stale_code_witness:
  "let d0 = insert_block 0 7 one_block; d = set_mmu (mmu_write8 0 0xC011 9 (d_mmu d0)) d0
   in \<exists>d1 d2. bank_dirty_step 0 d = Some d1 \<and> smc_dirty_step 0 d1 = Some d2 \<and> tbl d2 = {}"
proof -
  let ?D = "insert_block 0 7 one_block" and ?snap = "\<lambda>_. mmu_read8 (d_mmu one_block)"
  let ?d = "set_mmu (mmu_write8 0 0xC011 9 (d_mmu ?D)) ?D"
  have pg: "pages_of (d_blk one_block 7) = [0xC0]"
    by (simp add: one_block_def pages_of_def first_page_def last_page_def page_of_def GBJIT_SMC_PAGE_SHIFT_def
        GBJIT_SMC_PAGE_COUNT_def Let_def)
  have m0: "d_mmu ?D = static_mmu\<lparr>jit_page_state := (\<lambda>_. 0)(0xC0 := 1)\<rparr>"
  proof -
    have "d_mmu one_block = static_mmu\<lparr>jit_page_state := (\<lambda>_. 0)\<rparr>" by (simp add: one_block_def zero_dispatcher_def)
    then show ?thesis by (auto simp: insert_form(7) pg fun_eq_iff intro!: mmu.equality)
  qed
  have b: "tbl ?D = {7}" using one_block_facts(2) by (simp add: insert_form(1))
  have "7 \<in> on_page 0xC0 ?d" by (simp add: on_page_def b insert_src pg)
  then have "7 \<in> dirty_page_blocks ?d" using C011_write by (force simp: dirty_page_blocks_def m0)
  moreover have "arena_inv 0 ?D" by (simp add: arena_inv_def)
  ultimately show ?thesis
    using no_stale_code [OF insert_inv [OF one_block_facts(1,3), of 0] _ insert_cached [OF one_block_facts(1,3,4), of ?snap 0] refl,
        of 0 "[Write 0 0xC011 9]"] b
    by (auto simp: Let_def)
qed

text \<open>C38: code in the echo area is not protected against self-modification, contrary to the comment that its blocks
  are registered under the WRAM page. Insert a block that starts in E000 to FDFF, with no dirty flag up and no
  block registered on the WRAM page that the echo mirrors (page state 0). It is registered under its own echo page, and
  that page is marked. Then write to one of its source addresses: the byte is changed, but neither clean-up pass of the
  run loop does anything, and the block is still found at its PC.\<close>

theorem echo_code_unnoticed:
  assumes "table_inv None d" "fresh_block b d" "0xE000 \<le> gb_pc_start (d_blk d b)" "in_src (d_blk d b) a" "a < 0xFE00"
    "jit_page_state (d_mmu d) (unat a div 256 - 32) = 0" "jit_smc_dirty (d_mmu d) = 0" "rom_bank_dirty (d_mmu d) = 0"
    "d1 = insert_block evict b d" "d2 = set_mmu (mmu_write8 clk a v (d_mmu d1)) d1"
  shows "b \<in> set (smc_pages d2 (unat a div 256)) \<and> jit_page_state (d_mmu d2) (unat a div 256) \<noteq> 0
    \<and> mmu_read8 (d_mmu d2) a = v \<and> bank_dirty_step evict d2 = Some d2 \<and> smc_dirty_step evict d2 = Some d2
    \<and> find_block d2 (gb_pc_start (d_blk d b)) = Some b"
proof -
  have e: "0xE000 \<le> unat a" "unat a < 0xFE00" using assms(3-5) by (auto simp: in_src_def word_le_nat_alt word_less_nat_alt)
  have pg: "unat a div 256 \<in> set (pages_of (d_blk d b))" by (rule src_page [OF assms(4)])
  have lo: "unat a div 256 - 32 \<notin> set (pages_of (d_blk d b))"
  proof -
    have "unat (first_page (d_blk d b)) = unat (gb_pc_start (d_blk d b)) div 256" by (simp add: first_page_def page_of_div)
    moreover have "0xE0 \<le> unat (gb_pc_start (d_blk d b)) div 256"
      using assms(3) div_le_mono [of "0xE000" "unat (gb_pc_start (d_blk d b))" 256] by (simp add: word_le_nat_alt)
    moreover have "unat a div 256 < 0xFE" using e(2) by (simp add: less_mult_imp_div_less)
    ultimately show ?thesis by (auto simp: pages_of_def)
  qed
  have cp: "unat (drop_bit 8 (a - 0x2000)) = unat a div 256 - 32"
  proof -
    have "unat (a - 0x2000) = unat a - 0x2000" using e(1) by (simp add: unat_sub word_le_nat_alt)
    then show ?thesis using e(1) by (simp add: unsigned_drop_bit_eq drop_bit_eq_div unat_div)
  qed
  have m1: "jit_page_state (d_mmu d1) (unat a div 256 - 32) = 0" "jit_smc_dirty (d_mmu d1) = 0" "rom_bank_dirty (d_mmu d1) = 0"
    "jit_page_state (d_mmu d1) (unat a div 256) \<noteq> 0"
    using assms(6-8) lo pg by (simp_all add: assms(9) insert_form(7))
  have m2: "jit_page_state (d_mmu d2) = jit_page_state (d_mmu d1)" "jit_smc_dirty (d_mmu d2) = 0" "rom_bank_dirty (d_mmu d2) = 0"
    using write_echo [OF e] m1 by (simp_all add: assms(10) smc_mark_def Let_def cp)
  have "plain_ram a" using e by (simp add: plain_ram_def Let_def)
  then have r: "mmu_read8 (d_mmu d2) a = v" unfolding assms(10) by (simp add: ram.read_write_same)
  have "b \<in> set (smc_pages d2 (unat a div 256))" using pg by (simp add: assms(9,10) set_mmu_def insert_form(4))
  moreover have "find_block d2 (gb_pc_start (d_blk d b)) = Some b"
    using insert_find [OF assms(1,2), of evict "gb_pc_start (d_blk d b)"] by (simp add: assms(9,10) set_mmu_def find_block_def)
  ultimately show ?thesis using r m1 m2 by (simp add: bank_dirty_step_def smc_dirty_step_def)
qed

theorem echo_code_unnoticed_witness:
  "let d = insert_block 0 7 echo_block; d2 = set_mmu (mmu_write8 0 0xE115 9 (d_mmu d)) d
   in mmu_read8 (d_mmu d2) 0xE115 = 9 \<and> smc_dirty_step 0 d2 = Some d2 \<and> find_block d2 0xE110 = Some 7"
proof -
  have f: "table_inv None echo_block" "fresh_block 7 echo_block"
    using empty_table [of echo_block]
    by (simp_all add: echo_block_def one_block_def zero_dispatcher_def fresh_block_def no_block_def find_block_def)
  show ?thesis
    using echo_code_unnoticed [OF f _ _ _ _ _ _ refl refl, where a = "0xE115" and evict = 0 and clk = 0 and v = 9]
    by (simp add: Let_def) (simp add: echo_block_def one_block_def zero_dispatcher_def in_src_def static_cpu_def static_mmu_def)
qed

end
