(* ===== verification/Dispatch_Laws.thy ===== *)
theory Dispatch_Laws
  imports Coherence
begin

text \<open>
  The laws of the run loop of \<open>gbjit_dispatcher_run_until\<close>. \<open>loop_inv\<close> is its invariant: the cache table is
  consistent and the previous block is absent or cached. \<open>compiler_ok\<close> is the contract the loop expects of the code
  generator, \<open>ready\<close> the condition under which it enters a block: live, cached and starting at the current PC.
  \<open>agree_on_valid\<close> relates two executors that coincide on ready blocks. An iteration run with either gives the same
  result, so nothing depends on what a stale or freed block would do.
\<close>

section \<open>The predicted successor\<close>

lemma predicted_Some: "predicted B pc = Some x \<Longrightarrow>
   \<exists>s<GBJIT_CHAIN_PREDICTOR_WAYS. predicted_next B s = Some x \<and> predicted_next_pc B s = pc"
  by (auto simp: predicted_def split: option.splits dest!: find_SomeD)

lemma lookup_find:
  assumes "table_inv None d" "\<forall>p. run_prev d = Some p \<longrightarrow> p \<in> tbl d" "\<not> no_cache d"
  shows "lookup_block d = find_block d (cpu_pc (d_cpu d))"
proof (cases "run_prev d")
  case None
  then show ?thesis using assms(3) by (simp add: lookup_block_def)
next
  case (Some p)
  show ?thesis
  proof (cases "predicted (d_blk d p) (cpu_pc (d_cpu d))")
    case None
    with Some assms(3) show ?thesis by (simp add: lookup_block_def)
  next
    case x: (Some x)
    from predicted_Some [OF x] assms(1,2) Some have "x \<in> tbl d" "gb_pc_start (d_blk d x) = cpu_pc (d_cpu d)"
      by (auto simp: table_inv_def predictions_ok_def)
    then have "find_block d (cpu_pc (d_cpu d)) = Some x"
      using find_block_correct assms(1) by (simp add: table_inv_def)
    with x Some assms(3) show ?thesis by (simp add: lookup_block_def)
  qed
qed

lemma set_blk_table:
  assumes "\<And>x. gb_pc_start (f x) = gb_pc_start (d_blk d x)" "\<And>x. gb_pc_end (f x) = gb_pc_end (d_blk d x)"
  shows "tbl (d\<lparr>d_blk := f\<rparr>) = tbl d" "buckets_ok (d\<lparr>d_blk := f\<rparr>) = buckets_ok d"
    "pages_ok ex (d\<lparr>d_blk := f\<rparr>) = pages_ok ex d"
  using assms by (simp_all add: tbl_def buckets_ok_def pages_ok_def pages_of_def first_page_def last_page_def)

lemma record_form:
  "record_successor b d = d \<or> (\<exists>p v. run_prev d = Some p \<and> v < GBJIT_CHAIN_PREDICTOR_WAYS
     \<and> record_successor b d = d\<lparr>d_blk := (d_blk d)(p := (d_blk d p)\<lparr>predicted_next := (predicted_next (d_blk d p))(v := Some b),
          predicted_next_pc := (predicted_next_pc (d_blk d p))(v := cpu_pc (d_cpu d)),
          predicted_next_victim := of_nat (v + 1)\<rparr>)\<rparr>)"
proof (cases "run_prev d")
  case (Some p)
  let ?v = "unat (predicted_next_victim (d_blk d p)) mod GBJIT_CHAIN_PREDICTOR_WAYS"
  have "?v < GBJIT_CHAIN_PREDICTOR_WAYS" by (simp add: GBJIT_CHAIN_PREDICTOR_WAYS_def)
  with Some show ?thesis by (auto simp: record_successor_def Let_def set_blk_def)
qed (simp add: record_successor_def)

lemma record_inv:
  assumes t: "table_inv None d" and b: "find_block d (cpu_pc (d_cpu d)) = Some b"
  shows "table_inv None (record_successor b d)" "tbl (record_successor b d) = tbl d"
    "\<And>x. gb_pc_start (d_blk (record_successor b d) x) = gb_pc_start (d_blk d x)"
    "d_cpu (record_successor b d) = d_cpu d" "run_prev (record_successor b d) = run_prev d"
    "no_cache (record_successor b d) = no_cache d"
proof -
  have bb: "b \<in> tbl d" "gb_pc_start (d_blk d b) = cpu_pc (d_cpu d)"
    using b t find_block_correct by (auto simp: table_inv_def)
  have "table_inv None (record_successor b d) \<and> tbl (record_successor b d) = tbl d
    \<and> (\<forall>x. gb_pc_start (d_blk (record_successor b d) x) = gb_pc_start (d_blk d x))
    \<and> d_cpu (record_successor b d) = d_cpu d \<and> run_prev (record_successor b d) = run_prev d
    \<and> no_cache (record_successor b d) = no_cache d"
    using record_form [of b d]
  proof (elim disjE exE conjE)
    fix p v
    define f where "f = (d_blk d)(p := (d_blk d p)\<lparr>predicted_next := (predicted_next (d_blk d p))(v := Some b),
          predicted_next_pc := (predicted_next_pc (d_blk d p))(v := cpu_pc (d_cpu d)),
          predicted_next_victim := of_nat (v + 1)\<rparr>)"
    assume "record_successor b d = d\<lparr>d_blk := (d_blk d)(p := (d_blk d p)\<lparr>predicted_next := (predicted_next (d_blk d p))(v := Some b),
          predicted_next_pc := (predicted_next_pc (d_blk d p))(v := cpu_pc (d_cpu d)),
          predicted_next_victim := of_nat (v + 1)\<rparr>)\<rparr>"
    then have r: "record_successor b d = d\<lparr>d_blk := f\<rparr>" by (simp only: f_def)
    have k: "\<And>x. gb_pc_start (f x) = gb_pc_start (d_blk d x)" "\<And>x. gb_pc_end (f x) = gb_pc_end (d_blk d x)"
      by (simp_all add: f_def)
    have n: "predicted_next (f x) s = Some y \<Longrightarrow> predicted_next (d_blk d x) s = Some y \<and> predicted_next_pc (f x) s = predicted_next_pc (d_blk d x) s
        \<or> y = b \<and> predicted_next_pc (f x) s = cpu_pc (d_cpu d)" for x y s
      by (auto simp: f_def split: if_splits)
    have "predictions_ok (d\<lparr>d_blk := f\<rparr>)"
      using t bb unfolding predictions_ok_def table_inv_def set_blk_table(1) [OF k] by (auto simp: k dest!: n)
    then show ?thesis unfolding r using t k by (simp add: table_inv_def set_blk_table [OF k])
  qed (use t in simp)
  then show "table_inv None (record_successor b d)" "tbl (record_successor b d) = tbl d"
    "\<And>x. gb_pc_start (d_blk (record_successor b d) x) = gb_pc_start (d_blk d x)"
    "d_cpu (record_successor b d) = d_cpu d" "run_prev (record_successor b d) = run_prev d"
    "no_cache (record_successor b d) = no_cache d" by simp_all
qed

section \<open>The invariant of the run loop\<close>

definition loop_inv :: "dispatcher \<Rightarrow> bool" where
  "loop_inv d \<longleftrightarrow> table_inv None d \<and> (\<forall>p. run_prev d = Some p \<longrightarrow> p \<in> tbl d) \<and> \<not> no_cache d"

text \<open>What the run loop relies on the block compiler for, with the bump allocator.\<close>

definition compiler_ok :: "compiler \<Rightarrow> bool" where
  "compiler_ok compile \<longleftrightarrow> (\<forall>pc d. table_inv None d \<and> find_block d pc = None \<longrightarrow>
     (\<exists>r d'. compile pc d = Some (r, d') \<and> table_inv None d' \<and> tbl d' = tbl d \<and> run_prev d' = run_prev d
        \<and> d_cpu d' = d_cpu d \<and> no_cache d' = no_cache d
        \<and> (\<forall>x\<in>tbl d. gb_pc_start (d_blk d' x) = gb_pc_start (d_blk d x))
        \<and> (\<forall>b. r = Some b \<longrightarrow> fresh_block b d' \<and> gb_pc_start (d_blk d' b) = pc)))"

lemma set_cpu_table [simp]:
  "tbl (set_cpu c d) = tbl d" "table_inv ex (set_cpu c d) = table_inv ex d" "run_prev (set_cpu c d) = run_prev d"
  "no_cache (set_cpu c d) = no_cache d" "d_cpu (set_cpu c d) = c" "d_blk (set_cpu c d) = d_blk d"
  "d_live (set_cpu c d) = d_live d"
  by (simp_all add: set_cpu_def tbl_def table_inv_def buckets_ok_def pages_ok_def predictions_ok_def)

lemma loop_inv_cpu [simp]: "loop_inv (set_cpu c d) = loop_inv d"
  by (simp add: loop_inv_def)

lemma loop_inv_none: "loop_inv d \<Longrightarrow> loop_inv (d\<lparr>run_prev := None\<rparr>)"
  by (simp add: loop_inv_def)

lemma service_inv: "loop_inv d \<Longrightarrow> loop_inv (service d)"
  by (simp add: service_def Let_def case_prod_beta loop_inv_none)

lemma release_flags: "cc_release evict p n d = Some d' \<Longrightarrow> no_cache d' = no_cache d"
  by (auto simp: cc_release_def ring_free_def cold_free_def Let_def bind_eq_Some_conv
      more_eq(7) [OF merge_frame(3)] intro!: more_eq(7) split: if_splits)

lemma invalidate_flags: "gbjit_dispatcher_invalidate_addr evict a d = Some d' \<Longrightarrow> no_cache d' = no_cache d"
proof -
  have one: "invalidate_block evict b d = Some d' \<Longrightarrow> no_cache d' = no_cache d" for b d d'
    by (auto simp: invalidate_block_def Let_def gbjit_block_free_def unlink_form dest!: release_flags)
  have all: "fold_opt (invalidate_block evict) bs d = Some d' \<Longrightarrow> no_cache d' = no_cache d" for bs d d'
    by (induction bs arbitrary: d) (auto simp: bind_eq_Some_conv dest: one)
  assume "gbjit_dispatcher_invalidate_addr evict a d = Some d'"
  then show ?thesis by (auto simp: gbjit_dispatcher_invalidate_addr_def Let_def dest: all split: if_splits)
qed

lemma fold_opt_keeps: "(\<And>x s s'. f x s = Some s' \<Longrightarrow> g s' = g s) \<Longrightarrow> fold_opt f xs s = Some s' \<Longrightarrow> g s' = g s"
  by (induction xs arbitrary: s) (auto simp: bind_eq_Some_conv)

lemma set_mmu_flags [simp]: "no_cache (set_mmu m d) = no_cache d"
  by (simp add: set_mmu_def)

lemma clean_flags:
  "bank_dirty_step evict d = Some d' \<Longrightarrow> no_cache d' = no_cache d"
  "smc_dirty_step evict d = Some d' \<Longrightarrow> no_cache d' = no_cache d"
proof -
  have p: "smc_page_step evict p d = Some d' \<Longrightarrow> no_cache d' = no_cache d" for p d d'
    by (auto simp: smc_page_step_def dest: invalidate_flags split: if_splits)
  have bank: "fold_opt (\<lambda>p. gbjit_dispatcher_invalidate_addr evict (f p)) ps d = Some d' \<Longrightarrow> no_cache d' = no_cache d" for f ps d d'
    by (rule fold_opt_keeps [where g = no_cache]) (rule invalidate_flags)
  have smc: "fold_opt (smc_page_step evict) ps d = Some d' \<Longrightarrow> no_cache d' = no_cache d" for ps d d'
    by (rule fold_opt_keeps [where g = no_cache]) (rule p)
  define ps where "ps = [0x40..<0x80::nat]"
  show "bank_dirty_step evict d = Some d' \<Longrightarrow> no_cache d' = no_cache d"
    unfolding bank_dirty_step_def ps_def [symmetric] by (auto split: if_splits dest!: bank)
  show "smc_dirty_step evict d = Some d' \<Longrightarrow> no_cache d' = no_cache d"
    unfolding smc_dirty_step_def by (auto split: if_splits dest!: smc)
qed

lemma clean_inv:
  assumes "loop_inv d" "arena_inv evict d"
  shows "\<exists>d1 d2. bank_dirty_step evict d = Some d1 \<and> smc_dirty_step evict d1 = Some d2 \<and> loop_inv d2"
proof -
  have t: "table_inv None d" using assms(1) by (simp add: loop_inv_def)
  from bank_step_ok [OF t assms(2)] obtain d1 where
    d1: "bank_dirty_step evict d = Some d1" "table_inv None d1" "arena_inv evict d1" by blast
  have l1: "loop_inv d1"
  proof (cases "rom_bank_dirty (d_mmu d) = 0")
    case True
    with d1(1) assms(1) show ?thesis by (simp add: bank_dirty_step_def)
  next
    case False
    with d1(1) have "run_prev d1 = None" unfolding bank_dirty_step_def by auto
    with d1(2) clean_flags(1) [OF d1(1)] assms(1) show ?thesis by (simp add: loop_inv_def)
  qed
  from smc_step_ok [OF d1(2,3)] obtain d2 where d2: "smc_dirty_step evict d1 = Some d2" "table_inv None d2" by blast
  have "loop_inv d2"
  proof (cases "jit_smc_dirty (d_mmu d1) = 0")
    case True
    with d2(1) l1 show ?thesis by (simp add: smc_dirty_step_def)
  next
    case False
    with d2(1) have "run_prev d2 = None" unfolding smc_dirty_step_def by auto
    with d2(2) clean_flags(2) [OF d2(1)] l1 show ?thesis by (simp add: loop_inv_def)
  qed
  with d1(1) d2(1) show ?thesis by blast
qed

section \<open>The halt loop ends\<close>

lemma halt_step_cycles: "cpu_cycles (halt_step c) = cpu_cycles c + 4"
  by (simp add: halt_step_def GBJIT_HALT_STEP_CYCLES_def Let_def)

lemma halt_loop_below:
  assumes "loop_inv d" "cpu_cycles (d_cpu d) < until" "unat until + 4 < 2 ^ 64"
  shows "\<exists>d'. halt_loop until d = Some d' \<and> loop_inv d'"
  using assms(1,2)
proof (induction "unat until - unat (cpu_cycles (d_cpu d))" arbitrary: d rule: less_induct)
  case less
  define d1 where "d1 = set_cpu (halt_step (d_cpu d)) d"
  have i1: "loop_inv d1" using less.prems(1) by (simp add: d1_def)
  have lt: "unat (cpu_cycles (d_cpu d)) < unat until" using less.prems(2) by (simp add: word_less_nat_alt)
  then have c1: "unat (cpu_cycles (d_cpu d1)) = unat (cpu_cycles (d_cpu d)) + 4"
    using assms(3) by (simp add: d1_def halt_step_cycles unat_word_ariths)
  note u = halt_loop.simps [of until d, unfolded Let_def, folded d1_def]
  consider "irq_pending (d_mmu d1)" | "\<not> irq_pending (d_mmu d1)" "cpu_halted (d_cpu d1) \<noteq> 0 \<and> cpu_cycles (d_cpu d1) < until"
    | "\<not> irq_pending (d_mmu d1)" "\<not> (cpu_halted (d_cpu d1) \<noteq> 0 \<and> cpu_cycles (d_cpu d1) < until)" by blast
  then show ?case
  proof cases
    case 1
    with u service_inv [OF i1] show ?thesis by simp
  next
    case 2
    with less.hyps [of d1] i1 c1 lt show ?thesis by (simp add: u)
  next
    case 3
    with u i1 show ?thesis by auto
  qed
qed

lemma halt_loop_returns:
  assumes "loop_inv d" "unat until + 4 < 2 ^ 64"
  shows "\<exists>d'. halt_loop until d = Some d' \<and> loop_inv d'"
proof -
  define d1 where "d1 = set_cpu (halt_step (d_cpu d)) d"
  have i1: "loop_inv d1" using assms(1) by (simp add: d1_def)
  note u = halt_loop.simps [of until d, unfolded Let_def, folded d1_def]
  show ?thesis
  proof (cases "\<not> irq_pending (d_mmu d1) \<and> cpu_halted (d_cpu d1) \<noteq> 0 \<and> cpu_cycles (d_cpu d1) < until")
    case True
    with halt_loop_below [OF i1 _ assms(2)] show ?thesis by (simp add: u)
  next
    case False
    with u i1 service_inv [OF i1] show ?thesis by auto
  qed
qed

section \<open>Compiling\<close>

text \<open>The cache grows: nothing that was in it is lost.\<close>

definition grows :: "dispatcher \<Rightarrow> dispatcher \<Rightarrow> bool" where
  "grows d d' \<longleftrightarrow> tbl d \<subseteq> tbl d' \<and> (\<forall>x\<in>tbl d. gb_pc_start (d_blk d' x) = gb_pc_start (d_blk d x))
     \<and> run_prev d' = run_prev d \<and> cpu_pc (d_cpu d') = cpu_pc (d_cpu d) \<and> no_cache d' = no_cache d"

lemma grows_refl [simp]: "grows d d"
  by (simp add: grows_def)

lemma grows_trans: "grows d d' \<Longrightarrow> grows d' d'' \<Longrightarrow> grows d d''"
  by (auto simp: grows_def)

lemma insert_rest: "no_cache (insert_block evict b d) = no_cache d" "cpu_pc (d_cpu (insert_block evict b d)) = cpu_pc (d_cpu d)"
  by (simp_all add: insert_block_def Let_def register_pages_form pages_distinct set_mmu_def set_tag_def set_blk_def)

lemma insert_grows: "grows d (insert_block evict b d)"
proof -
  have "gb_pc_start (d_blk (insert_block evict b d) x) = gb_pc_start (d_blk d x)" for x
    by (cases "x = b") (simp_all add: insert_form)
  then show ?thesis by (auto simp: grows_def insert_form(1,8) insert_rest)
qed

lemma compile_insert:
  assumes c: "compiler_ok compile" and t: "table_inv None d" and n: "find_block d pc = None"
  obtains d' where "compile pc d = Some (None, d')" "table_inv None d'" "grows d d'" "tbl d' = tbl d"
  | b d' where "compile pc d = Some (Some b, d')" "table_inv None (insert_block evict b d')" "grows d (insert_block evict b d')"
      "b \<in> tbl (insert_block evict b d')" "gb_pc_start (d_blk (insert_block evict b d') b) = pc"
      "no_cache d' = no_cache d"
proof -
  from c t n obtain r d' where
    r: "compile pc d = Some (r, d')" "table_inv None d'" "tbl d' = tbl d" "run_prev d' = run_prev d"
      "d_cpu d' = d_cpu d" "no_cache d' = no_cache d" "\<forall>x\<in>tbl d. gb_pc_start (d_blk d' x) = gb_pc_start (d_blk d x)"
      "\<forall>b. r = Some b \<longrightarrow> fresh_block b d' \<and> gb_pc_start (d_blk d' b) = pc"
    unfolding compiler_ok_def by blast
  have g: "grows d d'" using r(3-7) by (simp add: grows_def)
  show ?thesis
  proof (cases r)
    case None
    with r g that(1) show ?thesis by blast
  next
    case (Some b)
    with r(8) have b: "fresh_block b d'" "gb_pc_start (d_blk d' b) = pc" by auto
    show ?thesis
      by (rule that(2) [of b d'])
        (use r Some b insert_inv [OF r(2) b(1), of evict] grows_trans [OF g insert_grows] in \<open>simp_all add: insert_form(1,6)\<close>)
  qed
qed

lemma prefetch_ok:
  assumes c: "compiler_ok compile"
  shows "table_inv None d \<Longrightarrow> \<exists>d'. prefetch_successors compile evict k b d = Some d' \<and> table_inv None d' \<and> grows d d'"
proof (induction k arbitrary: b d)
  case 0
  then show ?case by simp
next
  case (Suc k)
  have one: "\<exists>on d'. prefetch_one compile evict (prefetch_successors compile evict k) b i d = Some (on, d')
      \<and> table_inv None d' \<and> grows d d'" if "table_inv None d" for i d
  proof (cases "succ_pc (d_blk d b) i = 0xFFFF \<or> find_block d (succ_pc (d_blk d b) i) \<noteq> None")
    case True
    with that show ?thesis by (auto simp: prefetch_one_def Let_def)
  next
    case False
    then have n: "find_block d (succ_pc (d_blk d b) i) = None" by simp
    show ?thesis
    proof (rule compile_insert [OF c that n, where evict = evict])
      fix d' assume "compile (succ_pc (d_blk d b) i) d = Some (None, d')" "table_inv None d'" "grows d d'"
      with False show ?thesis by (auto simp: prefetch_one_def Let_def)
    next
      fix nb d'
      assume nb: "compile (succ_pc (d_blk d b) i) d = Some (Some nb, d')" "table_inv None (insert_block evict nb d')"
        "grows d (insert_block evict nb d')"
      from Suc.IH [OF nb(2), of nb] obtain d2 where
        d2: "prefetch_successors compile evict k nb (insert_block evict nb d') = Some d2" "table_inv None d2"
          "grows (insert_block evict nb d') d2" by blast
      with nb False grows_trans [OF nb(3) d2(3)] show ?thesis by (auto simp: prefetch_one_def Let_def)
    qed
  qed
  show ?case
  proof (cases "no_cache d")
    case True
    with Suc.prems show ?thesis by simp
  next
    case False
    from one [OF Suc.prems, of 0] obtain on d1 where
      d1: "prefetch_one compile evict (prefetch_successors compile evict k) b 0 d = Some (on, d1)" "table_inv None d1" "grows d d1"
      by blast
    from one [OF d1(2), of 1] obtain on2 d2 where
      d2: "prefetch_one compile evict (prefetch_successors compile evict k) b 1 d1 = Some (on2, d2)" "table_inv None d2" "grows d1 d2"
      by blast
    from False d1 d2 grows_trans [OF d1(3) d2(3)] show ?thesis by (cases on) (auto simp: Let_def)
  qed
qed

section \<open>Emptying the cache\<close>

lemma drop_buckets:
  fixes d :: dispatcher
  defines "f \<equiv> \<lambda>i d. (fold gbjit_block_free (buckets d i) d)\<lparr>buckets := (buckets d)(i := [])\<rparr>"
  shows "buckets (fold f is d) = (\<lambda>i. if i \<in> set is then [] else buckets d i)"
    "smc_pages (fold f is d) = smc_pages d" "run_prev (fold f is d) = run_prev d" "d_cpu (fold f is d) = d_cpu d"
    "no_cache (fold f is d) = no_cache d"
proof -
  have fr: "buckets (fold gbjit_block_free bs d) = buckets d" "smc_pages (fold gbjit_block_free bs d) = smc_pages d"
    "run_prev (fold gbjit_block_free bs d) = run_prev d" "d_cpu (fold gbjit_block_free bs d) = d_cpu d"
    "no_cache (fold gbjit_block_free bs d) = no_cache d" for bs d
    by (induction bs arbitrary: d) (simp_all add: gbjit_block_free_def)
  show "buckets (fold f is d) = (\<lambda>i. if i \<in> set is then [] else buckets d i)"
    by (induction "is" arbitrary: d) (auto simp: f_def fr fun_eq_iff)
  show "smc_pages (fold f is d) = smc_pages d" "run_prev (fold f is d) = run_prev d" "d_cpu (fold f is d) = d_cpu d"
    "no_cache (fold f is d) = no_cache d"
    by (induction "is" arbitrary: d, simp_all add: f_def fr)+
qed

lemma drop_pages_form: "fold (\<lambda>p d. d\<lparr>smc_pages := (smc_pages d)(p := [])\<rparr>) ps d
    = d\<lparr>smc_pages := (\<lambda>p. if p \<in> set ps then [] else smc_pages d p)\<rparr>"
  using fold_pages [of "\<lambda>_. []" ps d] by simp

lemma drop_tables_ok:
  "tbl (drop_tables d) = {}" "table_inv None (drop_tables d)" "run_prev (drop_tables d) = run_prev d"
  "d_cpu (drop_tables d) = d_cpu d" "no_cache (drop_tables d) = no_cache d"
proof -
  show t: "tbl (drop_tables d) = {}"
    by (simp add: drop_tables_def Let_def drop_pages_form tbl_def drop_buckets)
  show "table_inv None (drop_tables d)"
    unfolding table_inv_def buckets_ok_def pages_ok_def predictions_ok_def t
    by (simp add: drop_tables_def Let_def drop_pages_form drop_buckets)
  show "run_prev (drop_tables d) = run_prev d" "d_cpu (drop_tables d) = d_cpu d" "no_cache (drop_tables d) = no_cache d"
    by (simp_all add: drop_tables_def Let_def drop_pages_form drop_buckets)
qed

lemma find_empty: "tbl d = {} \<Longrightarrow> find_block d pc = None"
proof -
  assume "tbl d = {}"
  then have "buckets d (bucket_of pc) = []" using tblI [OF bucket_of_less, of _ d pc] by (cases "buckets d (bucket_of pc)") auto
  then show ?thesis by (simp add: find_block_def)
qed

lemma evict_all_ok:
  "tbl (evict_all 0 d) = {}" "table_inv None (evict_all 0 d)" "run_prev (evict_all 0 d) = run_prev d"
  "d_cpu (evict_all 0 d) = d_cpu d" "no_cache (evict_all 0 d) = no_cache d"
proof -
  have m: "codecache.more (evict_all 0 d) = codecache.more (drop_tables d)"
    by (simp add: evict_all_def cc_reset_def bump_reset_def)
  show "tbl (evict_all 0 d) = {}" "table_inv None (evict_all 0 d)" "run_prev (evict_all 0 d) = run_prev d"
    "d_cpu (evict_all 0 d) = d_cpu d" "no_cache (evict_all 0 d) = no_cache d"
    by (simp_all add: more_table [OF m] more_eq [OF m] drop_tables_ok)
qed

section \<open>Getting the block\<close>

definition ready :: "bref \<Rightarrow> dispatcher \<Rightarrow> bool" where
  "ready b d \<longleftrightarrow> loop_inv d \<and> find_block d (cpu_pc (d_cpu d)) = Some b"

lemma readyI: "loop_inv d \<Longrightarrow> b \<in> tbl d \<Longrightarrow> gb_pc_start (d_blk d b) = cpu_pc (d_cpu d) \<Longrightarrow> ready b d"
  using find_block_correct [of d] by (simp add: ready_def loop_inv_def table_inv_def)

lemma readyD: "ready b d \<Longrightarrow> loop_inv d \<and> b \<in> tbl d \<and> d_live d b \<and> gb_pc_start (d_blk d b) = cpu_pc (d_cpu d)"
  using find_block_correct [of d] by (auto simp: ready_def loop_inv_def table_inv_def buckets_ok_def tbl_def)

lemma grows_ready: "grows d d' \<Longrightarrow> table_inv None d' \<Longrightarrow> ready b d \<Longrightarrow> ready b d'"
  by (rule readyI) (use readyD [of b d] in \<open>auto simp: grows_def loop_inv_def\<close>)

lemma grows_loop: "grows d d' \<Longrightarrow> table_inv None d' \<Longrightarrow> loop_inv d \<Longrightarrow> loop_inv d'"
  by (auto simp: grows_def loop_inv_def)

lemma compile_once:
  assumes c: "compiler_ok compile" and i: "loop_inv d" and n: "find_block d (cpu_pc (d_cpu d)) = None"
  obtains d' where "compile (cpu_pc (d_cpu d)) d = Some (None, d')" "loop_inv d'"
  | b d' where "compile (cpu_pc (d_cpu d)) d = Some (Some b, d')" "ready b (insert_block 0 b d')" "\<not> no_cache d'"
proof -
  have t: "table_inv None d" using i by (simp add: loop_inv_def)
  show ?thesis
  proof (rule compile_insert [OF c t n, where evict = 0])
    fix d' assume "compile (cpu_pc (d_cpu d)) d = Some (None, d')" "table_inv None d'" "grows d d'"
    with that(1) i grows_loop show ?thesis by blast
  next
    fix b d'
    assume b: "compile (cpu_pc (d_cpu d)) d = Some (Some b, d')" "table_inv None (insert_block 0 b d')"
      "grows d (insert_block 0 b d')" "b \<in> tbl (insert_block 0 b d')"
      "gb_pc_start (d_blk (insert_block 0 b d') b) = cpu_pc (d_cpu d)" "no_cache d' = no_cache d"
    have "ready b (insert_block 0 b d')"
      by (rule readyI [OF grows_loop [OF b(3,2) i] b(4)]) (use b(3,5) in \<open>simp add: grows_def\<close>)
    moreover have "\<not> no_cache d'" using b(6) i by (simp add: loop_inv_def)
    ultimately show ?thesis using that(2) b(1) by blast
  qed
qed

lemma compile_here_ok:
  assumes c: "compiler_ok compile" and i: "loop_inv d" and n: "find_block d (cpu_pc (d_cpu d)) = None"
  obtains d' where "compile_here compile 0 d = Some (None, d')" "loop_inv d'"
  | b d' where "compile_here compile 0 d = Some (Some b, d')" "ready b (insert_block 0 b d')" "\<not> no_cache d'"
proof (rule compile_once [OF assms])
  have nc: "\<not> no_cache d" using i by (simp add: loop_inv_def)
  {
    fix b d' assume "compile (cpu_pc (d_cpu d)) d = Some (Some b, d')" "ready b (insert_block 0 b d')" "\<not> no_cache d'"
    with nc that(2) show thesis by (simp add: compile_here_def)
  next
    fix d' assume d': "compile (cpu_pc (d_cpu d)) d = Some (None, d')" "loop_inv d'"
    show thesis
    proof (cases "evict_on_full d'")
      case False
      with d' nc that(1) show thesis by (simp add: compile_here_def)
    next
      case True
      define e where "e = (evict_all 0 d')\<lparr>run_prev := None\<rparr>"
      have e: "loop_inv e" "find_block e (cpu_pc (d_cpu e)) = None"
        using d'(2) evict_all_ok [of d'] by (auto simp: e_def loop_inv_def intro!: find_empty)
      have h: "compile_here compile 0 d = compile (cpu_pc (d_cpu e)) e"
        using nc d'(1) True by (simp add: compile_here_def e_def Let_def)
      show thesis by (rule compile_once [OF c e]) (use that h in simp_all)
    qed
  }
qed

section \<open>Running it\<close>

definition agree_on_valid :: "executor \<Rightarrow> executor \<Rightarrow> bool" where
  "agree_on_valid f g \<longleftrightarrow> (\<forall>b d. d_live d b \<and> b \<in> tbl d \<and> gb_pc_start (d_blk d b) = cpu_pc (d_cpu d) \<longrightarrow> f b d = g b d)"

lemma spin_ok:
  "ready b d \<Longrightarrow> agree_on_valid f g \<Longrightarrow> loop_inv (spin f until sp0 b n d) \<and> spin f until sp0 b n d = spin g until sp0 b n d"
proof (induction n arbitrary: d)
  case 0
  then show ?case by (simp add: ready_def)
next
  case (Suc n)
  note r = readyD [OF Suc.prems(1)]
  have fg: "f b d = g b d" using Suc.prems(2) r by (simp add: agree_on_valid_def)
  show ?case
  proof (cases "cpu_pc (f b d) = gb_pc_start (d_blk d b)")
    case False
    with r fg show ?thesis by (simp add: Let_def)
  next
    case True
    have "ready b (set_cpu (f b d) d)" by (rule readyI) (use r True in simp_all)
    from Suc.IH [OF this Suc.prems(2)] r fg show ?thesis by (auto simp: Let_def)
  qed
qed

lemma chain_ok:
  "loop_inv d \<Longrightarrow> agree_on_valid f g
    \<Longrightarrow> loop_inv (chain_batch f 0 until n d) \<and> chain_batch f 0 until n d = chain_batch g 0 until n d"
proof (induction n arbitrary: d)
  case 0
  then show ?case by simp
next
  case (Suc n)
  show ?case
  proof (cases "\<exists>p b. run_prev d = Some p \<and> \<not> batch_stops until (d_cpu d) \<and> predicted (d_blk d p) (cpu_pc (d_cpu d)) = Some b")
    case False
    with Suc.prems(1) show ?thesis by (auto split: option.splits)
  next
    case True
    then obtain p b where p: "run_prev d = Some p" "\<not> batch_stops until (d_cpu d)" "predicted (d_blk d p) (cpu_pc (d_cpu d)) = Some b"
      by blast
    have "b \<in> tbl d \<and> gb_pc_start (d_blk d b) = cpu_pc (d_cpu d)"
      using predicted_Some [OF p(3)] Suc.prems(1) p(1) by (auto simp: loop_inv_def table_inv_def predictions_ok_def)
    then have r: "ready b d" using Suc.prems(1) by (simp add: readyI)
    have fg: "f b d = g b d" using Suc.prems(2) readyD [OF r] by (simp add: agree_on_valid_def)
    have "loop_inv ((set_cpu (f b d) d)\<lparr>run_prev := Some b\<rparr>)" using readyD [OF r] by (simp add: loop_inv_def)
    from Suc.IH [OF this Suc.prems(2)] p fg show ?thesis by (auto simp del: chain_batch.simps(1))
  qed
qed

lemma run_block_ok:
  assumes "ready b d" "agree_on_valid f g"
  shows "loop_inv (snd (run_block f n 0 until b d)) \<and> run_block f n 0 until b d = run_block g n 0 until b d"
proof -
  note r = readyD [OF assms(1)]
  define d1 where "d1 = record_successor b d"
  note rec = record_inv [of d b, folded d1_def]
  have fd: "table_inv None d" "find_block d (cpu_pc (d_cpu d)) = Some b" using assms(1) by (simp_all add: ready_def loop_inv_def)
  have i1: "loop_inv d1" using rec [OF fd] r by (simp add: loop_inv_def)
  have r1: "ready b d1" by (rule readyI [OF i1]) (use rec [OF fd] r in simp_all)
  have fg: "f b d1 = g b d1" using assms(2) readyD [OF r1] by (simp add: agree_on_valid_def)
  define d2 where "d2 = (set_cpu (f b d1) d1)\<lparr>run_prev := Some b\<rparr>"
  have i2: "loop_inv d2" using i1 readyD [OF r1] by (simp add: d2_def loop_inv_def)
  have e: "run_block h n 0 until b d = (if self_loop_ready until (cpu_sp (d_cpu d1)) b d2
      then (True, spin h until (cpu_sp (d_cpu d1)) b GBJIT_SELFLOOP_MAX d2)
      else (cpu_stopped (d_cpu (chain_batch h 0 until n d2)) = 0, chain_batch h 0 until n d2))"
    if "h b d1 = f b d1" for h
    using i1 that by (simp add: run_block_def Let_def d1_def [symmetric] d2_def loop_inv_def)
  show ?thesis
  proof (cases "self_loop_ready until (cpu_sp (d_cpu d1)) b d2")
    case False
    with e [of f] e [of g] fg chain_ok [OF i2 assms(2), of until n] show ?thesis by auto
  next
    case True
    have "ready b d2"
      by (rule readyI [OF i2]) (use True readyD [OF r1] in \<open>simp_all add: self_loop_ready_def d2_def Let_def\<close>)
    from spin_ok [OF this assms(2), of until "cpu_sp (d_cpu d1)" GBJIT_SELFLOOP_MAX] e [of f] e [of g] fg True
    show ?thesis by auto
  qed
qed

text \<open>One iteration.\<close>

lemma fetch_ok:
  assumes c: "compiler_ok compile" and i: "loop_inv d"
  obtains b where "lookup_block d = Some b" "ready b d"
  | d' where "lookup_block d = None" "compile_here compile 0 d = Some (None, d')" "loop_inv d'"
  | b d' where "lookup_block d = None" "compile_here compile 0 d = Some (Some b, d')" "ready b (insert_block 0 b d')" "\<not> no_cache d'"
proof (cases "lookup_block d")
  case (Some b)
  with lookup_find [of d] i have "ready b d" by (simp add: ready_def loop_inv_def)
  with Some that(1) show ?thesis by blast
next
  case None
  with lookup_find [of d] i have n: "find_block d (cpu_pc (d_cpu d)) = None" by (simp add: loop_inv_def)
  show ?thesis by (rule compile_here_ok [OF c i n]) (use that(2,3) None in simp_all)
qed

definition iter_result :: "(bool \<times> dispatcher) option \<Rightarrow> (bool \<times> dispatcher) option \<Rightarrow> bool" where
  "iter_result r r' \<longleftrightarrow> (\<exists>on d'. r = Some (on, d') \<and> loop_inv d') \<and> r' = r"

lemma run_ready:
  assumes "ready b d" "agree_on_valid f g"
  shows "iter_result (Some (run_block f n 0 until b d)) (Some (run_block g n 0 until b d))"
  using run_block_ok [OF assms, of n until] by (cases "run_block g n 0 until b d") (auto simp: iter_result_def)

definition after_clean :: "compiler \<Rightarrow> executor \<Rightarrow> nat \<Rightarrow> nat \<Rightarrow> u64 \<Rightarrow> dispatcher \<Rightarrow> (bool \<times> dispatcher) option" where
  "after_clean compile enter n evict until d =
     (if cpu_halted (d_cpu d) \<noteq> 0 then map_option (Pair True) (halt_loop until d)
      else if cpu_ime_pending (d_cpu d) \<noteq> 0 then Some (True, (step_interp d)\<lparr>run_prev := None\<rparr>)
      else if interp_fallback d then Some (True, step_interp d)
      else case lookup_block d of
          Some b \<Rightarrow> Some (run_block enter n evict until b d)
        | None \<Rightarrow> Option.bind (compile_here compile evict d) (\<lambda>(r, d). case r of
            None \<Rightarrow> Some (True, (step_interp d)\<lparr>run_prev := None\<rparr>)
          | Some b \<Rightarrow> let d = (if no_cache d then d else insert_block evict b d) in
              Option.bind (if prefetch_enabled d then prefetch_successors compile evict (unat (prefetch_depth d)) b d else Some d)
                (\<lambda>d. Some (run_block enter n evict until b d))))"

lemma run_iter_form: "run_iter compile enter n evict until d = Option.bind (bank_dirty_step evict d)
    (\<lambda>d. Option.bind (smc_dirty_step evict d) (\<lambda>d. after_clean compile enter n evict until (service d)))"
  by (simp add: run_iter_def after_clean_def Let_def)

lemma after_clean_ok:
  assumes c: "compiler_ok compile" and i: "loop_inv d" and u: "unat until + 4 < 2 ^ 64" and ag: "agree_on_valid f g"
  shows "iter_result (after_clean compile f n 0 until d) (after_clean compile g n 0 until d)"
proof -
  have interp: "loop_inv (step_interp e)" "loop_inv ((step_interp e)\<lparr>run_prev := None\<rparr>)" if "loop_inv e" for e
    using that by (simp_all add: step_interp_def loop_inv_none)
  consider "cpu_halted (d_cpu d) \<noteq> 0" | "cpu_halted (d_cpu d) = 0" "cpu_ime_pending (d_cpu d) \<noteq> 0 \<or> interp_fallback d"
    | "cpu_halted (d_cpu d) = 0" "cpu_ime_pending (d_cpu d) = 0" "\<not> interp_fallback d" by blast
  then show ?thesis
  proof cases
    case 1
    with halt_loop_returns [OF i u] show ?thesis by (auto simp: after_clean_def iter_result_def)
  next
    case 2
    with interp [OF i] show ?thesis by (auto simp: after_clean_def iter_result_def)
  next
    case 3
    note d = after_clean_def [of compile _ n 0 until d]
    show ?thesis
    proof (rule fetch_ok [OF c i])
      fix b assume b: "lookup_block d = Some b" "ready b d"
      with 3 run_ready [OF b(2) ag] show ?thesis by (simp add: d)
    next
      fix d' assume "lookup_block d = None" "compile_here compile 0 d = Some (None, d')" "loop_inv d'"
      with 3 interp show ?thesis by (auto simp: d iter_result_def)
    next
      fix b d'
      assume b: "lookup_block d = None" "compile_here compile 0 d = Some (Some b, d')" "ready b (insert_block 0 b d')" "\<not> no_cache d'"
      let ?e = "insert_block 0 b d'"
      obtain e where e: "(if prefetch_enabled ?e then prefetch_successors compile 0 (unat (prefetch_depth ?e)) b ?e else Some ?e) = Some e"
        "ready b e"
      proof (cases "prefetch_enabled ?e")
        case True
        have "table_inv None ?e" using b(3) by (simp add: ready_def loop_inv_def)
        from prefetch_ok [OF c this] obtain e where
          "prefetch_successors compile 0 (unat (prefetch_depth ?e)) b ?e = Some e" "table_inv None e" "grows ?e e" by blast
        with True that [of e] grows_ready b(3) show ?thesis by simp
      next
        case False
        with that [of ?e] b(3) show ?thesis by simp
      qed
      have "after_clean compile h n 0 until d = Some (run_block h n 0 until b e)" for h
      proof -
        have "after_clean compile h n 0 until d = Option.bind
            (if prefetch_enabled ?e then prefetch_successors compile 0 (unat (prefetch_depth ?e)) b ?e else Some ?e)
            (\<lambda>d. Some (run_block h n 0 until b d))"
          using 3 b by (simp add: d Let_def)
        then show ?thesis unfolding e(1) by simp
      qed
      with run_ready [OF e(2) ag] show ?thesis by simp
    qed
  qed
qed

lemma run_iter_safe:
  assumes c: "compiler_ok compile" and i: "loop_inv d" and u: "unat until + 4 < 2 ^ 64" and ag: "agree_on_valid f g"
  shows "iter_result (run_iter compile f n 0 until d) (run_iter compile g n 0 until d)"
proof -
  have "arena_inv 0 d" by (simp add: arena_inv_def)
  from clean_inv [OF i this] obtain d1 d2 where
    "bank_dirty_step 0 d = Some d1" "smc_dirty_step 0 d1 = Some d2" "loop_inv d2" by blast
  with after_clean_ok [OF c service_inv u ag] show ?thesis by (simp add: run_iter_form)
qed

section \<open>Allocating a block\<close>

lemma add_unused_block:
  assumes "b \<notin> tbl d"
  defines "e \<equiv> \<lambda>B. d\<lparr>d_blk := (d_blk d)(b := B), d_live := (d_live d)(b := True)\<rparr>"
  shows "tbl (e B) = tbl d" "table_inv None d \<Longrightarrow> table_inv None (e B)"
proof -
  show t: "tbl (e B) = tbl d" by (simp add: e_def tbl_def)
  have bl: "x \<in> tbl d \<Longrightarrow> d_blk (e B) x = d_blk d x" for x using assms(1) by (auto simp: e_def)
  have bu: "i < 1024 \<Longrightarrow> x \<in> set (buckets d i) \<Longrightarrow> x \<in> tbl d" for i x by (rule tblI)
  assume ti: "table_inv None d"
  have "buckets_ok (e B)"
    using ti assms(1) unfolding buckets_ok_def t table_inv_def
    by (auto simp: inj_on_def bl dest: bu) (auto simp: e_def bl bu dest: bu)
  moreover have "pages_ok None (e B)"
  proof -
    have "{x \<in> tbl d. p \<in> set (pages_of (d_blk (e B) x))} = {x \<in> tbl d. p \<in> set (pages_of (d_blk d x))}" for p
      using bl by auto
    then show ?thesis using ti unfolding pages_ok_def t table_inv_def by (simp add: e_def)
  qed
  moreover have "predictions_ok (e B)"
    using ti unfolding predictions_ok_def t table_inv_def by (simp add: bl)
  ultimately show "table_inv None (e B)" by (simp add: table_inv_def)
qed

lemma add_block_fresh:
  assumes "b \<notin> tbl d" "table_inv None d" "find_block d (gb_pc_start B) = None" "predicted_next B = (\<lambda>_. None)"
  shows "fresh_block b (d\<lparr>d_blk := (d_blk d)(b := B), d_live := (d_live d)(b := True)\<rparr>)" (is "fresh_block b ?e")
proof -
  note add = add_unused_block [OF assms(1), of B]
  have bo: "buckets_ok d" "buckets_ok ?e" using assms(2) add(2) by (auto simp: table_inv_def)
  have "find_block ?e (gb_pc_start B) = None"
  proof (rule ccontr)
    assume "find_block ?e (gb_pc_start B) \<noteq> None"
    then obtain x where "find_block ?e (gb_pc_start B) = Some x" by blast
    with find_block_correct [OF bo(2)] have x: "x \<in> tbl d" "gb_pc_start (d_blk ?e x) = gb_pc_start B" unfolding add(1) by auto
    moreover from x(1) assms(1) have "x \<noteq> b" by blast
    ultimately have "find_block d (gb_pc_start B) = Some x" using find_block_correct [OF bo(1)] by simp
    with assms(3) show False by simp
  qed
  then show ?thesis using assms(1,4) add(1) by (simp add: fresh_block_def)
qed

end
