(* ===== verification/Dispatch_Props.thy ===== *)
theory Dispatch_Props
  imports Dispatch_Laws
begin

text \<open>
  What the dispatcher promises: the chain predictor agrees with the hash table, an address invalidation removes what
  it should and nothing else, and eviction terminates and hands out bytes that no cached block still uses.
\<close>

text \<open>C22: following the predicted successor of the previous block is the same as looking the PC up in the hash
  table, and recording the successor keeps it so.\<close>

theorem chain_prediction_correct:
  assumes "table_inv None d" "\<forall>p. run_prev d = Some p \<longrightarrow> p \<in> tbl d" "\<not> no_cache d"
  shows "lookup_block d = find_block d (cpu_pc (d_cpu d))
    \<and> (\<forall>b. lookup_block d = Some b \<longrightarrow> table_inv None (record_successor b d))"
  using lookup_find [OF assms] record_inv(1) [OF assms(1)] by simp

theorem chain_prediction_correct_witness:
  "let d = (insert_block 0 7 one_block)\<lparr>run_prev := Some 7\<rparr>
   in lookup_block d = find_block d 0 \<and> find_block d 0 = None"
proof -
  let ?d = "(insert_block 0 7 one_block)\<lparr>run_prev := Some 7\<rparr>"
  have "tbl (insert_block 0 7 one_block) = {7}" using one_block_facts(2) by (simp add: insert_form(1))
  moreover have "\<not> no_cache ?d" "cpu_pc (d_cpu ?d) = 0"
    by (simp_all add: insert_rest) (simp_all add: one_block_def zero_dispatcher_def static_cpu_def)
  moreover have "find_block ?d 0 = None"
    using insert_find [OF one_block_facts(1,3), of 0 0] empty_table [of one_block]
    by (simp add: find_block_def) (simp add: one_block_def zero_dispatcher_def)
  ultimately show ?thesis
    using chain_prediction_correct [of ?d] insert_inv [OF one_block_facts(1,3), of 0] by (simp add: Let_def)
qed

lemma pages_iff_src:
  assumes "gb_pc_start B < gb_pc_end B"
  shows "p \<in> set (pages_of B) \<longleftrightarrow> (\<exists>x. in_src B x \<and> unat x div 256 = p)"
proof
  assume p: "p \<in> set (pages_of B)"
  have lt: "unat (gb_pc_start B) < unat (gb_pc_end B)" using assms by (simp add: word_less_nat_alt)
  have e: "unat (gb_pc_end B - 1) = unat (gb_pc_end B) - 1" "0 < gb_pc_end B"
    using lt by (simp_all add: unat_minus_one word_less_nat_alt unat_gt_0 [symmetric])
  have "unat (last_page B) = (unat (gb_pc_end B) - 1) div 256"
    using e page_of_less [of "gb_pc_end B - 1"]
    by (simp add: last_page_def Let_def page_of_div word_le_nat_alt)
  then have b: "unat (gb_pc_start B) div 256 \<le> p" "p \<le> (unat (gb_pc_end B) - 1) div 256"
    using p by (simp_all add: pages_of_def first_page_def page_of_div less_Suc_eq_le del: upt_Suc)
  define n where "n = max (unat (gb_pc_start B)) (p * 256)"
  have n: "unat (gb_pc_start B) \<le> n" "n < unat (gb_pc_end B)" "n div 256 = p"
  proof -
    show "unat (gb_pc_start B) \<le> n" by (simp add: n_def)
    have "p * 256 \<le> unat (gb_pc_end B) - 1" using b(2) by (simp add: less_eq_div_iff_mult_less_eq)
    then show "n < unat (gb_pc_end B)" using lt by (simp add: n_def)
    show "n div 256 = p"
    proof (cases "unat (gb_pc_start B) \<le> p * 256")
      case True
      then show ?thesis by (simp add: n_def max_absorb2)
    next
      case False
      then have "p \<le> unat (gb_pc_start B) div 256" by (simp add: less_eq_div_iff_mult_less_eq)
      with b(1) False show ?thesis by (simp add: n_def max_absorb1)
    qed
  qed
  have u: "unat (of_nat n :: u16) = n" using n(2) unsigned_less [where ?'a = nat, of "gb_pc_end B"] by (simp add: unat_of_nat_u16)
  show "\<exists>x. in_src B x \<and> unat x div 256 = p"
    using n by (intro exI [of _ "of_nat n"]) (simp add: in_src_def u word_le_nat_alt word_less_nat_alt)
qed (use src_page in blast)

text \<open>C21: \<open>gbjit_dispatcher_invalidate_addr\<close> removes from the cache exactly the blocks that have a source byte on the
  256-byte page of the address: their PCs are no longer found, every other PC finds the same block, and the page
  registers, predictions and (with the coldness allocator) the free list are left consistent. The cached blocks are
  assumed to end above their start; a block that reaches or runs over FFFF is registered differently or not at all.\<close>

theorem invalidate_addr_correct:
  assumes "table_inv None d" "arena_inv evict d" "\<forall>b\<in>tbl d. gb_pc_start (d_blk d b) < gb_pc_end (d_blk d b)"
  shows "\<exists>d'. gbjit_dispatcher_invalidate_addr evict a d = Some d' \<and> table_inv None d' \<and> arena_inv evict d'
    \<and> d_cpu d' = d_cpu d \<and> (\<forall>b. same_block (d_blk d b) (d_blk d' b))
    \<and> (\<forall>pc b. find_block d' pc = Some b \<longleftrightarrow>
         find_block d pc = Some b \<and> \<not> (\<exists>x. in_src (d_blk d b) x \<and> unat x div 256 = unat a div 256))"
proof -
  from invalidate_addr_ok [OF assms(1,2), of a] obtain d' where
    d': "gbjit_dispatcher_invalidate_addr evict a d = Some d'" "table_inv None d'" "arena_inv evict d'"
      "without (on_page (unat a div 256) d) d d'" unfolding page_of_div by blast
  have bo: "buckets_ok d" "buckets_ok d'" using assms(1) d'(2) by (simp_all add: table_inv_def)
  have sb: "\<forall>b. same_block (d_blk d b) (d_blk d' b)" and tb: "tbl d' = tbl d - on_page (unat a div 256) d"
    using d'(4) by (simp_all add: without_def)
  have st: "gb_pc_start (d_blk d' b) = gb_pc_start (d_blk d b)" for b using sb by (simp add: same_block_def)
  have "find_block d' pc = Some b \<longleftrightarrow>
      find_block d pc = Some b \<and> \<not> (\<exists>x. in_src (d_blk d b) x \<and> unat x div 256 = unat a div 256)" for pc b
    using pages_iff_src assms(3)
    by (auto simp: find_block_correct [OF bo(1)] find_block_correct [OF bo(2)] tb st on_page_def)
  with d' sb show ?thesis by (auto simp: without_def)
qed

theorem invalidate_addr_correct_witness:
  "\<exists>d'. gbjit_dispatcher_invalidate_addr 0 0xC055 (insert_block 0 7 one_block) = Some d' \<and> find_block d' 0xC010 = None"
proof -
  let ?d = "insert_block 0 7 one_block"
  have b: "d_blk ?d 7 = no_block\<lparr>gb_pc_start := 0xC010, gb_pc_end := 0xC020\<rparr>"
    by (simp add: insert_form(6)) (simp add: one_block_def)
  have bo: "buckets_ok ?d" using insert_inv [OF one_block_facts(1,3), of 0] by (simp add: table_inv_def)
  have t: "tbl ?d = {7}" using one_block_facts(2) by (simp add: insert_form(1))
  have "arena_inv 0 ?d" by (simp add: arena_inv_def)
  moreover have "\<forall>b\<in>tbl ?d. gb_pc_start (d_blk ?d b) < gb_pc_end (d_blk ?d b)" by (simp add: t b)
  ultimately obtain d' where d': "gbjit_dispatcher_invalidate_addr 0 0xC055 ?d = Some d'"
    "\<forall>pc b. find_block d' pc = Some b \<longleftrightarrow> find_block ?d pc = Some b \<and> \<not> (\<exists>x. in_src (d_blk ?d b) x \<and> unat x div 256 = 192)"
    using invalidate_addr_correct [OF insert_inv [OF one_block_facts(1,3), of 0], of 0 "0xC055"] by auto
  have "in_src (d_blk ?d 7) 0xC010 \<and> unat (0xC010 :: u16) div 256 = 192" by (simp add: b in_src_def)
  then have "\<exists>x. in_src (d_blk ?d 7) x \<and> unat x div 256 = 192" by blast
  moreover have "find_block ?d 0xC010 = Some x \<Longrightarrow> x = 7" for x
    using find_block_correct [OF bo, of "0xC010" x] t by simp
  ultimately have "find_block d' 0xC010 = None" using d'(2) by (metis not_Some_eq)
  with d'(1) show ?thesis by blast
qed

section \<open>Eviction\<close>

text \<open>C16: an allocation with coldness eviction returns, on any consistent cache. It evicts blocks in the order of
  their tags, least recently used first, and only fails when the request exceeds the arena or nothing is left to
  evict. The bytes it hands out lie inside the arena and no block that stays cached uses them; the tables, the free
  list and the previous-block pointer are consistent afterwards.\<close>

theorem eviction_returns:
  assumes "table_inv None d" "arena_inv 1 d" "\<forall>b\<in>tbl d. code_size (d_blk d b) \<noteq> 0"
  shows "\<exists>r d' Bs. cold_alloc (Some dispatcher_evict_coldest) sz d = Some (r, d') \<and> table_inv None d' \<and> arena_inv 1 d'
    \<and> Bs \<subseteq> tbl d \<and> tbl d' = tbl d - Bs \<and> (\<forall>x\<in>Bs. \<forall>y\<in>tbl d - Bs. tag (d_blk d x) \<le> tag (d_blk d y))
    \<and> (\<forall>b. run_prev d' = Some b \<longrightarrow> run_prev d = Some b \<and> b \<notin> Bs)
    \<and> (r = None \<longrightarrow> cc_cap d < span_size sz \<or> tbl d' = {})
    \<and> (\<forall>p. r = Some p \<longrightarrow> al8 p \<and> unat p + unat (span_size sz) \<le> unat (cc_cap d)
         \<and> (\<forall>b\<in>tbl d'. blk_bytes (d_blk d' b) \<inter> {unat p..<unat p + unat (span_size sz)} = {}))"
  using evicting_alloc [OF assms, of sz] by (elim ex_forward) (force simp: without_def split: option.splits)

text \<open>One block that fills a 64-byte arena.\<close>

definition full_arena :: dispatcher where
  "full_arena = (insert_block 1 7 (one_block\<lparr>d_blk := (d_blk one_block)(7 := (d_blk one_block 7)\<lparr>code_size := 64\<rparr>)\<rparr>))
     \<lparr>cc_cap := 64, cc_free_head := CC_NIL\<rparr>"

lemma full_arena_facts: "table_inv None full_arena" "arena_inv 1 full_arena" "tbl full_arena = {7}"
  "code_size (d_blk full_arena 7) = 64" "cc_cap full_arena = 64"
proof -
  let ?d = "one_block\<lparr>d_blk := (d_blk one_block)(7 := (d_blk one_block 7)\<lparr>code_size := 64\<rparr>)\<rparr>"
  have e: "\<And>i. buckets ?d i = []" "\<And>i. smc_pages ?d i = []" by (simp_all add: one_block_def zero_dispatcher_def)
  have t: "table_inv None ?d" "tbl ?d = {}" using empty_table [OF e] by simp_all
  have f: "fresh_block 7 ?d" using one_block_facts(3) t(2) e(1) by (simp add: fresh_block_def find_block_def)
  show "table_inv None full_arena" using insert_inv [OF t(1) f, of 1]
    by (simp add: full_arena_def table_inv_def buckets_ok_def pages_ok_def predictions_ok_def tbl_def)
  have b: "tbl (insert_block 1 7 ?d) = {7}" using t(2) by (simp add: insert_form(1))
  show tb: "tbl full_arena = {7}" using b by (simp add: full_arena_def tbl_def)
  have blk: "d_blk full_arena 7 = (d_blk one_block 7)\<lparr>code_size := 64, tag := 1\<rparr>"
    by (simp add: full_arena_def insert_form(6)) (simp add: one_block_def zero_dispatcher_def)
  show cs: "code_size (d_blk full_arena 7) = 64" by (simp add: blk)
  show cap: "cc_cap full_arena = 64" by (simp add: full_arena_def)
  have "free_list [] full_arena" by (simp add: full_arena_def free_list_def apart_def)
  moreover have "blk_code (d_blk full_arena 7) = 0" by (simp add: blk) (simp add: one_block_def no_block_def)
  ultimately show "arena_inv 1 full_arena" using tb cs cap
    by (auto simp: arena_inv_def al8_def blk_bytes_def span_size_def cc_align_def CC_ALIGN_def HDR_SIZE_def free_bytes_def intro!: exI [of _ "[]"])
qed

theorem eviction_returns_witness:
  "\<exists>r d'. cold_alloc (Some dispatcher_evict_coldest) 16 full_arena = Some (r, d') \<and> table_inv None d'"
  using eviction_returns [OF full_arena_facts(1,2), of 16] full_arena_facts(3,4) by auto

text \<open>A block that has just been inserted carries the newest tag, but it is evicted all the same when no older block
  is left, as in a compilation that the prefetcher starts for its successors. The comment in \<open>insert_block\<close> excludes it.\<close>

lemma just_built_block_evictable:
  "\<exists>d'. dispatcher_evict_coldest full_arena = Some (64, d') \<and> tbl d' = {}"
  using coldest_ok [OF full_arena_facts(1,2)] full_arena_facts(3,4) by (auto simp: without_def)

lemma truncated_used: "cc_used (insert_block evict b d) = cc_used d"
  using arg_cong [OF insert_form(9) [of evict b d], of cc_used] by (simp add: codecache.truncate_def)

lemma used_tbl [simp]: "tbl (d\<lparr>cc_used := u\<rparr>) = tbl d"
  by (simp add: tbl_def)

lemma used_inv [simp]: "table_inv None (d\<lparr>cc_used := u\<rparr>) = table_inv None d"
  by (simp add: table_inv_def buckets_ok_def pages_ok_def predictions_ok_def find_block_def)

lemma overlaps_bytes:
  assumes "unat (p + n) = unat p + unat n" "0 < unat n" "0 < unat (code_size B)" "unat (blk_code B) + unat (code_size B) < 2 ^ 32"
  shows "overlaps p (p + n) B \<longleftrightarrow>
    {unat p..<unat p + unat n} \<inter> {unat (blk_code B)..<unat (blk_code B) + unat (code_size B)} \<noteq> {}"
proof -
  have "unat (blk_code B + code_size B) = unat (blk_code B) + unat (code_size B)" using assms(4) by (simp add: unat_word_ariths)
  then have "overlaps p (p + n) B \<longleftrightarrow> unat (blk_code B) < unat p + unat n \<and> unat p < unat (blk_code B) + unat (code_size B)"
    using assms(1) by (simp add: overlaps_def word_less_nat_alt)
  then show ?thesis using assms(2,3) by (simp add: Int_atLeastLessThan less_max_iff_disj)
qed

text \<open>C19: an allocation from the ring, with the dispatcher's eviction of the range it is about to overwrite, always
  succeeds when the request fits the arena. The range handed out is inside the arena, the cursor ends up behind it,
  and of the cached blocks exactly those remain whose code does not overlap it: no cached block is overwritten and
  none is dropped without need.\<close>

theorem ring_alloc_safe:
  assumes "table_inv None d" "unat (cc_cap d) < 2 ^ 31" "unat (cc_used d) \<le> unat (cc_cap d)" "al8 (cc_used d)"
    "cc_align sz \<le> cc_cap d" "0 < cc_align sz"
    "\<forall>b\<in>tbl d. 0 < code_size (d_blk d b)
       \<and> unat (blk_code (d_blk d b)) + unat (code_size (d_blk d b)) \<le> unat (cc_cap d)"
  shows "\<exists>p d'. ring_alloc (Some dispatcher_evict_range) sz d = Some (Some p, d') \<and> al8 p
    \<and> unat p + unat (cc_align sz) \<le> unat (cc_cap d) \<and> unat (cc_used d') = unat p + unat (cc_align sz) \<and> table_inv None d'
    \<and> (\<forall>b. b \<in> tbl d' \<longleftrightarrow> b \<in> tbl d \<and> {unat p..<unat p + unat (cc_align sz)} \<inter>
         {unat (blk_code (d_blk d b))..<unat (blk_code (d_blk d b)) + unat (code_size (d_blk d b))} = {})"
proof -
  from ring_alloc_spec [OF assms(2-5), where f = dispatcher_evict_range] obtain p where
    p: "al8 p" "unat p + unat (cc_align sz) \<le> unat (cc_cap d)" "unat (p + cc_align sz) = unat p + unat (cc_align sz)"
    and r: "ring_alloc (Some dispatcher_evict_range) sz d
      = map_option (\<lambda>c. (Some p, c\<lparr>cc_used := cc_used c + cc_align sz\<rparr>))
          (dispatcher_evict_range p (p + cc_align sz) (d\<lparr>cc_used := p\<rparr>))" .
  have "table_inv None (d\<lparr>cc_used := p\<rparr>)" using assms(1) by (simp only: used_inv)
  from range_ok [OF this, of p "p + cc_align sz"] obtain d' where
    d': "dispatcher_evict_range p (p + cc_align sz) (d\<lparr>cc_used := p\<rparr>) = Some d'" "table_inv None d'"
      "without {b \<in> tbl d. overlaps p (p + cc_align sz) (d_blk d b)} (d\<lparr>cc_used := p\<rparr>) d'"
    by (auto simp: used_tbl)
  have o: "overlaps p (p + cc_align sz) (d_blk d b) \<longleftrightarrow> {unat p..<unat p + unat (cc_align sz)} \<inter>
      {unat (blk_code (d_blk d b))..<unat (blk_code (d_blk d b)) + unat (code_size (d_blk d b))} \<noteq> {}"
    if "b \<in> tbl d" for b using overlaps_bytes [OF p(3), of "d_blk d b"] bspec [OF assms(7) that] assms(2,6)
    by (simp add: word_less_nat_alt del: Int_atLeastLessThan)
  have u: "cc_used d' = p" and t: "tbl d' = tbl d - {b \<in> tbl d. overlaps p (p + cc_align sz) (d_blk d b)}"
    using d'(3) by (simp_all add: without_def used_tbl)
  from d' p r u show ?thesis
    by (intro exI [of _ p] exI [of _ "d'\<lparr>cc_used := p + cc_align sz\<rparr>"]) (auto simp: used_inv used_tbl t o)
qed

text \<open>In the 64-byte arena, whose only block spans it all, the ring wraps to 0 and evicts it.\<close>

theorem ring_alloc_safe_witness:
  "\<exists>d'. ring_alloc (Some dispatcher_evict_range) 16 full_arena = Some (Some 0, d') \<and> tbl d' = {}"
proof -
  have u: "cc_used full_arena = 0" by (simp add: full_arena_def truncated_used) (simp add: one_block_def zero_dispatcher_def)
  have c: "blk_code (d_blk full_arena 7) = 0" by (simp add: full_arena_def insert_form(6)) (simp add: one_block_def no_block_def)
  obtain p d' where
    d': "ring_alloc (Some dispatcher_evict_range) 16 full_arena = Some (Some p, d')"
      "unat p + 16 \<le> 64" "\<forall>b. b \<in> tbl d' \<longleftrightarrow> b \<in> tbl full_arena \<and> {unat p..<unat p + 16} \<inter>
         {unat (blk_code (d_blk full_arena b))..<unat (blk_code (d_blk full_arena b)) + unat (code_size (d_blk full_arena b))} = {}"
    using ring_alloc_safe [OF full_arena_facts(1), of 16] full_arena_facts(3-5) u c
    by (auto simp: al8_def cc_align_def CC_ALIGN_def)
  have "unat p \<in> {unat p..<unat p + 16} \<inter> {0..<0 + 64}" using d'(2) by simp
  then have "7 \<notin> tbl d'" using d'(3) full_arena_facts(4) c by fastforce
  then have "tbl d' = {}" using d'(3) full_arena_facts(3) by auto
  moreover have "p = 0" using d'(1) u full_arena_facts(5)
    by (auto simp: ring_alloc_def cc_align_def CC_ALIGN_def split: bind_splits)
  ultimately show ?thesis using d'(1) by blast
qed

section \<open>Blocks that run over the end of the address space\<close>

text \<open>Their last page is below their first, so that the registration loop does nothing: no write invalidates them.\<close>

lemma wrapped_block_unregistered:
  assumes "0 < gb_pc_end B" "page_of (gb_pc_end B - 1) < page_of (gb_pc_start B)"
  shows "pages_of B = []"
proof -
  have "last_page B \<le> page_of (gb_pc_end B - 1)" using assms(1)
    by (simp add: last_page_def Let_def GBJIT_SMC_PAGE_COUNT_def word_le_nat_alt)
  then have "unat (last_page B) < unat (first_page B)" using assms(2)
    by (simp add: first_page_def word_less_nat_alt word_le_nat_alt)
  then show ?thesis by (simp add: pages_of_def)
qed


end
