(* ===== verification/Codegen.thy ===== *)
theory Codegen
  imports Emit Cpu Decoder
begin

text \<open>
  The emission helpers of src/jit/codegen.c: the literal pool, the helper-call and state-sync
  sequences, the patching of branches already emitted, and the flag computations that the
  inliners of \<open>Codegen_Ops\<close> share.

  An \<open>emission\<close> is a call of one encoder. A C helper that only emits is the list of its emissions;
  \<open>emits\<close> runs them in order on the buffer. The block's memory is in two parts: the literal pool
  \<open>lit_base\<close> and, \<open>entry_off\<close> bytes on, the buffer of the encoder. The structure offsets of
  \<open>cpu_state\<close> are those of its declaration in core/cpu_state.h, whose fields up to \<open>mmu\<close> have the same
  layout on both ports; those of \<open>mmu\<close> depend on the width of its pointers and are a parameter.
\<close>

type_synonym emission = "xt_emit \<Rightarrow> u32 \<times> xt_emit"

definition emits :: "emission list \<Rightarrow> xt_emit \<Rightarrow> xt_emit" where
  "emits fs e = fold (\<lambda>f e. snd (f e)) fs e"

section \<open>Offsets, limits and literals\<close>

abbreviation (input) OFF_F :: u32 where "OFF_F \<equiv> 0"
abbreviation (input) OFF_A :: u32 where "OFF_A \<equiv> 1"
abbreviation (input) OFF_C :: u32 where "OFF_C \<equiv> 2"
abbreviation (input) OFF_B :: u32 where "OFF_B \<equiv> 3"
abbreviation (input) OFF_E :: u32 where "OFF_E \<equiv> 4"
abbreviation (input) OFF_D :: u32 where "OFF_D \<equiv> 5"
abbreviation (input) OFF_L :: u32 where "OFF_L \<equiv> 6"
abbreviation (input) OFF_H :: u32 where "OFF_H \<equiv> 7"
abbreviation (input) OFF_BC :: u32 where "OFF_BC \<equiv> 2"
abbreviation (input) OFF_DE :: u32 where "OFF_DE \<equiv> 4"
abbreviation (input) OFF_HL :: u32 where "OFF_HL \<equiv> 6"
abbreviation (input) OFF_SP :: u32 where "OFF_SP \<equiv> 8"
abbreviation (input) OFF_PC :: u32 where "OFF_PC \<equiv> 10"
abbreviation (input) OFF_HALTED :: u32 where "OFF_HALTED \<equiv> 14"
abbreviation (input) OFF_CYCLES :: u32 where "OFF_CYCLES \<equiv> 16"
abbreviation (input) OFF_JITRETPC :: u32 where "OFF_JITRETPC \<equiv> 28"

record mmu_layout =
  off_wram :: u32
  off_hram :: u32
  off_io :: u32
  off_page_state :: u32

datatype literal_id = ADDR_CPU_BASE | ADDR_MMU_BASE | HELPER_SM83_STEP | HELPER_MMU_READ8 | HELPER_MMU_WRITE8

definition LITERAL_COUNT :: u32 where "LITERAL_COUNT = 5"
definition literal_ids :: "literal_id list" where
  "literal_ids = [ADDR_CPU_BASE, ADDR_MMU_BASE, HELPER_SM83_STEP, HELPER_MMU_READ8, HELPER_MMU_WRITE8]"

primrec literal_index :: "literal_id \<Rightarrow> u32" where
  "literal_index ADDR_CPU_BASE = 0"
| "literal_index ADDR_MMU_BASE = 1"
| "literal_index HELPER_SM83_STEP = 2"
| "literal_index HELPER_MMU_READ8 = 3"
| "literal_index HELPER_MMU_WRITE8 = 4"

definition MAX_OPS_PER_BLOCK :: nat where "MAX_OPS_PER_BLOCK = 32"
definition BYTES_PER_OP :: u32 where "BYTES_PER_OP = 96"
definition PROLOGUE_EPILOGUE_BYTES :: u32 where "PROLOGUE_EPILOGUE_BYTES = 128"
definition MAX_EXTRA_LITERALS :: u32 where "MAX_EXTRA_LITERALS = 32"
definition LITERAL_POOL_BYTES :: u32 where "LITERAL_POOL_BYTES = (LITERAL_COUNT + MAX_EXTRA_LITERALS) * 4"

record lit_ctx =
  lit_base :: "u8 array"
  next_off :: u32
  limit :: u32

text \<open>\<open>None\<close> is the result -1.\<close>

definition lit_alloc_u32 :: "u32 \<Rightarrow> lit_ctx \<Rightarrow> u32 option \<times> lit_ctx" where
  "lit_alloc_u32 value L =
     (if limit L < next_off L + 4 then (None, L)
      else let off = next_off L
        in (Some off, L\<lparr>lit_base := store32 (unat off) value (lit_base L), next_off := next_off L + 4\<rparr>))"

definition inlinable_byte_addr :: "mmu_layout \<Rightarrow> u32 \<Rightarrow> u16 \<Rightarrow> u32" where
  "inlinable_byte_addr lay mmu_base addr =
     (if 0xC000 \<le> addr \<and> addr < 0xE000 then mmu_base + off_wram lay + ucast (addr - 0xC000)
      else if 0xFF80 \<le> addr \<and> addr < 0xFFFF then mmu_base + off_hram lay + ucast (addr - 0xFF80)
      else 0)"

section \<open>Short sequences\<close>

definition emit_l32r_at :: "u8 \<Rightarrow> u32 \<Rightarrow> u32 \<Rightarrow> emission" where
  "emit_l32r_at at lit_off pc_off =
     (let pc_after = pc_off + 3; pc_aligned = pc_after AND NOT 3; dist = pc_aligned - lit_off;
          imm16 = 0x10000 - drop_bit 2 dist
      in xt_l32r at imm16)"

text \<open>\<open>u32 pc_off = entry_off + e->len; emit_l32r_at(e, at, lit_off, pc_off)\<close>\<close>

definition l32r_here :: "u32 \<Rightarrow> u8 \<Rightarrow> u32 \<Rightarrow> emission" where
  "l32r_here entry_off at lit_off e = emit_l32r_at at lit_off (entry_off + xt_len e) e"

definition align_up_4 :: "u32 \<Rightarrow> u32" where
  "align_up_4 v = (v + 3) AND NOT 3"

definition emit_sync_state :: "emission list" where
  "emit_sync_state =
     [xt_s16i 11 13 OFF_PC, xt_l32i 14 13 OFF_CYCLES, xt_add 14 14 12, xt_s32i 14 13 OFF_CYCLES]"

definition emit_callx0_helper :: "u32 \<Rightarrow> u32 \<Rightarrow> emission list" where
  "emit_callx0_helper helper_lit_off entry_off = [l32r_here entry_off 14 helper_lit_off, xt_callx0 14]"

definition emit_reload_state :: "u32 \<Rightarrow> u32 \<Rightarrow> emission list" where
  "emit_reload_state cpu_lit_off entry_off =
     [l32r_here entry_off 13 cpu_lit_off, xt_l16ui 11 13 OFF_PC, xt_movi 12 0]"

text \<open>\<open>None\<close> is the result -1, for \<open>(HL)\<close>.\<close>

definition reg8_offset :: "u8 \<Rightarrow> u32 option" where
  "reg8_offset r =
     (let r = r AND 7
      in if r = 0 then Some OFF_B else if r = 1 then Some OFF_C else if r = 2 then Some OFF_D
         else if r = 3 then Some OFF_E else if r = 4 then Some OFF_H else if r = 5 then Some OFF_L
         else if r = 7 then Some OFF_A else None)"

definition emit_advance :: "u8 \<Rightarrow> u8 \<Rightarrow> emission list" where
  "emit_advance n_bytes n_cycles = [xt_addi 11 11 (ucast n_bytes), xt_addi 12 12 (ucast n_cycles)]"

definition emit_load_u16 :: "u8 \<Rightarrow> u16 \<Rightarrow> u8 \<Rightarrow> emission list" where
  "emit_load_u16 dst value scratch =
     (if value \<le> 2047 then [xt_movi dst (ucast value)]
      else let lo = ucast (value AND 0xFF) :: u8; hi = ucast (drop_bit 8 value AND 0xFF) :: u8
        in [xt_movi dst (ucast lo), xt_movi scratch (ucast hi), xt_slli scratch scratch 8, xt_or dst dst scratch])"

section \<open>Patching\<close>

text \<open>\<open>*(u32 *)(buf + off)\<close>\<close>

definition load32 :: "u8 array \<Rightarrow> nat \<Rightarrow> u32" where
  "load32 f off = ucast (f off) OR push_bit 8 (ucast (f (off + 1))) OR push_bit 16 (ucast (f (off + 2)))
     OR push_bit 24 (ucast (f (off + 3)))"

definition word_read_24 :: "u32 \<Rightarrow> xt_emit \<Rightarrow> u32 \<times> xt_emit" where
  "word_read_24 pos e =
     (let e = xt_flush_pending e; word_off = pos AND NOT 3; byte_off = pos AND 3;
          w0 = load32 (xt_buf e) (unat word_off)
      in if byte_off \<le> 1 then (drop_bit (unat (byte_off * 8)) w0 AND 0xFFFFFF, e)
         else let w1 = load32 (xt_buf e) (unat (word_off + 4));
                  from_w0 = drop_bit (unat (byte_off * 8)) w0; from_w1 = push_bit (unat ((4 - byte_off) * 8)) w1
           in ((from_w0 OR from_w1) AND 0xFFFFFF, e))"

text \<open>The tail of \<open>word_write_24\<close>: the accumulator catches up with a patch of the current word.\<close>

definition resync_acc :: "u32 \<Rightarrow> xt_emit \<Rightarrow> xt_emit" where
  "resync_acc word_off e =
     (let current_word = xt_len e AND NOT 3
      in if current_word = word_off \<or> current_word = word_off + 4 then
           let e = e\<lparr>xt_word_acc := load32 (xt_buf e) (unat current_word)\<rparr>; valid_bytes = xt_len e AND 3
           in if valid_bytes < 4 then
                let keep_mask = (if valid_bytes \<noteq> 0 then push_bit (unat (valid_bytes * 8)) 1 - 1 else 0)
                in e\<lparr>xt_word_acc := xt_word_acc e AND keep_mask\<rparr>
              else e
         else e)"

definition word_write_24 :: "u32 \<Rightarrow> u32 \<Rightarrow> xt_emit \<Rightarrow> xt_emit" where
  "word_write_24 pos instr e =
     (let e = xt_flush_pending e; instr = instr AND 0xFFFFFF;
          word_off = pos AND NOT 3; byte_off = pos AND 3;
          w0 = load32 (xt_buf e) (unat word_off);
          e = (if byte_off \<le> 1 then
                 let shift = unat (byte_off * 8); mask = push_bit shift 0xFFFFFF;
                     w0 = (w0 AND NOT mask) OR push_bit shift instr
                 in e\<lparr>xt_buf := store32 (unat word_off) w0 (xt_buf e)\<rparr>
               else
                 let shift_lo = byte_off * 8; bits_lo = 32 - shift_lo;
                     mask_lo = push_bit (unat shift_lo) (push_bit (unat bits_lo) 1 - 1);
                     w0 = (w0 AND NOT mask_lo) OR (push_bit (unat shift_lo) instr AND mask_lo);
                     e = e\<lparr>xt_buf := store32 (unat word_off) w0 (xt_buf e)\<rparr>;
                     bits_hi = 24 - bits_lo; mask_hi = push_bit (unat bits_hi) 1 - 1;
                     w1 = load32 (xt_buf e) (unat (word_off + 4));
                     w1 = (w1 AND NOT mask_hi) OR (drop_bit (unat bits_lo) instr AND mask_hi)
                 in e\<lparr>xt_buf := store32 (unat (word_off + 4)) w1 (xt_buf e)\<rparr>)
      in resync_acc word_off e)"

definition patch_branch_to :: "u32 \<Rightarrow> u32 \<Rightarrow> xt_emit \<Rightarrow> xt_emit" where
  "patch_branch_to br_pos target_pos e =
     (let imm12 = target_pos - br_pos - 4; imm12_u = imm12 AND 0xFFF;
          (w, e) = word_read_24 br_pos e;
          w = w AND NOT (push_bit 12 0xFFF); w = w OR push_bit 12 imm12_u
      in word_write_24 br_pos w e)"

definition patch_j_to :: "u32 \<Rightarrow> u32 \<Rightarrow> xt_emit \<Rightarrow> xt_emit" where
  "patch_j_to j_pos target_pos e =
     (let imm18 = target_pos - j_pos - 4; imm18_u = imm18 AND 0x3FFFF;
          (w, e) = word_read_24 j_pos e;
          w = w AND NOT (push_bit 6 0x3FFFF); w = w OR push_bit 6 imm18_u
      in word_write_24 j_pos w e)"

section \<open>Flags\<close>

definition emit_zflag :: "u8 \<Rightarrow> u8 \<Rightarrow> u8 \<Rightarrow> emission list" where
  "emit_zflag value_reg dst_reg scratch =
     [xt_addi scratch value_reg (-1), xt_extui scratch scratch 8 0, xt_slli scratch scratch 7,
      xt_or dst_reg dst_reg scratch]"

definition emit_setflag_const :: "u8 \<Rightarrow> u8 \<Rightarrow> u8 \<Rightarrow> emission list" where
  "emit_setflag_const dst_reg flag_bit scratch = [xt_movi scratch (ucast flag_bit), xt_or dst_reg dst_reg scratch]"

definition emit_hflag_add :: "u8 \<Rightarrow> u8 \<Rightarrow> u8 \<Rightarrow> u8 \<Rightarrow> u8 \<Rightarrow> emission list" where
  "emit_hflag_add a_reg r_reg dst_reg scratch_a scratch_b =
     [xt_extui scratch_a a_reg 0 3, xt_extui scratch_b r_reg 0 3, xt_add scratch_a scratch_a scratch_b,
      xt_extui scratch_a scratch_a 4 0, xt_slli scratch_a scratch_a 5, xt_or dst_reg dst_reg scratch_a]"

definition emit_hflag_sub :: "u8 \<Rightarrow> u8 \<Rightarrow> u8 \<Rightarrow> u8 \<Rightarrow> u8 \<Rightarrow> emission list" where
  "emit_hflag_sub a_reg r_reg dst_reg scratch_a scratch_b =
     [xt_extui scratch_a a_reg 0 3, xt_extui scratch_b r_reg 0 3, xt_sub scratch_a scratch_a scratch_b,
      xt_extui scratch_a scratch_a 4 0, xt_slli scratch_a scratch_a 5, xt_or dst_reg dst_reg scratch_a]"

definition emit_cflag_from_bit8 :: "u8 \<Rightarrow> u8 \<Rightarrow> u8 \<Rightarrow> emission list" where
  "emit_cflag_from_bit8 sum_reg dst_reg scratch =
     [xt_extui scratch sum_reg 8 0, xt_slli scratch scratch 4, xt_or dst_reg dst_reg scratch]"

section \<open>Instructions that touch memory\<close>

definition op_touches_mmu :: "u8 \<Rightarrow> bool" where
  "op_touches_mmu op =
     (if 0x40 \<le> op \<and> op \<le> 0x7F then op AND 7 = 6 \<or> drop_bit 3 op AND 7 = 6
      else op = 0x36 \<or> (0x80 \<le> op \<and> op \<le> 0xBF \<and> op AND 7 = 6)
        \<or> op = 0x02 \<or> op = 0x0A \<or> op = 0x12 \<or> op = 0x1A \<or> op = 0x22 \<or> op = 0x2A \<or> op = 0x32 \<or> op = 0x3A
        \<or> op = 0xEA \<or> op = 0xFA \<or> op = 0xE0 \<or> op = 0xE2 \<or> op = 0xF0 \<or> op = 0xF2
        \<or> op = 0xC1 \<or> op = 0xC5 \<or> op = 0xD1 \<or> op = 0xD5 \<or> op = 0xE1 \<or> op = 0xE5 \<or> op = 0xF1 \<or> op = 0xF5
        \<or> op = 0xCB)"

end
