(* ===== verification/Codegen_Ops.thy ===== *)
theory Codegen_Ops
  imports Codegen
begin

text \<open>
  \<open>inline_op\<close> of src/jit/codegen.c: the inliner of each group of opcodes. The state \<open>gen\<close> is the
  emit buffer, the literal pool and the out-flag of \<open>inline_ctx\<close>; the context's inputs are the
  record \<open>inline_ctx\<close>. An inliner returns whether it inlined the instruction, with the new state: a
  failed inliner has emitted nothing, but may have taken literals.

  The code around a fast path is the same in ten places: checks that branch away, the fast path, a jump
  over the helper call, the helper call, and the patching of the branches. \<open>fast_or_helper\<close> is that code.
\<close>

record inline_ctx =
  ic_m :: mmu
  ic_layout :: mmu_layout
  ic_entry_off :: u32
  ic_mmu_base :: u32
  ic_lit_off :: "literal_id \<Rightarrow> u32"
  ic_ops_pc :: "u16 array"
  ic_ops_code_off :: "u32 array"
  ic_n_filled :: nat
  ic_internalised_loop :: bool
  ic_emit_halt_on_spin :: bool

record gen =
  g_e :: xt_emit
  g_L :: lit_ctx
  g_back_edge :: bool

type_synonym inliner = "inline_ctx \<Rightarrow> gen \<Rightarrow> bool \<times> gen"

definition gen_emits :: "emission list \<Rightarrow> gen \<Rightarrow> gen" where
  "gen_emits fs g = g\<lparr>g_e := emits fs (g_e g)\<rparr>"

definition inlined :: "emission list \<Rightarrow> gen \<Rightarrow> bool \<times> gen" where
  "inlined fs g = (True, gen_emits fs g)"

text \<open>\<open>lit_alloc_u32\<close> and the \<open>return false\<close> when the pool is full.\<close>

definition with_lit :: "u32 \<Rightarrow> (u32 \<Rightarrow> gen \<Rightarrow> bool \<times> gen) \<Rightarrow> gen \<Rightarrow> bool \<times> gen" where
  "with_lit v k g =
     (case lit_alloc_u32 v (g_L g) of
        (None, L) \<Rightarrow> (False, g\<lparr>g_L := L\<rparr>)
      | (Some off, L) \<Rightarrow> k off (g\<lparr>g_L := L\<rparr>))"

section \<open>Fast path and helper\<close>

definition helper_call :: "inline_ctx \<Rightarrow> emission list" where
  "helper_call I =
     emit_sync_state @ [xt_mov 2 13]
     @ emit_callx0_helper (ic_lit_off I HELPER_SM83_STEP) (ic_entry_off I)
     @ emit_reload_state (ic_lit_off I ADDR_CPU_BASE) (ic_entry_off I)"

text \<open>A check is some code and the register whose value, when not zero, sends control to the helper.\<close>

type_synonym check = "emission list \<times> u8"

definition emit_check :: "check \<Rightarrow> xt_emit \<Rightarrow> u32 \<times> xt_emit" where
  "emit_check c e = (let e = emits (fst c) e in (xt_len e, emits [xt_bnez (snd c) 4] e))"

primrec emit_checks :: "check list \<Rightarrow> xt_emit \<Rightarrow> u32 list \<times> xt_emit" where
  "emit_checks [] e = ([], e)"
| "emit_checks (c # cs) e =
     (let (br, e) = emit_check c e; (brs, e) = emit_checks cs e in (br # brs, e))"

definition fast_or_helper :: "inline_ctx \<Rightarrow> check list \<Rightarrow> emission list \<Rightarrow> gen \<Rightarrow> bool \<times> gen" where
  "fast_or_helper I checks fast g =
     (let (brs, e) = emit_checks checks (g_e g);
          e = emits fast e;
          j_to_end = xt_len e; e = emits [xt_j 4] e;
          slow_pos = xt_len e; e = emits (helper_call I) e;
          end_pos = xt_len e;
          e = fold (\<lambda>br. patch_branch_to br slow_pos) brs e
      in (True, g\<lparr>g_e := patch_j_to j_to_end end_pos e\<rparr>))"

definition emit_smc_guard :: "inline_ctx \<Rightarrow> u8 \<Rightarrow> u8 \<Rightarrow> u8 \<Rightarrow> u32 \<Rightarrow> check" where
  "emit_smc_guard I addr_reg s1 s2 ps_lit =
     ([xt_extui s1 addr_reg 8 7, l32r_here (ic_entry_off I) s2 ps_lit, xt_add s2 s2 s1, xt_l8ui s1 s2 0], s1)"

definition SMC_PS_BASE :: "inline_ctx \<Rightarrow> u32" where
  "SMC_PS_BASE I = ic_mmu_base I + off_page_state (ic_layout I)"

definition wram_base_minus_C000 :: "inline_ctx \<Rightarrow> u32" where
  "wram_base_minus_C000 I = ic_mmu_base I + off_wram (ic_layout I) - 0xC000"

text \<open>The range check of \<open>addr_reg\<close> into \<open>t\<close>: zero for an address in WRAM.\<close>

definition in_wram :: "u8 \<Rightarrow> u8 \<Rightarrow> emission list" where
  "in_wram t addr_reg = [xt_extui t addr_reg 13 2, xt_addi t t (-6)]"

section \<open>Loads and moves\<close>

definition inline_ld_r_n8 :: "u8 \<Rightarrow> u16 \<Rightarrow> inliner" where
  "inline_ld_r_n8 opcode pc I g =
     (case reg8_offset (drop_bit 3 opcode AND 7) of None \<Rightarrow> (False, g)
      | Some off \<Rightarrow>
          let imm = mmu_read8 (ic_m I) (pc + 1)
          in inlined ([xt_movi 2 (ucast imm), xt_s8i 2 13 off] @ emit_advance 2 8) g)"

text \<open>LD r,(HL) and LD (HL),r\<close>

definition inline_ld_hl :: "u8 \<Rightarrow> inliner" where
  "inline_ld_hl opcode I g =
     (let is_load = opcode AND 0xF8 \<noteq> 0x70;
          reg_idx = (if is_load then drop_bit 3 opcode AND 7 else opcode AND 7)
      in case reg8_offset reg_idx of None \<Rightarrow> (False, g)
       | Some reg_off \<Rightarrow>
           with_lit (wram_base_minus_C000 I) (\<lambda>wram_lit g.
             let range = ([xt_l16ui 3 13 OFF_HL] @ in_wram 4 3, 4);
                 fast = (\<lambda>access. [l32r_here (ic_entry_off I) 5 wram_lit, xt_add 4 5 3] @ access
                           @ [xt_addi 11 11 1, xt_addi 12 12 8])
             in if is_load then fast_or_helper I [range] (fast [xt_l8ui 2 4 0, xt_s8i 2 13 reg_off]) g
                else with_lit (SMC_PS_BASE I) (\<lambda>ps_lit g.
                  fast_or_helper I [range, emit_smc_guard I 3 4 5 ps_lit]
                    (fast [xt_l8ui 2 13 reg_off, xt_s8i 2 4 0]) g) g) g)"

definition inline_ld_r_r :: "u8 \<Rightarrow> inliner" where
  "inline_ld_r_r opcode I g =
     (case (reg8_offset (drop_bit 3 opcode AND 7), reg8_offset (opcode AND 7)) of
        (Some dst_off, Some src_off) \<Rightarrow>
          inlined ([xt_l8ui 2 13 src_off, xt_s8i 2 13 dst_off] @ emit_advance 1 4) g
      | _ \<Rightarrow> (False, g))"

text \<open>LD (HL),n8\<close>

definition inline_ld_hl_n8 :: "u16 \<Rightarrow> inliner" where
  "inline_ld_hl_n8 pc I g =
     (let imm = mmu_read8 (ic_m I) (pc + 1)
      in with_lit (wram_base_minus_C000 I) (\<lambda>wram_lit.
           with_lit (SMC_PS_BASE I) (\<lambda>ps_lit.
             fast_or_helper I [([xt_l16ui 9 13 OFF_HL] @ in_wram 4 9, 4), emit_smc_guard I 9 4 5 ps_lit]
               ([l32r_here (ic_entry_off I) 5 wram_lit, xt_add 4 5 9, xt_movi 2 (ucast imm), xt_s8i 2 4 0]
                @ emit_advance 2 12))) g)"

text \<open>LD (HL+),A, LD (HL-),A, LD A,(HL+) and LD A,(HL-)\<close>

definition inline_ld_hl_inc :: "u8 \<Rightarrow> inliner" where
  "inline_ld_hl_inc opcode I g =
     (let is_load = (opcode = 0x2A \<or> opcode = 0x3A);
          hl_delta = (if opcode = 0x32 \<or> opcode = 0x3A then -1 else 1)
      in with_lit (wram_base_minus_C000 I) (\<lambda>wram_lit.
           fast_or_helper I [([xt_l16ui 9 13 OFF_HL] @ in_wram 4 9, 4)]
             ([l32r_here (ic_entry_off I) 5 wram_lit, xt_add 4 5 9]
              @ (if is_load then [xt_l8ui 2 4 0, xt_s8i 2 13 OFF_A] else [xt_l8ui 2 13 OFF_A, xt_s8i 2 4 0])
              @ [xt_addi 9 9 hl_delta, xt_extui 9 9 0 15, xt_s16i 9 13 OFF_HL] @ emit_advance 1 8)) g)"

text \<open>The store to a constant address that LD (a16),A and LDH (n8),A share, behind the guard on its page.\<close>

definition store_a :: "inline_ctx \<Rightarrow> u32 \<Rightarrow> u32 \<Rightarrow> emission list \<Rightarrow> gen \<Rightarrow> bool \<times> gen" where
  "store_a I lit_off ps_lit advance =
     fast_or_helper I [([l32r_here (ic_entry_off I) 4 ps_lit, xt_l8ui 4 4 0], 4)]
       ([l32r_here (ic_entry_off I) 2 lit_off, xt_l8ui 3 13 OFF_A, xt_s8i 3 2 0] @ advance)"

definition load_a :: "inline_ctx \<Rightarrow> u32 \<Rightarrow> emission list \<Rightarrow> gen \<Rightarrow> bool \<times> gen" where
  "load_a I lit_off advance =
     inlined ([l32r_here (ic_entry_off I) 2 lit_off, xt_l8ui 3 2 0, xt_s8i 3 13 OFF_A] @ advance)"

text \<open>LD A,(a16) and LD (a16),A\<close>

definition inline_ld_a16 :: "u8 \<Rightarrow> u16 \<Rightarrow> inliner" where
  "inline_ld_a16 opcode pc I g =
     (let lo = mmu_read8 (ic_m I) (pc + 1); hi = mmu_read8 (ic_m I) (pc + 2); a16 = mk16 lo hi;
          byte_addr = inlinable_byte_addr (ic_layout I) (ic_mmu_base I) a16
      in if byte_addr = 0 then (False, g)
         else with_lit byte_addr (\<lambda>lit_off g.
           if opcode = 0xFA then load_a I lit_off (emit_advance 3 16) g
           else with_lit (SMC_PS_BASE I + ucast (drop_bit 8 a16)) (\<lambda>ps_lit.
             store_a I lit_off ps_lit (emit_advance 3 16)) g) g)"

text \<open>LDH (n8),A and LDH A,(n8)\<close>

definition ldh_addr :: "inline_ctx \<Rightarrow> u8 \<Rightarrow> u8 \<Rightarrow> u32" where
  "ldh_addr I opcode n8 =
     (let hram = ic_mmu_base I + off_hram (ic_layout I) + (ucast n8 - 0x80)
      in if opcode = 0xF0 then
           (if n8 < 0x80 then ic_mmu_base I + off_io (ic_layout I) + ucast n8 else if n8 < 0xFF then hram else 0)
         else if 0x80 \<le> n8 \<and> n8 < 0xFF then hram else 0)"

definition inline_ldh :: "u8 \<Rightarrow> u16 \<Rightarrow> inliner" where
  "inline_ldh opcode pc I g =
     (let n8 = mmu_read8 (ic_m I) (pc + 1); byte_addr = ldh_addr I opcode n8
      in if opcode = 0xF0 \<and> n8 = 0 then (False, g)
         else if byte_addr = 0 then (False, g)
         else with_lit byte_addr (\<lambda>lit_off g.
           if opcode = 0xF0 then load_a I lit_off (emit_advance 2 12) g
           else with_lit (SMC_PS_BASE I + 0xFF) (\<lambda>ps_lit. store_a I lit_off ps_lit (emit_advance 2 12)) g) g)"

text \<open>The 16-bit register of bits 4 and 5.\<close>

definition pair_off :: "u8 \<Rightarrow> u32" where
  "pair_off opcode =
     (let pair = drop_bit 4 opcode AND 3
      in if pair = 0 then OFF_BC else if pair = 1 then OFF_DE else if pair = 2 then OFF_HL else OFF_SP)"

definition inline_ld_rr_n16 :: "u8 \<Rightarrow> u16 \<Rightarrow> inliner" where
  "inline_ld_rr_n16 opcode pc I g =
     (let lo = mmu_read8 (ic_m I) (pc + 1); hi = mmu_read8 (ic_m I) (pc + 2)
      in inlined ([xt_movi 2 (ucast lo)]
           @ (if hi \<noteq> 0 then [xt_movi 3 (ucast hi), xt_slli 3 3 8, xt_or 2 2 3] else [])
           @ [xt_s16i 2 13 (pair_off opcode)] @ emit_advance 3 12) g)"

end
