(* ===== verification/Codegen_Alu.thy ===== *)
theory Codegen_Alu
  imports Codegen_Ops
begin

text \<open>
  The inliners of \<open>inline_op\<close> (src/jit/codegen.c) that compute: CPL, SCF, CCF, the rotates of A, 8- and
  16-bit increments and decrements, ADD HL, the CB prefix and the eight ALU operations.
\<close>

section \<open>Flags and rotates of A\<close>

definition inline_cpl :: inliner where
  "inline_cpl I =
     inlined ([xt_l8ui 2 13 OFF_A, xt_movi 3 0xFF, xt_xor 2 2 3, xt_extui 2 2 0 7, xt_s8i 2 13 OFF_A,
               xt_l8ui 4 13 OFF_F, xt_movi 5 (ucast (FLAG_Z OR FLAG_C)), xt_and 4 4 5,
               xt_movi 5 (ucast (FLAG_N OR FLAG_H)), xt_or 4 4 5, xt_s8i 4 13 OFF_F] @ emit_advance 1 4)"

definition inline_scf_ccf :: "u8 \<Rightarrow> inliner" where
  "inline_scf_ccf opcode I =
     (let is_ccf = opcode = 0x3F
      in inlined ([xt_l8ui 4 13 OFF_F, xt_movi 5 (ucast (FLAG_Z OR (if is_ccf then FLAG_C else 0))), xt_and 4 4 5,
                   xt_movi 5 (ucast FLAG_C), (if is_ccf then xt_xor 4 4 5 else xt_or 4 4 5), xt_s8i 4 13 OFF_F]
                  @ emit_advance 1 4))"

definition rot_a_code :: "u8 \<Rightarrow> emission list" where
  "rot_a_code opcode =
     (if opcode = 0x07 then [xt_extui 6 2 7 0, xt_slli 5 2 1, xt_or 5 5 6, xt_extui 5 5 0 7]
      else if opcode = 0x0F then [xt_extui 6 2 0 0, xt_srli 5 2 1, xt_slli 7 6 7, xt_or 5 5 7]
      else if opcode = 0x17 then
        [xt_l8ui 4 13 OFF_F, xt_extui 6 2 7 0, xt_extui 7 4 4 0, xt_slli 5 2 1, xt_or 5 5 7, xt_extui 5 5 0 7]
      else [xt_l8ui 4 13 OFF_F, xt_extui 6 2 0 0, xt_extui 7 4 4 0, xt_srli 5 2 1, xt_slli 7 7 7, xt_or 5 5 7])"

definition inline_rot_a :: "u8 \<Rightarrow> inliner" where
  "inline_rot_a opcode I =
     inlined ([xt_l8ui 2 13 OFF_A] @ rot_a_code opcode
              @ [xt_s8i 5 13 OFF_A, xt_movi 4 0, xt_slli 6 6 4, xt_or 4 4 6, xt_s8i 4 13 OFF_F] @ emit_advance 1 4)"

section \<open>Increments and decrements\<close>

definition inline_inc_dec :: "u8 \<Rightarrow> inliner" where
  "inline_inc_dec opcode I g =
     (let is_dec = (opcode AND 1 \<noteq> 0); r = drop_bit 3 opcode AND 7; delta = (if is_dec then -1 else 1)
      in case reg8_offset r of None \<Rightarrow> (False, g)
       | Some r_off \<Rightarrow>
           inlined ([xt_l8ui 2 13 r_off, xt_addi 3 2 delta, xt_extui 3 3 0 7, xt_s8i 3 13 r_off,
                     xt_l8ui 4 13 OFF_F, xt_movi 5 (ucast FLAG_C), xt_and 4 4 5]
                    @ emit_zflag 3 4 7
                    @ (if is_dec then emit_setflag_const 4 FLAG_N 7 else [])
                    @ [xt_extui 7 2 0 3, xt_addi 7 7 delta, xt_extui 7 7 4 0, xt_slli 7 7 5, xt_or 4 4 7]
                    @ [xt_s8i 4 13 OFF_F] @ emit_advance 1 4) g)"

definition inline_inc_dec16 :: "u8 \<Rightarrow> inliner" where
  "inline_inc_dec16 opcode I =
     (let is_dec = (opcode AND 0x0F = 0x0B); off = pair_off opcode
      in inlined ([xt_l16ui 2 13 off, xt_addi 2 2 (if is_dec then -1 else 1), xt_s16i 2 13 off] @ emit_advance 1 8))"

definition inline_add_hl :: "u8 \<Rightarrow> inliner" where
  "inline_add_hl opcode I =
     inlined ([xt_l16ui 2 13 OFF_HL, xt_l16ui 3 13 (pair_off opcode),
               xt_add 4 2 3, xt_s16i 4 13 OFF_HL, xt_extui 5 4 16 0, xt_slli 5 5 4,
               xt_extui 6 2 0 11, xt_extui 7 3 0 11, xt_add 6 6 7, xt_extui 6 6 12 0, xt_slli 6 6 5,
               xt_l8ui 4 13 OFF_F, xt_movi 7 (ucast FLAG_Z), xt_and 4 4 7, xt_or 4 4 5, xt_or 4 4 6,
               xt_s8i 4 13 OFF_F] @ emit_advance 1 8)"

section \<open>CB prefix\<close>

definition cb_shift_code :: "u8 \<Rightarrow> emission list" where
  "cb_shift_code sub_op =
     (if sub_op = 0 then [xt_extui 6 2 7 0, xt_slli 5 2 1, xt_or 5 5 6, xt_extui 5 5 0 7]
      else if sub_op = 1 then [xt_extui 6 2 0 0, xt_srli 5 2 1, xt_slli 7 6 7, xt_or 5 5 7]
      else if sub_op = 2 then
        [xt_l8ui 4 13 OFF_F, xt_extui 6 2 7 0, xt_extui 7 4 4 0, xt_slli 5 2 1, xt_or 5 5 7, xt_extui 5 5 0 7]
      else if sub_op = 3 then
        [xt_l8ui 4 13 OFF_F, xt_extui 6 2 0 0, xt_extui 7 4 4 0, xt_srli 5 2 1, xt_slli 7 7 7, xt_or 5 5 7]
      else if sub_op = 4 then [xt_extui 6 2 7 0, xt_slli 5 2 1, xt_extui 5 5 0 7]
      else if sub_op = 5 then
        [xt_extui 6 2 0 0, xt_srli 5 2 1, xt_extui 7 2 7 0, xt_slli 7 7 7, xt_or 5 5 7]
      else if sub_op = 6 then [xt_slli 7 2 4, xt_extui 7 7 0 7, xt_srli 5 2 4, xt_or 5 5 7, xt_movi 6 0]
      else [xt_extui 6 2 0 0, xt_srli 5 2 1])"

definition inline_cb :: "u16 \<Rightarrow> inliner" where
  "inline_cb pc I g =
     (let sub = mmu_read8 (ic_m I) (pc + 1);
          reg = sub AND 7; grp = drop_bit 6 sub AND 3; sub_op = drop_bit 3 sub AND 7
      in case reg8_offset reg of None \<Rightarrow> (False, g)
       | Some reg_off \<Rightarrow>
           inlined ([xt_l8ui 2 13 reg_off]
             @ (if grp = 0 then
                  cb_shift_code sub_op @ [xt_s8i 5 13 reg_off, xt_movi 4 0] @ emit_zflag 5 4 7
                  @ [xt_slli 6 6 4, xt_or 4 4 6, xt_s8i 4 13 OFF_F]
                else if grp = 1 then
                  [xt_extui 3 2 sub_op 0, xt_l8ui 4 13 OFF_F, xt_movi 5 (ucast FLAG_C), xt_and 4 4 5]
                  @ emit_zflag 3 4 7 @ emit_setflag_const 4 FLAG_H 7 @ [xt_s8i 4 13 OFF_F]
                else if grp = 2 then
                  [xt_movi 3 (ucast (NOT (push_bit (unat sub_op) 1) :: u8)), xt_and 2 2 3, xt_s8i 2 13 reg_off]
                else
                  [xt_movi 3 (ucast (push_bit (unat sub_op) 1 :: u8)), xt_or 2 2 3, xt_s8i 2 13 reg_off])
             @ emit_advance 2 8) g)"

section \<open>The ALU operations\<close>

text \<open>The macro \<open>ALU_INLINE\<close>: A in \<open>a2\<close>, the operand in \<open>a3\<close>, the new F in \<open>a6\<close>. SUB and CP share the first
  group, ADC and SBC the second, AND, XOR and OR the third.\<close>

definition alu_sub_code :: "emission list \<Rightarrow> emission list" where
  "alu_sub_code write_a =
     [xt_sub 4 2 3, xt_extui 5 4 0 7] @ write_a @ emit_zflag 5 6 7 @ emit_setflag_const 6 FLAG_N 7
     @ emit_hflag_sub 2 3 6 7 8 @ emit_cflag_from_bit8 4 6 7"

definition alu_carry_code :: "(u8 \<Rightarrow> u8 \<Rightarrow> u8 \<Rightarrow> emission) \<Rightarrow> emission list \<Rightarrow> emission list" where
  "alu_carry_code xt_arith set_n =
     [xt_l8ui 7 13 OFF_F, xt_extui 7 7 4 0, xt_arith 4 2 3, xt_arith 4 4 7, xt_extui 5 4 0 7, xt_s8i 5 13 OFF_A]
     @ emit_zflag 5 6 8 @ set_n
     @ [xt_extui 8 2 0 3, xt_extui 9 3 0 3, xt_arith 8 8 9, xt_arith 8 8 7, xt_extui 8 8 4 0, xt_slli 8 8 5,
        xt_or 6 6 8, xt_extui 8 4 8 0, xt_slli 8 8 4, xt_or 6 6 8]"

definition alu_logic_code :: "emission \<Rightarrow> emission list \<Rightarrow> emission list" where
  "alu_logic_code xt_logic set_h = [xt_logic, xt_s8i 5 13 OFF_A] @ emit_zflag 5 6 7 @ set_h"

definition ALU_INLINE :: "u8 \<Rightarrow> emission list" where
  "ALU_INLINE grp =
     [xt_movi 6 0]
     @ (if grp = 0 then
          [xt_add 4 2 3, xt_extui 5 4 0 7, xt_s8i 5 13 OFF_A] @ emit_zflag 5 6 7
          @ emit_hflag_add 2 3 6 7 8 @ emit_cflag_from_bit8 4 6 7
        else if grp = 1 then alu_carry_code xt_add []
        else if grp = 2 then alu_sub_code [xt_s8i 5 13 OFF_A]
        else if grp = 3 then alu_carry_code xt_sub (emit_setflag_const 6 FLAG_N 8)
        else if grp = 4 then alu_logic_code (xt_and 5 2 3) (emit_setflag_const 6 FLAG_H 7)
        else if grp = 5 then alu_logic_code (xt_xor 5 2 3) []
        else if grp = 6 then alu_logic_code (xt_or 5 2 3) []
        else alu_sub_code [])
     @ [xt_s8i 6 13 OFF_F]"

definition inline_alu_n8 :: "u8 \<Rightarrow> u16 \<Rightarrow> inliner" where
  "inline_alu_n8 opcode pc I =
     (let imm = mmu_read8 (ic_m I) (pc + 1); group = drop_bit 3 opcode AND 7
      in inlined ([xt_l8ui 2 13 OFF_A, xt_movi 3 (ucast imm)] @ ALU_INLINE group @ emit_advance 2 8))"

definition inline_alu_hl :: "u8 \<Rightarrow> inliner" where
  "inline_alu_hl opcode I =
     (let group = drop_bit 3 opcode AND 7
      in with_lit (wram_base_minus_C000 I) (\<lambda>wram_lit.
           fast_or_helper I [([xt_l16ui 9 13 OFF_HL] @ in_wram 4 9, 4)]
             ([l32r_here (ic_entry_off I) 5 wram_lit, xt_add 4 5 9, xt_l8ui 3 4 0, xt_l8ui 2 13 OFF_A]
              @ ALU_INLINE group @ emit_advance 1 8)))"

definition inline_alu_r :: "u8 \<Rightarrow> inliner" where
  "inline_alu_r opcode I g =
     (let group = drop_bit 3 opcode AND 7; src = opcode AND 7
      in case reg8_offset src of None \<Rightarrow> (False, g)
       | Some src_off \<Rightarrow>
           inlined ([xt_l8ui 2 13 OFF_A, (if src = 7 then xt_mov 3 2 else xt_l8ui 3 13 src_off)]
                    @ ALU_INLINE group @ emit_advance 1 4) g)"

end
