(* ===== verification/Codegen_Flow.thy ===== *)
theory Codegen_Flow
  imports Codegen_Alu
begin

text \<open>
  The inliners of \<open>inline_op\<close> (src/jit/codegen.c) that move the program counter or the stack, and
  \<open>inline_op\<close> itself, the dispatch on the opcode.
\<close>

section \<open>Jumps\<close>

definition jr_target :: "inline_ctx \<Rightarrow> u16 \<Rightarrow> u16" where
  "jr_target I pc = (let off = mmu_read8 (ic_m I) (pc + 1) in pc + 2 + scast off)"

definition operand16 :: "inline_ctx \<Rightarrow> u16 \<Rightarrow> u16" where
  "operand16 I pc = (let lo = mmu_read8 (ic_m I) (pc + 1); hi = mmu_read8 (ic_m I) (pc + 2) in mk16 lo hi)"

definition inline_jr :: "u16 \<Rightarrow> inliner" where
  "inline_jr pc I = inlined (emit_load_u16 11 (jr_target I pc) 2 @ [xt_addi 12 12 12])"

definition inline_jp :: "u16 \<Rightarrow> inliner" where
  "inline_jp pc I = inlined (emit_load_u16 11 (operand16 I pc) 2 @ [xt_addi 12 12 16])"

definition inline_jp_hl :: inliner where
  "inline_jp_hl I = inlined [xt_l16ui 11 13 OFF_HL, xt_addi 12 12 4]"

text \<open>The test of a condition, and the branch that skips the taken path.\<close>

definition cond_test :: "u8 \<Rightarrow> emission list" where
  "cond_test flag_mask = [xt_l8ui 4 13 OFF_F, xt_movi 5 (ucast flag_mask), xt_and 4 4 5]"

definition skip_branch :: "bool \<Rightarrow> emission" where
  "skip_branch taken_when_zero = (if taken_when_zero then xt_bnez 4 4 else xt_beqz 4 4)"

definition two_way :: "u8 \<Rightarrow> bool \<Rightarrow> emission list \<Rightarrow> emission list \<Rightarrow> xt_emit \<Rightarrow> xt_emit" where
  "two_way flag_mask taken_when_zero taken untaken e =
     (let e = emits (cond_test flag_mask) e;
          br_pos = xt_len e; e = emits [skip_branch taken_when_zero] e;
          e = emits taken e;
          j_pos = xt_len e; e = emits [xt_j 4] e;
          fallthrough_pos = xt_len e; e = emits untaken e;
          end_pos = xt_len e;
          e = patch_branch_to br_pos fallthrough_pos e
      in patch_j_to j_pos end_pos e)"

text \<open>The loop turned into a backward jump of the block, which the walker never asks for.\<close>

definition back_edge :: "u8 \<Rightarrow> bool \<Rightarrow> u16 \<Rightarrow> u32 \<Rightarrow> u16 \<Rightarrow> xt_emit \<Rightarrow> xt_emit" where
  "back_edge flag_mask taken_when_zero target target_code_off fallthrough e =
     (let e = emits (cond_test flag_mask) e;
          br_skip = xt_len e; e = emits [skip_branch taken_when_zero] e;
          e = emits ([xt_addi 12 12 12] @ emit_load_u16 11 target 2) e;
          j_pos = xt_len e; e = emits [xt_j 4] e;
          e = patch_j_to j_pos target_code_off e;
          fallthru_pos = xt_len e;
          e = patch_branch_to br_skip fallthru_pos e
      in emits ([xt_addi 12 12 8] @ emit_load_u16 11 fallthrough 2) e)"

definition inline_jr_cc :: "u8 \<Rightarrow> u16 \<Rightarrow> inliner" where
  "inline_jr_cc opcode pc I g =
     (let target = jr_target I pc; fallthrough = pc + 2;
          cc = drop_bit 3 opcode AND 3; flag_mask = (if cc < 2 then FLAG_Z else FLAG_C);
          taken_when_zero = (cc AND 1 = 0)
      in case (if ic_internalised_loop I then find (\<lambda>j. ic_ops_pc I j = target) [0..<ic_n_filled I] else None) of
           Some j \<Rightarrow>
             (True, g\<lparr>g_e := back_edge flag_mask taken_when_zero target (ic_ops_code_off I j) fallthrough (g_e g),
                      g_back_edge := True\<rparr>)
         | None \<Rightarrow>
             (True, g\<lparr>g_e := two_way flag_mask taken_when_zero
                (emit_load_u16 11 target 2 @ [xt_addi 12 12 12]
                 @ (if ic_emit_halt_on_spin I then [xt_movi 4 1, xt_s8i 4 13 OFF_HALTED] else []))
                (emit_load_u16 11 fallthrough 2 @ [xt_addi 12 12 8]) (g_e g)\<rparr>))"

definition inline_jp_cc :: "u8 \<Rightarrow> u16 \<Rightarrow> inliner" where
  "inline_jp_cc opcode pc I g =
     (let target = operand16 I pc; fallthrough = pc + 3;
          flag_mask = (if drop_bit 4 opcode AND 1 \<noteq> 0 then FLAG_C else FLAG_Z);
          taken_when_zero = (opcode AND 0x08 = 0)
      in (True, g\<lparr>g_e := two_way flag_mask taken_when_zero
            (emit_load_u16 11 target 2 @ [xt_addi 12 12 16])
            (emit_load_u16 11 fallthrough 2 @ [xt_addi 12 12 12]) (g_e g)\<rparr>))"

section \<open>Stack\<close>

text \<open>\<open>a8 = SP - 2\<close> and the range check on it, for CALL, RST and PUSH; the check on SP for POP and RET.\<close>

definition push_check :: check where
  "push_check = ([xt_l16ui 4 13 OFF_SP, xt_addi 8 4 (-2), xt_extui 8 8 0 15] @ in_wram 5 8, 5)"

definition pop_check :: check where
  "pop_check = ([xt_l16ui 4 13 OFF_SP] @ in_wram 5 4, 5)"

definition push_prefix :: "inline_ctx \<Rightarrow> u32 \<Rightarrow> emission list" where
  "push_prefix I wram_lit = [xt_s16i 8 13 OFF_SP, l32r_here (ic_entry_off I) 6 wram_lit, xt_add 5 6 8]"

definition inline_call :: "u8 \<Rightarrow> u16 \<Rightarrow> inliner" where
  "inline_call opcode pc I =
     (let (target, ret_pc) =
            (if opcode = 0xCD then (operand16 I pc, pc + 3) else (ucast (opcode AND 0x38), pc + 1));
          lo_ret = ucast (ret_pc AND 0xFF) :: u8; hi_ret = ucast (drop_bit 8 ret_pc AND 0xFF) :: u8;
          cycles_taken = (if opcode = 0xCD then 24 else 16)
      in with_lit (wram_base_minus_C000 I) (\<lambda>wram_lit.
           fast_or_helper I [push_check]
             (push_prefix I wram_lit
              @ [xt_movi 7 (ucast lo_ret), xt_s8i 7 5 0, xt_movi 7 (ucast hi_ret), xt_s8i 7 5 1]
              @ emit_load_u16 11 target 2 @ [xt_addi 12 12 cycles_taken])))"

text \<open>The offsets of the low and the high half of the pair pushed or popped, and whether it is AF.\<close>

definition stack_pair :: "u8 \<Rightarrow> u32 \<times> u32 \<times> bool" where
  "stack_pair opcode =
     (let pair = drop_bit 4 opcode AND 3
      in if pair = 0 then (OFF_C, OFF_B, False) else if pair = 1 then (OFF_E, OFF_D, False)
         else if pair = 2 then (OFF_L, OFF_H, False) else (OFF_F, OFF_A, True))"

definition inline_push :: "u8 \<Rightarrow> inliner" where
  "inline_push opcode I =
     (let (lo_off, hi_off, is_af) = stack_pair opcode
      in with_lit (wram_base_minus_C000 I) (\<lambda>wram_lit.
           fast_or_helper I [push_check]
             (push_prefix I wram_lit
              @ [xt_l8ui 7 13 lo_off] @ (if is_af then [xt_movi 9 0xF0, xt_and 7 7 9] else []) @ [xt_s8i 7 5 0]
              @ [xt_l8ui 7 13 hi_off, xt_s8i 7 5 1] @ emit_advance 1 16)))"

definition inline_pop :: "u8 \<Rightarrow> inliner" where
  "inline_pop opcode I =
     (let (lo_off, hi_off, is_af) = stack_pair opcode
      in with_lit (wram_base_minus_C000 I) (\<lambda>wram_lit.
           fast_or_helper I [pop_check]
             ([l32r_here (ic_entry_off I) 6 wram_lit, xt_add 5 6 4, xt_l8ui 7 5 0]
              @ (if is_af then [xt_movi 9 0xF0, xt_and 7 7 9] else []) @ [xt_s8i 7 13 lo_off]
              @ [xt_l8ui 7 5 1, xt_s8i 7 13 hi_off, xt_addi 4 4 2, xt_extui 4 4 0 15, xt_s16i 4 13 OFF_SP]
              @ emit_advance 1 12)))"

definition inline_ret :: inliner where
  "inline_ret I =
     with_lit (wram_base_minus_C000 I) (\<lambda>wram_lit.
       fast_or_helper I [pop_check]
         [l32r_here (ic_entry_off I) 6 wram_lit, xt_add 5 6 4, xt_l8ui 7 5 0, xt_l8ui 8 5 1, xt_slli 8 8 8,
          xt_or 11 7 8, xt_addi 4 4 2, xt_extui 4 4 0 15, xt_s16i 4 13 OFF_SP, xt_addi 12 12 16])"

section \<open>The dispatch\<close>

definition inline_op :: "u8 \<Rightarrow> u16 \<Rightarrow> inliner" where
  "inline_op opcode pc I g =
     (if opcode = 0x00 then inlined (emit_advance 1 4) g
      else if opcode \<in> {0x06, 0x0E, 0x16, 0x1E, 0x26, 0x2E, 0x3E} then inline_ld_r_n8 opcode pc I g
      else if (0x46 \<le> opcode \<and> opcode \<le> 0x7E \<and> opcode AND 7 = 6 \<and> opcode \<noteq> 0x76)
           \<or> (0x70 \<le> opcode \<and> opcode \<le> 0x77 \<and> opcode \<noteq> 0x76) then inline_ld_hl opcode I g
      else if 0x40 \<le> opcode \<and> opcode \<le> 0x7F \<and> opcode \<noteq> 0x76 then inline_ld_r_r opcode I g
      else if opcode = 0x2F then inline_cpl I g
      else if opcode = 0x37 \<or> opcode = 0x3F then inline_scf_ccf opcode I g
      else if opcode \<in> {0x07, 0x0F, 0x17, 0x1F} then inline_rot_a opcode I g
      else if opcode = 0x36 then inline_ld_hl_n8 pc I g
      else if opcode = 0x76 then inlined ([xt_movi 2 1, xt_s8i 2 13 OFF_HALTED] @ emit_advance 1 4) g
      else if opcode \<in> {0x04, 0x0C, 0x14, 0x1C, 0x24, 0x2C, 0x3C, 0x05, 0x0D, 0x15, 0x1D, 0x25, 0x2D, 0x3D}
        then inline_inc_dec opcode I g
      else if opcode \<in> {0x03, 0x13, 0x23, 0x33, 0x0B, 0x1B, 0x2B, 0x3B} then inline_inc_dec16 opcode I g
      else if opcode \<in> {0x09, 0x19, 0x29, 0x39} then inline_add_hl opcode I g
      else if opcode = 0x18 then inline_jr pc I g
      else if opcode \<in> {0x20, 0x28, 0x30, 0x38} then inline_jr_cc opcode pc I g
      else if opcode = 0xCD \<or> opcode AND 0xC7 = 0xC7 then inline_call opcode pc I g
      else if opcode \<in> {0xC5, 0xD5, 0xE5, 0xF5} then inline_push opcode I g
      else if opcode \<in> {0xC1, 0xD1, 0xE1, 0xF1} then inline_pop opcode I g
      else if opcode \<in> {0x22, 0x32, 0x2A, 0x3A} then inline_ld_hl_inc opcode I g
      else if opcode = 0xC9 then inline_ret I g
      else if opcode = 0xC3 then inline_jp pc I g
      else if opcode = 0xE9 then inline_jp_hl I g
      else if opcode \<in> {0xC2, 0xCA, 0xD2, 0xDA} then inline_jp_cc opcode pc I g
      else if opcode = 0xFA \<or> opcode = 0xEA then inline_ld_a16 opcode pc I g
      else if opcode = 0xE0 \<or> opcode = 0xF0 then inline_ldh opcode pc I g
      else if opcode \<in> {0x01, 0x11, 0x21, 0x31} then inline_ld_rr_n16 opcode pc I g
      else if opcode = 0xCB then inline_cb pc I g
      else if opcode \<in> {0xC6, 0xCE, 0xD6, 0xDE, 0xE6, 0xEE, 0xF6, 0xFE} then inline_alu_n8 opcode pc I g
      else if 0x86 \<le> opcode \<and> opcode \<le> 0xBE \<and> opcode AND 7 = 6 then inline_alu_hl opcode I g
      else if 0x80 \<le> opcode \<and> opcode \<le> 0xBF then inline_alu_r opcode I g
      else (False, g))"

end
