(* ===== verification/Codegen_Block.thy ===== *)
theory Codegen_Block
  imports Codegen_Flow Dispatcher
begin

text \<open>
  \<open>gbjit_compile_block\<close> of src/jit/codegen.c: the walk over the guest code, the recognition of loops, the
  emission of prologue, body and epilogue into the arena, and the block that describes the result.

  The code cache and the eviction callbacks belong to the dispatcher, so the compiler acts on its state.
  The arena is the words of the code cache; the block's memory is the arena seen from the block's base, and
  may be written beyond the reservation, as it is. \<open>helper_addr\<close> is the resolver callback, \<open>new_block\<close> is \<open>calloc\<close>
  of the block structure: a reference that is not allocated, or \<open>None\<close>.
\<close>

section \<open>Walking the guest code\<close>

definition ppu_io_write :: "mmu \<Rightarrow> u16 \<Rightarrow> u8 \<Rightarrow> bool" where
  "ppu_io_write m pc opcode \<longleftrightarrow>
     opcode = 0xE0 \<and> (let n8 = mmu_read8 m (pc + 1) in n8 = 0x40 \<or> n8 = 0x41 \<or> n8 = 0x45 \<or> n8 = 0x46)"

text \<open>The instructions of the block, each with its address, and the address behind them; \<open>n\<close> are left to walk.\<close>

primrec walk :: "mmu \<Rightarrow> nat \<Rightarrow> u16 \<Rightarrow> (u16 \<times> u8) list \<times> u16" where
  "walk m 0 cur = ([], cur)"
| "walk m (Suc n) cur =
     (let opcode = mmu_read8 m cur; next_pc = cur + ucast (op_length (sm83_decode opcode))
      in if sm83_terminates_block opcode \<or> ppu_io_write m cur opcode then ([(cur, opcode)], next_pc)
         else let (ops, fin) = walk m n next_pc in ((cur, opcode) # ops, fin))"

section \<open>Loops\<close>

definition is_dec_a_loop :: "mmu \<Rightarrow> (u16 \<times> u8) list \<Rightarrow> bool" where
  "is_dec_a_loop m ops \<longleftrightarrow> length ops = 2 \<and> snd (ops ! 0) = 0x3D \<and> snd (ops ! 1) = 0x20
     \<and> mmu_read8 m (fst (ops ! 1) + 1) = -3"

definition is_io_poll_halt :: "mmu \<Rightarrow> (u16 \<times> u8) list \<Rightarrow> bool" where
  "is_io_poll_halt m ops \<longleftrightarrow> length ops = 3 \<and> snd (ops ! 0) = 0xF0 \<and> (snd (ops ! 1) = 0xA7 \<or> snd (ops ! 1) = 0xB7)
     \<and> snd (ops ! 2) = 0x28 \<and> mmu_read8 m (fst (ops ! 2) + 1) = -5 \<and> 0x80 \<le> mmu_read8 m (fst (ops ! 0) + 1)"

definition spin_safe :: "mmu \<Rightarrow> u16 \<times> u8 \<Rightarrow> bool" where
  "spin_safe m p \<longleftrightarrow> (if snd p = 0xF0 then 0x80 \<le> mmu_read8 m (fst p + 1) else \<not> op_touches_mmu (snd p))"

definition is_self_loop :: "mmu \<Rightarrow> u16 \<Rightarrow> (u16 \<times> u8) list \<Rightarrow> bool" where
  "is_self_loop m pc_start ops \<longleftrightarrow>
     (let (term_pc, term) = last ops
      in 2 \<le> length ops \<and> (term = 0x20 \<or> term = 0x28 \<or> term = 0x30 \<or> term = 0x38)
         \<and> term_pc + 2 + scast (mmu_read8 m (term_pc + 1)) = pc_start \<and> (\<forall>p\<in>set (butlast ops). spin_safe m p))"

section \<open>Emission\<close>

definition block_total :: "nat \<Rightarrow> u32" where
  "block_total n =
     (let lit_bytes = LITERAL_POOL_BYTES; code_bytes = PROLOGUE_EPILOGUE_BYTES + of_nat n * BYTES_PER_OP
      in (align_up_4 lit_bytes + align_up_4 code_bytes + 7) AND NOT 7)"

definition lit_off :: "literal_id \<Rightarrow> u32" where
  "lit_off l = 4 * literal_index l"

definition pool_init :: "(literal_id \<Rightarrow> u32) \<Rightarrow> u8 array \<Rightarrow> u8 array" where
  "pool_init helper_addr mem = fold (\<lambda>l. store32 (unat (lit_off l)) (helper_addr l)) literal_ids mem"

definition entry_offset :: u32 where
  "entry_offset = align_up_4 (LITERAL_COUNT * 4 + MAX_EXTRA_LITERALS * 4)"

definition prologue :: "emission list" where
  "prologue = [l32r_here entry_offset 13 (lit_off ADDR_CPU_BASE), xt_s32i 0 13 OFF_JITRETPC, xt_l16ui 11 13 OFF_PC, xt_movi 12 0]"

definition epilogue :: "emission list" where
  "epilogue = emit_sync_state @ [l32r_here entry_offset 13 (lit_off ADDR_CPU_BASE), xt_l32i 0 13 OFF_JITRETPC, xt_jx 0]"

definition emit_dec_a_loop :: "xt_emit \<Rightarrow> xt_emit" where
  "emit_dec_a_loop e =
     (let e = emits [xt_l8ui 2 13 OFF_A, xt_l8ui 3 13 OFF_F,
                     xt_movi 5 0x10, xt_and 4 3 5, xt_movi 5 0xC0, xt_or 4 4 5, xt_s8i 4 13 OFF_F] e;
          zero_path_pos = xt_len e; e = emits [xt_beqz 2 4] e;
          e = emits [xt_slli 5 2 4, xt_addi 5 5 (-4)] e;
          j_to_end = xt_len e; e = emits [xt_j 4] e;
          zero_pos = xt_len e;
          e = patch_branch_to zero_path_pos zero_pos e;
          e = emits [xt_movi 5 1023, xt_slli 5 5 2] e;
          end_pos = xt_len e;
          e = patch_j_to j_to_end end_pos e
      in emits [xt_add 12 12 5, xt_movi 5 0, xt_s8i 5 13 OFF_A, xt_addi 11 11 3] e)"

primrec emit_body :: "inline_ctx \<Rightarrow> (u16 \<times> u8) list \<Rightarrow> gen \<Rightarrow> gen" where
  "emit_body I [] g = g"
| "emit_body I (pop # ops) g =
     (let (pc, opcode) = pop; i = ic_n_filled I;
          I = I\<lparr>ic_ops_code_off := (ic_ops_code_off I)(i := xt_len (g_e g))\<rparr>;
          next = I\<lparr>ic_n_filled := i + 1\<rparr>;
          (ok, g) = inline_op opcode pc I (g\<lparr>g_back_edge := False\<rparr>)
      in if ok then (if sm83_terminates_block opcode \<and> \<not> g_back_edge g then g else emit_body next ops g)
         else emit_body next ops (gen_emits (helper_call I) g))"

definition block_ctx :: "mmu_layout \<Rightarrow> (literal_id \<Rightarrow> u32) \<Rightarrow> mmu \<Rightarrow> (u16 \<times> u8) list \<Rightarrow> inline_ctx" where
  "block_ctx lay helper_addr m ops =
     \<lparr>ic_m = m, ic_layout = lay, ic_entry_off = entry_offset, ic_mmu_base = helper_addr ADDR_MMU_BASE,
      ic_lit_off = lit_off, ic_ops_pc = (\<lambda>i. fst (ops ! i)), ic_ops_code_off = (\<lambda>_. 0), ic_n_filled = 0,
      ic_internalised_loop = False, ic_emit_halt_on_spin = is_io_poll_halt m ops\<rparr>"

text \<open>The whole emission into the block's memory \<open>mem\<close>, of which \<open>total\<close> bytes are reserved.\<close>

definition emit_block :: "mmu_layout \<Rightarrow> (literal_id \<Rightarrow> u32) \<Rightarrow> mmu \<Rightarrow> (u16 \<times> u8) list \<Rightarrow> u8 array \<Rightarrow> u32 \<Rightarrow> gen" where
  "emit_block lay helper_addr m ops mem reserved =
     (let pool = LITERAL_COUNT * 4;
          L = \<lparr>lit_base = pool_init helper_addr mem, next_off = pool, limit = pool + MAX_EXTRA_LITERALS * 4\<rparr>;
          e = emits prologue (xt_init (\<lambda>i. mem (unat entry_offset + i)) (reserved - entry_offset));
          g = \<lparr>g_e = e, g_L = L, g_back_edge = False\<rparr>;
          g = (if is_dec_a_loop m ops then g\<lparr>g_e := emit_dec_a_loop (g_e g)\<rparr>
               else emit_body (block_ctx lay helper_addr m ops) ops g)
      in gen_emits epilogue g)"

section \<open>The arena\<close>

definition arena_from :: "u32 \<Rightarrow> (u32 \<Rightarrow> u32) \<Rightarrow> u8 array" where
  "arena_from base w i = (let a = base + of_nat i in byte_of (w (a AND NOT 3)) (unat (a AND 3)))"

definition arena_put :: "u32 \<Rightarrow> u8 array \<Rightarrow> (u32 \<Rightarrow> u32) \<Rightarrow> u32 \<Rightarrow> u32" where
  "arena_put base mem w a = (if base \<le> a \<and> a AND 3 = 0 then load32 mem (unat (a - base)) else w a)"

definition block_mem :: "gen \<Rightarrow> u8 array" where
  "block_mem g i = (if i < unat entry_offset then lit_base (g_L g) i else xt_buf (g_e g) (i - unat entry_offset))"

definition put_block :: "u32 \<Rightarrow> gen \<Rightarrow> dispatcher \<Rightarrow> dispatcher" where
  "put_block base g d = d\<lparr>cc_words := arena_put base (block_mem g) (cc_words d)\<rparr>"

text \<open>\<open>codecache_alloc\<close> and \<open>codecache_trim\<close> of the allocator chosen by GBJIT_JIT_EVICT.\<close>

definition cc_alloc :: "nat \<Rightarrow> u32 \<Rightarrow> dispatcher \<Rightarrow> (u32 option \<times> dispatcher) option" where
  "cc_alloc evict sz d =
     (if evict = 1 then cold_alloc (Some dispatcher_evict_coldest) sz d
      else if evict = 2 then ring_alloc (Some dispatcher_evict_range) sz d else Some (bump_alloc sz d))"

definition cc_trim :: "nat \<Rightarrow> u32 \<Rightarrow> u32 \<Rightarrow> u32 \<Rightarrow> dispatcher \<Rightarrow> dispatcher option" where
  "cc_trim evict block actual reserved d =
     (if evict = 1 then cold_trim block actual reserved d
      else Some (if evict = 2 then ring_trim block actual reserved d else bump_trim block actual reserved d))"

section \<open>The block\<close>

definition no_succ :: u16 where "no_succ = 0xFFFF"

text \<open>The statically known successors of a terminator, for the prefetcher.\<close>

definition succ_pcs :: "mmu \<Rightarrow> u16 \<Rightarrow> u8 \<Rightarrow> u16 \<Rightarrow> u16 \<times> u16" where
  "succ_pcs m term_pc term fallthru =
     (let rel = term_pc + 2 + scast (mmu_read8 m (term_pc + 1));
          a16 = mk16 (mmu_read8 m (term_pc + 1)) (mmu_read8 m (term_pc + 2))
      in if \<not> sm83_terminates_block term then (fallthru, no_succ)
         else if term = 0x18 then (rel, no_succ)
         else if term = 0x20 \<or> term = 0x28 \<or> term = 0x30 \<or> term = 0x38 then (rel, fallthru)
         else if term = 0xC3 then (a16, no_succ)
         else if term = 0xC2 \<or> term = 0xCA \<or> term = 0xD2 \<or> term = 0xDA then (a16, fallthru)
         else if term = 0xCD then (a16, no_succ)
         else if term = 0xC4 \<or> term = 0xCC \<or> term = 0xD4 \<or> term = 0xDC then (a16, fallthru)
         else if term AND 0xC7 = 0xC7 then (ucast (term AND 0x38), no_succ)
         else (no_succ, no_succ))"

definition make_block :: "mmu \<Rightarrow> u16 \<Rightarrow> (u16 \<times> u8) list \<Rightarrow> u16 \<Rightarrow> u32 \<Rightarrow> u32 \<Rightarrow> gbjit_block" where
  "make_block m pc_start ops cur base actual =
     (let (s0, s1) = (let (term_pc, term) = last ops in succ_pcs m term_pc term cur)
      in \<lparr>gb_pc_start = pc_start, gb_pc_end = cur, n_ops = of_nat (length ops), blk_code = base, code_size = actual,
          entry_off = entry_offset, predicted_next = (\<lambda>_. None), predicted_next_pc = (\<lambda>_. 0), predicted_next_victim = 0,
          succ_pc = (\<lambda>i. if i = 0 then s0 else s1), tag = 0, self_loop = is_self_loop m pc_start ops\<rparr>)"

definition gbjit_compile_block :: "nat \<Rightarrow> mmu_layout \<Rightarrow> (literal_id \<Rightarrow> u32) \<Rightarrow> (dispatcher \<Rightarrow> bref option)
    \<Rightarrow> u16 \<Rightarrow> dispatcher \<Rightarrow> (bref option \<times> dispatcher) option" where
  "gbjit_compile_block evict lay helper_addr new_block pc_start d =
     (let m = d_mmu d; (ops, cur) = walk m MAX_OPS_PER_BLOCK pc_start; reserved = block_total (length ops)
      in do {
        (r, d) \<leftarrow> cc_alloc evict reserved d;
        case r of None \<Rightarrow> Some (None, d)
        | Some base \<Rightarrow>
            let mem = (\<lambda>i. if i < unat reserved then 0 else arena_from base (cc_words d) i);
                g = emit_block lay helper_addr m ops mem reserved
            in if xt_overflow (g_e g) then map_option (Pair None) (cc_release evict base reserved (put_block base g d))
               else let g = g\<lparr>g_e := xt_flush_pending (g_e g)\<rparr>;
                        actual = (entry_offset + xt_len (g_e g) + 7) AND NOT 7;
                        d = codecache_finalize (base + entry_offset) (xt_len (g_e g)) (put_block base g d)
               in do {
                    d \<leftarrow> cc_trim evict base actual reserved d;
                    case new_block d of
                      None \<Rightarrow> map_option (Pair None) (cc_release evict base actual d)
                    | Some b \<Rightarrow>
                        Some (Some b, (set_blk b (make_block m pc_start ops cur base actual) d)
                                \<lparr>d_live := (d_live d)(b := True)\<rparr>)
                  }
      })"

end
