(* ===== verification/Codegen_Emit.thy ===== *)
theory Codegen_Emit
  imports Codegen Xt_Program
begin

text \<open>
  The code in the emit buffer as a list of instructions: the word of each instruction, the relation \<open>holds\<close>
  between a list of instructions and a buffer, and \<open>codes\<close> between the emissions of src/jit/codegen.c and
  the instructions they emit, whose encoding may depend on the position.
\<close>

section \<open>Instructions as words\<close>

primrec insn_word :: "insn \<Rightarrow> u32" where
  "insn_word (I_AND r s t) = enc_rrr 0x1 0 r s t"
| "insn_word (I_OR r s t) = enc_rrr 0x2 0 r s t"
| "insn_word (I_XOR r s t) = enc_rrr 0x3 0 r s t"
| "insn_word (I_ADD r s t) = enc_rrr 0x8 0 r s t"
| "insn_word (I_SUB r s t) = enc_rrr 0xC 0 r s t"
| "insn_word (I_MOV r s) = enc_rrr 0x2 0 r s s"
| "insn_word (I_ADDI t s imm) = enc_rri8 0xC s t (ucast imm)"
| "insn_word (I_MOVI t imm) =
     enc_rri8 0xA (ucast (drop_bit 8 (imm AND 0xFFF) AND 0xF)) t (ucast ((imm AND 0xFFF) AND 0xFF))"
| "insn_word (I_L8UI t s off) = enc_rri8 0x0 s t (ucast off)"
| "insn_word (I_S8I t s off) = enc_rri8 0x4 s t (ucast off)"
| "insn_word (I_L16UI t s off) = enc_rri8 0x1 s t (ucast (drop_bit 1 off))"
| "insn_word (I_S16I t s off) = enc_rri8 0x5 s t (ucast (drop_bit 1 off))"
| "insn_word (I_L32I t s off) = enc_rri8 0x2 s t (ucast (drop_bit 2 off))"
| "insn_word (I_S32I t s off) = enc_rri8 0x6 s t (ucast (drop_bit 2 off))"
| "insn_word (I_L32R t off) = push_bit 8 (ucast (ucast off :: u16)) OR nib t 4 OR 1"
| "insn_word (I_BEQZ s rel) = enc_bxxz 0x1 s rel"
| "insn_word (I_BNEZ s rel) = enc_bxxz 0x5 s rel"
| "insn_word (I_J rel) = push_bit 6 ((rel - 4) AND 0x3FFFF) OR 0x06"
| "insn_word (I_CALL0 rel) = push_bit 6 (signed_drop_bit 2 (rel - 4) AND 0x3FFFF) OR 0x05"
| "insn_word (I_JX s) = nib s 8 OR push_bit 4 0xA OR 0"
| "insn_word (I_CALLX0 s) = nib s 8 OR push_bit 4 0xC OR 0"
| "insn_word I_RET = 0x000080"
| "insn_word (I_SLLI r s sa) = enc_rrr (drop_bit 4 (32 - sa) AND 1) 0x1 r s ((32 - sa) AND 0xF)"
| "insn_word (I_SRLI r t sa) = enc_rrr 0x4 0x1 r sa t"
| "insn_word (I_SRAI r t sa) = enc_rrr (0x2 OR (drop_bit 4 sa AND 1)) 0x1 r (sa AND 0xF) t"
| "insn_word (I_EXTUI r t sh m) = enc_rrr (m AND 0xF) (0x4 OR (drop_bit 4 sh AND 1)) r (sh AND 0xF) t"

lemma emit_insn_is: "emit_insn i = emit24 (insn_word i)"
  by (cases i) (simp_all add: xt_defs Let_def fun_eq_iff)

lemma insn_word_encodes: "insn_ok i \<Longrightarrow> encodes (insn_word i) i"
proof (cases i)
  case (I_MOV r s)
  then show "insn_ok i \<Longrightarrow> encodes (insn_word i) i" using encodes_arith(6) [of r s 0] by simp
next
  case (I_MOVI t imm)
  then show "insn_ok i \<Longrightarrow> encodes (insn_word i) i" using encodes_imm(2) [of t 0 imm] by simp
qed (simp_all only: insn_word.simps insn_ok.simps encodes_arith encodes_imm encodes_mem encodes_l32r encodes_branch
      encodes_j encodes_call0 encodes_jump encodes_slli encodes_srli encodes_srai encodes_extui)

definition code_bytes :: "insn list \<Rightarrow> u8 list" where
  "code_bytes P = concat (map (\<lambda>i. word_bytes (insn_word i)) P)"

lemma code_bytes_simps [simp]: "code_bytes [] = []" "code_bytes (i # P) = word_bytes (insn_word i) @ code_bytes P"
  "code_bytes (P @ Q) = code_bytes P @ code_bytes Q" "length (code_bytes P) = 3 * length P"
proof -
  show "length (code_bytes P) = 3 * length P" by (induction P) (simp_all add: code_bytes_def word_bytes_def)
qed (simp_all add: code_bytes_def)

lemma code_bytes_nth:
  assumes "k < length P" "j < 3"
  shows "code_bytes P ! (3 * k + j) = byte_of (insn_word (P ! k)) j"
  using nth_concat_words [of k "map insn_word P"] assms
  by (auto simp: code_bytes_def less_Suc_eq eval_nat_numeral comp_def)

section \<open>What the buffer holds\<close>

definition holds :: "insn list \<Rightarrow> xt_emit \<Rightarrow> bool" where
  "holds P e \<longleftrightarrow> emit_ok e \<and> \<not> xt_overflow e \<and> 4 dvd unat (xt_cap e) \<and> unat (xt_cap e) + 8 \<le> 2 ^ 32 \<and> emitted e = code_bytes P \<and> (\<forall>i\<in>set P. insn_ok i)"

lemma holds_len: "holds P e \<Longrightarrow> unat (xt_len e) = 3 * length P" "holds P e \<Longrightarrow> xt_len e = of_nat (3 * length P)"
proof -
  show u: "unat (xt_len e) = 3 * length P" if "holds P e"
    using that emitted_length [of e] by (simp add: holds_def)
  show "xt_len e = of_nat (3 * length P)" if "holds P e"
    using u [OF that] by (metis of_nat_unat ucast_id)
qed

lemma holds_insn:
  assumes "holds P e" "insn_ok i" "3 \<le> emit_room e"
  shows "holds (P @ [i]) (snd (emit_insn i e))" "emit_room (snd (emit_insn i e)) = emit_room e - 3"
    "xt_cap (snd (emit_insn i e)) = xt_cap e"
    "untouched (unat (xt_cap e)) (xt_buf e) (xt_buf (snd (emit_insn i e)))"
  using assms emit24_bytes [of e "insn_word i"] emit24_bounds [of e "insn_word i"]
  by (simp_all add: holds_def emit_insn_is word_bytes_def)

text \<open>\<open>codes k fs P\<close>: from the \<open>k\<close>-th instruction on, the emissions are those of the instructions \<open>P\<close>.\<close>

primrec codes :: "nat \<Rightarrow> emission list \<Rightarrow> insn list \<Rightarrow> bool" where
  "codes k [] P \<longleftrightarrow> P = []"
| "codes k (f # fs) P \<longleftrightarrow> (case P of [] \<Rightarrow> False
     | i # Q \<Rightarrow> (\<forall>e. xt_len e = of_nat (3 * k) \<longrightarrow> f e = emit_insn i e) \<and> codes (Suc k) fs Q)"

lemma codes_append: "codes k fs P \<Longrightarrow> codes (k + length P) gs Q \<Longrightarrow> codes k (fs @ gs) (P @ Q)"
  by (induction fs arbitrary: k P) (auto split: list.splits)

lemma codes_length: "codes k fs P \<Longrightarrow> length fs = length P"
  by (induction fs arbitrary: k P) (auto split: list.splits)

lemma emits_simps [simp]: "emits [] e = e" "emits (f # fs) e = emits fs (snd (f e))" "emits (fs @ gs) e = emits gs (emits fs e)"
  by (simp_all add: emits_def)

lemma holds_emits:
  assumes "holds P e" "codes (length P) fs Q" "\<forall>i\<in>set Q. insn_ok i" "3 * length Q \<le> emit_room e"
  shows "holds (P @ Q) (emits fs e) \<and> emit_room (emits fs e) = emit_room e - 3 * length Q
    \<and> xt_cap (emits fs e) = xt_cap e \<and> untouched (unat (xt_cap e)) (xt_buf e) (xt_buf (emits fs e))"
  using assms
proof (induction fs arbitrary: P Q e)
  case Nil
  then show ?case by simp
next
  case (Cons f fs)
  then obtain i Q' where Q: "Q = i # Q'" "codes (Suc (length P)) fs Q'"
    and f: "f e = emit_insn i e" using holds_len(2) [OF Cons.prems(1)] by (auto split: list.splits)
  note h = holds_insn [OF Cons.prems(1), of i]
  have "insn_ok i" "3 \<le> emit_room e" using Cons.prems(3,4) Q(1) by simp_all
  note h = h [OF this]
  from Cons.IH [OF h(1), of Q'] Q Cons.prems(3,4) h(2,3)
  have "holds (P @ Q) (emits fs (snd (emit_insn i e)))
      \<and> emit_room (emits fs (snd (emit_insn i e))) = emit_room e - 3 * length Q
      \<and> xt_cap (emits fs (snd (emit_insn i e))) = xt_cap e
      \<and> untouched (unat (xt_cap e)) (xt_buf (snd (emit_insn i e))) (xt_buf (emits fs (snd (emit_insn i e))))"
    by simp
  with h(4) f show ?case by (auto intro: untouched_trans)
qed

end
