(* ===== verification/Codegen_Patch.thy ===== *)
theory Codegen_Patch
  imports Codegen_Emit
begin

text \<open>
  The branch patching of src/jit/codegen.c: \<open>word_read_24\<close> reads an instruction that may lie across two words of the
  buffer, \<open>word_write_24\<close> replaces its three bytes and keeps the accumulator in step, so \<open>patch_branch_to\<close> and
  \<open>patch_j_to\<close> change the target of one instruction and nothing else.
\<close>

section \<open>Words of the buffer\<close>

lemma bit_load32: "bit (load32 f p) i \<longleftrightarrow> i < 32 \<and> bit (f (p + i div 8)) (i mod 8)"
proof -
  consider "i < 8" | "8 \<le> i" "i < 16" | "16 \<le> i" "i < 24" | "24 \<le> i" "i < 32" | "32 \<le> i" by fastforce
  then show ?thesis
  proof cases
    case 1
    then show ?thesis by (simp add: load32_def bit_simps)
  next
    case 2
    then have d: "i div 8 = 1" "i mod 8 = i - 8" by (auto simp: div_nat_eqI mod_if)
    from 2 show ?thesis unfolding d by (auto simp: load32_def bit_simps)
  next
    case 3
    then have d: "i div 8 = 2" "i mod 8 = i - 16" by (auto simp: div_nat_eqI mod_if)
    from 3 show ?thesis unfolding d by (auto simp: load32_def bit_simps)
  next
    case 4
    then have d: "i div 8 = 3" "i mod 8 = i - 24" by (auto simp: div_nat_eqI mod_if)
    from 4 show ?thesis unfolding d by (auto simp: load32_def bit_simps)
  qed (auto simp: bit_simps dest: bit_imp_le_length)
qed

lemma byte_of_load32 [simp]: "k < 4 \<Longrightarrow> byte_of (load32 f p) k = f (p + k)"
  by (rule bit_word_eqI) (auto simp: byte_of_def bit_simps bit_load32)

lemma byte_of_and [simp]: "byte_of (x AND y) i = byte_of x i AND byte_of y i"
  by (rule bit_word_eqI) (auto simp: byte_of_def bit_simps)

lemma byte_of_not: "i < 4 \<Longrightarrow> byte_of (NOT x) i = NOT (byte_of x i)"
  by (rule bit_word_eqI) (auto simp: byte_of_def bit_simps)

lemma byte_of_shift:
  assumes "k < 4"
  shows "byte_of (push_bit (8 * b) w) k = (if b \<le> k then byte_of w (k - b) else 0)"
    "byte_of (drop_bit (8 * b) w) k = (if k + b < 4 then byte_of w (k + b) else 0)"
  using assms by (auto intro!: bit_word_eqI simp: byte_of_def bit_simps algebra_simps dest: bit_imp_le_length)

lemma byte_of_high: "4 \<le> i \<Longrightarrow> byte_of w i = 0"
  by (rule bit_word_eqI) (auto simp: byte_of_def bit_simps dest: bit_imp_le_length)

lemma byte_of_mask24: "k < 4 \<Longrightarrow> byte_of 0xFFFFFF k = (if k < 3 then -1 else 0)"
proof -
  have m: "0xFFFFFF = (mask 24 :: u32)" by (simp add: mask_eq_exp_minus_1)
  show "k < 4 \<Longrightarrow> byte_of 0xFFFFFF k = (if k < 3 then -1 else 0)"
    unfolding m by (rule bit_word_eqI) (auto simp: byte_of_def bit_simps)
qed

lemma byte_of_eqI: "(\<And>k. k < 4 \<Longrightarrow> byte_of v k = byte_of w k) \<Longrightarrow> v = w"
proof (rule bit_word_eqI)
  fix n assume a: "\<And>k. k < 4 \<Longrightarrow> byte_of v k = byte_of w k" and n: "n < LENGTH(32)"
  then have "bit (byte_of v (n div 8)) (n mod 8) = bit (byte_of w (n div 8)) (n mod 8)" by simp
  with n show "bit v n = bit w n" by (simp add: byte_of_def bit_simps)
qed

lemma byte_of_bytes3: "k < 4 \<Longrightarrow> byte_of (bytes3 x y z) k = (if k = 0 then x else if k = 1 then y else if k = 2 then z else 0)"
proof -
  have "byte_of (ucast (b :: u8)) k = (if k = 0 then b else 0)" if "k < 4" for b k
    using byte_of_shifted [of 0 k b] that by simp
  then show "k < 4 \<Longrightarrow> byte_of (bytes3 x y z) k = (if k = 0 then x else if k = 1 then y else if k = 2 then z else 0)"
    using byte_of_shift(1) [of k 1 "ucast y"] byte_of_shift(1) [of k 2 "ucast z"] by (auto simp: bytes3_def)
qed

text \<open>A position in the buffer: its word and its byte in the word.\<close>

lemma pos_split:
  fixes pos :: u32
  assumes "unat pos + 8 \<le> 2 ^ 32"
  obtains q b where "unat pos = 4 * q + b" "b < 4" "unat (pos AND NOT 3) = 4 * q" "pos AND 3 = of_nat b" "unat (pos AND 3) = b"
    "unat ((pos AND NOT 3) + 4) = 4 * q + 4"
proof -
  have "unat pos = 4 * (unat pos div 4) + unat pos mod 4" by simp
  moreover have "unat (pos AND NOT 3) = 4 * (unat pos div 4)"
    unfolding unat_and_not_3 by (metis minus_mod_eq_mult_div)
  moreover have "pos AND 3 = of_nat (unat pos mod 4)" using unat_and_3 [of pos] by (metis of_nat_unat ucast_id)
  moreover have "unat (pos AND 3) = unat pos mod 4" by (rule unat_and_3)
  moreover have "unat ((pos AND NOT 3) + 4) = 4 * (unat pos div 4) + 4"
    using assms calculation(2) by (subst unat_add_u32) auto
  ultimately show ?thesis using that [of "unat pos div 4" "unat pos mod 4"] by simp
qed

lemma small_shifts:
  assumes "b < 4"
  shows "unat ((of_nat b :: u32) * 8) = 8 * b" "unat ((4 - (of_nat b :: u32)) * 8) = 8 * (4 - b)"
    "unat (32 - (of_nat b :: u32) * 8) = 8 * (4 - b)" "0 < b \<Longrightarrow> unat (24 - (32 - (of_nat b :: u32) * 8)) = 8 * (b - 1)"
    "of_nat b \<le> (1 :: u32) \<longleftrightarrow> b \<le> 1"
proof -
  have "b = 0 \<or> b = 1 \<or> b = 2 \<or> b = 3" using assms by linarith
  then show "unat ((of_nat b :: u32) * 8) = 8 * b" "unat ((4 - (of_nat b :: u32)) * 8) = 8 * (4 - b)"
    "unat (32 - (of_nat b :: u32) * 8) = 8 * (4 - b)" "0 < b \<Longrightarrow> unat (24 - (32 - (of_nat b :: u32) * 8)) = 8 * (b - 1)"
    by auto
  show "of_nat b \<le> (1 :: u32) \<longleftrightarrow> b \<le> 1" using assms by (simp add: word_le_nat_alt unat_of_nat_u32)
qed

lemma below4: "k < 4 \<longleftrightarrow> k = 0 \<or> k = 1 \<or> k = 2 \<or> k = (3 :: nat)"
  by linarith

lemma word_read_24_bytes:
  assumes "unat pos + 8 \<le> 2 ^ 32"
  shows "word_read_24 pos e = (let f = xt_buf (xt_flush_pending e); p = unat pos in bytes3 (f p) (f (p + 1)) (f (p + 2)),
    xt_flush_pending e)"
proof -
  obtain q b where p: "unat pos = 4 * q + b" "b < 4" "unat (pos AND NOT 3) = 4 * q" "pos AND 3 = of_nat b"
      "unat ((pos AND NOT 3) + 4) = 4 * q + 4" by (rule pos_split [OF assms])
  let ?f = "xt_buf (xt_flush_pending e)"
  let ?w0 = "load32 ?f (4 * q)" and ?w1 = "load32 ?f (4 * q + 4)"
  let ?r = "bytes3 (?f (4 * q + b)) (?f (4 * q + b + 1)) (?f (4 * q + b + 2))"
  note s = small_shifts [OF p(2)]
  have one: "b \<le> 1 \<Longrightarrow> drop_bit (8 * b) ?w0 AND 0xFFFFFF = ?r"
  proof (rule byte_of_eqI)
    fix k :: nat assume k: "k < 4" and "b \<le> 1"
    then have b: "b = 0 \<or> b = 1" by linarith
    have k4: "k = 0 \<or> k = 1 \<or> k = 2 \<or> k = 3" using k by (simp add: below4)
    from b k4 show "byte_of (drop_bit (8 * b) ?w0 AND 0xFFFFFF) k = byte_of ?r k"
      unfolding byte_of_and byte_of_shift(2) [OF k] byte_of_mask24 [OF k] byte_of_bytes3 [OF k]
      by (elim disjE; auto intro!: arg_cong [where f = ?f])
  qed
  have two: "\<not> b \<le> 1 \<Longrightarrow> (drop_bit (8 * b) ?w0 OR push_bit (8 * (4 - b)) ?w1) AND 0xFFFFFF = ?r"
  proof (rule byte_of_eqI)
    fix k :: nat assume k: "k < 4" and "\<not> b \<le> 1"
    then have b: "b = 2 \<or> b = 3" using p(2) by linarith
    have k4: "k = 0 \<or> k = 1 \<or> k = 2 \<or> k = 3" using k by (simp add: below4)
    from b k4 show "byte_of ((drop_bit (8 * b) ?w0 OR push_bit (8 * (4 - b)) ?w1) AND 0xFFFFFF) k = byte_of ?r k"
      unfolding byte_of_and byte_of_or byte_of_shift(2) [OF k, of b ?w0] byte_of_shift(1) [OF k, of "4 - b" ?w1]
        byte_of_mask24 [OF k] byte_of_bytes3 [OF k]
      by (elim disjE; auto intro!: arg_cong [where f = ?f])
  qed
  show ?thesis
    unfolding word_read_24_def Let_def p(3-5) s(1,2,5) using one two unfolding p(1) by (cases "b \<le> 1") (simp_all only: if_True if_False not_False_eq_True)
qed

text \<open>The two ways of storing three bytes in a word and its successor.\<close>

lemma store_bytes:
  assumes "\<And>k. k < 4 \<Longrightarrow> byte_of v k = (if b \<le> k \<and> k < b + 3 then byte_of w (k - b) else f (4 * q + k))" "b \<le> 1"
  shows "store32 (4 * q) v f = f(4 * q + b := byte_of w 0, 4 * q + b + 1 := byte_of w 1, 4 * q + b + 2 := byte_of w 2)"
proof
  fix i
  show "store32 (4 * q) v f i = (f(4 * q + b := byte_of w 0, 4 * q + b + 1 := byte_of w 1, 4 * q + b + 2 := byte_of w 2)) i"
  proof (cases "4 * q \<le> i \<and> i < 4 * q + 4")
    case True
    then obtain k where "i = 4 * q + k" "k < 4" by (metis add_less_cancel_left le_Suc_ex)
    with assms show ?thesis by (auto simp: store32_at below4)
  next
    case False
    then show ?thesis using assms(2) by (auto simp: store32_at)
  qed
qed

lemma store_bytes_across:
  assumes "\<And>k. k < 4 \<Longrightarrow> byte_of v0 k = (if b \<le> k then byte_of w (k - b) else f (4 * q + k))"
    "\<And>k. k < 4 \<Longrightarrow> byte_of v1 k = (if k + 4 < b + 3 then byte_of w (k + 4 - b) else f (4 * q + 4 + k))"
    "b = 2 \<or> b = 3"
  shows "store32 (4 * q + 4) v1 (store32 (4 * q) v0 f)
    = f(4 * q + b := byte_of w 0, 4 * q + b + 1 := byte_of w 1, 4 * q + b + 2 := byte_of w 2)"
proof
  fix i
  let ?g = "f(4 * q + b := byte_of w 0, 4 * q + b + 1 := byte_of w 1, 4 * q + b + 2 := byte_of w 2)"
  consider (lo) k where "i = 4 * q + k" "k < 4" | (hi) k where "i = 4 * q + 4 + k" "k < 4" | "i < 4 * q" | "4 * q + 8 \<le> i"
  proof -
    consider "i < 4 * q" | "4 * q \<le> i" "i < 4 * q + 4" | "4 * q + 4 \<le> i" "i < 4 * q + 8" | "4 * q + 8 \<le> i" by linarith
    then show ?thesis
    proof cases
      case 2
      then have "i = 4 * q + (i - 4 * q)" "i - 4 * q < 4" by linarith+
      then show ?thesis by (rule lo)
    next
      case 3
      then have "i = 4 * q + 4 + (i - (4 * q + 4))" "i - (4 * q + 4) < 4" by linarith+
      then show ?thesis by (rule hi)
    qed (use that in auto)
  qed
  then show "store32 (4 * q + 4) v1 (store32 (4 * q) v0 f) i = ?g i"
  proof cases
    case lo
    then show ?thesis using assms(3) by (auto simp: store32_at assms(1))
  next
    case hi
    then show ?thesis using assms(3) by (auto simp: store32_at assms(2))
  next
    case 3
    then show ?thesis using assms(3) by (auto simp: store32_at)
  next
    case 4
    then show ?thesis using assms(3) by (auto simp: store32_at)
  qed
qed

lemma byte_of_mask_lo:
  "k < 4 \<Longrightarrow> b \<le> 4 \<Longrightarrow> byte_of (push_bit (8 * b) 1 - 1) k = (if k < b then -1 else 0)"
proof -
  have "push_bit (8 * b) 1 - 1 = (mask (8 * b) :: u32)" by (simp add: push_bit_eq_mult mask_eq_exp_minus_1)
  then show "k < 4 \<Longrightarrow> b \<le> 4 \<Longrightarrow> byte_of (push_bit (8 * b) 1 - 1) k = (if k < b then -1 else 0)"
    by (auto intro!: bit_word_eqI simp: byte_of_def bit_simps)
qed

lemma emit_upd:
  "xt_buf (e\<lparr>xt_buf := f\<rparr>) = f" "e\<lparr>xt_buf := f, xt_buf := g\<rparr> = e\<lparr>xt_buf := g\<rparr>"
  "xt_len (e\<lparr>xt_word_acc := v\<rparr>) = xt_len e" "xt_word_acc (e\<lparr>xt_word_acc := v\<rparr>) = v"
  "e\<lparr>xt_word_acc := v, xt_word_acc := w\<rparr> = e\<lparr>xt_word_acc := w\<rparr>"
  by simp_all

lemma word_write_24_buf:
  assumes "unat pos + 8 \<le> 2 ^ 32"
  shows "word_write_24 pos w e = (let e = xt_flush_pending e; p = unat pos
    in resync_acc (pos AND NOT 3)
         (e\<lparr>xt_buf := (xt_buf e)(p := byte_of w 0, p + 1 := byte_of w 1, p + 2 := byte_of w 2)\<rparr>))"
proof -
  obtain q b where p: "unat pos = 4 * q + b" "b < 4" "unat (pos AND NOT 3) = 4 * q" "pos AND 3 = of_nat b"
      "unat ((pos AND NOT 3) + 4) = 4 * q + 4" by (rule pos_split [OF assms])
  let ?f = "xt_buf (xt_flush_pending e)"
  let ?w = "w AND 0xFFFFFF"
  let ?g = "?f(4 * q + b := byte_of w 0, 4 * q + b + 1 := byte_of w 1, 4 * q + b + 2 := byte_of w 2)"
  note s = small_shifts [OF p(2)]
  show ?thesis
  proof (cases "b \<le> 1")
    case True
    have "store32 (4 * q) ((load32 ?f (4 * q) AND NOT (push_bit (8 * b) 0xFFFFFF)) OR push_bit (8 * b) ?w) ?f = ?g"
    proof (rule store_bytes [OF _ True])
      fix k :: nat assume k: "k < 4"
      show "byte_of ((load32 ?f (4 * q) AND NOT (push_bit (8 * b) 0xFFFFFF)) OR push_bit (8 * b) ?w) k
          = (if b \<le> k \<and> k < b + 3 then byte_of w (k - b) else ?f (4 * q + k))"
        unfolding byte_of_or byte_of_and byte_of_not [OF k] byte_of_shift(1) [OF k] byte_of_load32 [OF k]
        using k byte_of_mask24 [of "k - b"] by auto
    qed
    then show ?thesis
      unfolding word_write_24_def Let_def p(1,3-5) s(1,2,3,5) by (simp only: True if_True)
  next
    case False
    then have b: "b = 2 \<or> b = 3" "0 < b" using p(2) by auto
    let ?mlo = "push_bit (8 * b) (push_bit (8 * (4 - b)) 1 - 1) :: u32"
    let ?v0 = "(load32 ?f (4 * q) AND NOT ?mlo) OR (push_bit (8 * b) ?w AND ?mlo)"
    let ?mhi = "push_bit (8 * (b - 1)) 1 - 1 :: u32"
    let ?v1 = "(load32 (store32 (4 * q) ?v0 ?f) (4 * q + 4) AND NOT ?mhi) OR (drop_bit (8 * (4 - b)) ?w AND ?mhi)"
    have "store32 (4 * q + 4) ?v1 (store32 (4 * q) ?v0 ?f) = ?g"
    proof (rule store_bytes_across [OF _ _ b(1)])
      fix k :: nat assume k: "k < 4"
      have m: "byte_of ?mlo k = (if b \<le> k then -1 else 0)" "byte_of ?mhi k = (if k < b - 1 then -1 else 0)"
        using k byte_of_mask_lo [of "k - b" "4 - b"] byte_of_mask_lo [OF k, of "b - 1"] b
        by (auto simp: byte_of_shift(1) [OF k])
      show "byte_of ?v0 k = (if b \<le> k then byte_of w (k - b) else ?f (4 * q + k))"
        unfolding byte_of_or byte_of_and byte_of_not [OF k] byte_of_shift(1) [OF k, of b ?w] byte_of_load32 [OF k] m(1)
        using k b byte_of_mask24 [of "k - b"] by auto
      have st: "store32 (4 * q) ?v0 ?f (4 * q + 4 + k) = ?f (4 * q + 4 + k)" by (simp add: store32_at)
      show "byte_of ?v1 k = (if k + 4 < b + 3 then byte_of w (k + 4 - b) else ?f (4 * q + 4 + k))"
        unfolding byte_of_or byte_of_and byte_of_not [OF k] byte_of_shift(2) [OF k, of "4 - b" ?w] byte_of_load32 [OF k] m(2) st
        using k b byte_of_mask24 [of "k + (4 - b)"] by (auto simp: numeral_2_eq_2)
    qed
    then show ?thesis
      unfolding word_write_24_def Let_def p(1,3-5) s(1,2,3,5) s(4) [OF b(2)] using False by (simp only: if_False emit_upd)
  qed
qed

text \<open>A buffer whose accumulator agrees with the words stored.\<close>

lemma emitted_synced:
  assumes "\<And>j. j < unat (xt_len e) mod 4 \<Longrightarrow> byte_of (xt_word_acc e) j = xt_buf e (unat (xt_len e) - unat (xt_len e) mod 4 + j)"
  shows "emitted e = map (xt_buf e) [0..<unat (xt_len e)]"
proof -
  let ?n = "unat (xt_len e)" let ?d = "?n - ?n mod 4"
  have "byte_of (xt_word_acc e) (i - ?d) = xt_buf e i" if "i < ?n" "\<not> i < ?d" for i
    using assms [of "i - ?d"] that by simp
  then show ?thesis by (auto simp: emitted_def Let_def)
qed

lemma flush_simps [simp]: "xt_len (xt_flush_pending e) = xt_len e" "xt_cap (xt_flush_pending e) = xt_cap e"
  "xt_overflow (xt_flush_pending e) = xt_overflow e" "xt_word_acc (xt_flush_pending e) = xt_word_acc e"
  by (simp_all add: xt_flush_pending_def Let_def)

lemma flush_synced:
  assumes "j < unat (xt_len e) mod 4"
  shows "byte_of (xt_word_acc e) j = xt_buf (xt_flush_pending e) (unat (xt_len e) - unat (xt_len e) mod 4 + j)"
proof -
  define n where "n = unat (xt_len e)"
  define d where "d = n - n mod 4"
  have i: "d + j < n" using assms mod_less_eq_dividend [of n 4] unfolding d_def n_def by linarith
  then have "emitted e ! (d + j) = byte_of (xt_word_acc e) j"
    unfolding emitted_def Let_def n_def [symmetric] d_def [symmetric] by (subst nth_map_upt) simp_all
  then show ?thesis using flush_bytes [of "d + j" e] i by (simp add: d_def n_def)
qed

lemma flush_emitted: "emitted e = map (xt_buf (xt_flush_pending e)) [0..<unat (xt_len e)]"
  by (rule nth_equalityI) (auto simp: flush_bytes)

lemma resync_fields [simp]:
  "xt_len (resync_acc wo e) = xt_len e" "xt_cap (resync_acc wo e) = xt_cap e" "xt_overflow (resync_acc wo e) = xt_overflow e"
  "xt_buf (resync_acc wo e) = xt_buf e"
  by (simp_all add: resync_acc_def Let_def)

lemma resync_acc_word:
  assumes "unat (xt_len e) + 4 \<le> 2 ^ 32" "j < 4"
  defines "n \<equiv> unat (xt_len e)" and "cw \<equiv> xt_len e AND NOT 3"
  shows "byte_of (xt_word_acc (resync_acc wo e)) j =
    (if cw = wo \<or> cw = wo + 4 then (if j < n mod 4 then xt_buf e (n - n mod 4 + j) else 0)
     else byte_of (xt_word_acc e) j)"
proof -
  let ?k = "n mod 4"
  let ?keep = "if xt_len e AND 3 \<noteq> 0 then push_bit (unat ((xt_len e AND 3) * 8)) 1 - 1 else 0 :: u32"
  have k: "?k < 4" by simp
  have v: "unat (xt_len e AND 3) = ?k" "unat cw = n - ?k"
    unfolding n_def cw_def by (rule unat_and_3, rule unat_and_not_3)
  then have v3: "xt_len e AND 3 = of_nat ?k" by (metis of_nat_unat ucast_id)
  have keep: "byte_of ?keep j = (if j < ?k then -1 else 0)"
    using byte_of_mask_lo [OF assms(2), of ?k] small_shifts(1) [OF k] k v(1) v3 by (auto simp: unat_eq_0 [symmetric])
  have small: "(xt_len e AND 3 < 4) = True" using v(1) k by (simp add: word_less_nat_alt)
  show ?thesis
  proof (cases "cw = wo \<or> cw = wo + 4")
    case True
    then have "xt_word_acc (resync_acc wo e) = load32 (xt_buf e) (n - ?k) AND ?keep"
      unfolding resync_acc_def Let_def cw_def [symmetric] v(2) [symmetric] by (simp only: emit_upd small if_True)
    with True keep assms(2) show ?thesis by simp
  next
    case False
    then show ?thesis unfolding resync_acc_def Let_def cw_def [symmetric] by simp
  qed
qed

text \<open>Writing an instruction over one that was emitted before.\<close>

lemma word_write_24_emitted:
  fixes pos w :: u32 and e :: xt_emit
  assumes "emit_ok e" "unat pos + 3 \<le> unat (xt_len e)" "unat (xt_cap e) + 8 \<le> 2 ^ 32"
  defines "e' \<equiv> word_write_24 pos w e" and "p \<equiv> unat pos"
  shows "emit_ok e'" "emitted e' = (emitted e)[p := byte_of w 0, p + 1 := byte_of w 1, p + 2 := byte_of w 2]"
    "xt_len e' = xt_len e" "xt_cap e' = xt_cap e" "xt_overflow e' = xt_overflow e"
proof -
  let ?n = "unat (xt_len e)" let ?d = "?n - ?n mod 4"
  define f where "f = (xt_buf (xt_flush_pending e))(p := byte_of w 0, p + 1 := byte_of w 1, p + 2 := byte_of w 2)"
  define e1 where "e1 = (xt_flush_pending e)\<lparr>xt_buf := f\<rparr>"
  have cap: "?n \<le> unat (xt_cap e)" using assms(1) by (simp add: emit_ok_def)
  have pos: "unat pos + 8 \<le> 2 ^ 32" using assms(2,3) cap by simp
  have e': "e' = resync_acc (pos AND NOT 3) e1"
    unfolding e'_def word_write_24_buf [OF pos] by (simp add: Let_def e1_def f_def p_def)
  show fields: "xt_len e' = xt_len e" "xt_cap e' = xt_cap e" "xt_overflow e' = xt_overflow e"
    by (simp_all add: e' e1_def)
  have buf: "xt_buf e' = f" by (simp add: e' e1_def)
  obtain q b where p: "unat pos = 4 * q + b" "b < 4" "unat (pos AND NOT 3) = 4 * q" "pos AND 3 = of_nat b"
      "unat (pos AND 3) = b" "unat ((pos AND NOT 3) + 4) = 4 * q + 4" by (rule pos_split [OF pos])
  have acc: "byte_of (xt_word_acc e') j = (if j < ?n mod 4 then f (?d + j) else 0)" if j: "j < 4" for j
  proof (cases "(xt_len e AND NOT 3) = (pos AND NOT 3) \<or> (xt_len e AND NOT 3) = (pos AND NOT 3) + 4")
    case True
    then show ?thesis using resync_acc_word [of e1 j "pos AND NOT 3"] j cap assms(3) by (simp add: e' e1_def)
  next
    case False
    have cw: "unat (xt_len e AND NOT 3) = ?d" by (rule unat_and_not_3)
    have "?d \<noteq> 4 * q" "?d \<noteq> 4 * q + 4" using False p(3,6) cw by (metis word_unat_eq_iff)+
    moreover have "4 dvd ?d" by (simp add: dvd_minus_mod)
    then obtain r where r: "?d = 4 * r" by (rule dvdE)
    ultimately have "f (?d + j) = xt_buf (xt_flush_pending e) (?d + j)"
      using p(1,2) j unfolding f_def p_def r by (auto; presburger)
    moreover have "byte_of (xt_word_acc e') j = byte_of (xt_word_acc e) j"
      using resync_acc_word [of e1 j "pos AND NOT 3"] j cap assms(3) False by (simp add: e' e1_def)
    ultimately show ?thesis using flush_synced [of j e] assms(1) j by (auto simp: emit_ok_def)
  qed
  show "emit_ok e'" using assms(1) acc by (simp add: emit_ok_def fields)
  have "emitted e' = map f [0..<?n]"
    using emitted_synced [of e'] acc by (simp add: fields buf)
  also have "\<dots> = (emitted e)[p := byte_of w 0, p + 1 := byte_of w 1, p + 2 := byte_of w 2]"
    by (rule nth_equalityI) (use assms(2) in \<open>auto simp: flush_emitted [of e] f_def nth_list_update p_def\<close>)
  finally show "emitted e' = (emitted e)[p := byte_of w 0, p + 1 := byte_of w 1, p + 2 := byte_of w 2]" .
qed

lemma insn_word_24: "insn_ok i \<Longrightarrow> bytes3 (byte_of (insn_word i) 0) (byte_of (insn_word i) 1) (byte_of (insn_word i) 2) = insn_word i"
  using insn_word_encodes [of i] by (intro bytes3_word_bytes) (simp add: encodes_def)

lemma code_bytes_update:
  "k < length P \<Longrightarrow> (code_bytes P)[3 * k := byte_of (insn_word i) 0, 3 * k + 1 := byte_of (insn_word i) 1, 3 * k + 2 := byte_of (insn_word i) 2]
    = code_bytes (P[k := i])"
proof (induction P arbitrary: k)
  case (Cons j P)
  show ?case
  proof (cases k)
    case 0
    then show ?thesis by (simp add: word_bytes_def numeral_2_eq_2)
  next
    case (Suc k')
    have e: "3 * Suc k' = Suc (Suc (Suc (3 * k')))" by simp
    show ?thesis using Cons.IH [of k'] Cons.prems unfolding Suc e by (simp add: word_bytes_def numeral_2_eq_2)
  qed
qed simp

lemma bit_six: "bit (6 :: u32) i \<Longrightarrow> i < 3"
proof -
  have "take_bit 3 (6 :: u32) = 6" by simp
  then show "bit (6 :: u32) i \<Longrightarrow> i < 3" by (metis bit_take_bit_iff)
qed

lemma bit_enc_bxxz: "bit (enc_bxxz sel s rel) i \<longleftrightarrow>
  (12 \<le> i \<and> i < 24 \<and> bit (rel - 4) (i - 12)) \<or> bit (nib s 8) i \<or> bit (nib sel 4) i \<or> bit (6 :: u32) i"
proof -
  have m: "0xFFF = (mask 12 :: u32)" by (simp add: mask_eq_exp_minus_1)
  show ?thesis unfolding enc_bxxz_def Let_def m by (auto simp: bit_simps dest: bit_imp_le_length)
qed

lemma set_imm12:
  "(enc_bxxz sel s rel AND NOT (push_bit 12 0xFFF)) OR push_bit 12 ((v - 4) AND 0xFFF) = enc_bxxz sel s v"
proof (rule bit_word_eqI)
  fix i assume i: "i < LENGTH(32)"
  have m: "0xFFF = (mask 12 :: u32)" by (simp add: mask_eq_exp_minus_1)
  have six: "bit (6 :: u32) i \<Longrightarrow> i < 12" using bit_six [of i] by simp
  show "bit ((enc_bxxz sel s rel AND NOT (push_bit 12 0xFFF)) OR push_bit 12 ((v - 4) AND 0xFFF)) i = bit (enc_bxxz sel s v) i"
    using i six unfolding m by (auto simp: bit_enc_bxxz bit_simps bit_nib)
qed

lemma set_imm18:
  "((push_bit 6 ((rel - 4) AND 0x3FFFF) OR 0x06) AND NOT (push_bit 6 0x3FFFF)) OR push_bit 6 ((v - 4) AND 0x3FFFF)
   = (push_bit 6 ((v - 4) AND 0x3FFFF) OR 0x06 :: u32)"
proof (rule bit_word_eqI)
  fix i assume i: "i < LENGTH(32)"
  have m: "0x3FFFF = (mask 18 :: u32)" by (simp add: mask_eq_exp_minus_1)
  have six: "bit (6 :: u32) i \<Longrightarrow> i < 6" using bit_six [of i] by simp
  show "bit (((push_bit 6 ((rel - 4) AND 0x3FFFF) OR 0x06) AND NOT (push_bit 6 0x3FFFF)) OR push_bit 6 ((v - 4) AND 0x3FFFF)) i
      = bit (push_bit 6 ((v - 4) AND 0x3FFFF) OR 0x06 :: u32) i"
    using i six unfolding m by (auto simp: bit_simps)
qed

lemma holds_read:
  assumes "holds P e" "k < length P"
  shows "word_read_24 (of_nat (3 * k)) e = (insn_word (P ! k), xt_flush_pending e)" "unat (of_nat (3 * k) :: u32) = 3 * k"
proof -
  have len: "unat (xt_len e) = 3 * length P" by (rule holds_len(1) [OF assms(1)])
  then have small: "3 * k + 3 \<le> unat (xt_len e)" "3 * k + 8 \<le> 2 ^ 32"
    using assms by (auto simp: holds_def emit_ok_def)
  then show u: "unat (of_nat (3 * k) :: u32) = 3 * k" by (simp add: unat_of_nat_u32 del: of_nat_mult)
  have b: "xt_buf (xt_flush_pending e) (3 * k + j) = byte_of (insn_word (P ! k)) j" if "j < 3" for j
    using flush_bytes [of "3 * k + j" e] small that assms code_bytes_nth [OF assms(2) that] by (simp add: holds_def)
  have ok: "insn_ok (P ! k)" using assms by (simp add: holds_def)
  show "word_read_24 (of_nat (3 * k)) e = (insn_word (P ! k), xt_flush_pending e)"
    using word_read_24_bytes [of "of_nat (3 * k)" e] small(2) b [of 0] b [of 1] b [of 2] insn_word_24 [OF ok]
    unfolding Let_def u by simp
qed

lemma flush_idem [simp]: "xt_flush_pending (xt_flush_pending e) = xt_flush_pending e"
  by (simp add: xt_flush_pending_def Let_def store32_def fun_upd_idem)

lemma word_write_flushed: "word_write_24 p w (xt_flush_pending e) = word_write_24 p w e"
  by (simp add: word_write_24_def)

lemma holds_write:
  assumes "holds P e" "k < length P" "insn_ok i"
  defines "e' \<equiv> word_write_24 (of_nat (3 * k)) (insn_word i) e"
  shows "holds (P[k := i]) e'" "xt_len e' = xt_len e" "xt_cap e' = xt_cap e"
    "untouched (unat (xt_cap e)) (xt_buf e) (xt_buf e')"
proof -
  have len: "unat (xt_len e) = 3 * length P" by (rule holds_len(1) [OF assms(1)])
  note u = holds_read(2) [OF assms(1,2)]
  have c: "emit_ok e" "unat (of_nat (3 * k) :: u32) + 3 \<le> unat (xt_len e)" "unat (xt_cap e) + 8 \<le> 2 ^ 32" "4 dvd unat (xt_cap e)"
    using assms(1,2) unfolding u by (auto simp: holds_def len)
  note w = word_write_24_emitted [OF c(1-3), of "insn_word i", folded e'_def, unfolded u]
  show "xt_len e' = xt_len e" "xt_cap e' = xt_cap e" by (rule w)+
  have "\<forall>j\<in>set (P[k := i]). insn_ok j"
    using assms(1,3) set_update_subset_insert [of P k i] by (auto simp: holds_def)
  then show "holds (P[k := i]) e'"
    using assms(1) w code_bytes_update [OF assms(2), of i] by (simp add: holds_def)
  have "untouched (unat (xt_cap e)) (xt_buf (xt_flush_pending e)) (xt_buf e')"
    using c(1,2) word_write_24_buf [of "of_nat (3 * k)" "insn_word i" e] c(3) unfolding e'_def u
    by (auto simp: Let_def untouched_def emit_ok_def)
  with flush_bounds [OF c(1,4)] show "untouched (unat (xt_cap e)) (xt_buf e) (xt_buf e')" by (rule untouched_trans)
qed

lemma holds_patch_branch:
  assumes "holds P e" "k < length P" "P ! k = I_BEQZ s r \<and> i = I_BEQZ s (tp - of_nat (3 * k)) \<or> P ! k = I_BNEZ s r \<and> i = I_BNEZ s (tp - of_nat (3 * k))"
    "insn_ok i"
  defines "e' \<equiv> patch_branch_to (of_nat (3 * k)) tp e"
  shows "holds (P[k := i]) e'" "xt_len e' = xt_len e" "xt_cap e' = xt_cap e"
    "untouched (unat (xt_cap e)) (xt_buf e) (xt_buf e')"
proof -
  have "tp - of_nat (3 * k) - 4 = (tp - of_nat (3 * k)) - 4" by simp
  then have e': "e' = word_write_24 (of_nat (3 * k)) (insn_word i) e"
    unfolding e'_def patch_branch_to_def Let_def holds_read(1) [OF assms(1,2)] prod.case
    using assms(3) set_imm12 [of _ s r "tp - of_nat (3 * k)"] by (auto simp: word_write_flushed)
  note w = holds_write [OF assms(1,2,4)]
  show "holds (P[k := i]) e'" "xt_len e' = xt_len e" "xt_cap e' = xt_cap e"
    "untouched (unat (xt_cap e)) (xt_buf e) (xt_buf e')" unfolding e' by (rule w)+
qed

lemma holds_patch_j:
  assumes "holds P e" "k < length P" "P ! k = I_J r" "insn_ok (I_J (tp - of_nat (3 * k)))"
  defines "e' \<equiv> patch_j_to (of_nat (3 * k)) tp e"
  shows "holds (P[k := I_J (tp - of_nat (3 * k))]) e'" "xt_len e' = xt_len e" "xt_cap e' = xt_cap e"
    "untouched (unat (xt_cap e)) (xt_buf e) (xt_buf e')"
proof -
  have e': "e' = word_write_24 (of_nat (3 * k)) (insn_word (I_J (tp - of_nat (3 * k)))) e"
    unfolding e'_def patch_j_to_def Let_def holds_read(1) [OF assms(1,2)] prod.case
    using assms(3) set_imm18 [of r "tp - of_nat (3 * k)"] by (simp add: word_write_flushed)
  note w = holds_write [OF assms(1,2,4)]
  show "holds (P[k := I_J (tp - of_nat (3 * k))]) e'" "xt_len e' = xt_len e" "xt_cap e' = xt_cap e"
    "untouched (unat (xt_cap e)) (xt_buf e) (xt_buf e')" unfolding e' by (rule w)+
qed

end
