(* ===== verification/Enter_Block.thy ===== *)
theory Enter_Block
  imports Codegen_Block Dispatch_Run Xt_Sim
begin

text \<open>
  \<open>enter_block_sim\<close> of src/jit/dispatcher.c, the host port's way of running a block: the literal resolver, the
  three callbacks of the simulator and the run itself.

  On the host, emitted code uses the addresses \<open>HOST_CPU_BASE\<close> and \<open>HOST_MMU_BASE\<close>, which \<open>thunk_translate\<close> maps to
  the bytes of \<open>cpu_state\<close> and \<open>mmu\<close>. Here the host memory \<open>sim_host\<close> is indexed by those addresses, and
  \<open>host_put\<close> and \<open>host_get\<close> move the two structures in and out of it: \<open>cpu_state\<close> byte by byte up to its pointer,
  and of \<open>mmu\<close> the arrays that emitted code can reach. The rest of the state stays in \<open>sim_user\<close>. \<open>mmu_size\<close> is
  \<open>sizeof(mmu)\<close>.
\<close>

abbreviation (input) HOST_CPU_BASE :: u32 where "HOST_CPU_BASE \<equiv> 0xC0DE0000"
abbreviation (input) HOST_MMU_BASE :: u32 where "HOST_MMU_BASE \<equiv> 0xCDCD0000"
abbreviation (input) HOST_STACK_BASE :: u32 where "HOST_STACK_BASE \<equiv> 0x80000000"
abbreviation (input) HOST_STACK_TOP :: u32 where "HOST_STACK_TOP \<equiv> 0x80000100"

definition host_helper_addr :: "literal_id \<Rightarrow> u32" where
  "host_helper_addr l =
     (case l of ADDR_CPU_BASE \<Rightarrow> HOST_CPU_BASE | ADDR_MMU_BASE \<Rightarrow> HOST_MMU_BASE
      | HELPER_SM83_STEP \<Rightarrow> literal_index HELPER_SM83_STEP | HELPER_MMU_READ8 \<Rightarrow> literal_index HELPER_MMU_READ8
      | HELPER_MMU_WRITE8 \<Rightarrow> literal_index HELPER_MMU_WRITE8)"

section \<open>The structures in memory\<close>

definition bytes32 :: "u32 \<Rightarrow> u8 list" where
  "bytes32 w = [byte_of w 0, byte_of w 1, byte_of w 2, byte_of w 3]"

text \<open>The fields of \<open>cpu_state\<close> before the pointer, with two bytes of padding.\<close>

definition cpu_bytes :: "cpu_state \<Rightarrow> u8 list" where
  "cpu_bytes c =
     [cpu_f c, cpu_a c, cpu_c c, cpu_b c, cpu_e c, cpu_d c, cpu_l c, cpu_h c,
      lo8 (cpu_sp c), hi8 (cpu_sp c), lo8 (cpu_pc c), hi8 (cpu_pc c),
      cpu_ime c, cpu_ime_pending c, cpu_halted c, cpu_stopped c]
     @ bytes32 (ucast (cpu_cycles c)) @ bytes32 (ucast (drop_bit 32 (cpu_cycles c)))
     @ [cpu_if_reg c, cpu_ie_reg c, 0, 0] @ bytes32 (cpu_jit_ret_pc c)"

definition sizeof_cpu :: u32 where "sizeof_cpu = 40"

text \<open>The byte \<open>i\<close> of \<open>mmu\<close>, for its arrays: \<open>wram\<close>, \<open>oam\<close> right behind it, \<open>hram\<close>, \<open>io\<close> and \<open>jit_page_state\<close>.\<close>

definition mmu_byte :: "mmu_layout \<Rightarrow> mmu \<Rightarrow> nat \<Rightarrow> u8 option" where
  "mmu_byte lay m i =
     (let w = unat (off_wram lay); o' = w + WRAM_SIZE; h = unat (off_hram lay); r = unat (off_io lay);
          p = unat (off_page_state lay)
      in if w \<le> i \<and> i < w + WRAM_SIZE then Some (wram m (i - w))
         else if o' \<le> i \<and> i < o' + OAM_SIZE then Some (oam m (i - o'))
         else if h \<le> i \<and> i < h + HRAM_SIZE then Some (hram m (i - h))
         else if r \<le> i \<and> i < r + IO_SIZE then Some (io m (i - r))
         else if p \<le> i \<and> i < p + PAGE_COUNT then Some (jit_page_state m (i - p))
         else None)"

definition host_put :: "mmu_layout \<Rightarrow> cpu_state \<Rightarrow> u8 array \<Rightarrow> u8 array" where
  "host_put lay c h i =
     (let B = unat HOST_CPU_BASE; M = unat HOST_MMU_BASE
      in if B \<le> i \<and> i < B + 32 then cpu_bytes c ! (i - B)
         else if M \<le> i then (case mmu_byte lay (cpu_mmu c) (i - M) of Some v \<Rightarrow> v | None \<Rightarrow> h i)
         else h i)"

text \<open>\<open>n\<close> bytes of the memory at \<open>p\<close>, the rest of the array as it was.\<close>

definition get_array :: "u8 array \<Rightarrow> nat \<Rightarrow> nat \<Rightarrow> u8 array \<Rightarrow> u8 array" where
  "get_array h p n f i = (if i < n then h (p + i) else f i)"

definition host_mmu :: "mmu_layout \<Rightarrow> u8 array \<Rightarrow> mmu \<Rightarrow> mmu" where
  "host_mmu lay h m =
     (let M = unat HOST_MMU_BASE
      in m\<lparr>wram := get_array h (M + unat (off_wram lay)) WRAM_SIZE (wram m),
           oam := get_array h (M + unat (off_wram lay) + WRAM_SIZE) OAM_SIZE (oam m),
           hram := get_array h (M + unat (off_hram lay)) HRAM_SIZE (hram m),
           io := get_array h (M + unat (off_io lay)) IO_SIZE (io m),
           jit_page_state := get_array h (M + unat (off_page_state lay)) PAGE_COUNT (jit_page_state m)\<rparr>)"

definition host_get :: "mmu_layout \<Rightarrow> u8 array \<Rightarrow> cpu_state \<Rightarrow> cpu_state" where
  "host_get lay h c =
     (let B = unat HOST_CPU_BASE
      in c\<lparr>cpu_f := h B, cpu_a := h (B + 1), cpu_c := h (B + 2), cpu_b := h (B + 3),
           cpu_e := h (B + 4), cpu_d := h (B + 5), cpu_l := h (B + 6), cpu_h := h (B + 7),
           cpu_sp := mk16 (h (B + 8)) (h (B + 9)), cpu_pc := mk16 (h (B + 10)) (h (B + 11)),
           cpu_ime := h (B + 12), cpu_ime_pending := h (B + 13), cpu_halted := h (B + 14), cpu_stopped := h (B + 15),
           cpu_cycles := ucast (load32 h (B + 16)) OR push_bit 32 (ucast (load32 h (B + 20))),
           cpu_if_reg := h (B + 24), cpu_ie_reg := h (B + 25), cpu_jit_ret_pc := load32 h (B + 28),
           cpu_mmu := host_mmu lay h (cpu_mmu c)\<rparr>)"

section \<open>The callbacks\<close>

definition thunk_translate :: "u32 \<Rightarrow> u32 \<Rightarrow> xt_sim \<Rightarrow> u32 \<Rightarrow> nat option" where
  "thunk_translate mmu_size csize s addr =
     (if HOST_CPU_BASE \<le> addr \<and> addr < HOST_CPU_BASE + sizeof_cpu then Some (unat addr)
      else if HOST_MMU_BASE \<le> addr \<and> addr < HOST_MMU_BASE + mmu_size then Some (unat addr)
      else if addr < csize then Some (unat addr)
      else if HOST_STACK_BASE \<le> addr \<and> addr < HOST_STACK_BASE + 256 then Some (unat addr)
      else None)"

definition thunk_read_literal :: "u8 array \<Rightarrow> u32 \<Rightarrow> xt_sim \<Rightarrow> u32 \<Rightarrow> u32" where
  "thunk_read_literal code csize s addr = (if csize < addr + 4 then 0 else load32 code (unat addr))"

definition thunk_dispatch :: "mmu_layout \<Rightarrow> u32 \<Rightarrow> xt_sim \<Rightarrow> xt_sim" where
  "thunk_dispatch lay fn_token s =
     (let c = host_get lay (sim_host s) (sim_user s);
          put = (\<lambda>c. s\<lparr>sim_host := host_put lay c (sim_host s), sim_user := c\<rparr>)
      in if fn_token = literal_index HELPER_SM83_STEP then put (snd (sm83_step c))
         else if fn_token = literal_index HELPER_MMU_READ8 then
           set_reg 2 (ucast (mmu_read8 (cpu_mmu c) (ucast (sim_a s 3)))) s
         else if fn_token = literal_index HELPER_MMU_WRITE8 then
           put (c\<lparr>cpu_mmu := mmu_write8 (cpu_cycles c) (ucast (sim_a s 3)) (ucast (sim_a s 4)) (cpu_mmu c)\<rparr>)
         else s)"

definition block_env :: "mmu_layout \<Rightarrow> u32 \<Rightarrow> u8 array \<Rightarrow> u32 \<Rightarrow> sim_env" where
  "block_env lay mmu_size code csize =
     \<lparr>call_thunk = Some (thunk_dispatch lay), read_literal = Some (thunk_read_literal code csize),
      translate = Some (thunk_translate mmu_size csize)\<rparr>"

section \<open>Running a block\<close>

definition enter_state :: "mmu_layout \<Rightarrow> u8 array \<Rightarrow> u32 \<Rightarrow> u32 \<Rightarrow> cpu_state \<Rightarrow> xt_sim" where
  "enter_state lay code csize entry c =
     (let h = host_put lay c (\<lambda>i. if i < unat csize then code i else 0)
      in (xt_sim_init code csize h c)\<lparr>sim_pc := entry, sim_a := (\<lambda>_. 0)(1 := HOST_STACK_TOP, 2 := HOST_CPU_BASE)\<rparr>)"

definition enter_run :: "mmu_layout \<Rightarrow> u32 \<Rightarrow> u8 array \<Rightarrow> u32 \<Rightarrow> u32 \<Rightarrow> cpu_state \<Rightarrow> xt_sim" where
  "enter_run lay mmu_size code csize entry c =
     xt_sim_run (block_env lay mmu_size code csize) 0x100000 (enter_state lay code csize entry c)"

definition enter_block_sim :: "mmu_layout \<Rightarrow> u32 \<Rightarrow> executor" where
  "enter_block_sim lay mmu_size b d =
     (let B = d_blk d b; code = arena_from (blk_code B) (cc_words d);
          s = enter_run lay mmu_size code (code_size B) (entry_off B) (d_cpu d)
      in host_get lay (sim_host s) (sim_user s))"

end
