(* ===== verification/Guest_View.thy ===== *)
theory Guest_View
  imports Codegen_Patch Enter_Block
begin

text \<open>
  The guest as emitted code sees it: the state \<open>guest\<close> of \<open>cpu_state\<close> and \<open>mmu\<close> in the memory of the simulator
  (src/jit/dispatcher.c, \<open>thunk_translate\<close>), the round trip of the two structures through that memory, loads and
  stores as operations \<open>gld\<close> and \<open>gst\<close> on it, and what each instruction of the encoder does to the registers and
  the guest (\<open>gsem\<close>). \<open>lay_ok\<close> is the order of the arrays of \<open>mmu\<close> in core/mmu.h.
\<close>

section \<open>The guest in the memory of the simulator\<close>

definition lay_ok :: "mmu_layout \<Rightarrow> u32 \<Rightarrow> bool" where
  "lay_ok lay ms \<longleftrightarrow> unat (off_wram lay) + (WRAM_SIZE + OAM_SIZE) \<le> unat (off_hram lay)
     \<and> unat (off_hram lay) + HRAM_SIZE \<le> unat (off_io lay) \<and> unat (off_io lay) + IO_SIZE \<le> unat (off_page_state lay)
     \<and> unat (off_page_state lay) + PAGE_COUNT \<le> unat ms \<and> unat ms < 0x32330000"

definition guest :: "mmu_layout \<Rightarrow> xt_sim \<Rightarrow> cpu_state" where
  "guest lay x = host_get lay (sim_host x) (sim_user x)"

lemma load32_of [simp]: "f p = byte_of w 0 \<Longrightarrow> f (p + 1) = byte_of w 1 \<Longrightarrow> f (p + 2) = byte_of w 2 \<Longrightarrow> f (p + 3) = byte_of w 3 \<Longrightarrow> load32 f p = w"
  by (rule byte_of_eqI) (auto simp: below4 numeral_2_eq_2 numeral_3_eq_3)

lemma join64: "(ucast (ucast (w :: u64) :: u32) :: u64) OR push_bit 32 (ucast (ucast (drop_bit 32 w) :: u32)) = w"
  by (rule bit_word_eqI) (auto simp: bit_simps dest: bit_imp_le_length)

lemma host_put_cpu: "k < 32 \<Longrightarrow> host_put lay c h (0xC0DE0000 + k) = cpu_bytes c ! k"
  by (simp add: host_put_def Let_def)

text \<open>Putting the structures into memory and getting them out again.\<close>

lemma host_mmu_put:
  assumes "lay_ok lay ms"
  shows "host_mmu lay (host_put lay c h) (cpu_mmu c) = cpu_mmu c"
proof -
  have "get_array (host_put lay c h) (0xCDCD0000 + p) n f = f"
    if "\<And>i. i < n \<Longrightarrow> mmu_byte lay (cpu_mmu c) (p + i) = Some (f i)" for p n f
    using that by (auto simp: get_array_def host_put_def Let_def fun_eq_iff add.assoc)
  note * = this [unfolded add.assoc [symmetric]]
  have w: "mmu_byte lay m (unat (off_wram lay) + i) = Some (wram m i)" if "i < WRAM_SIZE" for m i
    using that by (simp add: mmu_byte_def Let_def)
  have o': "mmu_byte lay m (unat (off_wram lay) + WRAM_SIZE + i) = Some (oam m i)" if "i < OAM_SIZE" for m i
    using that by (simp add: mmu_byte_def Let_def)
  have h: "mmu_byte lay m (unat (off_hram lay) + i) = Some (hram m i)" if "i < HRAM_SIZE" for m i
    using that assms by (simp add: mmu_byte_def Let_def lay_ok_def)
  have r: "mmu_byte lay m (unat (off_io lay) + i) = Some (io m i)" if "i < IO_SIZE" for m i
    using that assms by (simp add: mmu_byte_def Let_def lay_ok_def)
  have p: "mmu_byte lay m (unat (off_page_state lay) + i) = Some (jit_page_state m i)" if "i < PAGE_COUNT" for m i
    using that assms by (simp add: mmu_byte_def Let_def lay_ok_def)
  show ?thesis
    using *[OF w] *[OF o'] *[OF h] *[OF r] *[OF p] by (simp add: host_mmu_def Let_def add.assoc)
qed

lemma host_get_put:
  assumes "lay_ok lay ms"
  shows "host_get lay (host_put lay c h) c = c"
proof -
  note b = host_put_cpu [of _ lay c h]
  have l: "load32 (host_put lay c h) (0xC0DE0000 + 16) = ucast (cpu_cycles c)"
    "load32 (host_put lay c h) (0xC0DE0000 + 20) = ucast (drop_bit 32 (cpu_cycles c))"
    "load32 (host_put lay c h) (0xC0DE0000 + 28) = cpu_jit_ret_pc c"
    using b [of 16] b [of 17] b [of 18] b [of 19] b [of 20] b [of 21] b [of 22] b [of 23] b [of 28] b [of 29] b [of 30] b [of 31]
    by (auto intro!: load32_of simp: cpu_bytes_def bytes32_def)
  show ?thesis
    using b [of 0] b [of 1] b [of 2] b [of 3] b [of 4] b [of 5] b [of 6] b [of 7] b [of 8] b [of 9] b [of 10] b [of 11] b [of 12]
      b [of 13] b [of 14] b [of 15] b [of 24] b [of 25] l host_mmu_put [OF assms, of c h] join64 [of "cpu_cycles c"]
    by (simp add: host_get_def Let_def cpu_bytes_def bytes32_def)
qed

text \<open>The addresses that hold bytes of the structures.\<close>

definition img :: "mmu_layout \<Rightarrow> nat \<Rightarrow> bool" where
  "img lay i \<longleftrightarrow> 0xC0DE0000 \<le> i \<and> i < 0xC0DE0020 \<and> i \<noteq> 0xC0DE001A \<and> i \<noteq> 0xC0DE001B
     \<or> 0xCDCD0000 \<le> i \<and> (\<forall>m. mmu_byte lay m (i - 0xCDCD0000) \<noteq> None)"

lemma get_array_cong: "(\<And>i. i < n \<Longrightarrow> h (p + i) = h' (p + i)) \<Longrightarrow> get_array h p n f = get_array h' p n f"
  by (auto simp: get_array_def fun_eq_iff)

lemma get_array_twice [simp]: "get_array h p n (get_array h' p n f) = get_array h p n f"
  by (auto simp: get_array_def fun_eq_iff)

lemma img_cpu: "k < 32 \<Longrightarrow> k \<noteq> 26 \<Longrightarrow> k \<noteq> 27 \<Longrightarrow> img lay (0xC0DE0000 + k)"
  by (simp add: img_def)

lemma img_mmu:
  assumes "lay_ok lay ms"
  shows "i < WRAM_SIZE \<Longrightarrow> img lay (0xCDCD0000 + unat (off_wram lay) + i)"
    "i < OAM_SIZE \<Longrightarrow> img lay (0xCDCD0000 + unat (off_wram lay) + WRAM_SIZE + i)"
    "i < HRAM_SIZE \<Longrightarrow> img lay (0xCDCD0000 + unat (off_hram lay) + i)"
    "i < IO_SIZE \<Longrightarrow> img lay (0xCDCD0000 + unat (off_io lay) + i)"
    "i < PAGE_COUNT \<Longrightarrow> img lay (0xCDCD0000 + unat (off_page_state lay) + i)"
  using assms by (auto simp: img_def mmu_byte_def Let_def lay_ok_def)

lemma host_get_cong:
  assumes "lay_ok lay ms" "\<And>i. img lay i \<Longrightarrow> h i = h' i"
  shows "host_get lay h c = host_get lay h' c"
proof -
  have k: "h (0xC0DE0000 + k) = h' (0xC0DE0000 + k)" if "k < 32" "k \<noteq> 26" "k \<noteq> 27" for k
    using assms(2) img_cpu [OF that] by blast
  have "host_mmu lay h (cpu_mmu c) = host_mmu lay h' (cpu_mmu c)"
    unfolding host_mmu_def Let_def
    using assms(2) img_mmu [OF assms(1)]
    by (intro mmu.fold_congs refl) (auto intro!: get_array_cong)
  then show ?thesis
    using k [of 0] k [of 1] k [of 2] k [of 3] k [of 4] k [of 5] k [of 6] k [of 7] k [of 8] k [of 9] k [of 10] k [of 11]
      k [of 12] k [of 13] k [of 14] k [of 15] k [of 16] k [of 17] k [of 18] k [of 19] k [of 20] k [of 21] k [of 22] k [of 23]
      k [of 24] k [of 25] k [of 28] k [of 29] k [of 30] k [of 31]
    by (simp add: host_get_def Let_def load32_def)
qed

lemma byte_of_load32': "byte_of (load32 f p) 0 = f p" "byte_of (load32 f p) (Suc 0) = f (p + 1)"
    "byte_of (load32 f p) 2 = f (p + 2)" "byte_of (load32 f p) 3 = f (p + 3)"
  using byte_of_load32 [of _ f p] by simp_all

lemma split64: "ucast ((ucast (lo :: u32) :: u64) OR push_bit 32 (ucast (hi :: u32))) = lo"
  "(ucast (drop_bit 32 (ucast lo :: u64) OR drop_bit 32 (push_bit 32 (ucast hi))) :: u32) = hi"
  by (rule bit_word_eqI; auto simp: bit_simps dest: bit_imp_le_length)+

lemma cpu_bytes_get: "k < 32 \<Longrightarrow> k \<noteq> 26 \<Longrightarrow> k \<noteq> 27 \<Longrightarrow> cpu_bytes (host_get lay h c) ! k = h (0xC0DE0000 + k)"
proof -
  assume "k < 32" "k \<noteq> 26" "k \<noteq> 27"
  then have "k \<in> {0, 1, 2, 3, 4, 5, 6, 7, 8, 9, 10, 11, 12, 13, 14, 15, 16, 17, 18, 19, 20, 21, 22, 23, 24, 25, 28, 29, 30, 31}"
    by (auto simp: eval_nat_numeral less_Suc_eq)
  then show ?thesis
    by (elim insertE emptyE; simp add: cpu_bytes_def bytes32_def host_get_def Let_def split64 byte_of_load32')
qed

lemma mmu_byte_get: "mmu_byte lay (host_mmu lay h m) i = Some v \<Longrightarrow> v = h (0xCDCD0000 + i)"
  by (auto simp: mmu_byte_def host_mmu_def Let_def get_array_def split: if_splits)

lemma host_put_get:
  assumes "img lay i"
  shows "host_put lay (host_get lay h c) z i = h i"
proof (cases "i < 0xC0DE0020")
  case True
  with assms have "0xC0DE0000 \<le> i" "i \<noteq> 0xC0DE001A" "i \<noteq> 0xC0DE001B" by (auto simp: img_def)
  with True cpu_bytes_get [of "i - 0xC0DE0000" lay h c] show ?thesis by (simp add: host_put_def Let_def)
next
  case False
  with assms obtain v where "0xCDCD0000 \<le> i" "mmu_byte lay (cpu_mmu (host_get lay h c)) (i - 0xCDCD0000) = Some v"
    by (auto simp: img_def)
  moreover from this have "v = h i"
    using mmu_byte_get [of lay h "cpu_mmu c" "i - 0xCDCD0000" v] by (simp add: host_get_def Let_def)
  ultimately show ?thesis by (simp add: host_put_def Let_def)
qed

lemma host_get_twice [simp]: "host_get lay h (host_get lay h' c) = host_get lay h c"
  by (simp add: host_get_def host_mmu_def Let_def)

section \<open>The guest's view of loads and stores\<close>

definition gld :: "mmu_layout \<Rightarrow> nat \<Rightarrow> u32 \<Rightarrow> cpu_state \<Rightarrow> u32" where
  "gld lay n a g = host_word (host_put lay g (\<lambda>_. 0)) (unat a) n"

definition gst :: "mmu_layout \<Rightarrow> nat \<Rightarrow> u32 \<Rightarrow> u32 \<Rightarrow> cpu_state \<Rightarrow> cpu_state" where
  "gst lay n a v g = host_get lay (host_store (host_put lay g (\<lambda>_. 0)) (unat a) v n) g"

definition acc_ok :: "mmu_layout \<Rightarrow> nat \<Rightarrow> u32 \<Rightarrow> bool" where
  "acc_ok lay n a \<longleftrightarrow> 0 < n \<and> (\<forall>j<n. img lay (unat a + j))"

lemma host_store_cong: "h i = h' i \<Longrightarrow> host_store h p v n i = host_store h' p v n i"
  by (induction n) auto

lemma guest_store:
  assumes "lay_ok lay ms"
  shows "host_get lay (host_store h p v n) u = host_get lay (host_store (host_put lay (host_get lay h u) z) p v n) (host_get lay h u)"
proof -
  let ?h' = "host_store (host_put lay (host_get lay h u) z) p v n"
  have "host_store h p v n i = ?h' i" if "img lay i" for i
    by (rule host_store_cong) (rule host_put_get [OF that, symmetric])
  then have "host_get lay (host_store h p v n) u = host_get lay ?h' u" by (rule host_get_cong [OF assms])
  then show ?thesis by simp
qed

lemma guest_load: "(\<And>j. j < n \<Longrightarrow> img lay (p + j)) \<Longrightarrow> host_word (host_put lay (host_get lay h u) z) p n = host_word h p n"
  by (induction n) (auto simp: host_put_get)

lemma mmu_byte_range: "lay_ok lay ms \<Longrightarrow> mmu_byte lay m i \<noteq> None \<Longrightarrow> i < unat ms"
  by (auto simp: mmu_byte_def Let_def lay_ok_def split: if_splits)

lemma translate_img:
  assumes "lay_ok lay ms" "img lay (unat a)"
  shows "thunk_translate ms n s a = Some (unat a)"
proof -
  have m: "unat (HOST_MMU_BASE + ms) = 0xCDCD0000 + unat ms"
    using assms(1) by (auto simp: lay_ok_def unat_word_ariths)
  consider "0xC0DE0000 \<le> unat a" "unat a < 0xC0DE0020" | "0xCDCD0000 \<le> unat a" "unat a - 0xCDCD0000 < unat ms"
    using assms mmu_byte_range [OF assms(1)] by (auto simp: img_def)
  then show ?thesis
  proof cases
    case 1
    then show ?thesis by (simp add: thunk_translate_def sizeof_cpu_def word_le_nat_alt word_less_nat_alt)
  next
    case 2
    then have "unat a < 0xCDCD0000 + unat ms" by linarith
    with 2(1) m show ?thesis by (simp add: thunk_translate_def word_le_nat_alt word_less_nat_alt)
  qed
qed

section \<open>Instructions on the guest\<close>

type_synonym gstate = "(nat \<Rightarrow> u32) \<times> cpu_state"

fun gsem :: "mmu_layout \<Rightarrow> (u32 \<Rightarrow> u32) \<Rightarrow> u32 \<Rightarrow> insn \<Rightarrow> gstate \<Rightarrow> gstate" where
  "gsem lay lit pc (I_AND r s t) (a, g) = (a(unat r := a (unat s) AND a (unat t)), g)"
| "gsem lay lit pc (I_OR r s t) (a, g) = (a(unat r := a (unat s) OR a (unat t)), g)"
| "gsem lay lit pc (I_XOR r s t) (a, g) = (a(unat r := a (unat s) XOR a (unat t)), g)"
| "gsem lay lit pc (I_ADD r s t) (a, g) = (a(unat r := a (unat s) + a (unat t)), g)"
| "gsem lay lit pc (I_SUB r s t) (a, g) = (a(unat r := a (unat s) - a (unat t)), g)"
| "gsem lay lit pc (I_MOV r s) (a, g) = (a(unat r := a (unat s)), g)"
| "gsem lay lit pc (I_ADDI t s imm) (a, g) = (a(unat t := a (unat s) + imm), g)"
| "gsem lay lit pc (I_MOVI t imm) (a, g) = (a(unat t := imm), g)"
| "gsem lay lit pc (I_L8UI t s off) (a, g) = (a(unat t := gld lay 1 (a (unat s) + off) g), g)"
| "gsem lay lit pc (I_L16UI t s off) (a, g) = (a(unat t := gld lay 2 (a (unat s) + off) g), g)"
| "gsem lay lit pc (I_L32I t s off) (a, g) = (a(unat t := gld lay 4 (a (unat s) + off) g), g)"
| "gsem lay lit pc (I_S8I t s off) (a, g) = (a, gst lay 1 (a (unat s) + off) (a (unat t)) g)"
| "gsem lay lit pc (I_S16I t s off) (a, g) = (a, gst lay 2 (a (unat s) + off) (a (unat t)) g)"
| "gsem lay lit pc (I_S32I t s off) (a, g) = (a, gst lay 4 (a (unat s) + off) (a (unat t)) g)"
| "gsem lay lit pc (I_L32R t off) (a, g) =
     (a(unat t := lit (((pc + 3) AND NOT 3) + 4 * signed_take_bit 15 off)), g)"
| "gsem lay lit pc (I_SLLI r s sa) (a, g) = (a(unat r := push_bit (unat sa) (a (unat s))), g)"
| "gsem lay lit pc (I_SRLI r t sa) (a, g) = (a(unat r := drop_bit (unat sa) (a (unat t))), g)"
| "gsem lay lit pc (I_SRAI r t sa) (a, g) = (a(unat r := signed_drop_bit (unat sa) (a (unat t))), g)"
| "gsem lay lit pc (I_EXTUI r t sh m) (a, g) = (a(unat r := take_bit (unat m + 1) (drop_bit (unat sh) (a (unat t)))), g)"
| "gsem lay lit pc _ (a, g) = (a, g)"

fun gok :: "mmu_layout \<Rightarrow> insn \<Rightarrow> gstate \<Rightarrow> bool" where
  "gok lay (I_L8UI t s off) (a, g) = acc_ok lay 1 (a (unat s) + off)"
| "gok lay (I_L16UI t s off) (a, g) = acc_ok lay 2 (a (unat s) + off)"
| "gok lay (I_L32I t s off) (a, g) = acc_ok lay 4 (a (unat s) + off)"
| "gok lay (I_S8I t s off) (a, g) = acc_ok lay 1 (a (unat s) + off)"
| "gok lay (I_S16I t s off) (a, g) = acc_ok lay 2 (a (unat s) + off)"
| "gok lay (I_S32I t s off) (a, g) = acc_ok lay 4 (a (unat s) + off)"
| "gok lay (I_BEQZ s r) _ = False"
| "gok lay (I_BNEZ s r) _ = False"
| "gok lay (I_J r) _ = False"
| "gok lay (I_CALL0 r) _ = False"
| "gok lay (I_JX s) _ = False"
| "gok lay (I_CALLX0 s) _ = False"
| "gok lay I_RET _ = False"
| "gok lay _ _ = True"

definition view :: "mmu_layout \<Rightarrow> xt_sim \<Rightarrow> gstate" where
  "view lay x = (sim_a x, guest lay x)"

lemma view_pc [simp]: "view lay (x\<lparr>sim_pc := p\<rparr>) = view lay x"
  by (simp add: view_def guest_def)

lemma sim_load_view:
  assumes "lay_ok lay ms" "acc_ok lay n a"
  shows "sim_load (block_env lay ms code len) n t a x = set_reg t (gld lay n a (guest lay x)) x"
proof -
  have i: "img lay (unat a + j)" if "j < n" for j using assms(2) that by (simp add: acc_ok_def)
  have "host_ptr (block_env lay ms code len) x a = Some (unat a)"
    using translate_img [OF assms(1), of a len x] i [of 0] assms(2) by (simp add: host_ptr_def block_env_def acc_ok_def)
  then show ?thesis by (simp add: sim_load_def gld_def guest_def guest_load [OF i])
qed

lemma sim_store_view:
  assumes "lay_ok lay ms" "acc_ok lay n a"
  shows "guest lay (sim_store (block_env lay ms code len) n t a x) = gst lay n a (sim_a x t) (guest lay x)"
    "sim_a (sim_store (block_env lay ms code len) n t a x) = sim_a x"
proof -
  have "img lay (unat a + 0)" using assms(2) unfolding acc_ok_def by blast
  then have "host_ptr (block_env lay ms code len) x a = Some (unat a)"
    using translate_img [OF assms(1), of a len x] by (simp add: host_ptr_def block_env_def)
  then show "guest lay (sim_store (block_env lay ms code len) n t a x) = gst lay n a (sim_a x t) (guest lay x)"
      "sim_a (sim_store (block_env lay ms code len) n t a x) = sim_a x"
    using guest_store [OF assms(1), of "sim_host x" "unat a" "sim_a x t" n "sim_user x" "\<lambda>_. 0"]
    by (simp_all add: sim_store_def guest_def gst_def)
qed

lemma sim_mem_keeps [simp]:
  "sim_pc (sim_store E n t a x) = sim_pc x" "sim_status (sim_store E n t a x) = sim_status x"
  "sim_code (sim_store E n t a x) = sim_code x" "sim_code_size (sim_store E n t a x) = sim_code_size x"
  "sim_pc (sim_load E n t a x) = sim_pc x" "sim_status (sim_load E n t a x) = sim_status x"
  "sim_code (sim_load E n t a x) = sim_code x" "sim_code_size (sim_load E n t a x) = sim_code_size x"
  by (simp_all add: sim_store_def sim_load_def set_reg_def split: option.split)

lemma wreg_view: "view lay (wreg r v x) = ((sim_a x)(unat r := v), guest lay x)"
  "view lay (set_reg (unat r) v x) = ((sim_a x)(unat r := v), guest lay x)"
  "sim_pc (wreg r v x) = sim_pc x" "sim_status (wreg r v x) = sim_status x"
  "sim_code (wreg r v x) = sim_code x" "sim_code_size (wreg r v x) = sim_code_size x"
  by (simp_all add: view_def guest_def wreg_def set_reg_def)

lemma insn_sem_view:
  fixes code :: "u8 array" and len ms :: u32
  assumes "lay_ok lay ms" "gok lay i (view lay x)"
  defines "E \<equiv> block_env lay ms code len"
  shows "view lay (insn_sem E pc i x) = gsem lay (\<lambda>a. thunk_read_literal code len x a) pc i (view lay x)"
    "sim_pc (insn_sem E pc i x) = sim_pc x" "sim_status (insn_sem E pc i x) = sim_status x"
    "sim_code (insn_sem E pc i x) = sim_code x" "sim_code_size (insn_sem E pc i x) = sim_code_size x"
proof -
  note ld = sim_load_view [OF assms(1), of _ _ code len, folded E_def]
  note st = sim_store_view [OF assms(1), of _ _ code len]
  have r: "read_literal E = Some (thunk_read_literal code len)" by (simp add: E_def block_env_def)
  show "view lay (insn_sem E pc i x) = gsem lay (\<lambda>a. thunk_read_literal code len x a) pc i (view lay x)"
    using assms(2) unfolding view_def [of lay x]
    by (cases i; simp add: wreg_view areg_def ld r flip: E_def; simp add: view_def st ld E_def wreg_view)
  show "sim_pc (insn_sem E pc i x) = sim_pc x" "sim_status (insn_sem E pc i x) = sim_status x"
    "sim_code (insn_sem E pc i x) = sim_code x" "sim_code_size (insn_sem E pc i x) = sim_code_size x"
    using assms(2) by (cases i; simp add: wreg_view view_def)+
qed

section \<open>The fields of the CPU\<close>

lemma acc_cpu [simp]:
  "acc_ok lay (Suc 0) 0xC0DE0000" "acc_ok lay (Suc 0) 0xC0DE0001" "acc_ok lay (Suc 0) 0xC0DE0002" "acc_ok lay (Suc 0) 0xC0DE0003"
  "acc_ok lay (Suc 0) 0xC0DE0004" "acc_ok lay (Suc 0) 0xC0DE0005" "acc_ok lay (Suc 0) 0xC0DE0006" "acc_ok lay (Suc 0) 0xC0DE0007"
  "acc_ok lay (Suc 0) 0xC0DE000E"
  "acc_ok lay 2 0xC0DE0002" "acc_ok lay 2 0xC0DE0004" "acc_ok lay 2 0xC0DE0006" "acc_ok lay 2 0xC0DE0008" "acc_ok lay 2 0xC0DE000A"
  "acc_ok lay 4 0xC0DE0010" "acc_ok lay 4 0xC0DE001C"
  by (simp_all add: acc_ok_def img_def)

lemma host_put_at: "0xC0DE0000 \<le> i \<Longrightarrow> i < 0xC0DE0020 \<Longrightarrow> host_put lay c h i = cpu_bytes c ! (i - 0xC0DE0000)"
  by (simp add: host_put_def Let_def)

lemma ucast_mk16: "(ucast (mk16 lo hi) :: u32) = ucast lo OR push_bit 8 (ucast hi)"
  by (rule bit_word_eqI) (auto simp: mk16_def bit_simps dest: bit_imp_le_length)

lemma ucast_halves: "(ucast (lo8 w) :: u32) OR push_bit 8 (ucast (hi8 w)) = ucast w"
  using ucast_mk16 [of "lo8 w" "hi8 w"] by simp

lemma word_bytes4: "ucast (byte_of w 0) OR push_bit 8 (ucast (byte_of w (Suc 0))) OR push_bit 16 (ucast (byte_of w 2))
    OR push_bit 24 (ucast (byte_of w 3)) = w"
  using load32_of [of "byte_of w" 0 w] by (simp add: load32_def numeral_2_eq_2 numeral_3_eq_3)

lemma host_words:
  "host_word f p (Suc 0) = ucast (f p)" "host_word f p 2 = ucast (f p) OR push_bit 8 (ucast (f (p + 1)))"
  "host_word f p 4 = load32 f p"
proof -
  have n: "2 = Suc (Suc 0)" "4 = Suc (Suc (Suc (Suc 0)))" by simp_all
  show "host_word f p (Suc 0) = ucast (f p)" "host_word f p 2 = ucast (f p) OR push_bit 8 (ucast (f (p + 1)))" by (simp_all add: n(1))
  show "host_word f p 4 = load32 f p" unfolding n(2) host_word.simps load32_def by (simp add: numeral_3_eq_3 or.assoc)
qed

lemma host_stores:
  "host_store f p w (Suc 0) = f(p := ucast w)" "host_store f p w 2 = f(p := lo8 (ucast w), p + 1 := hi8 (ucast w))"
proof -
  have n: "2 = Suc (Suc 0)" by simp
  have b: "ucast (w AND 0xFF) = (ucast w :: u8)" "ucast (w AND 0xFF) = lo8 (ucast w)" "ucast (drop_bit 8 w AND 0xFF) = hi8 (ucast w)"
    by (rule bit_word_eqI, auto simp: bit_simps low_mask8 lo8_def hi8_def)+
  show "host_store f p w (Suc 0) = f(p := ucast w)" using b(1) by simp
  show "host_store f p w 2 = f(p := lo8 (ucast w), p + 1 := hi8 (ucast w))"
    unfolding n host_store.simps using b(2,3) by simp
qed

lemma gld_cpu [simp]:
  "gld lay (Suc 0) 0xC0DE0000 g = ucast (cpu_f g)" "gld lay (Suc 0) 0xC0DE0001 g = ucast (cpu_a g)"
  "gld lay (Suc 0) 0xC0DE0002 g = ucast (cpu_c g)" "gld lay (Suc 0) 0xC0DE0003 g = ucast (cpu_b g)"
  "gld lay (Suc 0) 0xC0DE0004 g = ucast (cpu_e g)" "gld lay (Suc 0) 0xC0DE0005 g = ucast (cpu_d g)"
  "gld lay (Suc 0) 0xC0DE0006 g = ucast (cpu_l g)" "gld lay (Suc 0) 0xC0DE0007 g = ucast (cpu_h g)"
  "gld lay 2 0xC0DE0002 g = ucast (cpu_bc g)" "gld lay 2 0xC0DE0004 g = ucast (cpu_de g)"
  "gld lay 2 0xC0DE0006 g = ucast (cpu_hl g)" "gld lay 2 0xC0DE0008 g = ucast (cpu_sp g)"
  "gld lay 2 0xC0DE000A g = ucast (cpu_pc g)"
  "gld lay 4 0xC0DE0010 g = ucast (cpu_cycles g)" "gld lay 4 0xC0DE001C g = cpu_jit_ret_pc g"
  by (simp_all add: gld_def host_words host_put_at cpu_bytes_def bytes32_def ucast_halves
      cpu_bc_def cpu_de_def cpu_hl_def ucast_mk16 load32_def word_bytes4)

text \<open>A change of the bytes of \<open>cpu_state\<close> alone.\<close>

lemma host_get_low:
  assumes "lay_ok lay ms" "\<And>i. 0xC0DE0020 \<le> i \<Longrightarrow> h' i = host_put lay g z i"
  shows "host_get lay h' g = (let B = 0xC0DE0000 in
    g\<lparr>cpu_f := h' B, cpu_a := h' (B + 1), cpu_c := h' (B + 2), cpu_b := h' (B + 3),
      cpu_e := h' (B + 4), cpu_d := h' (B + 5), cpu_l := h' (B + 6), cpu_h := h' (B + 7),
      cpu_sp := mk16 (h' (B + 8)) (h' (B + 9)), cpu_pc := mk16 (h' (B + 10)) (h' (B + 11)),
      cpu_ime := h' (B + 12), cpu_ime_pending := h' (B + 13), cpu_halted := h' (B + 14), cpu_stopped := h' (B + 15),
      cpu_cycles := ucast (load32 h' (B + 16)) OR push_bit 32 (ucast (load32 h' (B + 20))),
      cpu_if_reg := h' (B + 24), cpu_ie_reg := h' (B + 25), cpu_jit_ret_pc := load32 h' (B + 28)\<rparr>)"
proof -
  have "host_mmu lay h' (cpu_mmu g) = host_mmu lay (host_put lay g z) (cpu_mmu g)"
    unfolding host_mmu_def Let_def by (intro mmu.fold_congs refl) (auto intro!: get_array_cong assms(2))
  then show ?thesis using host_mmu_put [OF assms(1), of g z] by (simp add: host_get_def Let_def)
qed

lemma put_bytes:
  "host_put lay g z 0xC0DE0000 = cpu_f g" "host_put lay g z 0xC0DE0001 = cpu_a g" "host_put lay g z 0xC0DE0002 = cpu_c g"
  "host_put lay g z 0xC0DE0003 = cpu_b g" "host_put lay g z 0xC0DE0004 = cpu_e g" "host_put lay g z 0xC0DE0005 = cpu_d g"
  "host_put lay g z 0xC0DE0006 = cpu_l g" "host_put lay g z 0xC0DE0007 = cpu_h g" "host_put lay g z 0xC0DE0008 = lo8 (cpu_sp g)"
  "host_put lay g z 0xC0DE0009 = hi8 (cpu_sp g)" "host_put lay g z 0xC0DE000A = lo8 (cpu_pc g)" "host_put lay g z 0xC0DE000B = hi8 (cpu_pc g)"
  "host_put lay g z 0xC0DE000C = cpu_ime g" "host_put lay g z 0xC0DE000D = cpu_ime_pending g" "host_put lay g z 0xC0DE000E = cpu_halted g"
  "host_put lay g z 0xC0DE000F = cpu_stopped g" "host_put lay g z 0xC0DE0018 = cpu_if_reg g" "host_put lay g z 0xC0DE0019 = cpu_ie_reg g"
  "load32 (host_put lay g z) 0xC0DE0010 = ucast (cpu_cycles g)" "load32 (host_put lay g z) 0xC0DE0014 = ucast (drop_bit 32 (cpu_cycles g))"
  "load32 (host_put lay g z) 0xC0DE001C = cpu_jit_ret_pc g"
  by (auto intro!: load32_of simp: host_put_at cpu_bytes_def bytes32_def)

lemma load32_upd [simp]: "i < p \<or> p + 4 \<le> i \<Longrightarrow> load32 (f(i := v)) p = load32 f p"
  by (auto simp: load32_def)

lemma gst_cpu:
  assumes "lay_ok lay ms"
  shows "gst lay (Suc 0) 0xC0DE0000 v g = g\<lparr>cpu_f := ucast v\<rparr>" "gst lay (Suc 0) 0xC0DE0001 v g = g\<lparr>cpu_a := ucast v\<rparr>"
    "gst lay (Suc 0) 0xC0DE0002 v g = g\<lparr>cpu_c := ucast v\<rparr>" "gst lay (Suc 0) 0xC0DE0003 v g = g\<lparr>cpu_b := ucast v\<rparr>"
    "gst lay (Suc 0) 0xC0DE0004 v g = g\<lparr>cpu_e := ucast v\<rparr>" "gst lay (Suc 0) 0xC0DE0005 v g = g\<lparr>cpu_d := ucast v\<rparr>"
    "gst lay (Suc 0) 0xC0DE0006 v g = g\<lparr>cpu_l := ucast v\<rparr>" "gst lay (Suc 0) 0xC0DE0007 v g = g\<lparr>cpu_h := ucast v\<rparr>"
    "gst lay (Suc 0) 0xC0DE000E v g = g\<lparr>cpu_halted := ucast v\<rparr>"
proof -
  note * = host_get_low [OF assms, of _ g "\<lambda>_. 0"]
  show "gst lay (Suc 0) 0xC0DE0000 v g = g\<lparr>cpu_f := ucast v\<rparr>" "gst lay (Suc 0) 0xC0DE0001 v g = g\<lparr>cpu_a := ucast v\<rparr>"
    "gst lay (Suc 0) 0xC0DE0002 v g = g\<lparr>cpu_c := ucast v\<rparr>" "gst lay (Suc 0) 0xC0DE0003 v g = g\<lparr>cpu_b := ucast v\<rparr>"
    "gst lay (Suc 0) 0xC0DE0004 v g = g\<lparr>cpu_e := ucast v\<rparr>" "gst lay (Suc 0) 0xC0DE0005 v g = g\<lparr>cpu_d := ucast v\<rparr>"
    "gst lay (Suc 0) 0xC0DE0006 v g = g\<lparr>cpu_l := ucast v\<rparr>" "gst lay (Suc 0) 0xC0DE0007 v g = g\<lparr>cpu_h := ucast v\<rparr>"
    "gst lay (Suc 0) 0xC0DE000E v g = g\<lparr>cpu_halted := ucast v\<rparr>"
    unfolding gst_def by (subst *; simp add: Let_def put_bytes join64 host_stores del: host_store.simps)+
qed

lemma gst_cpu16:
  assumes "lay_ok lay ms"
  shows "gst lay 2 0xC0DE0002 v g = set_bc (ucast v) g" "gst lay 2 0xC0DE0004 v g = set_de (ucast v) g"
    "gst lay 2 0xC0DE0006 v g = set_hl (ucast v) g" "gst lay 2 0xC0DE0008 v g = g\<lparr>cpu_sp := ucast v\<rparr>"
    "gst lay 2 0xC0DE000A v g = g\<lparr>cpu_pc := ucast v\<rparr>"
proof -
  note * = host_get_low [OF assms, of _ g "\<lambda>_. 0"]
  show "gst lay 2 0xC0DE0002 v g = set_bc (ucast v) g" "gst lay 2 0xC0DE0004 v g = set_de (ucast v) g"
    "gst lay 2 0xC0DE0006 v g = set_hl (ucast v) g" "gst lay 2 0xC0DE0008 v g = g\<lparr>cpu_sp := ucast v\<rparr>"
    "gst lay 2 0xC0DE000A v g = g\<lparr>cpu_pc := ucast v\<rparr>"
    unfolding gst_def
    by (subst *; simp add: Let_def put_bytes join64 host_stores set_bc_def set_de_def set_hl_def del: host_store.simps)+
qed

lemma host_store_outside: "i < p \<or> p + n \<le> i \<Longrightarrow> host_store f p v n i = f i"
  by (induction n) auto

text \<open>The low half of the cycle counter.\<close>

definition set_low :: "u32 \<Rightarrow> u64 \<Rightarrow> u64" where
  "set_low v w = ucast v OR push_bit 32 (ucast (ucast (drop_bit 32 w) :: u32))"

lemma gst_cpu32:
  assumes "lay_ok lay ms"
  shows "gst lay 4 0xC0DE0010 v g = g\<lparr>cpu_cycles := set_low v (cpu_cycles g)\<rparr>" "gst lay 4 0xC0DE001C v g = g\<lparr>cpu_jit_ret_pc := v\<rparr>"
proof -
  have b: "load32 (host_store f p v 4) p = v" for f p
    by (rule load32_of) (simp_all add: eval_nat_numeral byte_of_def low_mask8, (rule bit_word_eqI, auto simp: bit_simps)+)
  have b': "host_store f p v 4 i = f i" if "i < p \<or> p + 4 \<le> i" for f p i
    using that by (rule host_store_outside)
  have b'': "load32 (host_store f p v 4) q = load32 f q" if "q + 4 \<le> p \<or> p + 4 \<le> q" for f p q
    using that by (auto simp: load32_def b')
  note * = host_get_low [OF assms, of _ g "\<lambda>_. 0"]
  show "gst lay 4 0xC0DE0010 v g = g\<lparr>cpu_cycles := set_low v (cpu_cycles g)\<rparr>" "gst lay 4 0xC0DE001C v g = g\<lparr>cpu_jit_ret_pc := v\<rparr>"
    unfolding gst_def
    by (subst *; simp add: Let_def put_bytes join64 b b' b'' set_low_def del: host_store.simps)+
qed

end
