(* ===== verification/Codegen_Exec.thy ===== *)
theory Codegen_Exec
  imports Guest_View
begin

text \<open>
  Running emitted code in the simulator: \<open>goes\<close> says that from instruction \<open>k\<close> of the code \<open>P\<close> the machine reaches
  instruction \<open>k'\<close> within \<open>n\<close> steps, with the registers and the guest changed from \<open>S\<close> to \<open>S'\<close>. Its rules are
  those for straight-line code, for jumps and branches, for a call of the interpreter and for the return.
\<close>

section \<open>Code in the memory of the simulator\<close>

definition loaded :: "nat \<Rightarrow> insn list \<Rightarrow> xt_sim \<Rightarrow> bool" where
  "loaded en P x \<longleftrightarrow> sim_status x = XT_SIM_RUN \<and> (\<forall>i<3 * length P. sim_code x (en + i) = code_bytes P ! i)
     \<and> en + 3 * length P \<le> unat (sim_code_size x) \<and> unat (sim_code_size x) + 4 \<le> 2 ^ 32 \<and> (\<forall>i\<in>set P. insn_ok i)"

definition addr_of :: "nat \<Rightarrow> nat \<Rightarrow> u32" where
  "addr_of en k = of_nat (en + 3 * k)"

definition at_insn :: "nat \<Rightarrow> nat \<Rightarrow> xt_sim \<Rightarrow> bool" where
  "at_insn en k x \<longleftrightarrow> sim_pc x = addr_of en k"

lemma step_at:
  assumes "loaded en P x" "at_insn en k x" "k < length P"
  shows "sim_step E x = insn_sem E (addr_of en k) (P ! k) (x\<lparr>sim_pc := addr_of en (Suc k)\<rparr>)"
proof -
  let ?m = "en + 3 * k"
  have small: "?m + 3 \<le> unat (sim_code_size x)" "unat (sim_code_size x) + 4 \<le> 2 ^ 32"
    using assms(1,3) by (auto simp: loaded_def)
  have un: "unat (of_nat n :: u32) = n" if "n \<le> ?m + 3" for n
    using that small by (simp add: unat_of_nat_u32)
  have pc: "addr_of en k + 3 = addr_of en (Suc k)" "addr_of en k + 1 = of_nat (?m + 1)" "addr_of en k + 2 = of_nat (?m + 2)"
    "addr_of en k = of_nat ?m" "addr_of en (Suc k) = of_nat (?m + 3)"
    by (simp_all add: addr_of_def algebra_simps)
  have b: "sim_code x (?m + j) = byte_of (insn_word (P ! k)) j" if "j < 3" for j
  proof -
    have "3 * k + j < 3 * length P" using assms(3) that by linarith
    then have "sim_code x (en + (3 * k + j)) = code_bytes P ! (3 * k + j)" using assms(1) by (simp add: loaded_def)
    then show ?thesis using code_bytes_nth [OF assms(3) that] by (simp add: add.assoc)
  qed
  have ok: "insn_ok (P ! k)" "sim_status x = XT_SIM_RUN" using assms(1,3) by (simp_all add: loaded_def)
  have u: "unat (addr_of en k) = ?m" "unat (addr_of en k + 1) = ?m + 1" "unat (addr_of en k + 2) = ?m + 2"
    "unat (addr_of en (Suc k)) = ?m + 3"
    using un [of ?m, folded pc(4)] un [of "?m + 1", folded pc(2)] un [of "?m + 2", folded pc(3)] un [of "?m + 3", folded pc(5)]
    by simp_all
  then have "\<not> sim_code_size x < addr_of en (Suc k)" using small by (simp add: word_less_nat_alt)
  then have "fetch24 x = (insn_word (P ! k), x\<lparr>sim_pc := addr_of en (Suc k)\<rparr>)"
    using assms(2) b [of 0] b [of 1] b [of 2] insn_word_24 [OF ok(1)] u
    unfolding fetch24_def Let_def at_insn_def by (simp add: pc(1) numeral_2_eq_2)
  then show ?thesis
    using insn_word_encodes [OF ok(1)] ok(2) assms(2) by (simp add: sim_step_def encodes_def at_insn_def)
qed

definition goes :: "sim_env \<Rightarrow> mmu_layout \<Rightarrow> nat \<Rightarrow> insn list \<Rightarrow> nat \<Rightarrow> gstate \<Rightarrow> nat \<Rightarrow> gstate \<Rightarrow> nat \<Rightarrow> bool" where
  "goes E lay en P k S k' S' n \<longleftrightarrow>
     (\<forall>x. loaded en P x \<and> at_insn en k x \<and> view lay x = S \<longrightarrow>
        (\<exists>m\<le>n. loaded en P (sim_run E m x) \<and> at_insn en k' (sim_run E m x) \<and> view lay (sim_run E m x) = S'
          \<and> sim_code (sim_run E m x) = sim_code x \<and> sim_code_size (sim_run E m x) = sim_code_size x))"

lemma sim_run_stopped: "sim_status x \<noteq> XT_SIM_RUN \<Longrightarrow> sim_run E n x = x"
  by (cases n) simp_all

lemma sim_run_add: "sim_run E (m + n) x = sim_run E n (sim_run E m x)"
  by (induction m arbitrary: x) (auto simp: sim_run_stopped)

lemma goes_refl: "goes E lay en P k S k S 0"
  by (simp add: goes_def)

lemma goes_trans: "goes E lay en P k S k' S' m \<Longrightarrow> goes E lay en P k' S' k'' S'' n \<Longrightarrow> goes E lay en P k S k'' S'' (m + n)"
  unfolding goes_def
  by (metis (no_types, lifting) sim_run_add add_mono)

lemma goes_mono: "goes E lay en P k S k' S' m \<Longrightarrow> m \<le> n \<Longrightarrow> goes E lay en P k S k' S' n"
  unfolding goes_def using order_trans [of _ m n] by blast

lemma goes_step:
  assumes "k < length P"
    "\<And>x. loaded en P x \<Longrightarrow> view lay x = S \<Longrightarrow> sim_pc x = addr_of en (Suc k) \<Longrightarrow>
       (let y = insn_sem E (addr_of en k) (P ! k) x
        in view lay y = S' \<and> sim_pc y = addr_of en k' \<and> sim_status y = XT_SIM_RUN \<and> sim_code y = sim_code x
           \<and> sim_code_size y = sim_code_size x)"
  shows "goes E lay en P k S k' S' 1"
  unfolding goes_def
proof (intro allI impI)
  fix x assume x: "loaded en P x \<and> at_insn en k x \<and> view lay x = S"
  let ?x = "x\<lparr>sim_pc := addr_of en (Suc k)\<rparr>"
  have "loaded en P ?x" "view lay ?x = S" "sim_pc ?x = addr_of en (Suc k)" using x by (simp_all add: loaded_def)
  note * = assms(2) [OF this]
  have "sim_run E 1 x = insn_sem E (addr_of en k) (P ! k) ?x"
    using x step_at [OF _ _ assms(1)] by (simp add: loaded_def)
  with * x show "\<exists>m\<le>1. loaded en P (sim_run E m x) \<and> at_insn en k' (sim_run E m x) \<and> view lay (sim_run E m x) = S'
      \<and> sim_code (sim_run E m x) = sim_code x \<and> sim_code_size (sim_run E m x) = sim_code_size x"
    by (intro exI [of _ 1]) (auto simp: loaded_def at_insn_def Let_def)
qed

text \<open>\<open>Q\<close> is the part of the code \<open>P\<close> at \<open>k\<close>.\<close>

definition code_at :: "insn list \<Rightarrow> nat \<Rightarrow> insn list \<Rightarrow> bool" where
  "code_at P k Q \<longleftrightarrow> k + length Q \<le> length P \<and> (\<forall>i<length Q. P ! (k + i) = Q ! i)"

lemma code_at_simps [simp]:
  "code_at P k [] \<longleftrightarrow> k \<le> length P"
  "code_at P k (i # Q) \<longleftrightarrow> k < length P \<and> P ! k = i \<and> code_at P (Suc k) Q"
  by (auto simp: code_at_def All_less_Suc2)

lemma code_at_append [simp]: "code_at P k (Q @ R) \<longleftrightarrow> code_at P k Q \<and> code_at P (k + length Q) R"
proof (induction Q arbitrary: k)
  case Nil
  then show ?case by (auto simp: code_at_def)
qed simp

lemma code_at_self [simp]: "code_at (A @ Q @ B) (length A) Q" "code_at (Q @ B) 0 Q" "code_at Q 0 Q" "code_at (A @ Q) (length A) Q"
  by (simp_all add: code_at_def nth_append)

section \<open>Straight-line code\<close>

primrec gseq :: "mmu_layout \<Rightarrow> (u32 \<Rightarrow> u32) \<Rightarrow> nat \<Rightarrow> nat \<Rightarrow> insn list \<Rightarrow> gstate \<Rightarrow> gstate" where
  "gseq lay lit en k [] S = S"
| "gseq lay lit en k (i # Q) S = gseq lay lit en (Suc k) Q (gsem lay lit (addr_of en k) i S)"

primrec gseq_ok :: "mmu_layout \<Rightarrow> (u32 \<Rightarrow> u32) \<Rightarrow> nat \<Rightarrow> nat \<Rightarrow> insn list \<Rightarrow> gstate \<Rightarrow> bool" where
  "gseq_ok lay lit en k [] S = True"
| "gseq_ok lay lit en k (i # Q) S \<longleftrightarrow> gok lay i S \<and> gseq_ok lay lit en (Suc k) Q (gsem lay lit (addr_of en k) i S)"

definition block_lit :: "u8 array \<Rightarrow> u32 \<Rightarrow> u32 \<Rightarrow> u32" where
  "block_lit code len a = (if len < a + 4 then 0 else load32 code (unat a))"

lemma goes_insn:
  assumes "lay_ok lay ms" "k < length P" "gok lay (P ! k) S"
  shows "goes (block_env lay ms code len) lay en P k S (Suc k) (gsem lay (block_lit code len) (addr_of en k) (P ! k) S) 1"
proof (rule goes_step [OF assms(2)])
  fix x assume x: "loaded en P x" "view lay x = S" "sim_pc x = addr_of en (Suc k)"
  have l: "(\<lambda>a. thunk_read_literal code len x a) = block_lit code len" by (simp add: fun_eq_iff thunk_read_literal_def block_lit_def)
  note * = insn_sem_view [OF assms(1), of "P ! k" x code len "addr_of en k", unfolded l]
  show "let y = insn_sem (block_env lay ms code len) (addr_of en k) (P ! k) x
    in view lay y = gsem lay (block_lit code len) (addr_of en k) (P ! k) S \<and> sim_pc y = addr_of en (Suc k)
       \<and> sim_status y = XT_SIM_RUN \<and> sim_code y = sim_code x \<and> sim_code_size y = sim_code_size x"
    using * x assms(3) by (simp add: loaded_def)
qed

lemma goes_seq:
  assumes "lay_ok lay ms" "code_at P k Q" "gseq_ok lay (block_lit code len) en k Q S"
  shows "goes (block_env lay ms code len) lay en P k S (k + length Q) (gseq lay (block_lit code len) en k Q S) (length Q)"
  using assms(2,3)
proof (induction Q arbitrary: k S)
  case Nil
  then show ?case by (simp add: goes_refl)
next
  case (Cons i Q)
  let ?S = "gsem lay (block_lit code len) (addr_of en k) i S"
  have k: "k < length P" "P ! k = i" "code_at P (Suc k) Q" "gok lay i S"
    "gseq_ok lay (block_lit code len) en (Suc k) Q ?S" using Cons.prems by simp_all
  have "goes (block_env lay ms code len) lay en P k S (Suc k) ?S 1"
    using goes_insn [OF assms(1) k(1), of S code len en] k(2,4) by simp
  from goes_trans [OF this Cons.IH [OF k(3,5)]] show ?case by simp
qed

section \<open>Branches, calls and the end\<close>

definition rel_to :: "nat \<Rightarrow> nat \<Rightarrow> u32" where
  "rel_to k t = of_nat (3 * t) - of_nat (3 * k)"

lemma addr_rel: "addr_of en k + rel_to k t = addr_of en t"
  by (simp add: addr_of_def rel_to_def algebra_simps)

lemma guest_pc [simp]: "guest lay (x\<lparr>sim_pc := p\<rparr>) = guest lay x"
  by (simp add: guest_def)

lemma goes_j: "k < length P \<Longrightarrow> P ! k = I_J (rel_to k t) \<Longrightarrow> goes E lay en P k S t S 1"
  by (rule goes_step) (auto simp: addr_rel loaded_def)

lemma goes_bnez:
  "k < length P \<Longrightarrow> P ! k = I_BNEZ s (rel_to k t) \<Longrightarrow> goes E lay en P k S (if fst S (unat s) \<noteq> 0 then t else Suc k) S 1"
  by (rule goes_step) (auto simp: addr_rel loaded_def areg_def view_def)

lemma goes_beqz:
  "k < length P \<Longrightarrow> P ! k = I_BEQZ s (rel_to k t) \<Longrightarrow> goes E lay en P k S (if fst S (unat s) = 0 then t else Suc k) S 1"
  by (rule goes_step) (auto simp: addr_rel loaded_def areg_def view_def)

text \<open>A call of the interpreter.\<close>

lemma goes_step_helper:
  assumes "lay_ok lay ms" "k < length P" "P ! k = I_CALLX0 s" "a (unat s) = 2" "unat s \<noteq> 0"
  shows "goes (block_env lay ms code len) lay en P k (a, g) (Suc k) (a(0 := addr_of en (Suc k)), snd (sm83_step g)) 1"
proof (rule goes_step [OF assms(2)])
  fix x assume x: "loaded en P x" "view lay x = (a, g)" "sim_pc x = addr_of en (Suc k)"
  let ?y = "wreg 0 (sim_pc x) x"
  have a: "areg x s = 2" "host_get lay (sim_host ?y) (sim_user ?y) = g"
    using x(2) assms(4) by (simp_all add: view_def guest_def areg_def wreg_def set_reg_def)
  have "insn_sem (block_env lay ms code len) (addr_of en k) (P ! k) x = thunk_dispatch lay 2 ?y"
    using a(1) by (simp add: assms(3) Let_def block_env_def)
  also have "\<dots> = ?y\<lparr>sim_host := host_put lay (snd (sm83_step g)) (sim_host ?y), sim_user := snd (sm83_step g)\<rparr>"
    by (simp add: thunk_dispatch_def Let_def a(2))
  finally show "let y = insn_sem (block_env lay ms code len) (addr_of en k) (P ! k) x
    in view lay y = (a(0 := addr_of en (Suc k)), snd (sm83_step g)) \<and> sim_pc y = addr_of en (Suc k)
       \<and> sim_status y = XT_SIM_RUN \<and> sim_code y = sim_code x \<and> sim_code_size y = sim_code_size x"
    using x host_get_put [OF assms(1)] by (simp add: view_def guest_def wreg_def set_reg_def loaded_def)
qed

text \<open>The return to the sentinel address.\<close>

lemma run_jx_0:
  assumes "loaded en P x" "at_insn en k x" "k < length P" "P ! k = I_JX 0" "sim_a x 0 = 0"
  shows "sim_status (sim_run E 1 x) = XT_SIM_RETURNED \<and> view lay (sim_run E 1 x) = view lay x"
proof -
  have "sim_run E 1 x = (x\<lparr>sim_pc := addr_of en (Suc k)\<rparr>)\<lparr>sim_status := XT_SIM_RETURNED\<rparr>"
    using step_at [OF assms(1-3), of E] assms(1,4,5) by (simp add: loaded_def areg_def return_or_def)
  then show ?thesis by (simp add: view_def guest_def)
qed

end
