(* ===== verification/Codegen_Sem.thy ===== *)
theory Codegen_Sem
  imports Codegen_Exec Interp_Run
begin

text \<open>
  Emitted code against the interpreter, one guest instruction at a time. \<open>op_ok\<close> states that the code of an
  inliner of src/jit/codegen.c does what the instruction switch of core/sm83_interp.c does: loads, moves, increments,
  flag operations and the rotates of A.
\<close>

section \<open>One instruction of the guest\<close>

text \<open>
  What the emitted code of one instruction is to do: the instruction part of \<open>sm83_step\<close>, the cycles added
  to the low half of the counter only, as \<open>emit_sync_state\<close> does. \<open>synced\<close> is the guest as \<open>emit_sync_state\<close>
  would leave it: the program counter is in \<open>a11\<close>, the cycles not yet counted are in \<open>a12\<close>.
\<close>

definition low_add :: "u32 \<Rightarrow> cpu_state \<Rightarrow> cpu_state" where
  "low_add n c = c\<lparr>cpu_cycles := set_low (ucast (cpu_cycles c) + n) (cpu_cycles c)\<rparr>"

definition jit_exec :: "cpu_state \<Rightarrow> cpu_state" where
  "jit_exec c = (let (op, c) = fetch8 c; (n, c) = exec_op op c in low_add n c)"

definition synced :: "gstate \<Rightarrow> cpu_state" where
  "synced S = low_add (fst S 12) ((snd S)\<lparr>cpu_pc := ucast (fst S 11)\<rparr>)"

lemma set_low_simps [simp]: "ucast (set_low v w) = v" "set_low u (set_low v w) = set_low u w" "set_low (ucast w) w = w"
  using join64 [of w] split64 [of v "ucast (drop_bit 32 w)"]
  by (simp_all add: set_low_def)

lemma low_add_simps [simp]:
  "low_add m (low_add n c) = low_add (n + m) c" "low_add 0 c = c"
  by (simp_all add: low_add_def algebra_simps)

section \<open>Emissions of instructions\<close>

lemma map_intros:
  "[] = map f []" "x = f u \<Longrightarrow> xs = map f us \<Longrightarrow> x # xs = map f (u # us)"
  "xs = map f us \<Longrightarrow> ys = map f vs \<Longrightarrow> xs @ ys = map f (us @ vs)"
  by simp_all

lemmas emission_of = emit_insn.simps [symmetric]

definition pre :: "mmu \<Rightarrow> u16 \<Rightarrow> gstate \<Rightarrow> bool" where
  "pre m pc S \<longleftrightarrow> fst S 13 = 0xC0DE0000 \<and> ucast (fst S 11) = pc \<and> flags_ok (snd S)
     \<and> (\<forall>i<3. mmu_read8 (cpu_mmu (snd S)) (pc + of_nat i) = mmu_read8 m (pc + of_nat i))"

definition op_ok :: "mmu_layout \<Rightarrow> mmu \<Rightarrow> u16 \<Rightarrow> emission list \<Rightarrow> bool" where
  "op_ok lay m pc fs \<longleftrightarrow> (\<exists>Q. fs = map emit_insn Q \<and> (\<forall>i\<in>set Q. insn_ok i) \<and> length Q \<le> 32
     \<and> (\<forall>lit en k S. pre m pc S \<longrightarrow> gseq_ok lay lit en k Q S \<and> fst (gseq lay lit en k Q S) 13 = 0xC0DE0000
          \<and> synced (gseq lay lit en k Q S) = jit_exec (synced S)))"

text \<open>The opcode and the operands, as the interpreter reads them.\<close>

lemma pre_reads:
  assumes "pre m pc (a, g)"
  shows "a 13 = 0xC0DE0000" "ucast (a 11) = pc" "flags_ok g" "mmu_read8 (cpu_mmu g) pc = mmu_read8 m pc"
    "mmu_read8 (cpu_mmu g) (pc + 1) = mmu_read8 m (pc + 1)" "mmu_read8 (cpu_mmu g) (pc + 2) = mmu_read8 m (pc + 2)"
proof -
  have *: "i < 3 \<Longrightarrow> mmu_read8 (cpu_mmu g) (pc + of_nat i) = mmu_read8 m (pc + of_nat i)" for i
    using assms by (simp add: pre_def)
  show "a 13 = 0xC0DE0000" "ucast (a 11) = pc" "flags_ok g" "mmu_read8 (cpu_mmu g) pc = mmu_read8 m pc"
    "mmu_read8 (cpu_mmu g) (pc + 1) = mmu_read8 m (pc + 1)" "mmu_read8 (cpu_mmu g) (pc + 2) = mmu_read8 m (pc + 2)"
    using assms * [of 0] * [of 1] * [of 2] by (simp_all add: pre_def)
qed

lemma jit_exec_synced:
  assumes "pre m pc (a, g)"
  shows "jit_exec (synced (a, g)) =
    (let (n, c) = exec_op (mmu_read8 m pc) ((low_add (a 12) g)\<lparr>cpu_pc := pc + 1\<rparr>) in low_add n c)"
  using pre_reads [OF assms] by (simp add: jit_exec_def synced_def fetch8_def rd8_def low_add_def)

lemma op_okI:
  assumes "fs = map emit_insn Q" "(\<forall>i\<in>set Q. insn_ok i) \<and> length Q \<le> 32"
    "\<And>lit en k a g. \<lbrakk>a 13 = 0xC0DE0000; ucast (a 11) = pc; flags_ok g; mmu_read8 (cpu_mmu g) (pc + 1) = mmu_read8 m (pc + 1);
        mmu_read8 (cpu_mmu g) (pc + 2) = mmu_read8 m (pc + 2)\<rbrakk> \<Longrightarrow>
      gseq_ok lay lit en k Q (a, g) \<and> fst (gseq lay lit en k Q (a, g)) 13 = 0xC0DE0000
       \<and> synced (gseq lay lit en k Q (a, g)) =
          (let (n, c) = exec_op (mmu_read8 m pc) ((low_add (a 12) g)\<lparr>cpu_pc := pc + 1\<rparr>) in low_add n c)"
  shows "op_ok lay m pc fs"
  unfolding op_ok_def
proof (intro exI conjI allI impI ballI)
  show "fs = map emit_insn Q" "length Q \<le> 32" using assms(1,2) by simp_all
  show "insn_ok i" if "i \<in> set Q" for i using assms(2) that by simp
  fix lit en k S assume p: "pre m pc S"
  obtain a g where S: "S = (a, g)" by (cases S)
  note r = pre_reads [OF p [unfolded S]]
  from assms(3) [OF r(1-3,5,6), of lit en k] jit_exec_synced [OF p [unfolded S]]
  show "gseq_ok lay lit en k Q S" "fst (gseq lay lit en k Q S) 13 = 0xC0DE0000"
    "synced (gseq lay lit en k Q S) = jit_exec (synced S)" by (simp_all add: S)
qed

lemma ucast_add_u16: "(ucast (x + y :: u32) :: u16) = ucast x + ucast y"
  by (rule word_unat_eq_iff [THEN iffD2]) (simp add: unat_word_ariths unsigned_ucast_eq unsigned_take_bit_eq take_bit_eq_mod mod_mod_cancel mod_simps)

text \<open>Flags as bits.\<close>

lemma mod2_bit: "drop_bit n (w :: u32) mod 2 = (if bit w n then 1 else 0)"
  by (simp add: bit_iff_odd_drop_bit odd_iff_mod_2_eq_one even_iff_mod_2_eq_zero)

lemma low8: "take_bit 8 (w :: u32) = ucast (ucast w :: u8)" "take_bit 16 (w :: u32) = ucast (ucast w :: u16)"
  by (rule bit_word_eqI; auto simp: bit_simps)+

lemma ucast_add_u8: "(ucast (x + y :: u32) :: u8) = ucast x + ucast y"
  by (rule word_unat_eq_iff [THEN iffD2]) (simp add: unat_word_ariths unsigned_ucast_eq unsigned_take_bit_eq take_bit_eq_mod mod_mod_cancel mod_simps)

lemma ucast_sub_u8: "(ucast (x - y :: u32) :: u8) = ucast x - ucast y"
  using ucast_add_u8 [of "x - y" y] by (simp add: eq_diff_eq)

lemma bit_u32: "bit (w :: u32) n \<longleftrightarrow> odd (unat w div 2 ^ n)"
proof -
  have "bit (unat w) n \<longleftrightarrow> bit w n" by (simp add: bit_unsigned_iff)
  then show ?thesis by (simp add: bit_iff_odd)
qed

lemma z_bit: "bit ((ucast (r :: u8) :: u32) - 1) 8 \<longleftrightarrow> r = 0"
proof (cases "r = 0")
  case False
  then have "unat ((ucast r :: u32) - 1) = unat r - 1" by (subst unat_sub) (auto simp: word_le_nat_alt unat_gt_0 Suc_le_eq)
  moreover have "unat r - 1 < 256" using unat_u8 [of r] by linarith
  ultimately show ?thesis using False by (simp add: bit_u32)
qed simp

lemma ucast_up_down [simp]: "ucast (ucast (x :: u8) :: u32) = x" "ucast (ucast (y :: u16) :: u32) = y"
  by (rule bit_word_eqI; auto simp: bit_simps)+

lemma flag_bits:
  "push_bit 7 (if b then 1 else 0 :: u32) = (if b then 0x80 else 0)"
  "push_bit 5 (if b then 1 else 0 :: u32) = (if b then 0x20 else 0)"
  "push_bit 4 (if b then 1 else 0 :: u32) = (if b then 0x10 else 0)"
  "ucast (if b then 1 else 0 :: u32) = (if b then 1 else 0 :: u8)"
  "ucast (if b then 0x80 else 0 :: u32) = (if b then 0x80 else 0 :: u8)"
  "ucast (if b then 0x20 else 0 :: u32) = (if b then 0x20 else 0 :: u8)"
  "ucast (if b then 0x10 else 0 :: u32) = (if b then 0x10 else 0 :: u8)"
  by simp_all

section \<open>The register file\<close>

lemma reg8_cases:
  "reg8_offset r = Some off \<Longrightarrow> (r AND 7, off) \<in> {(0, 3), (1, 2), (2, 5), (3, 4), (4, 7), (5, 6), (7, 1)}"
  by (auto simp: reg8_offset_def Let_def split: if_splits)

lemma reg8_offset_bound: "reg8_offset r = Some off \<Longrightarrow> off \<le> 255"
  using reg8_cases [of r off] by auto

lemma reg8_mem:
  assumes "reg8_offset r = Some off"
  shows "acc_ok lay (Suc 0) (0xC0DE0000 + off)" "gld lay (Suc 0) (0xC0DE0000 + off) g = ucast (reg8_read r g)"
    "lay_ok lay ms \<Longrightarrow> gst lay (Suc 0) (0xC0DE0000 + off) v g = reg8_write r (ucast v) g"
  using reg8_cases [OF assms] by (elim insertE emptyE; simp add: reg8_read_def reg8_write_def Let_def gst_cpu)+

lemma reg8_comm:
  assumes "reg8_offset r = Some off"
  shows "reg8_read r (c\<lparr>cpu_pc := p\<rparr>) = reg8_read r c" "reg8_read r (low_add n c) = reg8_read r c"
    "reg8_read r (c\<lparr>cpu_f := f\<rparr>) = reg8_read r c"
    "reg8_write r v (c\<lparr>cpu_pc := p\<rparr>) = (reg8_write r v c)\<lparr>cpu_pc := p\<rparr>" "reg8_write r v (low_add n c) = low_add n (reg8_write r v c)"
    "reg8_write r v (c\<lparr>cpu_f := f\<rparr>) = (reg8_write r v c)\<lparr>cpu_f := f\<rparr>"
  using reg8_cases [OF assms] by (elim insertE emptyE; simp add: reg8_read_def reg8_write_def low_add_def Let_def)+

lemma low_add_comm:
  "low_add n (c\<lparr>cpu_pc := p\<rparr>) = (low_add n c)\<lparr>cpu_pc := p\<rparr>" "low_add n (c\<lparr>cpu_f := f\<rparr>) = (low_add n c)\<lparr>cpu_f := f\<rparr>"
  "low_add n (c\<lparr>cpu_a := v\<rparr>) = (low_add n c)\<lparr>cpu_a := v\<rparr>" "low_add n (c\<lparr>cpu_sp := w\<rparr>) = (low_add n c)\<lparr>cpu_sp := w\<rparr>"
  "low_add n (c\<lparr>cpu_halted := v\<rparr>) = (low_add n c)\<lparr>cpu_halted := v\<rparr>"
  "c\<lparr>cpu_f := f, cpu_pc := p\<rparr> = c\<lparr>cpu_pc := p, cpu_f := f\<rparr>" "c\<lparr>cpu_a := v, cpu_pc := p\<rparr> = c\<lparr>cpu_pc := p, cpu_a := v\<rparr>"
  "c\<lparr>cpu_f := f, cpu_a := v\<rparr> = c\<lparr>cpu_a := v, cpu_f := f\<rparr>" "c\<lparr>cpu_sp := w, cpu_pc := p\<rparr> = c\<lparr>cpu_pc := p, cpu_sp := w\<rparr>"
  "c\<lparr>cpu_halted := v, cpu_pc := p\<rparr> = c\<lparr>cpu_pc := p, cpu_halted := v\<rparr>"
  by (simp_all add: low_add_def)

lemma low_add_sel [simp]:
  "cpu_f (low_add n c) = cpu_f c" "cpu_pc (low_add n c) = cpu_pc c" "cpu_a (low_add n c) = cpu_a c" "cpu_sp (low_add n c) = cpu_sp c"
  "cpu_mmu (low_add n c) = cpu_mmu c" "cpu_hl (low_add n c) = cpu_hl c" "cpu_bc (low_add n c) = cpu_bc c" "cpu_de (low_add n c) = cpu_de c"
  "carry_in (low_add n c) = carry_in c"
  by (simp_all add: low_add_def cpu_hl_def cpu_bc_def cpu_de_def carry_in_def)

section \<open>Flags\<close>

lemma unat_nibble: "unat (take_bit 4 (ucast (v :: u8) :: u32)) = unat v mod 16"
  by (simp add: unsigned_take_bit_eq take_bit_eq_mod unat_mod)

lemma uint_nibble: "uint (v AND 0xF) = int (unat (v :: u8) mod 16)"
  by (metis unat_low4 uint_nat)

lemma inc_dec_bits:
  "bit (take_bit 4 (ucast (v :: u8) :: u32) + 1) 4 \<longleftrightarrow> 0xF < uint (v AND 0xF) + 1"
  "bit (take_bit 4 (ucast (v :: u8) :: u32) - 1) 4 \<longleftrightarrow> v AND 0xF = 0"
proof -
  let ?x = "take_bit 4 (ucast v :: u32)"
  have x: "unat ?x = unat v mod 16" by (rule unat_nibble)
  have "unat (?x + 1) = unat v mod 16 + 1" using x by (subst unat_add_u32) auto
  then show "bit (?x + 1) 4 \<longleftrightarrow> 0xF < uint (v AND 0xF) + 1"
    using mod_less_divisor [of 16 "unat v"] unfolding uint_nibble bit_u32 by (cases "unat v mod 16 = 15") auto
  have z: "v AND 0xF = 0 \<longleftrightarrow> unat v mod 16 = 0" by (metis unat_low4 unat_eq_0)
  show "bit (?x - 1) 4 \<longleftrightarrow> v AND 0xF = 0"
  proof (cases "unat v mod 16 = 0")
    case True
    then have "?x = 0" using x by (simp add: unat_eq_0 [symmetric])
    then show ?thesis using True z by (simp add: bit_simps)
  next
    case False
    then have "unat (?x - 1) = unat v mod 16 - 1" using x by (subst unat_sub) (auto simp: word_le_nat_alt)
    then show ?thesis using False z mod_less_divisor [of 16 "unat v"] by (simp add: bit_u32)
  qed
qed

lemma ucast_down: "(ucast (x OR y :: u32) :: u8) = ucast x OR ucast y" "(ucast (x AND y :: u32) :: u8) = ucast x AND ucast y"
  "(ucast (x XOR y :: u32) :: u8) = ucast x XOR ucast y"
  by (simp_all add: unsigned_or_eq unsigned_and_eq unsigned_xor_eq)

lemmas jit_simps = synced_def Let_def low_add_comm mod2_bit low8 z_bit ucast_add_u16 ucast_add_u8 ucast_sub_u8
  ucast_down or.assoc flag_bits inc_dec_bits

text \<open>8-bit increments and decrements.\<close>

lemma exec_inc_dec:
  assumes "op \<in> {0x04, 0x0C, 0x14, 0x1C, 0x24, 0x2C, 0x3C, 0x05, 0x0D, 0x15, 0x1D, 0x25, 0x2D, 0x3D}"
  shows "exec_op op s = (4, if op AND 1 \<noteq> 0 then dec_r (drop_bit 3 op AND 7) s else inc_r (drop_bit 3 op AND 7) s)"
    "reg8_offset (drop_bit 3 op AND 7) \<noteq> None"
  using assms by (elim insertE emptyE; simp add: exec_op_def exec_00_def exec_20_def timed_def op_info_def Let_def reg8_offset_def)+

lemma inc_dec_ok:
  assumes "lay_ok lay ms" "mmu_read8 m pc = op" "op \<in> {0x04, 0x0C, 0x14, 0x1C, 0x24, 0x2C, 0x3C, 0x05, 0x0D, 0x15, 0x1D, 0x25, 0x2D, 0x3D}"
  shows "\<exists>fs. inline_inc_dec op I = inlined fs \<and> op_ok lay m pc fs"
proof -
  note x = exec_inc_dec [OF assms(3)]
  obtain off where off: "reg8_offset (drop_bit 3 op AND 7) = Some off" using x(2) by blast
  note simps = jit_simps reg8_offset_bound [OF off] reg8_mem(1,2) [OF off] reg8_mem(3) [OF off assms(1)] gst_cpu [OF assms(1)]
    assms(2) x(1) dec_r_def inc_r_def alu_dec8_def alu_inc8_def reg8_comm [OF off]
  define delta :: u32 where "delta = (if op AND 1 \<noteq> 0 then - 1 else 1)"
  define ns where "ns = (if op AND 1 \<noteq> 0 then emit_setflag_const 4 FLAG_N 7 else [])"
  let ?fs = "[xt_l8ui 2 13 off, xt_addi 3 2 delta, xt_extui 3 3 0 7, xt_s8i 3 13 off, xt_l8ui 4 13 OFF_F, xt_movi 5 (ucast FLAG_C), xt_and 4 4 5]
      @ emit_zflag 3 4 7 @ ns
      @ [xt_extui 7 2 0 3, xt_addi 7 7 delta, xt_extui 7 7 4 0, xt_slli 7 7 5, xt_or 4 4 7, xt_s8i 4 13 OFF_F] @ emit_advance 1 4"
  have "op_ok lay m pc ?fs"
  proof (cases "op AND 1 \<noteq> 0")
    case True
    show ?thesis
      unfolding delta_def ns_def if_P [OF True] emit_zflag_def emit_setflag_const_def emit_advance_def
      by (rule op_okI, (rule map_intros emission_of)+) (simp_all add: True simps srange_def split del: if_split)
  next
    case False
    show ?thesis
      unfolding delta_def ns_def if_not_P [OF False] emit_zflag_def emit_advance_def
      by (rule op_okI, (rule map_intros emission_of)+) (simp_all add: False [simplified] simps srange_def split del: if_split)
  qed
  moreover have "inline_inc_dec op I = inlined ?fs"
    using off by (simp add: inline_inc_dec_def Let_def fun_eq_iff delta_def ns_def)
  ultimately show ?thesis by blast
qed

section \<open>Loads of registers\<close>

lemma decode_40: "0x40 \<le> op \<Longrightarrow> op \<le> 0x7F \<Longrightarrow> op AND 7 \<noteq> 6 \<Longrightarrow> drop_bit 3 op AND 7 \<noteq> 6 \<Longrightarrow> cycles_notaken (sm83_decode op) = 4"
  using u8_range [of "0x40" "0x80" "\<lambda>op. op AND 7 \<noteq> 6 \<longrightarrow> drop_bit 3 op AND 7 \<noteq> 6 \<longrightarrow> cycles_notaken (sm83_decode op) = 4" op]
  by (simp add: word_le_nat_alt op_info_def upt_rec)

lemma low_cases [consumes 1]: "n < (8 :: nat) \<Longrightarrow> n = 0 \<or> n = 1 \<or> n = 2 \<or> n = 3 \<or> n = 4 \<or> n = 5 \<or> n = 6 \<or> n = 7"
  by auto

lemma reg8_some: "r AND 7 \<noteq> 6 \<Longrightarrow> \<exists>off. reg8_offset r = Some off"
proof -
  assume r: "r AND 7 \<noteq> 6"
  have "r AND 7 = take_bit 3 r" by (simp add: take_bit_eq_mask mask_eq_exp_minus_1)
  then have "unat (r AND 7) < 8" by (simp add: unsigned_take_bit_eq take_bit_eq_mod unat_mod)
  from low_cases [OF this] r have "r AND 7 \<in> {0, 1, 2, 3, 4, 5, 7}" by (auto simp: word_unat_eq_iff)
  then show ?thesis by (auto simp: reg8_offset_def Let_def)
qed

lemma reg8_not_hl: "reg8_offset r = Some off \<Longrightarrow> r AND 7 \<noteq> 6"
  using reg8_cases [of r off] by auto

lemma nop_ok: "mmu_read8 m pc = 0 \<Longrightarrow> op_ok lay m pc (emit_advance 1 4)"
  unfolding emit_advance_def
  by (rule op_okI, (rule map_intros emission_of)+)
    (simp_all add: jit_simps srange_def exec_op_def exec_00_def timed_def op_info_def split del: if_split)

lemma ld_r_r_ok:
  assumes "lay_ok lay ms" "mmu_read8 m pc = op" "0x40 \<le> op" "op \<le> 0x7F" "op \<noteq> 0x76" "op AND 7 \<noteq> 6" "drop_bit 3 op AND 7 \<noteq> 6"
  shows "\<exists>fs. inline_ld_r_r op I = inlined fs \<and> op_ok lay m pc fs"
proof -
  obtain d where d: "reg8_offset (drop_bit 3 op AND 7) = Some d" using reg8_some [of "drop_bit 3 op AND 7"] assms(7) by auto
  obtain s where s: "reg8_offset (op AND 7) = Some s" using reg8_some [of "op AND 7"] assms(6) by auto
  have x: "exec_op op c = (4, reg8_write (drop_bit 3 op AND 7) (reg8_read (op AND 7) c) c)" for c
    using assms(3-7) decode_40 [of op]
    by (auto simp: exec_op_def exec_40_def timed_def Let_def word_less_nat_alt word_le_nat_alt)
  have "op_ok lay m pc ([xt_l8ui 2 13 s, xt_s8i 2 13 d] @ emit_advance 1 4)"
    unfolding emit_advance_def
    by (rule op_okI, (rule map_intros emission_of)+)
      (simp_all add: jit_simps srange_def x assms(2) reg8_offset_bound [OF d] reg8_offset_bound [OF s] reg8_mem(1,2) [OF s] reg8_mem(1) [OF d]
        reg8_mem(3) [OF d assms(1)] reg8_comm [OF d] reg8_comm [OF s] split del: if_split)
  then show ?thesis using d s by (auto simp: inline_ld_r_r_def fun_eq_iff intro!: exI)
qed

lemma exec_ld_r_n8:
  assumes "op \<in> {0x06, 0x0E, 0x16, 0x1E, 0x26, 0x2E, 0x3E}"
  shows "exec_op op s = (8, ld_r_n8 (drop_bit 3 op AND 7) s)" "reg8_offset (drop_bit 3 op AND 7) \<noteq> None"
  using assms by (elim insertE emptyE; simp add: exec_op_def exec_00_def exec_20_def timed_def op_info_def Let_def reg8_offset_def)+

lemma srange_small: "unat w \<le> 2047 \<Longrightarrow> srange 11 (w :: u32)"
proof -
  assume w: "unat w \<le> 2047"
  then have u: "uint w \<le> 2047" using of_nat_unat [of w, where ?'a = int] by linarith
  then have "signed_take_bit 31 (uint w) = uint w"
    by (intro signed_take_bit_int_eq_self order_trans [OF _ uint_ge_0]) simp_all
  with sint_uint [of w] have "sint w = uint w" by simp
  moreover have "- 2048 \<le> uint w" by (rule order_trans [OF _ uint_ge_0]) simp
  ultimately show ?thesis using u by (simp add: srange_def)
qed

lemma srange_u8: "srange 11 (ucast (v :: u8))"
proof (rule srange_small)
  show "unat (ucast v :: u32) \<le> 2047" using unat_u8 [of v] by (simp del: unat_u8)
qed

lemmas srange_u8' = srange_u8 [unfolded srange_def, simplified]

lemma ld_r_n8_ok:
  assumes "lay_ok lay ms" "mmu_read8 m pc = op" "op \<in> {0x06, 0x0E, 0x16, 0x1E, 0x26, 0x2E, 0x3E}" "ic_m I = m"
  shows "\<exists>fs. inline_ld_r_n8 op pc I = inlined fs \<and> op_ok lay m pc fs"
proof -
  note x = exec_ld_r_n8 [OF assms(3)]
  obtain d where d: "reg8_offset (drop_bit 3 op AND 7) = Some d" using x(2) by blast
  have "op_ok lay m pc ([xt_movi 2 (ucast (mmu_read8 m (pc + 1))), xt_s8i 2 13 d] @ emit_advance 2 8)"
    unfolding emit_advance_def
    by (rule op_okI, (rule map_intros emission_of)+)
      (simp_all add: jit_simps srange_def srange_u8' x(1) assms(2) ld_r_n8_def fetch8_def rd8_def reg8_offset_bound [OF d] reg8_mem(1) [OF d]
        reg8_mem(3) [OF d assms(1)] reg8_comm [OF d] split del: if_split)
  then show ?thesis using d assms(4) by (auto simp: inline_ld_r_n8_def Let_def fun_eq_iff intro!: exI)
qed

section \<open>Flags and A\<close>

lemma byte_eqI: "(\<And>n. n \<in> {0, 1, 2, 3, 4, 5, 6, 7} \<Longrightarrow> bit v n = bit w n) \<Longrightarrow> v = (w :: u8)"
proof (rule bit_word_eqI)
  fix n assume e: "\<And>n. n \<in> {0, 1, 2, 3, 4, 5, 6, 7} \<Longrightarrow> bit v n = bit w n" and "n < LENGTH(8)"
  then have "n \<in> {0, 1, 2, 3, 4, 5, 6, 7}" using low_cases [of n] by simp
  then show "bit v n = bit w n" by (rule e)
qed

lemma flags_nibble: 
  assumes "f AND 0xF = 0"
  shows "f AND 0x90 OR 0x60 = f OR (0x60 :: u8)" "f AND 0xF0 = (f :: u8)"
proof -
  have "take_bit 4 f = 0" using assms by (simp add: low_mask4)
  then have "\<not> bit f n" if "n < 4" for n using that bit_take_bit_iff [of 4 f n] by simp
  from this [of 0] this [of 1] this [of 2] this [of 3]
  show "f AND 0x90 OR 0x60 = f OR (0x60 :: u8)" "f AND 0xF0 = (f :: u8)"
    by (auto intro!: byte_eqI simp: bit_simps)
qed

lemma xor_ff: "(a :: u8) XOR 0xFF = NOT a"
  by (rule byte_eqI) (auto simp: bit_simps)

lemma cpl_ok:
  assumes "lay_ok lay ms" "mmu_read8 m pc = 0x2F"
  shows "\<exists>fs. inline_cpl I = inlined fs \<and> op_ok lay m pc fs"
  unfolding inline_cpl_def emit_advance_def
  by (intro exI conjI, rule refl, rule op_okI, (rule map_intros emission_of)+)
    (simp_all add: jit_simps srange_def gst_cpu [OF assms(1)] assms(2) exec_op_def exec_20_def timed_def op_info_def 
     flags_nibble xor_ff flags_ok_def split del: if_split)

lemma bit_of_word: "(w :: 'a::len word) AND 1 = (if bit w 0 then 1 else 0)" "w mod 2 = (if bit w 0 then 1 else 0)"
  by (simp_all add: and_one_eq mod2_eq_if bit_0 flip: even_iff_mod_2_eq_zero)

lemma bit_up: "bit (ucast (a :: u8) :: u32) n \<longleftrightarrow> bit a n"
  by (auto simp: bit_simps dest: bit_imp_le_length)

lemma top_bit: "push_bit 7 (a :: u8) AND 0x80 = (if bit a 0 then 0x80 else 0)" "a AND 0x80 = (if bit a 7 then 0x80 else 0)"
  by (rule byte_eqI, auto simp: bit_simps)+

lemma shift_down: "(ucast (drop_bit n (ucast (a :: u8) :: u32)) :: u8) = drop_bit n a"
  by (rule bit_word_eqI) (auto simp: bit_simps dest: bit_imp_le_length)

lemma shift_up: "(ucast (push_bit n (ucast (a :: u8) :: u32)) :: u8) = push_bit n a"
  by (rule bit_word_eqI) (auto simp: bit_simps)

lemma shift_up1: "(ucast (ucast (a :: u8) * 2 :: u32) :: u8) = a * 2"
  using shift_up [of 1 a] by (simp add: push_bit_eq_mult)

lemma bit_if: "bit (if b then 1 else 0 :: 'a::semiring_bit_operations) 0 = b" "((if b then 1 else 0 :: 'a::semiring_bit_operations) = 0) = (\<not> b)"
  by simp_all

lemma push_if: "push_bit 7 (if b then 1 else 0 :: u8) = (if b then 0x80 else 0)"
  by simp

lemma bit_drop: "bit (drop_bit n w) 0 = bit w n"
  by (simp add: bit_simps)

lemma carry_bit: "carry_in g = (if bit (cpu_f g) 4 then 1 else 0)"
proof -
  have "cpu_f g AND 0x10 = 0 \<longleftrightarrow> \<not> bit (cpu_f g) 4"
    using and_exp_eq_0_iff_not_bit [of "cpu_f g" 4] by simp
  then show ?thesis by (simp add: carry_in_def has_def)
qed

lemma carry_pc [simp]: "carry_in (c\<lparr>cpu_pc := p\<rparr>) = carry_in c"
  by (simp add: carry_in_def)

lemma z_bit_of:
  "w = ucast (x :: u8) \<Longrightarrow> bit (w - 1 :: u32) 8 \<longleftrightarrow> x = 0"
  by (simp add: z_bit)

lemma z_bits:
  "bit ((ucast (x :: u8) AND ucast y) - 1 :: u32) 8 \<longleftrightarrow> x AND y = 0"
  "bit ((ucast (x :: u8) OR ucast y) - 1 :: u32) 8 \<longleftrightarrow> x OR y = 0"
  "bit ((ucast (x :: u8) XOR ucast y) - 1 :: u32) 8 \<longleftrightarrow> x XOR y = 0"
  "bit (drop_bit n (ucast (x :: u8)) - 1 :: u32) 8 \<longleftrightarrow> drop_bit n x = 0"
  "bit ((drop_bit n (ucast (x :: u8)) OR ucast y) - 1 :: u32) 8 \<longleftrightarrow> drop_bit n x OR y = 0"
  by (rule z_bit_of, rule bit_word_eqI, force simp: bit_simps dest: bit_imp_le_length)+

lemma z_bit_top:
  "bit ((drop_bit n (ucast (x :: u8)) OR (if b then 0x80 else 0)) - 1 :: u32) 8 \<longleftrightarrow> drop_bit n x OR (if b then 0x80 else 0) = 0"
proof (rule z_bit_of)
  show "drop_bit n (ucast x) OR (if b then 0x80 else 0) = (ucast (drop_bit n x OR (if b then 0x80 else 0) :: u8) :: u32)"
  proof -
    have e: "(0x80 :: u32) = 2 ^ 7" "(0x80 :: u8) = 2 ^ 7" by simp_all
    show ?thesis unfolding e
      by (rule bit_word_eqI) (cases b; force simp: bit_simps simp del: exp_eq_0_imp_not_bit power_numeral dest: bit_imp_le_length)
  qed
qed

lemma z_bit_if: "bit ((if b then 1 else 0 :: u32) - 1) 8 \<longleftrightarrow> \<not> b"
  by (simp add: bit_simps)

lemma two_comm: "(2 :: u16) + p = p + 2" by (rule add.commute)

lemma xor_carry: "(f AND 0x90) XOR 0x10 = f AND 0x80 OR ((f AND 0x10) XOR (0x10 :: u8))"
  by (rule byte_eqI) (auto simp: bit_simps)

lemmas bit_lemmas = bit_of_word bit_up top_bit shift_up shift_up1 shift_down bit_if bit_drop push_if carry_bit xor_carry z_bits z_bit_top z_bit_if two_comm

lemma scf_ok:
  assumes "lay_ok lay ms" "mmu_read8 m pc = op" "op = 0x37 \<or> op = 0x3F"
  shows "\<exists>fs. inline_scf_ccf op I = inlined fs \<and> op_ok lay m pc fs"
proof -
  note simps = jit_simps srange_def gst_cpu [OF assms(1)] exec_op_def exec_20_def timed_def op_info_def bit_lemmas
  have "mmu_read8 m pc = 0x37 \<Longrightarrow> \<exists>fs. inline_scf_ccf 0x37 I = inlined fs \<and> op_ok lay m pc fs"
    "mmu_read8 m pc = 0x3F \<Longrightarrow> \<exists>fs. inline_scf_ccf 0x3F I = inlined fs \<and> op_ok lay m pc fs"
    by (simp_all add: inline_scf_ccf_def emit_advance_def Let_def)
      ((rule exI, rule conjI, rule refl, rule op_okI, (rule map_intros emission_of)+); simp add: simps split del: if_split)+
  then show ?thesis using assms(2,3) by auto
qed

text \<open>The rotates of A.\<close>

definition rot_code :: "u8 \<Rightarrow> emission list" where
  "rot_code op = [xt_l8ui 2 13 OFF_A] @ rot_a_code op
     @ [xt_s8i 5 13 OFF_A, xt_movi 4 0, xt_slli 6 6 4, xt_or 4 4 6, xt_s8i 4 13 OFF_F] @ emit_advance 1 4"

lemma rot_code_ok:
  assumes "lay_ok lay ms"
  shows "mmu_read8 m pc = 0x07 \<Longrightarrow> op_ok lay m pc (rot_code 0x07)"
    "mmu_read8 m pc = 0x0F \<Longrightarrow> op_ok lay m pc (rot_code 0x0F)"
    "mmu_read8 m pc = 0x17 \<Longrightarrow> op_ok lay m pc (rot_code 0x17)"
    "mmu_read8 m pc = 0x1F \<Longrightarrow> op_ok lay m pc (rot_code 0x1F)"
  by (simp_all add: rot_code_def rot_a_code_def emit_advance_def)
    ((rule op_okI, (rule map_intros emission_of)+);
     simp add: jit_simps srange_def gst_cpu [OF assms(1)] exec_op_def exec_00_def timed_def op_info_def
       op_rlca_def op_rrca_def op_rla_def op_rra_def set_flags_def flags_of_def bit_lemmas split del: if_split)+

lemma rot_a_ok:
  assumes "lay_ok lay ms" "mmu_read8 m pc = op" "op \<in> {0x07, 0x0F, 0x17, 0x1F}"
  shows "\<exists>fs. inline_rot_a op I = inlined fs \<and> op_ok lay m pc fs"
proof (intro exI conjI)
  show "inline_rot_a op I = inlined (rot_code op)" by (simp add: fun_eq_iff inline_rot_a_def rot_code_def)
  show "op_ok lay m pc (rot_code op)" using rot_code_ok [OF assms(1)] assms(2,3) by auto
qed

end
