(* ===== verification/Codegen_Sem_Alu.thy ===== *)
theory Codegen_Sem_Alu
  imports Codegen_Sem
begin

text \<open>
  The inliners for the CB prefix and for the eight ALU operations, \<open>ALU_INLINE\<close> of src/jit/codegen.c, against the
  interpreter.
\<close>

definition cb_code :: "u32 \<Rightarrow> u8 \<Rightarrow> u8 \<Rightarrow> emission list" where
  "cb_code reg_off grp sub_op = [xt_l8ui 2 13 reg_off]
             @ (if grp = 0 then
                  cb_shift_code sub_op @ [xt_s8i 5 13 reg_off, xt_movi 4 0] @ emit_zflag 5 4 7
                  @ [xt_slli 6 6 4, xt_or 4 4 6, xt_s8i 4 13 OFF_F]
                else if grp = 1 then
                  [xt_extui 3 2 sub_op 0, xt_l8ui 4 13 OFF_F, xt_movi 5 (ucast FLAG_C), xt_and 4 4 5]
                  @ emit_zflag 3 4 7 @ emit_setflag_const 4 FLAG_H 7 @ [xt_s8i 4 13 OFF_F]
                else if grp = 2 then
                  [xt_movi 3 (ucast (NOT (push_bit (unat sub_op) 1) :: u8)), xt_and 2 2 3, xt_s8i 2 13 reg_off]
                else
                  [xt_movi 3 (ucast (push_bit (unat sub_op) 1 :: u8)), xt_or 2 2 3, xt_s8i 2 13 reg_off])
             @ emit_advance 2 8"

lemma exec_cb_reg:
  assumes "reg8_offset (sub AND 7) = Some off" "mmu_read8 (cpu_mmu c) (cpu_pc c) = sub"
  shows "exec_op 0xCB c = (let c = c\<lparr>cpu_pc := cpu_pc c + 1\<rparr>; reg = sub AND 7; grp = drop_bit 6 sub AND 3; sub = drop_bit 3 sub AND 7; v = reg8_read reg c 
   in (8, if grp = 0 then reg8_write reg (fst (cb_shift sub v c)) (snd (cb_shift sub v c)) else if grp = 1 then op_bit (unat sub) v c
       else if grp = 2 then reg8_write reg (v AND NOT (push_bit (unat sub) 1)) c else reg8_write reg (v OR push_bit (unat sub) 1) c))"
  using reg8_not_hl [OF assms(1)] assms(2) by (simp add: exec_op_def exec_cb_def fetch8_def rd8_def Let_def case_prod_beta)

lemmas cb_defs = cb_code_def cb_shift_code_def emit_advance_def emit_zflag_def emit_setflag_const_def

lemma cb_code_ok:
  assumes "lay_ok lay ms" "mmu_read8 m pc = 0xCB" "mmu_read8 m (pc + 1) = sub" "reg8_offset (sub AND 7) = Some off"
    "drop_bit 6 sub AND 3 = grp" "drop_bit 3 sub AND 7 = k" "k \<le> 31"
  shows "grp = 0 \<Longrightarrow> k = 0 \<Longrightarrow> op_ok lay m pc (cb_code off grp k)" "grp = 0 \<Longrightarrow> k = 1 \<Longrightarrow> op_ok lay m pc (cb_code off grp k)"
    "grp = 0 \<Longrightarrow> k = 2 \<Longrightarrow> op_ok lay m pc (cb_code off grp k)" "grp = 0 \<Longrightarrow> k = 3 \<Longrightarrow> op_ok lay m pc (cb_code off grp k)"
    "grp = 0 \<Longrightarrow> k = 4 \<Longrightarrow> op_ok lay m pc (cb_code off grp k)" "grp = 0 \<Longrightarrow> k = 5 \<Longrightarrow> op_ok lay m pc (cb_code off grp k)"
    "grp = 0 \<Longrightarrow> k = 6 \<Longrightarrow> op_ok lay m pc (cb_code off grp k)" "grp = 0 \<Longrightarrow> k = 7 \<Longrightarrow> op_ok lay m pc (cb_code off grp k)"
    "grp = 1 \<Longrightarrow> op_ok lay m pc (cb_code off grp k)" "grp = 2 \<Longrightarrow> op_ok lay m pc (cb_code off grp k)"
    "grp = 3 \<Longrightarrow> op_ok lay m pc (cb_code off grp k)"
proof -
  note simps = jit_simps srange_def srange_u8' gst_cpu [OF assms(1)] exec_cb_reg [OF assms(4)] assms(2,3,5-) reg8_mem(1,2) [OF assms(4)]
    reg8_mem(3) [OF assms(4,1)] reg8_comm [OF assms(4)] reg8_offset_bound [OF assms(4)] cb_shift_def set_flags_def flags_of_def bit_lemmas
    op_rlc_def op_rrc_def op_rl_def op_rr_def op_sla_def op_sra_def op_swap_def op_srl_def op_bit_def
  show "grp = 0 \<Longrightarrow> k = 0 \<Longrightarrow> op_ok lay m pc (cb_code off grp k)" "grp = 0 \<Longrightarrow> k = 1 \<Longrightarrow> op_ok lay m pc (cb_code off grp k)"
    "grp = 0 \<Longrightarrow> k = 2 \<Longrightarrow> op_ok lay m pc (cb_code off grp k)" "grp = 0 \<Longrightarrow> k = 3 \<Longrightarrow> op_ok lay m pc (cb_code off grp k)"
    "grp = 0 \<Longrightarrow> k = 4 \<Longrightarrow> op_ok lay m pc (cb_code off grp k)" "grp = 0 \<Longrightarrow> k = 5 \<Longrightarrow> op_ok lay m pc (cb_code off grp k)"
    "grp = 0 \<Longrightarrow> k = 6 \<Longrightarrow> op_ok lay m pc (cb_code off grp k)" "grp = 0 \<Longrightarrow> k = 7 \<Longrightarrow> op_ok lay m pc (cb_code off grp k)"
    "grp = 1 \<Longrightarrow> op_ok lay m pc (cb_code off grp k)" "grp = 2 \<Longrightarrow> op_ok lay m pc (cb_code off grp k)"
    "grp = 3 \<Longrightarrow> op_ok lay m pc (cb_code off grp k)"
    by (simp_all add: cb_defs) ((rule op_okI, (rule map_intros emission_of)+); simp add: simps split del: if_split)+
qed

lemma cb_fields:
  fixes sub :: u8
  defines "k \<equiv> drop_bit 3 sub AND 7" and "grp \<equiv> drop_bit 6 sub AND 3"
  shows "k = 0 \<or> k = 1 \<or> k = 2 \<or> k = 3 \<or> k = 4 \<or> k = 5 \<or> k = 6 \<or> k = 7" "grp = 0 \<or> grp = 1 \<or> grp = 2 \<or> grp = 3"
proof -
  have "k = take_bit 3 (drop_bit 3 sub)" "grp = take_bit 2 (drop_bit 6 sub)"
    by (simp_all add: k_def grp_def take_bit_eq_mask mask_eq_exp_minus_1)
  then have "unat k = unat (drop_bit 3 sub) mod 8" "unat grp = unat (drop_bit 6 sub) mod 4"
    by (simp_all add: unsigned_take_bit_eq take_bit_eq_mod unat_mod)
  then have "unat k < 8" "unat grp < 4" by simp_all
  then show "k = 0 \<or> k = 1 \<or> k = 2 \<or> k = 3 \<or> k = 4 \<or> k = 5 \<or> k = 6 \<or> k = 7" "grp = 0 \<or> grp = 1 \<or> grp = 2 \<or> grp = 3"
    using low_cases [of "unat k"] low_cases [of "unat grp"] by (auto simp: word_unat_eq_iff)
qed

lemma cb_ok:
  assumes "lay_ok lay ms" "mmu_read8 m pc = 0xCB" "mmu_read8 m (pc + 1) = sub" "sub AND 7 \<noteq> 6" "ic_m I = m"
  shows "\<exists>fs. inline_cb pc I = inlined fs \<and> op_ok lay m pc fs"
proof -
  obtain off where off: "reg8_offset (sub AND 7) = Some off" using reg8_some [of "sub AND 7"] assms(4) by auto
  define grp k where "grp = drop_bit 6 sub AND 3" and "k = drop_bit 3 sub AND 7"
  have "k = 0 \<or> k = 1 \<or> k = 2 \<or> k = 3 \<or> k = 4 \<or> k = 5 \<or> k = 6 \<or> k = 7" "grp = 0 \<or> grp = 1 \<or> grp = 2 \<or> grp = 3"
    unfolding k_def grp_def by (rule cb_fields)+
  then have "op_ok lay m pc (cb_code off grp k)"
    using cb_code_ok [OF assms(1-3) off grp_def [symmetric] k_def [symmetric]] by auto
  moreover have "inline_cb pc I = inlined (cb_code off grp k)"
    using off assms(3,5) by (simp add: fun_eq_iff inline_cb_def Let_def cb_code_def grp_def k_def)
  ultimately show ?thesis by blast
qed

section \<open>Carries\<close>

lemma odd_div: "s < 2 * d \<Longrightarrow> odd (s div d) \<longleftrightarrow> d \<le> (s :: nat)"
proof (cases "d \<le> s")
  case True
  moreover assume "s < 2 * d"
  ultimately have "s div d = 1" by (intro div_nat_eqI) auto
  then show ?thesis using True by simp
qed simp

lemma bit_sum: "unat x + unat y < 2 * 2 ^ n \<Longrightarrow> n < 31 \<Longrightarrow> bit (x + y :: u32) n \<longleftrightarrow> 2 ^ n \<le> unat x + unat y"
proof -
  assume a: "unat x + unat y < 2 * 2 ^ n" "n < 31"
  have "(2 :: nat) ^ n \<le> 2 ^ 30" using a(2) by (intro power_increasing) auto
  then have "unat (x + y) = unat x + unat y" using a(1) by (intro unat_add_u32) auto
  then show ?thesis using a(1) by (simp add: bit_u32 odd_div)
qed

lemma unat_diff: "unat (x - y :: u32) = (if unat y \<le> unat x then unat x - unat y else 4294967296 - (unat y - unat x))"
  by (cases "unat y \<le> unat x") (simp_all add: unat_sub_if')

lemma bit_diff:
  "unat x < 16 \<Longrightarrow> unat y \<le> 16 \<Longrightarrow> bit (x - y :: u32) 4 \<longleftrightarrow> unat x < unat y"
  "unat x < 256 \<Longrightarrow> unat y \<le> 256 \<Longrightarrow> bit (x - y :: u32) 8 \<longleftrightarrow> unat x < unat y"
proof -
  have d: "0 < d \<Longrightarrow> d \<le> 16 \<Longrightarrow> (4294967296 - d) div 16 = (268435455 :: nat)" for d
    by (intro div_nat_eqI) simp_all
  have d': "0 < d \<Longrightarrow> d \<le> 256 \<Longrightarrow> (4294967296 - d) div 256 = (16777215 :: nat)" for d
    by (intro div_nat_eqI) simp_all
  show "unat x < 16 \<Longrightarrow> unat y \<le> 16 \<Longrightarrow> bit (x - y :: u32) 4 \<longleftrightarrow> unat x < unat y"
    using d [of "unat y - unat x"] by (auto simp: bit_u32 unat_diff simp del: diff_diff_right)
  show "unat x < 256 \<Longrightarrow> unat y \<le> 256 \<Longrightarrow> bit (x - y :: u32) 8 \<longleftrightarrow> unat x < unat y"
    using d' [of "unat y - unat x"] by (auto simp: bit_u32 unat_diff simp del: diff_diff_right)
qed

lemma unat_up8: "unat (ucast (a :: u8) :: u32) = unat a" "unat (ucast (w :: u16) :: u32) = unat w" "unat (ucast (a :: u8) :: u16) = unat a"
  by simp_all

lemma unat_if: "unat (if b then 1 else 0 :: 'a::len word) = (if b then 1 else 0)" "uint (if b then 1 else 0 :: 'a::len word) = (if b then 1 else 0)"
  by simp_all

lemma h_bits:
  "bit (take_bit 4 (ucast (a :: u8)) + take_bit 4 (ucast (v :: u8)) :: u32) 4 \<longleftrightarrow> 0xF < uint (a AND 0xF) + uint (v AND 0xF)"
  "bit (take_bit 4 (ucast a) + take_bit 4 (ucast v) + (if b then 1 else 0) :: u32) 4 \<longleftrightarrow>
     0xF < uint (a AND 0xF) + uint (v AND 0xF) + uint (if b then 1 else 0 :: u8)"
  "bit (take_bit 4 (ucast a) - take_bit 4 (ucast v) :: u32) 4 \<longleftrightarrow> uint (a AND 0xF) - uint (v AND 0xF) < 0"
  "bit (take_bit 4 (ucast a) - take_bit 4 (ucast v) - (if b then 1 else 0) :: u32) 4 \<longleftrightarrow>
     uint (a AND 0xF) - uint (v AND 0xF) - uint (if b then 1 else 0 :: u8) < 0"
proof -
  let ?x = "take_bit 4 (ucast a) :: u32" and ?y = "take_bit 4 (ucast v) :: u32" and ?c = "if b then 1 else 0 :: u32"
  define p where "p = unat a mod 16"
  define q where "q = unat v mod 16"
  have m: "p < 16" "q < 16" by (simp_all add: p_def q_def)
  have x: "unat ?x = p" "unat ?y = q" unfolding p_def q_def by (rule unat_nibble)+
  have i: "uint (a AND 0xF) = int p" "uint (v AND 0xF) = int q" unfolding p_def q_def by (rule uint_nibble)+
  have s: "unat (?x + ?y) = p + q" using m by (subst unat_add_u32; simp only: x; force)
  have s': "unat (?y + ?c) = q + (if b then 1 else 0)" using m by (subst unat_add_u32; simp only: x; force)
  show "bit (?x + ?y) 4 \<longleftrightarrow> 0xF < uint (a AND 0xF) + uint (v AND 0xF)"
    using m bit_sum [of ?x ?y 4, unfolded x] unfolding i by auto
  show "bit (?x + ?y + ?c) 4 \<longleftrightarrow> 0xF < uint (a AND 0xF) + uint (v AND 0xF) + uint (if b then 1 else 0 :: u8)"
    using m bit_sum [of "?x + ?y" ?c 4, unfolded s] unfolding i by auto
  show "bit (?x - ?y) 4 \<longleftrightarrow> uint (a AND 0xF) - uint (v AND 0xF) < 0"
    using m bit_diff(1) [of ?x ?y, unfolded x] unfolding i by auto
  show "bit (?x - ?y - ?c) 4 \<longleftrightarrow> uint (a AND 0xF) - uint (v AND 0xF) - uint (if b then 1 else 0 :: u8) < 0"
    using m bit_diff(1) [of ?x "?y + ?c", unfolded x s'] unfolding i diff_diff_eq by auto
qed

lemma c_bits:
  "bit (ucast (a :: u8) + ucast (v :: u8) :: u32) 8 \<longleftrightarrow> 0xFF < (ucast a + ucast v :: u16)"
  "bit (ucast a + ucast v + (if b then 1 else 0) :: u32) 8 \<longleftrightarrow> 0xFF < (ucast a + ucast v + ucast (if b then 1 else 0 :: u8) :: u16)"
  "bit (ucast a - ucast v :: u32) 8 \<longleftrightarrow> uint a - uint v < 0"
  "bit (ucast a - ucast v - (if b then 1 else 0) :: u32) 8 \<longleftrightarrow> uint a - uint v - uint (if b then 1 else 0 :: u8) < 0"
proof -
  let ?x = "ucast a :: u32" and ?y = "ucast v :: u32" and ?c = "if b then 1 else 0 :: u32"
  define p where "p = unat a"
  define q where "q = unat v"
  have m: "p < 256" "q < 256" by (simp_all add: p_def q_def)
  have x: "unat ?x = p" "unat ?y = q" "unat (ucast a :: u16) = p" "unat (ucast v :: u16) = q" by (simp_all add: p_def q_def)
  have i: "uint a = int p" "uint v = int q" by (simp_all add: p_def q_def)
  have s: "unat (?x + ?y) = p + q" using m by (subst unat_add_u32; simp only: x; force)
  have s': "unat (?y + ?c) = q + (if b then 1 else 0)" using m by (subst unat_add_u32; simp only: x; force)
  have w: "unat (ucast a + ucast v :: u16) = p + q"
      "unat (ucast a + ucast v + ucast (if b then 1 else 0 :: u8) :: u16) = p + q + (if b then 1 else 0)"
    using m by (simp_all add: unat_word_ariths flip: p_def q_def)
  show "bit (?x + ?y) 8 \<longleftrightarrow> 0xFF < (ucast a + ucast v :: u16)"
    using m bit_sum [of ?x ?y 8, unfolded x] by (auto simp: word_less_nat_alt w)
  show "bit (?x + ?y + ?c) 8 \<longleftrightarrow> 0xFF < (ucast a + ucast v + ucast (if b then 1 else 0 :: u8) :: u16)"
    using m bit_sum [of "?x + ?y" ?c 8, unfolded s] by (auto simp: word_less_nat_alt w)
  show "bit (?x - ?y) 8 \<longleftrightarrow> uint a - uint v < 0"
    using m bit_diff(2) [of ?x ?y, unfolded x] unfolding i by auto
  show "bit (?x - ?y - ?c) 8 \<longleftrightarrow> uint a - uint v - uint (if b then 1 else 0 :: u8) < 0"
    using m bit_diff(2) [of ?x "?y + ?c", unfolded x s'] unfolding i diff_diff_eq by auto
qed

section \<open>The ALU operations\<close>

lemma gseq_append: "gseq lay lit en k (Q @ R) S = gseq lay lit en (k + length Q) R (gseq lay lit en k Q S)"
  "gseq_ok lay lit en k (Q @ R) S \<longleftrightarrow> gseq_ok lay lit en k Q S \<and> gseq_ok lay lit en (k + length Q) R (gseq lay lit en k Q S)"
  by (induction Q arbitrary: k S) simp_all

text \<open>Code that takes A in \<open>a2\<close> and an operand in \<open>a3\<close>.\<close>

definition alu_ok :: "mmu_layout \<Rightarrow> (u8 \<Rightarrow> cpu_state \<Rightarrow> cpu_state) \<Rightarrow> emission list \<Rightarrow> bool" where
  "alu_ok lay f fs \<longleftrightarrow> (\<exists>Q. fs = map emit_insn Q \<and> (\<forall>i\<in>set Q. insn_ok i) \<and> length Q \<le> 26
     \<and> (\<forall>lit en k a g v. a 13 = 0xC0DE0000 \<and> a 2 = ucast (cpu_a g) \<and> a 3 = ucast v \<longrightarrow> gseq_ok lay lit en k Q (a, g)
          \<and> (let S = gseq lay lit en k Q (a, g) in snd S = f v g \<and> fst S 11 = a 11 \<and> fst S 12 = a 12 \<and> fst S 13 = a 13)))"

lemma alu_okI:
  assumes "fs = map emit_insn Q" "(\<forall>i\<in>set Q. insn_ok i) \<and> length Q \<le> 26"
    "\<And>lit en k a g v. \<lbrakk>a 13 = 0xC0DE0000; a 2 = ucast (cpu_a g); a 3 = ucast v\<rbrakk> \<Longrightarrow> gseq_ok lay lit en k Q (a, g)
          \<and> (let S = gseq lay lit en k Q (a, g) in snd S = f v g \<and> fst S 11 = a 11 \<and> fst S 12 = a 12 \<and> fst S 13 = a 13)"
  shows "alu_ok lay f fs"
  using assms unfolding alu_ok_def by blast

lemma ucast_16_8: "(ucast (ucast (a :: u8) + ucast v :: u16) :: u8) = a + v"
  "(ucast (ucast (a :: u8) + ucast v + ucast c :: u16) :: u8) = a + v + c"
  by (rule word_unat_eq_iff [THEN iffD2], simp add: unat_word_ariths unsigned_ucast_eq unsigned_take_bit_eq take_bit_eq_mod mod_mod_cancel mod_simps)+

lemmas alu_simps = jit_simps bit_lemmas h_bits c_bits ucast_16_8 set_flags_def flags_of_def

lemmas alu_defs = ALU_INLINE_def alu_carry_code_def alu_sub_code_def alu_logic_code_def emit_zflag_def emit_setflag_const_def
  emit_hflag_add_def emit_hflag_sub_def emit_cflag_from_bit8_def

lemma alu_code_ok:
  assumes "lay_ok lay ms"
  shows "alu_ok lay alu_add (ALU_INLINE 0)"
    "alu_ok lay alu_adc (ALU_INLINE 1)"
    "alu_ok lay alu_sub (ALU_INLINE 2)"
    "alu_ok lay alu_sbc (ALU_INLINE 3)"
    "alu_ok lay alu_and (ALU_INLINE 4)"
    "alu_ok lay alu_xor (ALU_INLINE 5)"
    "alu_ok lay alu_or (ALU_INLINE 6)"
    "alu_ok lay alu_cp (ALU_INLINE 7)"
  by (simp_all add: alu_defs)
    ((rule alu_okI, (rule map_intros emission_of)+);
     simp add: alu_simps alu_add_def alu_adc_def alu_sub_def alu_sbc_def alu_and_def alu_xor_def alu_or_def alu_cp_def srange_def
       gst_cpu [OF assms] split del: if_split)+

lemma ALU_INLINE_cp: "grp \<notin> {0, 1, 2, 3, 4, 5, 6} \<Longrightarrow> ALU_INLINE grp = ALU_INLINE 7 \<and> alu_op grp = alu_op 7"
  by (simp add: ALU_INLINE_def alu_op_def fun_eq_iff)

lemma alu_op_ok:
  assumes "lay_ok lay ms"
  shows "alu_ok lay (alu_op grp) (ALU_INLINE grp)"
proof -
  have e: "alu_op 0 = alu_add" "alu_op 1 = alu_adc" "alu_op 2 = alu_sub" "alu_op 3 = alu_sbc" "alu_op 4 = alu_and" "alu_op 5 = alu_xor"
    "alu_op 6 = alu_or" "alu_op 7 = alu_cp" by (simp_all add: fun_eq_iff alu_op_def)
  show ?thesis
  proof (cases "grp \<in> {0, 1, 2, 3, 4, 5, 6}")
    case True
    then show ?thesis using alu_code_ok [OF assms] by (elim insertE emptyE) (simp_all only: e)
  next
    case False
    then show ?thesis using alu_code_ok(8) [OF assms] ALU_INLINE_cp [OF False] by (simp only: e)
  qed
qed

lemma alu_op_comm:
  "alu_op grp v (c\<lparr>cpu_pc := p\<rparr>) = (alu_op grp v c)\<lparr>cpu_pc := p\<rparr>" "alu_op grp v (low_add n c) = low_add n (alu_op grp v c)"
  by (simp_all add: alu_op_def alu_add_def alu_adc_def alu_sub_def alu_sbc_def alu_and_def alu_xor_def alu_or_def alu_cp_def
      set_flags_def Let_def low_add_def carry_in_def)

text \<open>Operand code \<open>P\<close>, the operation, and the advance.\<close>

lemma alu_wrap:
  assumes "lay_ok lay ms" "(\<forall>i\<in>set P. insn_ok i) \<and> length P \<le> 4" "srange 7 cy" "srange 7 bs"
    "\<And>lit en k (a :: nat \<Rightarrow> u32) (g :: cpu_state). \<lbrakk>a 13 = 0xC0DE0000; ucast (a 11) = pc; mmu_read8 (cpu_mmu g) (pc + 1) = mmu_read8 m (pc + 1)\<rbrakk> \<Longrightarrow>
       gseq_ok lay lit en k P (a, g) \<and> snd (gseq lay lit en k P (a, g)) = g
        \<and> (let b = fst (gseq lay lit en k P (a, g)) in b 2 = ucast (cpu_a g) \<and> b 3 = ucast (V g) \<and> b 11 = a 11 \<and> b 12 = a 12 \<and> b 13 = a 13)
        \<and> exec_op (mmu_read8 m pc) (low_add (a 12) g\<lparr>cpu_pc := pc + 1\<rparr>)
            = (cy, alu_op grp (V g) (low_add (a 12) g)\<lparr>cpu_pc := pc + ucast bs\<rparr>)"
  shows "op_ok lay m pc (map emit_insn P @ ALU_INLINE grp @ [xt_addi 11 11 bs, xt_addi 12 12 cy])"
proof -
  obtain Q where Q: "ALU_INLINE grp = map emit_insn Q" "(\<forall>i\<in>set Q. insn_ok i) \<and> length Q \<le> 26"
    "\<And>lit en k a g v. a 13 = 0xC0DE0000 \<Longrightarrow> a 2 = ucast (cpu_a g) \<Longrightarrow> a 3 = ucast v \<Longrightarrow> gseq_ok lay lit en k Q (a, g)
          \<and> (let S = gseq lay lit en k Q (a, g) in snd S = alu_op grp v g \<and> fst S 11 = a 11 \<and> fst S 12 = a 12 \<and> fst S 13 = a 13)"
    using alu_op_ok [OF assms(1), of grp] unfolding alu_ok_def by blast
  show ?thesis
  proof (rule op_okI)
    show "map emit_insn P @ ALU_INLINE grp @ [xt_addi 11 11 bs, xt_addi 12 12 cy] = map emit_insn (P @ Q @ [I_ADDI 11 11 bs, I_ADDI 12 12 cy])"
      by (simp add: Q(1))
    show "(\<forall>i\<in>set (P @ Q @ [I_ADDI 11 11 bs, I_ADDI 12 12 cy]). insn_ok i) \<and> length (P @ Q @ [I_ADDI 11 11 bs, I_ADDI 12 12 cy]) \<le> 32"
      using assms(2-4) Q(2) by auto
    fix lit en k and a :: "nat \<Rightarrow> u32" and g :: cpu_state
    assume h: "a 13 = 0xC0DE0000" "ucast (a 11) = pc" "mmu_read8 (cpu_mmu g) (pc + 1) = mmu_read8 m (pc + 1)"
    let ?R = "P @ Q @ [I_ADDI 11 11 bs, I_ADDI 12 12 cy]"
    obtain a' where p: "gseq_ok lay lit en k P (a, g)" "gseq lay lit en k P (a, g) = (a', g)" "a' 2 = ucast (cpu_a g)" "a' 3 = ucast (V g)"
      "a' 11 = a 11" "a' 12 = a 12" "a' 13 = a 13"
      "exec_op (mmu_read8 m pc) (low_add (a 12) g\<lparr>cpu_pc := pc + 1\<rparr>) = (cy, alu_op grp (V g) (low_add (a 12) g)\<lparr>cpu_pc := pc + ucast bs\<rparr>)"
      using assms(5) [OF h, of lit en k] by (cases "gseq lay lit en k P (a, g)") (simp add: Let_def)
    note q = Q(3) [of a' g "V g" lit en "k + length P", unfolded p, OF h(1) refl refl]
    obtain a'' g'' where e: "gseq lay lit en (k + length P) Q (a', g) = (a'', g'')" by fastforce
    have e': "g'' = alu_op grp (V g) g" "a'' 11 = a 11" "a'' 12 = a 12" "a'' 13 = 0xC0DE0000" "gseq_ok lay lit en (k + length P) Q (a', g)"
      using q p h(1) unfolding e by (simp_all add: Let_def)
    show "gseq_ok lay lit en k ?R (a, g) \<and> fst (gseq lay lit en k ?R (a, g)) 13 = 0xC0DE0000
       \<and> synced (gseq lay lit en k ?R (a, g)) =
          (let (n, c) = exec_op (mmu_read8 m pc) ((low_add (a 12) g)\<lparr>cpu_pc := pc + 1\<rparr>) in low_add n c)"
      using p(1,2) h e'(4,5) by (simp add: gseq_append e e'(1-3) p(8) synced_def alu_op_comm low_add_comm ucast_add_u16)
  qed
qed

lemma exec_alu_n8:
  assumes "op \<in> {0xC6, 0xCE, 0xD6, 0xDE, 0xE6, 0xEE, 0xF6, 0xFE}"
  shows "exec_op op s = (8, alu_n8 (drop_bit 3 op AND 7) s)"
  using assms by (elim insertE emptyE; simp add: exec_op_def exec_c0_def timed_def op_info_def)+

lemma alu_n8_ok:
  assumes "lay_ok lay ms" "mmu_read8 m pc = op" "op \<in> {0xC6, 0xCE, 0xD6, 0xDE, 0xE6, 0xEE, 0xF6, 0xFE}" "ic_m I = m"
  shows "\<exists>fs. inline_alu_n8 op pc I = inlined fs \<and> op_ok lay m pc fs"
proof -
  let ?P = "[I_L8UI 2 13 OFF_A, I_MOVI 3 (ucast (mmu_read8 m (pc + 1)))]"
  have "op_ok lay m pc (map emit_insn ?P @ ALU_INLINE (drop_bit 3 op AND 7) @ [xt_addi 11 11 2, xt_addi 12 12 8])"
    by (rule alu_wrap [OF assms(1), where V = "\<lambda>_. mmu_read8 m (pc + 1)"])
      (simp_all add: srange_def srange_u8' assms(2) exec_alu_n8 [OF assms(3)] alu_n8_def fetch8_def rd8_def alu_op_comm low_add_comm two_comm)
  then show ?thesis using assms(4) by (auto simp: inline_alu_n8_def Let_def emit_advance_def)
qed

lemma decode_80: "0x80 \<le> op \<Longrightarrow> op \<le> 0xBF \<Longrightarrow> op AND 7 \<noteq> 6 \<Longrightarrow> cycles_notaken (sm83_decode op) = 4"
  using u8_range [of "0x80" "0xC0" "\<lambda>op. op AND 7 \<noteq> 6 \<longrightarrow> cycles_notaken (sm83_decode op) = 4" op]
  by (simp add: word_le_nat_alt op_info_def upt_rec)

lemma exec_alu_r:
  assumes "0x80 \<le> op" "op \<le> 0xBF" "op AND 7 \<noteq> 6"
  shows "exec_op op s = (4, alu_op (drop_bit 3 op AND 7) (reg8_read (op AND 7) s) s)"
  using assms decode_80 [OF assms]
  by (auto simp: exec_op_def exec_80_def timed_def Let_def word_less_nat_alt word_le_nat_alt)

lemma reg7: "reg8_read 7 g = cpu_a g"
  by (simp add: reg8_read_def)

lemma alu_r_ok:
  assumes "lay_ok lay ms" "mmu_read8 m pc = op" "0x80 \<le> op" "op \<le> 0xBF" "op AND 7 \<noteq> 6"
  shows "\<exists>fs. inline_alu_r op I = inlined fs \<and> op_ok lay m pc fs"
proof -
  obtain off where off: "reg8_offset (op AND 7) = Some off" using reg8_some [of "op AND 7"] assms(5) by auto
  let ?src = "if op AND 7 = 7 then I_MOV 3 2 else I_L8UI 3 13 off"
  let ?P = "[I_L8UI 2 13 OFF_A, ?src]"
  have "op_ok lay m pc (map emit_insn ?P @ ALU_INLINE (drop_bit 3 op AND 7) @ [xt_addi 11 11 1, xt_addi 12 12 4])"
    by (rule alu_wrap [OF assms(1), where V = "reg8_read (op AND 7)"])
     (simp_all add: srange_def reg7 assms(2) exec_alu_r [OF assms(3-5)] alu_op_comm low_add_comm reg8_mem(1,2) [OF off] reg8_comm [OF off] reg8_offset_bound [OF off])
  moreover have "map emit_insn ?P = [xt_l8ui 2 13 OFF_A, if op AND 7 = 7 then xt_mov 3 2 else xt_l8ui 3 13 off]" by simp
  ultimately show ?thesis using off by (auto simp: inline_alu_r_def Let_def emit_advance_def fun_eq_iff)
qed

end
