(* ===== verification/Codegen_Sem_Flow.thy ===== *)
theory Codegen_Sem_Flow
  imports Codegen_Sem_Alu
begin

text \<open>
  The inliners for HALT, for 16-bit registers and for unconditional jumps (src/jit/codegen.c) against the
  interpreter.
\<close>

section \<open>16-bit registers and jumps\<close>

lemma set16_comm:
  "set_bc v (c\<lparr>cpu_pc := p\<rparr>) = (set_bc v c)\<lparr>cpu_pc := p\<rparr>" "set_bc v (low_add n c) = low_add n (set_bc v c)"
  "set_de v (c\<lparr>cpu_pc := p\<rparr>) = (set_de v c)\<lparr>cpu_pc := p\<rparr>" "set_de v (low_add n c) = low_add n (set_de v c)"
  "set_hl v (c\<lparr>cpu_pc := p\<rparr>) = (set_hl v c)\<lparr>cpu_pc := p\<rparr>" "set_hl v (low_add n c) = low_add n (set_hl v c)"
  "set_hl v (c\<lparr>cpu_f := f\<rparr>) = (set_hl v c)\<lparr>cpu_f := f\<rparr>"
  "cpu_bc (c\<lparr>cpu_pc := p\<rparr>) = cpu_bc c" "cpu_de (c\<lparr>cpu_pc := p\<rparr>) = cpu_de c" "cpu_hl (c\<lparr>cpu_pc := p\<rparr>) = cpu_hl c"
  "cpu_f (set_hl v c) = cpu_f c"
  by (simp_all add: set_bc_def set_de_def set_hl_def low_add_def cpu_bc_def cpu_de_def cpu_hl_def)

lemma halt_ok:
  assumes "lay_ok lay ms" "mmu_read8 m pc = 0x76"
  shows "op_ok lay m pc ([xt_movi 2 1, xt_s8i 2 13 OFF_HALTED] @ emit_advance 1 4)"
  unfolding emit_advance_def
  by (rule op_okI, (rule map_intros emission_of)+)
    (simp_all add: jit_simps srange_def gst_cpu [OF assms(1)] assms(2) exec_op_def exec_40_def timed_def op_info_def split del: if_split)

definition pair_read :: "u8 \<Rightarrow> cpu_state \<Rightarrow> u16" where
  "pair_read op g = (let p = drop_bit 4 op AND 3
     in if p = 0 then cpu_bc g else if p = 1 then cpu_de g else if p = 2 then cpu_hl g else cpu_sp g)"

definition pair_write :: "u8 \<Rightarrow> u16 \<Rightarrow> cpu_state \<Rightarrow> cpu_state" where
  "pair_write op v g = (let p = drop_bit 4 op AND 3
     in if p = 0 then set_bc v g else if p = 1 then set_de v g else if p = 2 then set_hl v g else g\<lparr>cpu_sp := v\<rparr>)"

lemma pair_mem:
  "acc_ok lay 2 (0xC0DE0000 + pair_off op)" "gld lay 2 (0xC0DE0000 + pair_off op) g = ucast (pair_read op g)"
  "lay_ok lay ms \<Longrightarrow> gst lay 2 (0xC0DE0000 + pair_off op) v g = pair_write op (ucast v) g"
  "pair_off op \<le> 510" "pair_off op AND 1 = 0" "\<not> bit (pair_off op) 0"
  by (simp_all add: pair_off_def pair_read_def pair_write_def Let_def gst_cpu16)

lemma pair_comm:
  "pair_read op (c\<lparr>cpu_pc := p\<rparr>) = pair_read op c" "pair_read op (low_add n c) = pair_read op c"
  "pair_read op (set_hl v c) = (if drop_bit 4 op AND 3 = 2 then v else pair_read op c)"
  "pair_write op v (c\<lparr>cpu_pc := p\<rparr>) = (pair_write op v c)\<lparr>cpu_pc := p\<rparr>" "pair_write op v (low_add n c) = low_add n (pair_write op v c)"
  by (simp_all add: pair_read_def pair_write_def Let_def set16_comm low_add_comm, simp_all add: set_hl_def cpu_hl_def cpu_bc_def cpu_de_def)

lemma exec_inc_dec16:
  assumes "op \<in> {0x03, 0x13, 0x23, 0x33, 0x0B, 0x1B, 0x2B, 0x3B}"
  shows "exec_op op s = (8, pair_write op (pair_read op s + (if op AND 0x0F = 0x0B then -1 else 1)) s)"
  using assms by (elim insertE emptyE; simp add: pair_read_def pair_write_def exec_op_def exec_00_def exec_20_def timed_def op_info_def)

lemma inc_dec16_ok:
  assumes "lay_ok lay ms" "mmu_read8 m pc = op" "op \<in> {0x03, 0x13, 0x23, 0x33, 0x0B, 0x1B, 0x2B, 0x3B}"
  shows "\<exists>fs. inline_inc_dec16 op I = inlined fs \<and> op_ok lay m pc fs"
proof -
  let ?d = "if op AND 0x0F = 0x0B then -1 else 1 :: u32"
  have d: "srange 7 ?d" "ucast ?d = (if op AND 0x0F = 0x0B then -1 else 1 :: u16)" by (simp_all add: srange_def) (rule impI, rule bit_word_eqI, simp add: bit_simps)
  have "op_ok lay m pc ([xt_l16ui 2 13 (pair_off op), xt_addi 2 2 ?d, xt_s16i 2 13 (pair_off op)] @ emit_advance 1 8)"
    unfolding emit_advance_def
    by (rule op_okI, (rule map_intros emission_of)+)
      (simp_all add: jit_simps d [unfolded srange_def, simplified] srange_def pair_mem pair_mem(3) [OF assms(1)] pair_comm assms(2)
        exec_inc_dec16 [OF assms(3)] split del: if_split)
  then show ?thesis by (auto simp: inline_inc_dec16_def Let_def)
qed

lemma add_hl_bits:
  "bit (ucast (x :: u16) + ucast (y :: u16) :: u32) 16 \<longleftrightarrow> 0xFFFF < (ucast x + ucast y :: u32)"
  "bit (take_bit 12 (ucast x) + take_bit 12 (ucast y) :: u32) 12 \<longleftrightarrow> 0x0FFF < (take_bit 12 (ucast x) + take_bit 12 (ucast y) :: u32)"
proof -
  define p q where "p = unat x" and "q = unat y"
  have m: "p < 65536" "q < 65536" using unsigned_less [of x, where ?'a = nat] unsigned_less [of y, where ?'a = nat] by (simp_all add: p_def q_def)
  have x: "unat (ucast x :: u32) = p" "unat (ucast y :: u32) = q" by (simp_all add: p_def q_def)
  have s: "unat (ucast x + ucast y :: u32) = p + q" using m by (subst unat_add_u32; simp only: x; force)
  show "bit (ucast x + ucast y :: u32) 16 \<longleftrightarrow> 0xFFFF < (ucast x + ucast y :: u32)"
    using m bit_sum [of "ucast x" "ucast y" 16, unfolded x] by (auto simp: word_less_nat_alt s)
  define p' q' where "p' = unat x mod 4096" and "q' = unat y mod 4096"
  have m: "p' < 4096" "q' < 4096" by (simp_all add: p'_def q'_def)
  have x: "unat (take_bit 12 (ucast x) :: u32) = p'" "unat (take_bit 12 (ucast y) :: u32) = q'"
    by (simp_all add: p'_def q'_def unsigned_take_bit_eq take_bit_eq_mod unat_mod)
  have s: "unat (take_bit 12 (ucast x) + take_bit 12 (ucast y) :: u32) = p' + q'" using m by (subst unat_add_u32; simp only: x; force)
  show "bit (take_bit 12 (ucast x) + take_bit 12 (ucast y) :: u32) 12 \<longleftrightarrow> 0x0FFF < (take_bit 12 (ucast x) + take_bit 12 (ucast y) :: u32)"
    using m bit_sum [of "take_bit 12 (ucast x)" "take_bit 12 (ucast y)" 12, unfolded x] by (auto simp: word_less_nat_alt s)
qed

lemma low_mask12: "(w :: u32) AND 0xFFF = take_bit 12 w"
  by (simp add: take_bit_eq_mask mask_eq_exp_minus_1)

lemma exec_add_hl:
  assumes "op \<in> {0x09, 0x19, 0x29, 0x39}"
  shows "exec_op op s = (8, alu_add_hl (pair_read op s) s)"
  using assms by (elim insertE emptyE; simp add: pair_read_def exec_op_def exec_00_def exec_20_def timed_def op_info_def)

lemma add_hl_ok:
  assumes "lay_ok lay ms" "mmu_read8 m pc = op" "op \<in> {0x09, 0x19, 0x29, 0x39}"
  shows "\<exists>fs. inline_add_hl op I = inlined fs \<and> op_ok lay m pc fs"
  unfolding inline_add_hl_def emit_advance_def
proof (rule exI, rule conjI, rule refl, rule op_okI, (rule map_intros emission_of)+)
qed (simp_all add: jit_simps bit_lemmas srange_def gst_cpu [OF assms(1)] gst_cpu16 [OF assms(1)] pair_mem pair_comm assms(2) set16_comm
      low_mask12 add_hl_bits alu_add_hl_def or.commute [of "if P then 0x10 else 0" for P] exec_add_hl [OF assms(3)] split del: if_split)

lemma load_u16:
  obtains Q where "emit_load_u16 dst v scr = map emit_insn Q" "length Q \<le> 4"
    "dst < 16 \<Longrightarrow> scr < 16 \<Longrightarrow> \<forall>i\<in>set Q. insn_ok i" "\<And>lit en k S. gseq_ok lay lit en k Q S"
    "\<And>lit en k a g. dst \<noteq> scr \<Longrightarrow> \<exists>x. gseq lay lit en k Q (a, g) = (a(unat scr := x, unat dst := ucast v), g)"
proof (cases "v \<le> 2047")
  case True
  show ?thesis
  proof (rule that [of "[I_MOVI dst (ucast v)]"])
    show "emit_load_u16 dst v scr = map emit_insn [I_MOVI dst (ucast v)]" using True by (simp add: emit_load_u16_def)
    show "dst < 16 \<Longrightarrow> scr < 16 \<Longrightarrow> \<forall>i\<in>set [I_MOVI dst (ucast v)]. insn_ok i"
      using True srange_small [of "ucast v"] by (simp add: word_le_nat_alt)
    show "\<exists>x. gseq lay lit en k [I_MOVI dst (ucast v)] (a, g) = (a(unat scr := x, unat dst := ucast v), g)" for lit en k a g
      by (rule exI [of _ "a (unat scr)"]) simp
  qed simp_all
next
  case False
  have b: "ucast (v AND 0xFF) = lo8 v" "ucast (drop_bit 8 v AND 0xFF) = hi8 v"
    by (rule bit_word_eqI, auto simp: bit_simps lo8_def hi8_def low_mask8)+
  let ?Q = "[I_MOVI dst (ucast (lo8 v)), I_MOVI scr (ucast (hi8 v)), I_SLLI scr scr 8, I_OR dst dst scr]"
  show ?thesis
  proof (rule that [of ?Q])
    show "emit_load_u16 dst v scr = map emit_insn ?Q" using False by (simp add: emit_load_u16_def Let_def b)
    show "dst < 16 \<Longrightarrow> scr < 16 \<Longrightarrow> \<forall>i\<in>set ?Q. insn_ok i" by (simp add: srange_u8)
    show "\<exists>x. gseq lay lit en k ?Q (a, g) = (a(unat scr := x, unat dst := ucast v), g)" if "dst \<noteq> scr" for lit en k a g
      using that by (intro exI [of _ "push_bit 8 (ucast (hi8 v))"]) (auto simp: ucast_halves word_unat_eq_iff fun_eq_iff)
  qed simp_all
qed

lemma exec_jumps:
  "exec_op 0x18 s = (12, (let (off, s) = fetch8 s in s\<lparr>cpu_pc := cpu_pc s + scast off\<rparr>))"
  "exec_op 0xC3 s = (16, (let (v, s) = fetch16 s in s\<lparr>cpu_pc := v\<rparr>))"
  "exec_op 0xE9 s = (4, s\<lparr>cpu_pc := cpu_hl s\<rparr>)"
  by (simp_all add: exec_op_def exec_00_def exec_c0_def timed_def op_info_def)

text \<open>Code that sets the program counter to a constant and adds cycles.\<close>

lemma jump_ok:
  assumes "srange 7 cy"
    "\<And>g. mmu_read8 (cpu_mmu g) (pc + 1) = mmu_read8 m (pc + 1) \<Longrightarrow> mmu_read8 (cpu_mmu g) (pc + 2) = mmu_read8 m (pc + 2) \<Longrightarrow>
       exec_op (mmu_read8 m pc) (g\<lparr>cpu_pc := pc + 1\<rparr>) = (cy, g\<lparr>cpu_pc := target\<rparr>)"
  shows "op_ok lay m pc (emit_load_u16 11 target 2 @ [xt_addi 12 12 cy])"
proof -
  obtain Q where Q: "emit_load_u16 11 target 2 = map emit_insn Q" "(\<forall>i\<in>set Q. insn_ok i) \<and> length Q \<le> 4" "\<And>lit en k S. gseq_ok lay lit en k Q S"
    "\<And>lit en k a g. \<exists>x. gseq lay lit en k Q (a, g) = (a(2 := x, 11 := ucast target), g)"
    by (rule load_u16 [of 11 target 2 lay]) simp_all
  show ?thesis
  proof (rule op_okI)
    show "emit_load_u16 11 target 2 @ [xt_addi 12 12 cy] = map emit_insn (Q @ [I_ADDI 12 12 cy])" by (simp add: Q(1))
    show "(\<forall>i\<in>set (Q @ [I_ADDI 12 12 cy]). insn_ok i) \<and> length (Q @ [I_ADDI 12 12 cy]) \<le> 32" using Q(2) assms(1) by auto
    fix lit en k and a :: "nat \<Rightarrow> u32" and g :: cpu_state
    assume h: "a 13 = 0xC0DE0000" "mmu_read8 (cpu_mmu g) (pc + 1) = mmu_read8 m (pc + 1)" "mmu_read8 (cpu_mmu g) (pc + 2) = mmu_read8 m (pc + 2)"
    obtain x where x: "gseq lay lit en k Q (a, g) = (a(2 := x, 11 := ucast target), g)" using Q(4) by blast
    show "gseq_ok lay lit en k (Q @ [I_ADDI 12 12 cy]) (a, g) \<and> fst (gseq lay lit en k (Q @ [I_ADDI 12 12 cy]) (a, g)) 13 = 0xC0DE0000
       \<and> synced (gseq lay lit en k (Q @ [I_ADDI 12 12 cy]) (a, g)) =
          (let (n, c) = exec_op (mmu_read8 m pc) ((low_add (a 12) g)\<lparr>cpu_pc := pc + 1\<rparr>) in low_add n c)"
      using h Q(3) assms(2) [of "low_add (a 12) g"] by (simp add: gseq_append x synced_def low_add_comm)
  qed
qed

lemma jr_ok:
  assumes "mmu_read8 m pc = 0x18" "ic_m I = m"
  shows "\<exists>fs. inline_jr pc I = inlined fs \<and> op_ok lay m pc fs"
proof -
  have "op_ok lay m pc (emit_load_u16 11 (jr_target I pc) 2 @ [xt_addi 12 12 12])"
    by (rule jump_ok) (simp_all add: srange_def assms exec_jumps fetch8_def rd8_def jr_target_def add.assoc two_comm)
  then show ?thesis by (auto simp: inline_jr_def)
qed

lemma jp_ok:
  assumes "mmu_read8 m pc = 0xC3" "ic_m I = m"
  shows "\<exists>fs. inline_jp pc I = inlined fs \<and> op_ok lay m pc fs"
proof -
  have "op_ok lay m pc (emit_load_u16 11 (operand16 I pc) 2 @ [xt_addi 12 12 16])"
    by (rule jump_ok) (simp_all add: srange_def assms exec_jumps fetch16_def fetch8_def rd8_def operand16_def Let_def add.assoc two_comm)
  then show ?thesis by (auto simp: inline_jp_def)
qed

lemma jp_hl_ok:
  assumes "mmu_read8 m pc = 0xE9"
  shows "op_ok lay m pc [xt_l16ui 11 13 OFF_HL, xt_addi 12 12 4]"
  by (rule op_okI, (rule map_intros emission_of)+)
    (simp_all add: jit_simps srange_def assms exec_jumps set16_comm split del: if_split)

lemma exec_ld_rr:
  assumes "op \<in> {0x01, 0x11, 0x21, 0x31}"
  shows "exec_op op s = (12, (let (v, s) = fetch16 s in pair_write op v s))"
  using assms by (elim insertE emptyE; simp add: pair_write_def exec_op_def exec_00_def exec_20_def timed_def op_info_def Let_def case_prod_beta)

lemma ld_rr_ok:
  assumes "lay_ok lay ms" "mmu_read8 m pc = op" "op \<in> {0x01, 0x11, 0x21, 0x31}" "ic_m I = m"
  shows "\<exists>fs. inline_ld_rr_n16 op pc I = inlined fs \<and> op_ok lay m pc fs"
proof -
  let ?lo = "mmu_read8 m (pc + 1)" and ?hi = "mmu_read8 m (pc + 2)"
  have z: "ucast (ucast lo OR push_bit 8 (ucast hi) :: u32) = mk16 lo hi" "(ucast (ucast lo :: u32) :: u16) = mk16 lo 0" for lo hi
    by (rule bit_word_eqI, auto simp: mk16_def bit_simps dest: bit_imp_le_length)+
  have "op_ok lay m pc ([xt_movi 2 (ucast ?lo)] @ (if ?hi \<noteq> 0 then [xt_movi 3 (ucast ?hi), xt_slli 3 3 8, xt_or 2 2 3] else [])
           @ [xt_s16i 2 13 (pair_off op)] @ emit_advance 3 12)"
  proof (cases "?hi = 0")
    case True
    show ?thesis
      unfolding emit_advance_def True
      by (simp, rule op_okI, (rule map_intros emission_of)+)
        (simp_all add: jit_simps z srange_def srange_u8' pair_mem pair_mem(3) [OF assms(1)] pair_comm assms(2) exec_ld_rr [OF assms(3)]
          fetch16_def fetch8_def rd8_def two_comm True split del: if_split)
  next
    case False
    show ?thesis
      unfolding emit_advance_def if_P [OF False] append_Cons append_Nil
      by (rule op_okI, (rule map_intros emission_of)+)
        (simp_all add: jit_simps z srange_def srange_u8' pair_mem pair_mem(3) [OF assms(1)] pair_comm assms(2) exec_ld_rr [OF assms(3)]
          fetch16_def fetch8_def rd8_def two_comm False split del: if_split)
  qed
  then show ?thesis using assms(4) by (auto simp: inline_ld_rr_n16_def Let_def fun_eq_iff)
qed

end
