(* ===== verification/Codegen_Plain.thy ===== *)
theory Codegen_Plain
  imports Codegen_Sem_Flow Codegen_Block
begin

text \<open>
  The instructions whose code is straight and reads no memory but \<open>cpu_state\<close>, and the dispatch of \<open>inline_op\<close>
  (src/jit/codegen.c) on them: each is inlined by code that does what the interpreter does.
\<close>

text \<open>The instructions whose code is straight and touches no memory but the registers.\<close>

definition plain_op :: "mmu \<Rightarrow> u16 \<Rightarrow> u8 \<Rightarrow> bool" where
  "plain_op m pc op \<longleftrightarrow>
     op \<in> {0x00, 0x2F, 0x37, 0x3F, 0x07, 0x0F, 0x17, 0x1F, 0x76, 0x18, 0xC3, 0xE9}
     \<or> op \<in> {0x06, 0x0E, 0x16, 0x1E, 0x26, 0x2E, 0x3E} \<or> op \<in> {0x01, 0x11, 0x21, 0x31}
     \<or> op \<in> {0x04, 0x0C, 0x14, 0x1C, 0x24, 0x2C, 0x3C, 0x05, 0x0D, 0x15, 0x1D, 0x25, 0x2D, 0x3D}
     \<or> op \<in> {0x03, 0x13, 0x23, 0x33, 0x0B, 0x1B, 0x2B, 0x3B} \<or> op \<in> {0x09, 0x19, 0x29, 0x39}
     \<or> op \<in> {0xC6, 0xCE, 0xD6, 0xDE, 0xE6, 0xEE, 0xF6, 0xFE}
     \<or> 0x40 \<le> op \<and> op \<le> 0x7F \<and> op AND 7 \<noteq> 6 \<and> drop_bit 3 op AND 7 \<noteq> 6
     \<or> 0x80 \<le> op \<and> op \<le> 0xBF \<and> op AND 7 \<noteq> 6
     \<or> op = 0xCB \<and> mmu_read8 m (pc + 1) AND 7 \<noteq> 6"

lemma middle_ops:
  fixes op :: u8
  assumes "0x40 \<le> op" "op \<le> 0xBF"
  shows "op \<notin> {0x06, 0x0E, 0x16, 0x1E, 0x26, 0x2E, 0x3E}"
    "op \<notin> {0x07, 0x0F, 0x17, 0x1F}"
    "op \<notin> {0x04, 0x0C, 0x14, 0x1C, 0x24, 0x2C, 0x3C, 0x05, 0x0D, 0x15, 0x1D, 0x25, 0x2D, 0x3D}"
    "op \<notin> {0x03, 0x13, 0x23, 0x33, 0x0B, 0x1B, 0x2B, 0x3B}"
    "op \<notin> {0x09, 0x19, 0x29, 0x39}"
    "op \<notin> {0x20, 0x28, 0x30, 0x38}"
    "op \<notin> {0xC5, 0xD5, 0xE5, 0xF5}"
    "op \<notin> {0xC1, 0xD1, 0xE1, 0xF1}"
    "op \<notin> {0x22, 0x32, 0x2A, 0x3A}"
    "op \<notin> {0xC2, 0xCA, 0xD2, 0xDA}"
    "op \<notin> {0x01, 0x11, 0x21, 0x31}"
    "op \<notin> {0xC6, 0xCE, 0xD6, 0xDE, 0xE6, 0xEE, 0xF6, 0xFE}"
    "op \<noteq> 0x00" "op \<noteq> 0x2F" "op \<noteq> 0x37" "op \<noteq> 0x3F" "op \<noteq> 0x36" "op \<noteq> 0x18" "op \<noteq> 0xCD" "op \<noteq> 0xC9" "op \<noteq> 0xC3" "op \<noteq> 0xE9" "op \<noteq> 0xFA" "op \<noteq> 0xEA" "op \<noteq> 0xE0" "op \<noteq> 0xF0" "op \<noteq> 0xCB"
    "op AND 0xC7 \<noteq> 0xC7"
proof -
  have k: "op AND 0xC7 = 0xC7 \<Longrightarrow> 0xC0 \<le> op"
  proof -
    assume "op AND 0xC7 = 0xC7"
    then have "0xC7 \<le> op" by (metis word_and_le2)
    then show ?thesis by (rule order_trans [rotated]) simp
  qed
  show "op \<notin> {0x06, 0x0E, 0x16, 0x1E, 0x26, 0x2E, 0x3E}"
    "op \<notin> {0x07, 0x0F, 0x17, 0x1F}"
    "op \<notin> {0x04, 0x0C, 0x14, 0x1C, 0x24, 0x2C, 0x3C, 0x05, 0x0D, 0x15, 0x1D, 0x25, 0x2D, 0x3D}"
    "op \<notin> {0x03, 0x13, 0x23, 0x33, 0x0B, 0x1B, 0x2B, 0x3B}"
    "op \<notin> {0x09, 0x19, 0x29, 0x39}"
    "op \<notin> {0x20, 0x28, 0x30, 0x38}"
    "op \<notin> {0xC5, 0xD5, 0xE5, 0xF5}"
    "op \<notin> {0xC1, 0xD1, 0xE1, 0xF1}"
    "op \<notin> {0x22, 0x32, 0x2A, 0x3A}"
    "op \<notin> {0xC2, 0xCA, 0xD2, 0xDA}"
    "op \<notin> {0x01, 0x11, 0x21, 0x31}"
    "op \<notin> {0xC6, 0xCE, 0xD6, 0xDE, 0xE6, 0xEE, 0xF6, 0xFE}"
    "op \<noteq> 0x00" "op \<noteq> 0x2F" "op \<noteq> 0x37" "op \<noteq> 0x3F" "op \<noteq> 0x36" "op \<noteq> 0x18" "op \<noteq> 0xCD" "op \<noteq> 0xC9" "op \<noteq> 0xC3" "op \<noteq> 0xE9" "op \<noteq> 0xFA" "op \<noteq> 0xEA" "op \<noteq> 0xE0" "op \<noteq> 0xF0" "op \<noteq> 0xCB"
    "op AND 0xC7 \<noteq> 0xC7"
    using assms k by (auto simp: word_le_nat_alt)
qed

lemma inline_op_ranges:
  "0x40 \<le> op \<Longrightarrow> op \<le> 0x7F \<Longrightarrow> op AND 7 \<noteq> 6 \<Longrightarrow> drop_bit 3 op AND 7 \<noteq> 6 \<Longrightarrow> inline_op op pc I = inline_ld_r_r op I"
  "0x80 \<le> op \<Longrightarrow> op \<le> 0xBF \<Longrightarrow> op AND 7 \<noteq> 6 \<Longrightarrow> inline_op op pc I = inline_alu_r op I"
proof -
  have h: "0x70 \<le> op \<Longrightarrow> op \<le> 0x77 \<Longrightarrow> drop_bit 3 op AND 7 = 6"
    using u8_range [of "0x70" "0x78" "\<lambda>op. drop_bit 3 op AND 7 = 6" op] by (simp add: word_le_nat_alt upt_rec)
  show "inline_op op pc I = inline_ld_r_r op I" if "0x40 \<le> op" "op \<le> 0x7F" "op AND 7 \<noteq> 6" "drop_bit 3 op AND 7 \<noteq> 6"
  proof -
    have "\<not> (0x70 \<le> op \<and> op \<le> 0x77 \<and> op \<noteq> 0x76)" using h that(4) by blast
    moreover have "op \<le> 0xBF" using that(2) by (simp add: word_le_nat_alt)
    moreover have "op \<noteq> 0x76" using that(3) by auto
    ultimately show ?thesis using that middle_ops [of op] by (simp add: inline_op_def fun_eq_iff del: insert_iff) blast
  qed
  show "inline_op op pc I = inline_alu_r op I" if "0x80 \<le> op" "op \<le> 0xBF" "op AND 7 \<noteq> 6"
  proof -
    have "\<not> op \<le> 0x7E" "\<not> op \<le> 0x77" "\<not> op \<le> 0x7F" "0x40 \<le> op" "op \<noteq> 0x76" using that(1) by (auto simp: word_le_nat_alt)
    then show ?thesis using that middle_ops [of op] by (simp add: inline_op_def fun_eq_iff del: insert_iff)
  qed
qed

lemma plain_op_inlined:
  assumes "lay_ok lay ms" "ic_m I = m" "mmu_read8 m pc = op" "plain_op m pc op"
  shows "\<exists>fs. inline_op op pc I = inlined fs \<and> op_ok lay m pc fs"
proof -
  note a = assms(1-3)
  consider "op \<in> {0x00, 0x2F, 0x37, 0x3F, 0x07, 0x0F, 0x17, 0x1F, 0x76, 0x18, 0xC3, 0xE9}"
    | (ld8) "op \<in> {0x06, 0x0E, 0x16, 0x1E, 0x26, 0x2E, 0x3E}" | (ld16) "op \<in> {0x01, 0x11, 0x21, 0x31}"
    | (inc8) "op \<in> {0x04, 0x0C, 0x14, 0x1C, 0x24, 0x2C, 0x3C, 0x05, 0x0D, 0x15, 0x1D, 0x25, 0x2D, 0x3D}"
    | (inc16) "op \<in> {0x03, 0x13, 0x23, 0x33, 0x0B, 0x1B, 0x2B, 0x3B}" | (addhl) "op \<in> {0x09, 0x19, 0x29, 0x39}"
    | (alu8) "op \<in> {0xC6, 0xCE, 0xD6, 0xDE, 0xE6, 0xEE, 0xF6, 0xFE}"
    | (ldrr) "0x40 \<le> op" "op \<le> 0x7F" "op AND 7 \<noteq> 6" "drop_bit 3 op AND 7 \<noteq> 6"
    | (alur) "0x80 \<le> op" "op \<le> 0xBF" "op AND 7 \<noteq> 6"
    | (cb) "op = 0xCB" "mmu_read8 m (pc + 1) AND 7 \<noteq> 6"
    using assms(4) unfolding plain_op_def by blast
  then show ?thesis
  proof cases
    case 1
    have e: "inline_op 0x00 pc I = inlined (emit_advance 1 4)" "inline_op 0x2F pc I = inline_cpl I" "inline_op 0x37 pc I = inline_scf_ccf 0x37 I"
      "inline_op 0x3F pc I = inline_scf_ccf 0x3F I" "inline_op 0x07 pc I = inline_rot_a 0x07 I" "inline_op 0x0F pc I = inline_rot_a 0x0F I"
      "inline_op 0x17 pc I = inline_rot_a 0x17 I" "inline_op 0x1F pc I = inline_rot_a 0x1F I"
      "inline_op 0x76 pc I = inlined ([xt_movi 2 1, xt_s8i 2 13 OFF_HALTED] @ emit_advance 1 4)"
      "inline_op 0x18 pc I = inline_jr pc I" "inline_op 0xC3 pc I = inline_jp pc I" "inline_op 0xE9 pc I = inline_jp_hl I"
      by (simp_all add: inline_op_def fun_eq_iff)
    from 1 show ?thesis
    proof (elim insertE emptyE)
      assume "op = 0x00" then show ?thesis using e(1) nop_ok a by blast
    next assume "op = 0x2F" then show ?thesis using e(2) cpl_ok a by metis
    next assume "op = 0x37" then show ?thesis using e(3) scf_ok a by metis
    next assume "op = 0x3F" then show ?thesis using e(4) scf_ok a by metis
    next assume "op = 0x07" then show ?thesis using e(5) rot_a_ok [OF a(1,3)] by auto
    next assume "op = 0x0F" then show ?thesis using e(6) rot_a_ok [OF a(1,3)] by auto
    next assume "op = 0x17" then show ?thesis using e(7) rot_a_ok [OF a(1,3)] by auto
    next assume "op = 0x1F" then show ?thesis using e(8) rot_a_ok [OF a(1,3)] by auto
    next assume "op = 0x76" then show ?thesis using e(9) halt_ok a by blast
    next assume "op = 0x18" then show ?thesis using e(10) jr_ok a by metis
    next assume "op = 0xC3" then show ?thesis using e(11) jp_ok a by metis
    next assume "op = 0xE9" then show ?thesis using e(12) jp_hl_ok [of m pc] a by (auto simp: inline_jp_hl_def)
    qed
  next
    case ld8
    then have "inline_op op pc I = inline_ld_r_n8 op pc I" by (elim insertE emptyE; simp add: inline_op_def fun_eq_iff)
    then show ?thesis using ld_r_n8_ok [OF a(1,3) ld8 a(2)] by simp
  next
    case ld16
    then have "inline_op op pc I = inline_ld_rr_n16 op pc I" by (elim insertE emptyE; simp add: inline_op_def fun_eq_iff word_le_nat_alt)
    then show ?thesis using ld_rr_ok [OF a(1,3) ld16 a(2)] by simp
  next
    case inc8
    then have "inline_op op pc I = inline_inc_dec op I" by (elim insertE emptyE; simp add: inline_op_def fun_eq_iff)
    then show ?thesis using inc_dec_ok [OF a(1,3) inc8] by simp
  next
    case inc16
    then have "inline_op op pc I = inline_inc_dec16 op I" by (elim insertE emptyE; simp add: inline_op_def fun_eq_iff)
    then show ?thesis using inc_dec16_ok [OF a(1,3) inc16] by simp
  next
    case addhl
    then have "inline_op op pc I = inline_add_hl op I" by (elim insertE emptyE; simp add: inline_op_def fun_eq_iff)
    then show ?thesis using add_hl_ok [OF a(1,3) addhl] by simp
  next
    case alu8
    then have "inline_op op pc I = inline_alu_n8 op pc I" by (elim insertE emptyE; simp add: inline_op_def fun_eq_iff)
    then show ?thesis using alu_n8_ok [OF a(1,3) alu8 a(2)] by simp
  next
    case ldrr
    have "op \<noteq> 0x76" using ldrr(3) by auto
    then show ?thesis using ld_r_r_ok [OF a(1,3) ldrr(1,2) _ ldrr(3,4)] inline_op_ranges(1) [OF ldrr] by auto
  next
    case alur
    then show ?thesis using alu_r_ok [OF a(1,3) alur] inline_op_ranges(2) [OF alur] by auto
  next
    case cb
    then have "inline_op op pc I = inline_cb pc I" by (simp add: inline_op_def fun_eq_iff)
    then show ?thesis using cb_ok [OF a(1) _ refl cb(2) a(2)] a(3) cb(1) by simp
  qed
qed

end
