(* ===== verification/Codegen_Grow.thy ===== *)
theory Codegen_Grow
  imports Codegen_Plain
begin

text \<open>
  The emit buffer as it grows: \<open>grown P Q e e'\<close> says that the buffer \<open>e\<close>, which holds \<open>P\<close>, has become \<open>e'\<close>, which
  holds \<open>P @ Q\<close>, and that nothing behind its capacity has changed. Its rules are those for emissions and for the
  patching of branches. Then the literals: the address that an L32R computes is that of the literal.
\<close>

section \<open>Growing the code\<close>

definition grown :: "insn list \<Rightarrow> insn list \<Rightarrow> xt_emit \<Rightarrow> xt_emit \<Rightarrow> bool" where
  "grown P Q e e' \<longleftrightarrow> holds (P @ Q) e' \<and> emit_room e' = emit_room e - 3 * length Q \<and> 3 * length Q \<le> emit_room e
     \<and> xt_cap e' = xt_cap e \<and> untouched (unat (xt_cap e)) (xt_buf e) (xt_buf e')"

lemma grown_refl: "holds P e \<Longrightarrow> grown P [] e e"
  by (simp add: grown_def)

lemma grown_holds: "grown P Q e e' \<Longrightarrow> holds (P @ Q) e'"
  by (simp add: grown_def)

lemma grown_trans:
  assumes "grown P Q e e'" "grown (P @ Q) R e' e''"
  shows "grown P (Q @ R) e e''"
proof -
  have "untouched (unat (xt_cap e)) (xt_buf e) (xt_buf e'')"
    using assms unfolding grown_def by (auto intro: untouched_trans)
  then show ?thesis using assms unfolding grown_def by auto
qed

lemma grown_emits:
  assumes "holds P e" "codes (length P) fs Q" "\<forall>i\<in>set Q. insn_ok i" "3 * length Q \<le> emit_room e"
  shows "grown P Q e (emits fs e)"
  using holds_emits [OF assms] assms(4) by (simp add: grown_def)

lemma codes_map: "codes k (map emit_insn Q) Q"
  by (induction Q arbitrary: k) auto

lemma grown_len: "grown P Q e e' \<Longrightarrow> xt_len e' = of_nat (3 * (length P + length Q))"
  using holds_len(2) [of "P @ Q" e'] by (simp add: grown_def)

lemma emit_room_eq: "xt_len e' = xt_len e \<Longrightarrow> xt_cap e' = xt_cap e \<Longrightarrow> emit_room e' = emit_room e"
  by (simp add: emit_room_def)

text \<open>A branch forward from instruction \<open>k\<close> to instruction \<open>t\<close>.\<close>

lemma rel_ok:
  assumes "k + 2 \<le> t" "t \<le> k + 600"
  shows "insn_ok (I_J (rel_to k t))" "s < 16 \<Longrightarrow> insn_ok (I_BEQZ s (rel_to k t))" "s < 16 \<Longrightarrow> insn_ok (I_BNEZ s (rel_to k t))"
proof -
  have e: "rel_to k t - 4 = of_nat (3 * (t - k) - 4)"
    using assms by (simp add: rel_to_def algebra_simps of_nat_diff)
  have "unat (rel_to k t - 4) = 3 * (t - k) - 4"
    unfolding e using assms unat_of_nat_u32 [of "3 * (t - k) - 4"] by (simp del: of_nat_diff of_nat_mult)
  then have r: "srange 11 (rel_to k t - 4)" using assms by (intro srange_small) simp
  then have "srange 17 (rel_to k t - 4)" by (simp add: srange_def)
  with r show "insn_ok (I_J (rel_to k t))" "s < 16 \<Longrightarrow> insn_ok (I_BEQZ s (rel_to k t))" "s < 16 \<Longrightarrow> insn_ok (I_BNEZ s (rel_to k t))"
    by simp_all
qed

lemma grown_patch_branch:
  assumes "grown P Q e e'" "k < length Q" "Q ! k = I_BEQZ s r \<and> i = I_BEQZ s rel \<or> Q ! k = I_BNEZ s r \<and> i = I_BNEZ s rel"
    "insn_ok i" "rel = rel_to (length P + k) t"
  shows "grown P (Q[k := i]) e (patch_branch_to (of_nat (3 * (length P + k))) (of_nat (3 * t)) e')"
proof -
  have h: "holds (P @ Q) e'" by (rule grown_holds [OF assms(1)])
  have r: "of_nat (3 * t) - of_nat (3 * (length P + k)) = rel" by (simp add: assms(5) rel_to_def)
  note p = holds_patch_branch [OF h, of "length P + k" s r i "of_nat (3 * t)", unfolded r]
  have c: "length P + k < length (P @ Q)" "(P @ Q) ! (length P + k) = Q ! k" "(P @ Q)[length P + k := i] = P @ Q[k := i]"
    using assms(2) by (simp_all add: list_update_append)
  note p = p [OF c(1) _ assms(4), unfolded c(2,3), OF assms(3)]
  show ?thesis using assms(1) p emit_room_eq [OF p(2,3)] unfolding grown_def by (auto intro: untouched_trans)
qed

lemma grown_patch_j:
  assumes "grown P Q e e'" "k < length Q" "Q ! k = I_J r" "insn_ok (I_J (rel_to (length P + k) t))"
  shows "grown P (Q[k := I_J (rel_to (length P + k) t)]) e (patch_j_to (of_nat (3 * (length P + k))) (of_nat (3 * t)) e')"
proof -
  have h: "holds (P @ Q) e'" by (rule grown_holds [OF assms(1)])
  let ?i = "I_J (rel_to (length P + k) t)"
  have r: "of_nat (3 * t) - of_nat (3 * (length P + k)) = rel_to (length P + k) t" by (simp add: rel_to_def)
  note p = holds_patch_j [OF h, of "length P + k" r "of_nat (3 * t)", unfolded r]
  have c: "length P + k < length (P @ Q)" "(P @ Q) ! (length P + k) = Q ! k" "(P @ Q)[length P + k := ?i] = P @ Q[k := ?i]"
    using assms(2) by (simp_all add: list_update_append)
  note p = p [OF c(1) _ assms(4), unfolded c(2,3), OF assms(3)]
  show ?thesis using assms(1) p emit_room_eq [OF p(2,3)] unfolding grown_def by (auto intro: untouched_trans)
qed

section \<open>Literals\<close>

text \<open>The offset field of the load of a literal by instruction \<open>k\<close> of code that starts at \<open>en\<close>.\<close>

definition lit_imm :: "u32 \<Rightarrow> nat \<Rightarrow> u32 \<Rightarrow> u32" where
  "lit_imm en k off = 0x10000 - drop_bit 2 (((en + of_nat (3 * k) + 3) AND NOT 3) - off)"

lemma codes_l32r: "codes k [l32r_here en at off] [I_L32R at (lit_imm en k off)]"
  by (simp add: l32r_here_def emit_l32r_at_def lit_imm_def Let_def)

lemma lit_addr:
  assumes "unat en + 3 * k + 3 < 0x20000" "unat off mod 4 = 0" "unat off < unat en"
  shows "((addr_of (unat en) k + 3) AND NOT 3) + 4 * signed_take_bit 15 (lit_imm en k off) = off"
proof -
  define al where "al = (addr_of (unat en) k + 3) AND NOT 3"
  have "unat (addr_of (unat en) k + 3) = unat en + 3 * k + 3"
    using assms(1) unat_of_nat_u32 [of "unat en + 3 * k + 3"] by (simp add: addr_of_def algebra_simps)
  then have al: "unat al = unat en + 3 * k + 3 - (unat en + 3 * k + 3) mod 4" unfolding al_def unat_and_not_3 by simp
  then have le: "unat off \<le> unat al" "unat al mod 4 = 0" "unat al < 0x20000" "unat off < unat al"
    using assms mod_less_divisor [of 4 "unat en + 3 * k + 3"] by (auto simp: mod_diff_eq dvd_minus_mod simp flip: dvd_eq_mod_eq_0)
  define d where "d = (unat al - unat off) div 4"
  have d: "4 * d = unat al - unat off" "0 < d" "d < 0x8000"
    using le assms(2) by (auto simp: d_def) presburger+
  have "unat (drop_bit 2 (al - off)) = d"
    using le(1) by (simp add: drop_bit_eq_div unat_div unat_sub word_le_nat_alt d_def)
  then have "drop_bit 2 (al - off) = of_nat d" by (metis of_nat_unat ucast_id)
  moreover have "en + of_nat (3 * k) = addr_of (unat en) k" by (simp add: addr_of_def)
  ultimately have i: "lit_imm en k off = of_int (0x10000 - int d)" by (simp add: lit_imm_def al_def)
  have "signed_take_bit 15 (0x10000 - int d) = signed_take_bit 15 (- int d)"
    by (rule signed_take_bit_eq_iff_take_bit_eq [THEN iffD2]) (simp add: take_bit_eq_mod mod_simps)
  also have "\<dots> = - int d" using d by (intro signed_take_bit_int_eq_self) auto
  finally have "signed_take_bit 15 (0x10000 - int d) = - int d" .
  moreover have "signed_take_bit 15 (lit_imm en k off) = of_int (signed_take_bit 15 (0x10000 - int d))"
    unfolding i by (rule signed_take_bit_of_int)
  ultimately have "signed_take_bit 15 (lit_imm en k off) = - of_nat d" by simp
  moreover have "(of_nat (4 * d) :: u32) = al - off" using le(1) by (simp add: d(1) of_nat_diff)
  ultimately show ?thesis unfolding al_def [symmetric] by (simp add: algebra_simps)
qed

end
