(* ===== verification/Codegen_Step.thy ===== *)
theory Codegen_Step
  imports Codegen_Grow
begin

text \<open>
  One guest instruction of a block: the code that calls the interpreter (\<open>helper_call\<close>) and the code of a
  conditional jump (\<open>two_way\<close>, after patching), run in the simulator, against \<open>sm83_step\<close> and the instruction
  switch.
\<close>

section \<open>The state between two instructions of a block\<close>

definition at_op :: "mmu \<Rightarrow> u16 \<Rightarrow> cpu_state \<Rightarrow> bool" where
  "at_op m pc c \<longleftrightarrow> cpu_pc c = pc \<and> flags_ok c \<and> (\<forall>i<3. mmu_read8 (cpu_mmu c) (pc + of_nat i) = mmu_read8 m (pc + of_nat i))"

lemma synced_sel [simp]: "cpu_pc (synced S) = ucast (fst S 11)" "cpu_mmu (synced S) = cpu_mmu (snd S)"
  "cpu_jit_ret_pc (synced S) = cpu_jit_ret_pc (snd S)" "flags_ok (synced S) = flags_ok (snd S)"
  by (simp_all add: synced_def low_add_def flags_ok_def)

lemma pre_iff: "pre m pc S \<longleftrightarrow> fst S 13 = 0xC0DE0000 \<and> at_op m pc (synced S)"
  by (auto simp: pre_def at_op_def)

text \<open>The code \<open>Q\<close> at instruction \<open>k\<close> takes every state that satisfies \<open>A\<close> to its end, in the relation \<open>B\<close>.\<close>

definition runs :: "mmu_layout \<Rightarrow> u32 \<Rightarrow> u8 array \<Rightarrow> u32 \<Rightarrow> nat \<Rightarrow> nat \<Rightarrow> insn list \<Rightarrow> (gstate \<Rightarrow> bool) \<Rightarrow> (gstate \<Rightarrow> gstate \<Rightarrow> bool) \<Rightarrow> bool" where
  "runs lay ms code len en k Q A B \<longleftrightarrow> (\<forall>P S. code_at P k Q \<longrightarrow> A S \<longrightarrow>
     (\<exists>S'. goes (block_env lay ms code len) lay en P k S (k + length Q) S' (length Q) \<and> B S S'))"

lemma runsI:
  assumes "\<And>P S. code_at P k Q \<Longrightarrow> A S \<Longrightarrow> \<exists>S'. goes (block_env lay ms code len) lay en P k S (k + length Q) S' (length Q) \<and> B S S'"
  shows "runs lay ms code len en k Q A B"
  using assms by (simp add: runs_def)

lemma runs_seq:
  assumes "runs lay ms code len en k Q A B" "runs lay ms code len en (k + length Q) R A' B'"
    "\<And>S S'. A S \<Longrightarrow> B S S' \<Longrightarrow> A' S'" "\<And>S S' S''. A S \<Longrightarrow> B S S' \<Longrightarrow> B' S' S'' \<Longrightarrow> B'' S S''"
  shows "runs lay ms code len en k (Q @ R) A B''"
proof (rule runsI)
  fix P S assume c: "code_at P k (Q @ R)" and A: "A S"
  then have c': "code_at P k Q" "code_at P (k + length Q) R" by simp_all
  then obtain S' where 1: "goes (block_env lay ms code len) lay en P k S (k + length Q) S' (length Q)" "B S S'"
    using assms(1) A unfolding runs_def by blast
  then obtain S'' where 2: "goes (block_env lay ms code len) lay en P (k + length Q) S' (k + length Q + length R) S'' (length R)" "B' S' S''"
    using assms(2) assms(3) [OF A 1(2)] c'(2) unfolding runs_def by blast
  from goes_trans [OF 1(1) 2(1)] show "\<exists>S''. goes (block_env lay ms code len) lay en P k S (k + length (Q @ R)) S'' (length (Q @ R)) \<and> B'' S S''"
    using assms(4) [OF A 1(2) 2(2)] by (intro exI [of _ S'']) (simp add: add.assoc)
qed

lemma runs_straight:
  assumes "lay_ok lay ms" "\<And>S. A S \<Longrightarrow> gseq_ok lay (block_lit code len) en k Q S \<and> B S (gseq lay (block_lit code len) en k Q S)"
  shows "runs lay ms code len en k Q A B"
  using assms(2) goes_seq [OF assms(1)] by (intro runsI) blast

text \<open>One guest instruction.\<close>

definition op_runs :: "mmu_layout \<Rightarrow> u32 \<Rightarrow> u8 array \<Rightarrow> u32 \<Rightarrow> nat \<Rightarrow> nat \<Rightarrow> insn list \<Rightarrow> mmu \<Rightarrow> u16 \<Rightarrow> (cpu_state \<Rightarrow> cpu_state \<Rightarrow> bool) \<Rightarrow> bool" where
  "op_runs lay ms code len en k Q m pc R \<longleftrightarrow>
     runs lay ms code len en k Q (pre m pc) (\<lambda>S S'. fst S' 13 = 0xC0DE0000 \<and> R (synced S) (synced S'))"

lemma op_ok_runs:
  assumes "lay_ok lay ms" "op_ok lay m pc fs"
  obtains Q where "fs = map emit_insn Q" "\<forall>i\<in>set Q. insn_ok i" "length Q \<le> 32"
    "\<And>code len en k. op_runs lay ms code len en k Q m pc (\<lambda>c c'. c' = jit_exec c)"
proof -
  obtain Q where Q: "fs = map emit_insn Q" "\<forall>i\<in>set Q. insn_ok i" "length Q \<le> 32"
    "\<And>lit en k S. pre m pc S \<Longrightarrow> gseq_ok lay lit en k Q S \<and> fst (gseq lay lit en k Q S) 13 = 0xC0DE0000
          \<and> synced (gseq lay lit en k Q S) = jit_exec (synced S)" using assms(2) unfolding op_ok_def by blast
  have "op_runs lay ms code len en k Q m pc (\<lambda>c c'. c' = jit_exec c)" for code len en k
    unfolding op_runs_def by (rule runs_straight [OF assms(1)]) (use Q(4) in blast)
  with Q(1-3) show ?thesis by (rule that)
qed

section \<open>The call of the interpreter\<close>

text \<open>\<open>lits\<close>: the words that the run reads at the offsets of the pool.\<close>

definition has_lits :: "u8 array \<Rightarrow> u32 \<Rightarrow> bool" where
  "has_lits code len \<longleftrightarrow> (\<forall>l. block_lit code len (lit_off l) = host_helper_addr l)"

definition helper_insns :: "nat \<Rightarrow> insn list" where
  "helper_insns k = [I_S16I 11 13 10, I_L32I 14 13 16, I_ADD 14 14 12, I_S32I 14 13 16, I_MOV 2 13]
     @ [I_L32R 14 (lit_imm entry_offset (k + 5) (lit_off HELPER_SM83_STEP)), I_CALLX0 14]
     @ [I_L32R 13 (lit_imm entry_offset (k + 7) (lit_off ADDR_CPU_BASE)), I_L16UI 11 13 10, I_MOVI 12 0]"

lemma helper_codes:
  assumes "ic_lit_off I = lit_off" "ic_entry_off I = entry_offset"
  shows "codes k (helper_call I) (helper_insns k)"
proof -
  have e: "helper_call I = map emit_insn [I_S16I 11 13 10, I_L32I 14 13 16, I_ADD 14 14 12, I_S32I 14 13 16, I_MOV 2 13]
    @ [l32r_here entry_offset 14 (lit_off HELPER_SM83_STEP)] @ map emit_insn [I_CALLX0 14]
    @ [l32r_here entry_offset 13 (lit_off ADDR_CPU_BASE)] @ map emit_insn [I_L16UI 11 13 10, I_MOVI 12 0]"
    by (simp add: helper_call_def assms emit_sync_state_def emit_callx0_helper_def emit_reload_state_def)
  show ?thesis unfolding e helper_insns_def
    by (intro codes_append [where P = "[I_S16I 11 13 10, I_L32I 14 13 16, I_ADD 14 14 12, I_S32I 14 13 16, I_MOV 2 13]"] codes_map)
       (simp add: l32r_here_def emit_l32r_at_def lit_imm_def Let_def)
qed

lemma entry_offset_148: "entry_offset = 148"
  by (simp add: entry_offset_def LITERAL_COUNT_def MAX_EXTRA_LITERALS_def align_up_4_def)

lemma helper_insns_ok: "\<forall>i\<in>set (helper_insns k). insn_ok i" "length (helper_insns k) = 10"
  by (simp_all add: helper_insns_def srange_def)

lemma lit_off_simps [simp]: "lit_off ADDR_CPU_BASE = 0" "lit_off ADDR_MMU_BASE = 4" "lit_off HELPER_SM83_STEP = 8"
  "lit_off HELPER_MMU_READ8 = 12" "lit_off HELPER_MMU_WRITE8 = 16"
  by (simp_all add: lit_off_def)

lemma lit_addr_148:
  assumes "k \<le> 40000" "unat off mod 4 = 0" "unat off < 148"
  shows "((addr_of 148 k + 3) AND NOT 3) + 4 * signed_take_bit 15 (lit_imm entry_offset k off) = off"
  using lit_addr [of entry_offset k off] assms by (simp only: entry_offset_148) simp

lemma helper_runs:
  assumes "lay_ok lay ms" "has_lits code len" "k \<le> 30000"
  shows "op_runs lay ms code len 148 k (helper_insns k) m pc (\<lambda>c c'. c' = snd (sm83_step c))"
  unfolding op_runs_def
proof (rule runsI)
  fix P S assume c: "code_at P k (helper_insns k)" and p: "pre m pc S"
  obtain a g where S: "S = (a, g)" by (cases S)
  have a13: "a 13 = 0xC0DE0000" using p by (simp add: S pre_def)
  let ?E = "block_env lay ms code len" and ?lit = "block_lit code len"
  let ?g1 = "(synced S)" and ?Q1 = "[I_S16I 11 13 10, I_L32I 14 13 16, I_ADD 14 14 12, I_S32I 14 13 16, I_MOV 2 13, I_L32R 14 (lit_imm entry_offset (k + 5) 8)]"
  have lit: "?lit 8 = 2" "?lit 0 = 0xC0DE0000"
    using assms(2) [unfolded has_lits_def, THEN spec, of HELPER_SM83_STEP] assms(2) [unfolded has_lits_def, THEN spec, of ADDR_CPU_BASE]
    by (simp_all add: host_helper_addr_def)
  have n: "k + 5 = Suc (Suc (Suc (Suc (Suc k))))" "k + 6 = Suc (Suc (Suc (Suc (Suc (Suc k)))))" "k + 7 = Suc (Suc (Suc (Suc (Suc (Suc (Suc k))))))"
    by simp_all
  note la = lit_addr_148 [of "k + 5" 8, unfolded n] lit_addr_148 [of "k + 7" 0]
  obtain a1 where a1: "gseq lay ?lit 148 k ?Q1 (a, g) = (a1, ?g1)" "a1 14 = 2" "gseq_ok lay ?lit 148 k ?Q1 (a, g)"
    using la assms(3) a13 lit by (simp add: S gst_cpu16 [OF assms(1)] gst_cpu32 [OF assms(1)] synced_def low_add_def n(1) )
  let ?g2 = "snd (sm83_step ?g1)" and ?a2 = "a1(0 := addr_of 148 (k + 7))"
  let ?Q2 = "[I_L32R 13 (lit_imm entry_offset (k + 7) 0), I_L16UI 11 13 10, I_MOVI 12 0]"
  have Q: "helper_insns k = ?Q1 @ [I_CALLX0 14] @ ?Q2" by (simp add: helper_insns_def)
  have at: "code_at P k ?Q1" "k + 6 < length P" "P ! (k + 6) = I_CALLX0 14" "code_at P (k + 7) ?Q2"
    using c unfolding Q by (simp_all add: n)
  have 1: "goes ?E lay 148 P k (a, g) (k + 6) (a1, ?g1) 6"
    using goes_seq [OF assms(1) at(1) a1(3), unfolded a1(1)] by (simp add: eval_nat_numeral)
  have s: "Suc (k + 6) = k + 7" by simp
  have 2: "goes ?E lay 148 P (k + 6) (a1, ?g1) (k + 7) (?a2, ?g2) 1"
    using goes_step_helper [OF assms(1) at(2,3), of a1 code len 148 ?g1, unfolded s] a1(2) by simp
  obtain a3 where a3: "gseq lay ?lit 148 (k + 7) ?Q2 (?a2, ?g2) = (a3, ?g2)" "a3 13 = 0xC0DE0000" "a3 11 = ucast (cpu_pc ?g2)" "a3 12 = 0"
      "gseq_ok lay ?lit 148 (k + 7) ?Q2 (?a2, ?g2)"
    using la assms(3) lit by simp
  have 3: "goes ?E lay 148 P (k + 7) (?a2, ?g2) (k + 10) (a3, ?g2) 3"
    using goes_seq [OF assms(1) at(4) a3(5), unfolded a3(1)] by (simp add: eval_nat_numeral)
  have "goes ?E lay 148 P k (a, g) (k + 10) (a3, ?g2) 10"
    using goes_trans [OF goes_trans [OF 1 2] 3] by simp
  moreover have "synced (a3, ?g2) = ?g2" by (simp add: synced_def a3)
  ultimately show "\<exists>S'. goes ?E lay 148 P k S (k + length (helper_insns k)) S' (length (helper_insns k))
      \<and> fst S' 13 = 0xC0DE0000 \<and> synced S' = snd (sm83_step (synced S))"
    using a3(2) helper_insns_ok(2) [of k] by (intro exI [of _ "(a3, ?g2)"]) (simp add: S)
qed

section \<open>Conditional jumps\<close>

definition two_way_insns :: "nat \<Rightarrow> u8 \<Rightarrow> bool \<Rightarrow> insn list \<Rightarrow> insn list \<Rightarrow> insn list" where
  "two_way_insns k fm tz T U =
     (let skip = rel_to (k + 3) (k + 5 + length T); out = rel_to (k + 4 + length T) (k + 5 + length T + length U)
      in [I_L8UI 4 13 0, I_MOVI 5 (ucast fm), I_AND 4 4 5, (if tz then I_BNEZ 4 skip else I_BEQZ 4 skip)] @ T @ [I_J out] @ U)"

lemma length_two_way [simp]: "length (two_way_insns k fm tz T U) = 5 + length T + length U"
  by (simp add: two_way_insns_def Let_def)

lemma two_way_grown:
  assumes "holds P e" "taken = map emit_insn T" "untaken = map emit_insn U" "\<forall>i\<in>set (T @ U). insn_ok i"
    "1 \<le> length U" "1 \<le> length T" "length T + length U \<le> 100" "3 * (5 + length T + length U) \<le> emit_room e" "srange 11 (ucast fm)"
  shows "grown P (two_way_insns (length P) fm tz T U) e (two_way fm tz taken untaken e)"
proof -
  let ?k = "length P" and ?B = "\<lambda>r. if tz then I_BNEZ 4 r else I_BEQZ 4 r :: insn"
  let ?C = "[I_L8UI 4 13 0, I_MOVI 5 (ucast fm), I_AND 4 4 5]"
  define skip where "skip = rel_to (?k + 3) (?k + 5 + length T)"
  define out where "out = rel_to (?k + 4 + length T) (?k + 5 + length T + length U)"
  have room: "3 * (4 + length T) \<le> emit_room e - 3" "3 * (1 + length U) \<le> emit_room e - 3 * (4 + length T)" using assms(8) by auto
  have ct: "cond_test fm = map emit_insn ?C" by (simp add: cond_test_def)
  have sb: "[skip_branch tz] = map emit_insn [?B 4]" by (simp add: skip_branch_def)
  define e1 where "e1 = emits (cond_test fm) e"
  define e2 where "e2 = emits [skip_branch tz] e1"
  define e3 where "e3 = emits taken e2"
  define e4 where "e4 = emits [xt_j 4] e3"
  define e5 where "e5 = emits untaken e4"
  have b4: "insn_ok (?B 4)" "insn_ok (I_J 4)" by (auto simp: srange_def)
  have g1: "grown P ?C e e1"
    unfolding e1_def by (rule grown_emits [OF assms(1)]) (use ct codes_map [of ?k ?C] assms(8,9) in \<open>auto simp: srange_def\<close>)
  have g2: "grown P (?C @ [?B 4]) e e2"
    by (rule grown_trans [OF g1], unfold e2_def sb, rule grown_emits [OF grown_holds [OF g1] codes_map]) (use g1 b4 assms(8) in \<open>auto simp: grown_def\<close>)
  have g3: "grown P ((?C @ [?B 4]) @ T) e e3"
    by (rule grown_trans [OF g2], unfold e3_def assms(2), rule grown_emits [OF grown_holds [OF g2] codes_map])
      (use g2 assms(4,8) in \<open>auto simp: grown_def\<close>)
  have g4: "grown P (((?C @ [?B 4]) @ T) @ [I_J 4]) e e4"
    by (rule grown_trans [OF g3], unfold e4_def, rule grown_emits [OF grown_holds [OF g3]])
      (use g3 b4 assms(8) in \<open>auto simp: grown_def\<close>)
  have g5: "grown P ((((?C @ [?B 4]) @ T) @ [I_J 4]) @ U) e e5"
    by (rule grown_trans [OF g4], unfold e5_def assms(3), rule grown_emits [OF grown_holds [OF g4] codes_map])
      (use g4 assms(4,8) in \<open>auto simp: grown_def\<close>)
  have l: "xt_len e1 = of_nat (3 * (?k + 3))" "xt_len e3 = of_nat (3 * (?k + (4 + length T)))" "xt_len e4 = of_nat (3 * (?k + 5 + length T))"
    "xt_len e5 = of_nat (3 * (?k + 5 + length T + length U))"
    using grown_len [OF g1] grown_len [OF g3] grown_len [OF g4] grown_len [OF g5] by (simp_all add: algebra_simps)
  let ?Q5 = "(((?C @ [?B 4]) @ T) @ [I_J 4]) @ U"
  have ok: "insn_ok (?B skip)" "insn_ok (I_J out)"
    using rel_ok(2,3) [of "?k + 3" "?k + 5 + length T" 4] rel_ok(1) [of "?k + 4 + length T" "?k + 5 + length T + length U"] assms(5-7)
    unfolding skip_def out_def by simp_all
  have n3: "3 < length ?Q5" "?Q5 ! 3 = ?B 4" by (simp_all add: nth_append nth_Cons')
  note g6 = grown_patch_branch [OF g5 n3(1), of 4 4 "?B skip" skip "?k + 5 + length T", folded l]
  have Q6: "?Q5[3 := ?B skip] = ?C @ [?B skip] @ T @ [I_J 4] @ U" by (simp add: numeral_3_eq_3)
  have g6: "grown P (?C @ [?B skip] @ T @ [I_J 4] @ U) e (patch_branch_to (xt_len e1) (xt_len e4) e5)"
    using g6 n3(2) ok(1) skip_def unfolding Q6 by simp
  have n4: "4 + length T < length (?C @ [?B skip] @ T @ [I_J 4] @ U)" "(?C @ [?B skip] @ T @ [I_J 4] @ U) ! (4 + length T) = I_J 4"
    by (simp_all add: nth_append nth_Cons')
  have Q7: "(?C @ [?B skip] @ T @ [I_J 4] @ U)[4 + length T := I_J out] = two_way_insns ?k fm tz T U"
    by (simp add: two_way_insns_def Let_def skip_def out_def list_update_append)
  have "grown P ((?C @ [?B skip] @ T @ [I_J 4] @ U)[4 + length T := I_J out]) e
      (patch_j_to (of_nat (3 * (?k + (4 + length T)))) (of_nat (3 * (?k + 5 + length T + length U))) (patch_branch_to (xt_len e1) (xt_len e4) e5))"
    using grown_patch_j [OF g6 n4(1,2), of "?k + 5 + length T + length U"] ok(2) by (simp add: out_def add.assoc)
  then show ?thesis
    unfolding Q7 l(2,4) [symmetric] by (simp add: two_way_def Let_def e1_def e2_def e3_def e4_def e5_def del: emits_simps)
qed

definition jumps :: "mmu_layout \<Rightarrow> u16 \<Rightarrow> u32 \<Rightarrow> insn list \<Rightarrow> bool" where
  "jumps lay t c T \<longleftrightarrow> (\<forall>lit en k a g. gseq_ok lay lit en k T (a, g)
     \<and> (let S = gseq lay lit en k T (a, g) in snd S = g \<and> fst S 13 = a 13 \<and> fst S 11 = ucast t \<and> fst S 12 = a 12 + c))"

lemma load_jump:
  assumes "srange 7 c"
  obtains T where "emit_load_u16 11 t 2 @ [xt_addi 12 12 c] = map emit_insn T" "\<forall>i\<in>set T. insn_ok i" "jumps lay t c T" "1 \<le> length T" "length T \<le> 5"
proof -
  obtain Q where Q: "emit_load_u16 11 t 2 = map emit_insn Q" "\<forall>i\<in>set Q. insn_ok i" "\<And>lit en k S. gseq_ok lay lit en k Q S"
    "\<And>lit en k a g. \<exists>x. gseq lay lit en k Q (a, g) = (a(2 := x, 11 := ucast t), g)"
    by (rule load_u16 [of 11 t 2 lay]) simp_all
  have "length Q \<le> 4" using arg_cong [OF Q(1), of length] by (simp add: emit_load_u16_def Let_def split: if_splits)
  moreover have "jumps lay t c (Q @ [I_ADDI 12 12 c])"
    unfolding jumps_def
  proof (intro allI)
    fix lit en k a g
    obtain x where x: "gseq lay lit en k Q (a, g) = (a(2 := x, 11 := ucast t), g)" using Q(4) by blast
    show "gseq_ok lay lit en k (Q @ [I_ADDI 12 12 c]) (a, g)
      \<and> (let S = gseq lay lit en k (Q @ [I_ADDI 12 12 c]) (a, g) in snd S = g \<and> fst S 13 = a 13 \<and> fst S 11 = ucast t \<and> fst S 12 = a 12 + c)"
      using Q(3) by (simp add: gseq_append x)
  qed
  ultimately show ?thesis using Q(1,2) assms by (intro that [of "Q @ [I_ADDI 12 12 c]"]) auto
qed

lemma ucast_and_zero: "(ucast (f :: u8) AND ucast (w :: u8) :: u32) = 0 \<longleftrightarrow> f AND w = 0"
proof -
  have "(ucast f AND ucast w :: u32) = ucast (f AND w)" by (simp add: unsigned_and_eq)
  moreover have "(ucast (x :: u8) :: u32) = 0 \<longleftrightarrow> x = 0" for x by (metis ucast_up_down(1) unsigned_0)
  ultimately show ?thesis by simp
qed

lemma two_way_runs:
  assumes "lay_ok lay ms" "jumps lay tT cT T" "jumps lay tU cU U" "1 \<le> length U"
  shows "runs lay ms code len en k (two_way_insns k fm tz T U) (\<lambda>S. fst S 13 = 0xC0DE0000)
     (\<lambda>S S'. fst S' 13 = 0xC0DE0000 \<and> synced S' = (let (t, c) = (if (cpu_f (snd S) AND fm = 0) = tz then (tT, cT) else (tU, cU))
        in low_add (fst S 12 + c) ((snd S)\<lparr>cpu_pc := t\<rparr>)))"
proof (rule runsI)
  fix P and S :: gstate assume c: "code_at P k (two_way_insns k fm tz T U)" and p: "fst S 13 = 0xC0DE0000"
  obtain a g where S: "S = (a, g)" by (cases S)
  let ?E = "block_env lay ms code len" and ?lit = "block_lit code len"
  define kT where "kT = k + 4"
  define kJ where "kJ = kT + length T"
  define kU where "kU = kJ + 1"
  define kE where "kE = kU + length U"
  let ?C = "[I_L8UI 4 13 0, I_MOVI 5 (ucast fm), I_AND 4 4 5]" and ?a = "a(4 := ucast (cpu_f g) AND ucast fm, 5 := ucast fm)"
  have n: "k + 3 = Suc (Suc (Suc k))" "k + 4 = Suc (Suc (Suc (Suc k)))" by simp_all
  have eq: "k + 5 + length T = kU" "k + 4 + length T = kJ" "kU + length U = kE" "kT = Suc (k + 3)" "kU = Suc kJ"
    by (simp_all add: kT_def kJ_def kU_def kE_def)
  have at: "code_at P k ?C" "k + 3 < length P" "P ! (k + 3) = (if tz then I_BNEZ 4 (rel_to (k + 3) kU) else I_BEQZ 4 (rel_to (k + 3) kU))"
      "code_at P kT T" "kJ < length P" "P ! kJ = I_J (rel_to kJ kE)" "code_at P kU U"
    using c unfolding two_way_insns_def Let_def eq by (simp_all add: n kT_def kJ_def kU_def kE_def)
  have 1: "goes ?E lay en P k S (k + 3) (?a, g) 3"
  proof -
    have "gseq_ok lay ?lit en k ?C S" "gseq lay ?lit en k ?C S = (?a, g)" using p by (simp_all add: S fun_upd_twist)
    with goes_seq [OF assms(1) at(1), of code len en S] show ?thesis by (simp add: n(1) numeral_3_eq_3)
  qed
  have z: "?a (unat (4 :: u8)) \<noteq> 0 \<longleftrightarrow> cpu_f g AND fm \<noteq> 0" by (simp add: ucast_and_zero)
  let ?taken = "(cpu_f g AND fm = 0) = tz"
  have 2: "goes ?E lay en P (k + 3) (?a, g) (if ?taken then kT else kU) (?a, g) 1"
    using goes_bnez [OF at(2), of 4 kU ?E lay en "(?a, g)"] goes_beqz [OF at(2), of 4 kU ?E lay en "(?a, g)"] at(3) z
    by (cases tz) (auto simp: eq(4))
  obtain aT where aT: "gseq lay ?lit en kT T (?a, g) = (aT, g)" "aT 13 = 0xC0DE0000" "aT 11 = ucast tT" "aT 12 = a 12 + cT" "gseq_ok lay ?lit en kT T (?a, g)"
    using assms(2) [unfolded jumps_def, THEN spec, THEN spec, THEN spec, THEN spec, THEN spec, of ?lit en kT ?a g] p
    by (cases "gseq lay ?lit en kT T (?a, g)") (auto simp: S Let_def)
  obtain aU where aU: "gseq lay ?lit en kU U (?a, g) = (aU, g)" "aU 13 = 0xC0DE0000" "aU 11 = ucast tU" "aU 12 = a 12 + cU" "gseq_ok lay ?lit en kU U (?a, g)"
    using assms(3) [unfolded jumps_def, THEN spec, THEN spec, THEN spec, THEN spec, THEN spec, of ?lit en kU ?a g] p
    by (cases "gseq lay ?lit en kU U (?a, g)") (auto simp: S Let_def)
  have T: "goes ?E lay en P kT (?a, g) kE (aT, g) (length T + 1)"
    using goes_seq [OF assms(1) at(4) aT(5), unfolded aT(1), folded kJ_def] goes_j [OF at(5,6)] by (rule goes_trans)
  have U: "goes ?E lay en P kU (?a, g) kE (aU, g) (length U)"
    using goes_seq [OF assms(1) at(7) aU(5)] aU(1) by (simp add: kE_def)
  define S' where "S' = (if ?taken then (aT, g) else (aU, g))"
  have "goes ?E lay en P (if ?taken then kT else kU) (?a, g) kE S' (length T + 1 + length U)"
    unfolding S'_def using goes_mono [OF T, of "length T + 1 + length U"] goes_mono [OF U, of "length T + 1 + length U"] by simp
  note g = goes_trans [OF goes_trans [OF 1 2] this]
  have l: "k + length (two_way_insns k fm tz T U) = kE" "length (two_way_insns k fm tz T U) = 3 + 1 + (length T + 1 + length U)"
    by (simp_all add: kE_def kU_def kJ_def kT_def)
  have "goes ?E lay en P k S (k + length (two_way_insns k fm tz T U)) S' (length (two_way_insns k fm tz T U))"
    unfolding l(1) unfolding l(2) by (rule g)
  moreover have "fst S' 13 = 0xC0DE0000" "synced S' = (let (t, c) = (if ?taken then (tT, cT) else (tU, cU)) in low_add (a 12 + c) (g\<lparr>cpu_pc := t\<rparr>))"
    by (simp_all add: S'_def aT aU synced_def)
  ultimately show "\<exists>S'. goes ?E lay en P k S (k + length (two_way_insns k fm tz T U)) S' (length (two_way_insns k fm tz T U))
      \<and> fst S' 13 = 0xC0DE0000 \<and> synced S' = (let (t, c) = (if (cpu_f (snd S) AND fm = 0) = tz then (tT, cT) else (tU, cU))
        in low_add (fst S 12 + c) ((snd S)\<lparr>cpu_pc := t\<rparr>))"
    unfolding S fst_conv snd_conv by blast
qed

lemma exec_jr_cc:
  assumes "op \<in> {0x20, 0x28, 0x30, 0x38}"
  shows "exec_op op s = (let (s', b) = jr_cc op s in (if b then 12 else 8, s'))"
  using assms by (elim insertE emptyE; simp add: exec_op_def exec_20_def timed_def op_info_def case_prod_beta)

lemma exec_jp_cc:
  assumes "op \<in> {0xC2, 0xCA, 0xD2, 0xDA}"
  shows "exec_op op s = (let (s', b) = jp_cc op s in (if b then 16 else 12, s'))"
  using assms by (elim insertE emptyE; simp add: exec_op_def timed_def op_info_def case_prod_beta)

lemma at_op_reads:
  assumes "at_op m pc c"
  shows "cpu_pc c = pc" "mmu_read8 (cpu_mmu c) pc = mmu_read8 m pc" "mmu_read8 (cpu_mmu c) (pc + 1) = mmu_read8 m (pc + 1)"
    "mmu_read8 (cpu_mmu c) (pc + 2) = mmu_read8 m (pc + 2)"
proof -
  have *: "i < 3 \<Longrightarrow> mmu_read8 (cpu_mmu c) (pc + of_nat i) = mmu_read8 m (pc + of_nat i)" for i
    using assms by (simp add: at_op_def)
  show "cpu_pc c = pc" "mmu_read8 (cpu_mmu c) pc = mmu_read8 m pc" "mmu_read8 (cpu_mmu c) (pc + 1) = mmu_read8 m (pc + 1)"
    "mmu_read8 (cpu_mmu c) (pc + 2) = mmu_read8 m (pc + 2)"
    using assms * [of 0] * [of 1] * [of 2] by (simp_all add: at_op_def)
qed

text \<open>The branch taken by the interpreter, in the form of \<open>two_way\<close>.\<close>

lemma jit_exec_jr_cc:
  assumes "op \<in> {0x20, 0x28, 0x30, 0x38}" "at_op m pc c" "mmu_read8 m pc = op"
  defines "cc \<equiv> drop_bit 3 op AND 3" and "off \<equiv> mmu_read8 m (pc + 1)"
  shows "jit_exec c = (let (t, n) = (if (cpu_f c AND (if cc < 2 then FLAG_Z else FLAG_C) = 0) = (cc AND 1 = 0)
       then (pc + 2 + scast off, 12) else (pc + 2, 8)) in low_add n (c\<lparr>cpu_pc := t\<rparr>))"
proof -
  have r: "cpu_pc c = pc" "mmu_read8 (cpu_mmu c) pc = op" "mmu_read8 (cpu_mmu c) (pc + 1) = off"
    using at_op_reads [OF assms(2)] assms(3) by (simp_all add: off_def)
  show ?thesis
    using assms(1)
    by (elim insertE emptyE; simp add: jit_exec_def fetch8_def rd8_def r exec_jr_cc jr_cc_def cond_def has_def cc_def two_comm add.assoc)
qed

lemma jit_exec_jp_cc:
  assumes "op \<in> {0xC2, 0xCA, 0xD2, 0xDA}" "at_op m pc c" "mmu_read8 m pc = op"
  shows "jit_exec c = (let (t, n) = (if (cpu_f c AND (if drop_bit 4 op AND 1 \<noteq> 0 then FLAG_C else FLAG_Z) = 0) = (op AND 0x08 = 0)
       then (mk16 (mmu_read8 m (pc + 1)) (mmu_read8 m (pc + 2)), 16) else (pc + 3, 12)) in low_add n (c\<lparr>cpu_pc := t\<rparr>))"
proof -
  have r: "cpu_pc c = pc" "mmu_read8 (cpu_mmu c) pc = op" "mmu_read8 (cpu_mmu c) (pc + 1) = mmu_read8 m (pc + 1)"
    "mmu_read8 (cpu_mmu c) (pc + 2) = mmu_read8 m (pc + 2)"
    using at_op_reads [OF assms(2)] assms(3) by simp_all
  have n: "3 + pc = pc + 3" by (rule add.commute)
  show ?thesis
    using assms(1)
    by (elim insertE emptyE; simp add: jit_exec_def fetch8_def fetch16_def rd8_def r exec_jp_cc jp_cc_def cond_def has_def two_comm add.assoc n Let_def)
qed

end
