(* ===== verification/Codegen_Run.thy ===== *)
theory Codegen_Run
  imports Codegen_Step
begin

text \<open>
  The body of a block: \<open>op_emitted\<close> says that the code emitted for one guest instruction extends the buffer by
  instructions that do what the instruction does, for inlined instructions, conditional jumps and calls of the
  interpreter; by induction over the instructions of the block the same holds of \<open>emit_body\<close>
  (src/jit/codegen.c), with room to spare in the buffer and the literal pool untouched.
\<close>

section \<open>What one instruction does\<close>

definition cond_op :: "u8 \<Rightarrow> bool" where
  "cond_op op \<longleftrightarrow> op \<in> {0x20, 0x28, 0x30, 0x38} \<or> op \<in> {0xC2, 0xCA, 0xD2, 0xDA}"

text \<open>The accesses to a constant address that are not inlined: LDH (n8),A outside HRAM, LDH A,(n8) of the joypad and
  of FFFF, and LD (a16),A and LD A,(a16) outside WRAM and HRAM.\<close>

definition far_op :: "mmu \<Rightarrow> u16 \<Rightarrow> u8 \<Rightarrow> bool" where
  "far_op m pc op \<longleftrightarrow> (let n8 = mmu_read8 m (pc + 1); a16 = mk16 n8 (mmu_read8 m (pc + 2))
     in op = 0xE0 \<and> (n8 < 0x80 \<or> n8 = 0xFF) \<or> op = 0xF0 \<and> (n8 = 0 \<or> n8 = 0xFF)
      \<or> (op = 0xEA \<or> op = 0xFA) \<and> (a16 < 0xC000 \<or> 0xE000 \<le> a16 \<and> a16 < 0xFF80 \<or> a16 = 0xFFFF))"

text \<open>The instructions that are left to the interpreter: those without an inliner, and the accesses above.\<close>

definition helper_op :: "mmu \<Rightarrow> u16 \<Rightarrow> u8 \<Rightarrow> bool" where
  "helper_op m pc op \<longleftrightarrow>
     op \<in> {0x02, 0x08, 0x0A, 0x10, 0x12, 0x1A, 0x27, 0x34, 0x35, 0xC0, 0xC4, 0xC8, 0xCC, 0xD0, 0xD3, 0xD4, 0xD8, 0xD9, 0xDB, 0xDC, 0xDD,
            0xE2, 0xE3, 0xE4, 0xE8, 0xEB, 0xEC, 0xED, 0xF2, 0xF3, 0xF4, 0xF8, 0xF9, 0xFB, 0xFC, 0xFD}
     \<or> op = 0xCB \<and> mmu_read8 m (pc + 1) AND 7 = 6 \<or> far_op m pc op"

definition op_does :: "mmu \<Rightarrow> u16 \<Rightarrow> u8 \<Rightarrow> cpu_state \<Rightarrow> cpu_state \<Rightarrow> bool" where
  "op_does m pc op c c' \<longleftrightarrow> (if plain_op m pc op \<or> cond_op op then c' = jit_exec c else c' = snd (sm83_step c))"

definition ctx_ok :: "mmu_layout \<Rightarrow> mmu \<Rightarrow> inline_ctx \<Rightarrow> bool" where
  "ctx_ok lay m I \<longleftrightarrow> ic_m I = m \<and> ic_layout I = lay \<and> ic_entry_off I = entry_offset \<and> ic_mmu_base I = HOST_MMU_BASE
     \<and> ic_lit_off I = lit_off \<and> \<not> ic_internalised_loop I \<and> \<not> ic_emit_halt_on_spin I"

section \<open>The literal pool\<close>

definition pool_ok :: "lit_ctx \<Rightarrow> bool" where
  "pool_ok L \<longleftrightarrow> limit L = 148 \<and> 20 \<le> unat (next_off L) \<and> unat (next_off L) \<le> 148 \<and> unat (next_off L) mod 4 = 0
     \<and> (\<forall>l. load32 (lit_base L) (unat (lit_off l)) = host_helper_addr l)"

definition pool_ext :: "lit_ctx \<Rightarrow> lit_ctx \<Rightarrow> bool" where
  "pool_ext L L' \<longleftrightarrow> unat (next_off L) \<le> unat (next_off L') \<and> (\<forall>i<unat (next_off L). lit_base L' i = lit_base L i)"

text \<open>The memory that the run reads its literals from.\<close>

definition pool_read :: "u8 array \<Rightarrow> u32 \<Rightarrow> lit_ctx \<Rightarrow> bool" where
  "pool_read code len L \<longleftrightarrow> 148 \<le> unat len \<and> (\<forall>i<unat (next_off L). code i = lit_base L i)"

lemma pool_ext_refl [simp]: "pool_ext L L"
  by (simp add: pool_ext_def)

lemma pool_ext_trans: "pool_ext L L' \<Longrightarrow> pool_ext L' L'' \<Longrightarrow> pool_ext L L''"
  by (auto simp: pool_ext_def)

lemma pool_read_ext: "pool_read code len L' \<Longrightarrow> pool_ext L L' \<Longrightarrow> pool_read code len L"
  by (auto simp: pool_read_def pool_ext_def)

lemma pool_lit:
  assumes "pool_read code len L" "unat off + 4 \<le> unat (next_off L)" "unat off + 4 \<le> 148"
  shows "block_lit code len off = load32 (lit_base L) (unat off)"
proof -
  have "unat (off + 4) = unat off + 4" using assms(3) by (simp add: unat_word_ariths)
  then have "\<not> len < off + 4" using assms(1,3) by (simp add: pool_read_def word_less_nat_alt)
  then show ?thesis using assms(1,2) by (simp add: block_lit_def load32_def pool_read_def)
qed

lemma pool_has_lits: "pool_ok L \<Longrightarrow> pool_read code len L \<Longrightarrow> has_lits code len"
  unfolding has_lits_def
proof
  fix l assume a: "pool_ok L" "pool_read code len L"
  have "unat (lit_off l) + 4 \<le> 20" by (cases l) simp_all
  with a show "block_lit code len (lit_off l) = host_helper_addr l" by (subst pool_lit) (auto simp: pool_ok_def)
qed

section \<open>Emitting one instruction\<close>

definition op_emitted :: "mmu_layout \<Rightarrow> u32 \<Rightarrow> mmu \<Rightarrow> u16 \<Rightarrow> nat \<Rightarrow> (cpu_state \<Rightarrow> cpu_state \<Rightarrow> bool) \<Rightarrow> insn list \<Rightarrow> gen \<Rightarrow> gen \<Rightarrow> bool" where
  "op_emitted lay ms m pc n R P g g' \<longleftrightarrow> (\<exists>Q. grown P Q (g_e g) (g_e g') \<and> length Q \<le> n \<and> pool_ok (g_L g') \<and> pool_ext (g_L g) (g_L g')
     \<and> (\<forall>code len. pool_read code len (g_L g') \<longrightarrow> op_runs lay ms code len 148 (length P) Q m pc R))"

definition emitted_op :: "inline_ctx \<Rightarrow> u16 \<Rightarrow> u8 \<Rightarrow> gen \<Rightarrow> gen" where
  "emitted_op I pc op g = (let (ok, g) = inline_op op pc I g in if ok then g else gen_emits (helper_call I) g)"

lemma plain_emitted:
  assumes "lay_ok lay ms" "ctx_ok lay m I" "op = mmu_read8 m pc" "plain_op m pc op" "holds P (g_e g)" "96 \<le> emit_room (g_e g)" "pool_ok (g_L g)"
  shows "op_emitted lay ms m pc 32 (\<lambda>c c'. c' = jit_exec c) P g (emitted_op I pc op g)" "fst (inline_op op pc I g)"
    "g_back_edge (snd (inline_op op pc I g)) = g_back_edge g"
proof -
  obtain fs where fs: "inline_op op pc I = inlined fs" "op_ok lay m pc fs"
    using plain_op_inlined [OF assms(1), of I m pc op] assms(2-4) by (auto simp: ctx_ok_def)
  obtain Q where Q: "fs = map emit_insn Q" "\<forall>i\<in>set Q. insn_ok i" "length Q \<le> 32"
    "\<And>code len en k. op_runs lay ms code len en k Q m pc (\<lambda>c c'. c' = jit_exec c)"
    using op_ok_runs [OF assms(1) fs(2)] by blast
  have "grown P Q (g_e g) (emits fs (g_e g))"
    unfolding Q(1) by (rule grown_emits [OF assms(5) codes_map Q(2)]) (use Q(3) assms(6) in simp)
  then show "op_emitted lay ms m pc 32 (\<lambda>c c'. c' = jit_exec c) P g (emitted_op I pc op g)"
    using Q(3,4) assms(7) unfolding op_emitted_def emitted_op_def fs(1) by (auto simp: inlined_def gen_emits_def)
  show "fst (inline_op op pc I g)" "g_back_edge (snd (inline_op op pc I g)) = g_back_edge g"
    by (simp_all add: fs(1) inlined_def gen_emits_def)
qed

lemma helper_not_inlined:
  assumes "ic_m I = m" "helper_op m pc op"
  shows "inline_op op pc I g = (False, g)"
  using assms(2) unfolding helper_op_def
proof (elim disjE)
  assume f: "far_op m pc op"
  have "ldh_addr I 0xE0 n = 0" if "n < 0x80 \<or> n = 0xFF" for n using that by (auto simp: ldh_addr_def Let_def)
  moreover have "ldh_addr I 0xF0 0xFF = 0" by (simp add: ldh_addr_def Let_def)
  moreover have "inlinable_byte_addr lay b a = 0" if "a < 0xC000 \<or> 0xE000 \<le> a \<and> a < 0xFF80 \<or> a = 0xFFFF" for lay b a
    using that by (auto simp: inlinable_byte_addr_def word_le_nat_alt word_less_nat_alt)
  ultimately show ?thesis using assms(1) f unfolding far_op_def Let_def
    by (elim disjE conjE; simp add: inline_op_def inline_ldh_def inline_ld_a16_def Let_def word_le_nat_alt)
next
  assume "op = 0xCB \<and> mmu_read8 m (pc + 1) AND 7 = 6"
  then show ?thesis using assms(1) by (simp add: inline_op_def inline_cb_def reg8_offset_def Let_def)
next
  assume "op \<in> {0x02, 0x08, 0x0A, 0x10, 0x12, 0x1A, 0x27, 0x34, 0x35, 0xC0, 0xC4, 0xC8, 0xCC, 0xD0, 0xD3, 0xD4, 0xD8, 0xD9, 0xDB, 0xDC, 0xDD,
            0xE2, 0xE3, 0xE4, 0xE8, 0xEB, 0xEC, 0xED, 0xF2, 0xF3, 0xF4, 0xF8, 0xF9, 0xFB, 0xFC, 0xFD}"
  then show ?thesis by (elim insertE emptyE; simp add: inline_op_def word_le_nat_alt)
qed

lemma helper_call_emitted:
  assumes "lay_ok lay ms" "ctx_ok lay m I" "holds P (g_e g)" "30 \<le> emit_room (g_e g)" "pool_ok (g_L g)" "length P \<le> 30000"
  shows "op_emitted lay ms m pc 10 (\<lambda>c c'. c' = snd (sm83_step c)) P g (gen_emits (helper_call I) g)"
proof -
  have c: "codes (length P) (helper_call I) (helper_insns (length P))"
    using assms(2) by (intro helper_codes) (auto simp: ctx_ok_def)
  have g: "grown P (helper_insns (length P)) (g_e g) (emits (helper_call I) (g_e g))"
    by (rule grown_emits [OF assms(3) c helper_insns_ok(1)]) (use assms(4) helper_insns_ok(2) [of "length P"] in simp)
  have "op_runs lay ms code len 148 (length P) (helper_insns (length P)) m pc (\<lambda>c c'. c' = snd (sm83_step c))"
    if "pool_read code len (g_L g)" for code len
    using helper_runs [OF assms(1) pool_has_lits [OF assms(5) that] assms(6)] .
  with g show ?thesis using assms(5) helper_insns_ok(2) [of "length P"] unfolding op_emitted_def by (auto simp: gen_emits_def)
qed

lemma cond_emitted:
  assumes "lay_ok lay ms" "ctx_ok lay m I" "op = mmu_read8 m pc" "cond_op op" "holds P (g_e g)" "96 \<le> emit_room (g_e g)" "pool_ok (g_L g)"
  shows "op_emitted lay ms m pc 32 (\<lambda>c c'. c' = jit_exec c) P g (emitted_op I pc op g)" "fst (inline_op op pc I g)"
    "g_back_edge (snd (inline_op op pc I g)) = g_back_edge g"
proof -
  define fm tz tT cT tU cU where
    "fm = (if op \<in> {0x20, 0x28, 0x30, 0x38} then (if drop_bit 3 op AND 3 < 2 then FLAG_Z else FLAG_C)
                     else if drop_bit 4 op AND 1 \<noteq> 0 then FLAG_C else FLAG_Z)"
    and "tz = (if op \<in> {0x20, 0x28, 0x30, 0x38} then drop_bit 3 op AND 1 = 0 else op AND 0x08 = 0)"
    and "tT = (if op \<in> {0x20, 0x28, 0x30, 0x38} then jr_target I pc else operand16 I pc)"
    and "cT = (if op \<in> {0x20, 0x28, 0x30, 0x38} then 12 else 16 :: u32)"
    and "tU = (if op \<in> {0x20, 0x28, 0x30, 0x38} then pc + 2 else pc + 3)"
    and "cU = (if op \<in> {0x20, 0x28, 0x30, 0x38} then 8 else 12 :: u32)"
  have a31: "(w AND 3) AND 1 = w AND 1" for w :: u8 by (simp add: and.assoc)
  note d = fm_def tz_def tT_def cT_def tU_def cU_def
  have m: "ic_m I = m" "\<not> ic_internalised_loop I" "\<not> ic_emit_halt_on_spin I" using assms(2) by (simp_all add: ctx_ok_def)
  have e: "inline_op op pc I g = (True, g\<lparr>g_e := two_way fm tz (emit_load_u16 11 tT 2 @ [xt_addi 12 12 cT]) (emit_load_u16 11 tU 2 @ [xt_addi 12 12 cU]) (g_e g)\<rparr>)"
    using assms(4) unfolding cond_op_def
  proof
    assume o: "op \<in> {0x20, 0x28, 0x30, 0x38}"
    then have "inline_op op pc I g = inline_jr_cc op pc I g" by (elim insertE emptyE; simp add: inline_op_def word_le_nat_alt)
    then show ?thesis using o m by (simp only: d if_P) (simp add: inline_jr_cc_def Let_def a31)
  next
    assume o: "op \<in> {0xC2, 0xCA, 0xD2, 0xDA}"
    then have "inline_op op pc I g = inline_jp_cc op pc I g" "op \<notin> {0x20, 0x28, 0x30, 0x38}"
      by (elim insertE emptyE; simp add: inline_op_def word_le_nat_alt)+
    then show ?thesis by (simp only: d if_not_P) (simp add: inline_jp_cc_def Let_def)
  qed
  have sr: "srange 7 cT" "srange 7 cU" "srange 11 (ucast fm)" by (simp_all add: cT_def cU_def fm_def srange_def)
  obtain T where T: "emit_load_u16 11 tT 2 @ [xt_addi 12 12 cT] = map emit_insn T" "\<forall>i\<in>set T. insn_ok i" "jumps lay tT cT T" "1 \<le> length T" "length T \<le> 5"
    by (rule load_jump [OF sr(1)])
  obtain U where U: "emit_load_u16 11 tU 2 @ [xt_addi 12 12 cU] = map emit_insn U" "\<forall>i\<in>set U. insn_ok i" "jumps lay tU cU U" "1 \<le> length U" "length U \<le> 5"
    by (rule load_jump [OF sr(2)])
  let ?Q = "two_way_insns (length P) fm tz T U"
  have g: "grown P ?Q (g_e g) (two_way fm tz (emit_load_u16 11 tT 2 @ [xt_addi 12 12 cT]) (emit_load_u16 11 tU 2 @ [xt_addi 12 12 cU]) (g_e g))"
    by (rule two_way_grown [OF assms(5) T(1) U(1)]) (use T U assms(6) sr in auto)
  have j: "jit_exec c = (let (t, n) = (if (cpu_f c AND fm = 0) = tz then (tT, cT) else (tU, cU)) in low_add n (c\<lparr>cpu_pc := t\<rparr>))"
    if "at_op m pc c" for c
    using assms(4) unfolding cond_op_def
  proof
    assume o: "op \<in> {0x20, 0x28, 0x30, 0x38}"
    show ?thesis using jit_exec_jr_cc [OF o that assms(3) [symmetric]] o m(1) by (simp only: d if_P jr_target_def) (simp add: Let_def a31)
  next
    assume o: "op \<in> {0xC2, 0xCA, 0xD2, 0xDA}"
    then have "op \<notin> {0x20, 0x28, 0x30, 0x38}" by auto
    then show ?thesis using jit_exec_jp_cc [OF o that assms(3) [symmetric]] m(1) by (simp only: d if_not_P operand16_def) (simp add: Let_def)
  qed
  have "op_runs lay ms code len 148 (length P) ?Q m pc (\<lambda>c c'. c' = jit_exec c)" for code len
    unfolding op_runs_def
  proof (rule runsI)
    fix PP and S :: gstate assume c: "code_at PP (length P) ?Q" and p: "pre m pc S"
    have p': "fst S 13 = 0xC0DE0000" "at_op m pc (synced S)" using p by (simp_all add: pre_iff)
    obtain S' where S': "goes (block_env lay ms code len) lay 148 PP (length P) S (length P + length ?Q) S' (length ?Q)" "fst S' 13 = 0xC0DE0000"
      "synced S' = (let (t, c) = (if (cpu_f (snd S) AND fm = 0) = tz then (tT, cT) else (tU, cU)) in low_add (fst S 12 + c) ((snd S)\<lparr>cpu_pc := t\<rparr>))"
      using two_way_runs [OF assms(1) T(3) U(3,4), of code len 148 "length P" fm tz] c p'(1) unfolding runs_def by blast
    have "synced S' = jit_exec (synced S)"
      unfolding j [OF p'(2)] S'(3) by (simp add: synced_def low_add_comm)
    with S' show "\<exists>S'. goes (block_env lay ms code len) lay 148 PP (length P) S (length P + length ?Q) S' (length ?Q)
       \<and> fst S' 13 = 0xC0DE0000 \<and> synced S' = jit_exec (synced S)" by blast
  qed
  then show "op_emitted lay ms m pc 32 (\<lambda>c c'. c' = jit_exec c) P g (emitted_op I pc op g)"
    using g T(5) U(5) assms(7) unfolding op_emitted_def emitted_op_def e by (intro exI [of _ ?Q]) simp
  show "fst (inline_op op pc I g)" "g_back_edge (snd (inline_op op pc I g)) = g_back_edge g" by (simp_all add: e)
qed

section \<open>The body of a block\<close>

definition covered_op :: "mmu \<Rightarrow> u16 \<Rightarrow> u8 \<Rightarrow> bool" where
  "covered_op m pc op \<longleftrightarrow> plain_op m pc op \<or> cond_op op \<or> helper_op m pc op"

lemma helper_op_apart: "helper_op m pc op \<Longrightarrow> \<not> plain_op m pc op \<and> \<not> cond_op op"
  unfolding helper_op_def
proof (elim disjE)
  assume "far_op m pc op"
  then have "op \<in> {0xE0, 0xF0, 0xEA, 0xFA}" by (auto simp: far_op_def Let_def)
  then show "\<not> plain_op m pc op \<and> \<not> cond_op op" by (elim insertE emptyE; simp add: plain_op_def cond_op_def word_le_nat_alt)
next
  assume "op \<in> {0x02, 0x08, 0x0A, 0x10, 0x12, 0x1A, 0x27, 0x34, 0x35, 0xC0, 0xC4, 0xC8, 0xCC, 0xD0, 0xD3, 0xD4, 0xD8, 0xD9, 0xDB, 0xDC, 0xDD,
            0xE2, 0xE3, 0xE4, 0xE8, 0xEB, 0xEC, 0xED, 0xF2, 0xF3, 0xF4, 0xF8, 0xF9, 0xFB, 0xFC, 0xFD}"
  then show "\<not> plain_op m pc op \<and> \<not> cond_op op"
    by (elim insertE emptyE; simp add: plain_op_def cond_op_def word_le_nat_alt)
qed (simp add: plain_op_def cond_op_def word_le_nat_alt)

lemma op_emittedE:
  assumes "op_emitted lay ms m pc n R P g g'" "n \<le> n'" "R = R'"
  shows "op_emitted lay ms m pc n' R' P g g'"
  using assms unfolding op_emitted_def by (meson order_trans)

lemma one_emitted:
  assumes "lay_ok lay ms" "ctx_ok lay m I" "op = mmu_read8 m pc" "covered_op m pc op" "holds P (g_e g)" "96 \<le> emit_room (g_e g)"
    "pool_ok (g_L g)" "length P \<le> 30000"
  shows "op_emitted lay ms m pc 32 (op_does m pc op) P g (emitted_op I pc op g)"
    "g_back_edge (snd (inline_op op pc I g)) = g_back_edge g"
proof -
  have "op_emitted lay ms m pc 32 (op_does m pc op) P g (emitted_op I pc op g) \<and> g_back_edge (snd (inline_op op pc I g)) = g_back_edge g"
  proof (cases "plain_op m pc op \<or> cond_op op")
    case True
    then have d: "(\<lambda>c c'. c' = jit_exec c) = op_does m pc op" by (simp add: op_does_def fun_eq_iff)
    from True show ?thesis
      using plain_emitted [OF assms(1-3) _ assms(5-7)] cond_emitted [OF assms(1-3) _ assms(5-7)] unfolding d by blast
  next
    case False
    then have h: "helper_op m pc op" "(\<lambda>c c'. c' = snd (sm83_step c)) = op_does m pc op"
      using assms(4) by (auto simp: covered_op_def op_does_def fun_eq_iff)
    have i: "inline_op op pc I g = (False, g)" using helper_not_inlined [OF _ h(1)] assms(2) by (simp add: ctx_ok_def)
    then have "emitted_op I pc op g = gen_emits (helper_call I) g" by (simp add: emitted_op_def)
    moreover have "op_emitted lay ms m pc 10 (op_does m pc op) P g (gen_emits (helper_call I) g)"
      using helper_call_emitted [OF assms(1,2,5) _ assms(7,8)] assms(6) unfolding h(2) by simp
    ultimately show ?thesis using i op_emittedE [of lay ms m pc 10 _ P g _ 32] by auto
  qed
  then show "op_emitted lay ms m pc 32 (op_does m pc op) P g (emitted_op I pc op g)" "g_back_edge (snd (inline_op op pc I g)) = g_back_edge g"
    by blast+
qed

text \<open>What a block does, and the condition that control follows its instructions.\<close>

primrec block_does :: "mmu \<Rightarrow> (u16 \<times> u8) list \<Rightarrow> cpu_state \<Rightarrow> cpu_state \<Rightarrow> bool" where
  "block_does m [] c c' \<longleftrightarrow> c' = c"
| "block_does m (p # ops) c c' \<longleftrightarrow> (\<exists>d. op_does m (fst p) (snd p) c d \<and> block_does m ops d c')"

primrec follows :: "mmu \<Rightarrow> (u16 \<times> u8) list \<Rightarrow> cpu_state \<Rightarrow> bool" where
  "follows m [] c \<longleftrightarrow> True"
| "follows m (p # ops) c \<longleftrightarrow> at_op m (fst p) c \<and> (\<forall>d. op_does m (fst p) (snd p) c d \<longrightarrow> follows m ops d)"

definition body_runs :: "mmu_layout \<Rightarrow> u32 \<Rightarrow> u8 array \<Rightarrow> u32 \<Rightarrow> nat \<Rightarrow> insn list \<Rightarrow> mmu \<Rightarrow> (u16 \<times> u8) list \<Rightarrow> bool" where
  "body_runs lay ms code len k Q m ops \<longleftrightarrow> runs lay ms code len 148 k Q (\<lambda>S. fst S 13 = 0xC0DE0000 \<and> follows m ops (synced S))
     (\<lambda>S S'. fst S' 13 = 0xC0DE0000 \<and> block_does m ops (synced S) (synced S'))"

lemma body_runs_Nil: "body_runs lay ms code len k [] m []"
  unfolding body_runs_def
proof (rule runsI)
  fix P S assume "code_at P k []" "fst S 13 = 0xC0DE0000 \<and> follows m [] (synced S)"
  then show "\<exists>S'. goes (block_env lay ms code len) lay 148 P k S (k + length []) S' (length [])
      \<and> fst S' 13 = 0xC0DE0000 \<and> block_does m [] (synced S) (synced S')"
    using goes_refl by (intro exI [of _ S]) simp
qed

lemma body_runs_Cons:
  assumes "op_runs lay ms code len 148 k Q m pc (op_does m pc op)" "body_runs lay ms code len (k + length Q) R m ops"
  shows "body_runs lay ms code len k (Q @ R) m ((pc, op) # ops)"
  unfolding body_runs_def
proof (rule runs_seq)
  show "runs lay ms code len 148 k Q (\<lambda>S. fst S 13 = 0xC0DE0000 \<and> follows m ((pc, op) # ops) (synced S))
     (\<lambda>S S'. fst S' 13 = 0xC0DE0000 \<and> op_does m pc op (synced S) (synced S'))"
    using assms(1) unfolding op_runs_def runs_def by (auto simp: pre_iff)
  show "runs lay ms code len 148 (k + length Q) R (\<lambda>S. fst S 13 = 0xC0DE0000 \<and> follows m ops (synced S))
     (\<lambda>S S'. fst S' 13 = 0xC0DE0000 \<and> block_does m ops (synced S) (synced S'))"
    using assms(2) by (simp add: body_runs_def)
qed auto

lemma emit_body_Cons:
  assumes "\<not> g_back_edge (snd (inline_op op pc (I\<lparr>ic_ops_code_off := (ic_ops_code_off I)(ic_n_filled I := xt_len (g_e g))\<rparr>) (g\<lparr>g_back_edge := False\<rparr>)))"
    "ops = [] \<or> \<not> sm83_terminates_block op"
  obtains I' I'' where "emit_body I ((pc, op) # ops) g = emit_body I'' ops (emitted_op I' pc op (g\<lparr>g_back_edge := False\<rparr>))"
    "\<And>lay m. ctx_ok lay m I' = ctx_ok lay m I" "\<And>lay m. ctx_ok lay m I'' = ctx_ok lay m I"
    "I' = I\<lparr>ic_ops_code_off := (ic_ops_code_off I)(ic_n_filled I := xt_len (g_e g))\<rparr>"
proof -
  let ?I = "I\<lparr>ic_ops_code_off := (ic_ops_code_off I)(ic_n_filled I := xt_len (g_e g))\<rparr>"
  show ?thesis
    by (rule that [of "?I\<lparr>ic_n_filled := ic_n_filled I + 1\<rparr>" ?I])
      (use assms in \<open>auto simp: emitted_op_def Let_def ctx_ok_def split: prod.split\<close>)
qed

lemma body_emitted:
  assumes "lay_ok lay ms" "ctx_ok lay m I" "\<forall>p\<in>set ops. snd p = mmu_read8 m (fst p) \<and> covered_op m (fst p) (snd p)"
    "\<forall>p\<in>set (butlast ops). \<not> sm83_terminates_block (snd p)" "holds P (g_e g)" "96 * length ops \<le> emit_room (g_e g)"
    "pool_ok (g_L g)" "length P + 32 * length ops \<le> 30000"
  shows "\<exists>Q. grown P Q (g_e g) (g_e (emit_body I ops g)) \<and> length Q \<le> 32 * length ops \<and> pool_ok (g_L (emit_body I ops g))
     \<and> pool_ext (g_L g) (g_L (emit_body I ops g))
     \<and> (\<forall>code len. pool_read code len (g_L (emit_body I ops g)) \<longrightarrow> body_runs lay ms code len (length P) Q m ops)"
  using assms(2-)
proof (induction ops arbitrary: I P g)
  case Nil
  then show ?case by (intro exI [of _ "[]"]) (simp add: grown_refl body_runs_Nil)
next
  case (Cons p ops)
  obtain pc op where p: "p = (pc, op)" by (cases p)
  let ?g = "g\<lparr>g_back_edge := False\<rparr>" and ?I = "I\<lparr>ic_ops_code_off := (ic_ops_code_off I)(ic_n_filled I := xt_len (g_e g))\<rparr>"
  have I: "ctx_ok lay m ?I" using Cons.prems(1) by (simp add: ctx_ok_def)
  have o: "op = mmu_read8 m pc" "covered_op m pc op" "holds P (g_e ?g)" "96 \<le> emit_room (g_e ?g)" "pool_ok (g_L ?g)" "length P \<le> 30000"
  proof -
    have q: "snd p = mmu_read8 m (fst p)" "covered_op m (fst p) (snd p)"
      using bspec [OF Cons.prems(2) list.set_intros(1)] by blast+
    show "op = mmu_read8 m pc" "covered_op m pc op" using q unfolding p fst_conv snd_conv .
  qed (use Cons.prems(4-7) in simp_all)
  note one = one_emitted [OF assms(1) I o]
  have "ops = [] \<or> \<not> sm83_terminates_block op" using Cons.prems(3) by (auto simp: p)
  with one(2) obtain I'' where b: "emit_body I (p # ops) g = emit_body I'' ops (emitted_op ?I pc op ?g)" "ctx_ok lay m I''"
    using emit_body_Cons [of op pc I g ops] Cons.prems(1) unfolding p by (metis (no_types, lifting) gen.select_convs(3) gen.update_convs(3) gen.surjective)
  let ?g1 = "emitted_op ?I pc op ?g" and ?g2 = "emit_body I (p # ops) g"
  obtain Q where Q: "grown P Q (g_e g) (g_e ?g1)" "length Q \<le> 32" "pool_ok (g_L ?g1)" "pool_ext (g_L g) (g_L ?g1)"
    "\<And>code len. pool_read code len (g_L ?g1) \<Longrightarrow> op_runs lay ms code len 148 (length P) Q m pc (op_does m pc op)"
    using one(1) unfolding op_emitted_def by auto
  have "\<exists>R. grown (P @ Q) R (g_e ?g1) (g_e ?g2) \<and> length R \<le> 32 * length ops \<and> pool_ok (g_L ?g2) \<and> pool_ext (g_L ?g1) (g_L ?g2)
     \<and> (\<forall>code len. pool_read code len (g_L ?g2) \<longrightarrow> body_runs lay ms code len (length (P @ Q)) R m ops)"
    unfolding b(1)
  proof (rule Cons.IH [OF b(2)])
    show "\<forall>p\<in>set (butlast ops). \<not> sm83_terminates_block (snd p)" using Cons.prems(3) by (auto split: if_splits)
    show "holds (P @ Q) (g_e ?g1)" by (rule grown_holds [OF Q(1)])
    show "96 * length ops \<le> emit_room (g_e ?g1)" using Q(1,2) Cons.prems(5) by (auto simp: grown_def)
  qed (use Cons.prems Q in auto)
  then obtain R where R: "grown (P @ Q) R (g_e ?g1) (g_e ?g2)" "length R \<le> 32 * length ops" "pool_ok (g_L ?g2)" "pool_ext (g_L ?g1) (g_L ?g2)"
    "\<And>code len. pool_read code len (g_L ?g2) \<Longrightarrow> body_runs lay ms code len (length (P @ Q)) R m ops" by blast
  show ?case
  proof (intro exI conjI allI impI)
    show "grown P (Q @ R) (g_e g) (g_e ?g2)" by (rule grown_trans [OF Q(1) R(1)])
    show "length (Q @ R) \<le> 32 * length (p # ops)" using Q(2) R(2) by simp
    show "pool_ext (g_L g) (g_L ?g2)" by (rule pool_ext_trans [OF Q(4) R(4)])
    show "body_runs lay ms code len (length P) (Q @ R) m (p # ops)" if r: "pool_read code len (g_L ?g2)" for code len
      using body_runs_Cons [OF Q(5) [OF pool_read_ext [OF r R(4)]], of R ops] R(5) [OF r] by (simp add: p)
  qed (rule R(3))
qed

end
