(* ===== verification/Codegen_Frame.thy ===== *)
theory Codegen_Frame
  imports Codegen_Run
begin

text \<open>
  Prologue and epilogue of a block, and the run of the whole block in the simulator from the state that
  \<open>enter_block_sim\<close> (src/jit/dispatcher.c) sets up to the return to the sentinel address 0.
\<close>

section \<open>The return address survives\<close>

lemma ret_exec [simp]:
  "cpu_jit_ret_pc (exec_00 op s) = cpu_jit_ret_pc s" "cpu_jit_ret_pc (fst (exec_20 op s)) = cpu_jit_ret_pc s"
  "cpu_jit_ret_pc (exec_40 op s) = cpu_jit_ret_pc s" "cpu_jit_ret_pc (exec_80 op s) = cpu_jit_ret_pc s"
  "cpu_jit_ret_pc (exec_c0 op s) = cpu_jit_ret_pc s" "cpu_jit_ret_pc (snd (exec_cb s)) = cpu_jit_ret_pc s"
  by (simp_all add: exec_00_def exec_20_def exec_40_def exec_80_def exec_c0_def exec_cb_def case_prod_beta Let_def)

lemma ret_exec_op [simp]: "cpu_jit_ret_pc (snd (exec_op op s)) = cpu_jit_ret_pc s"
  by (simp add: exec_op_def Let_def)

lemma ret_step [simp]: "cpu_jit_ret_pc (snd (sm83_step c)) = cpu_jit_ret_pc c" "cpu_jit_ret_pc (jit_exec c) = cpu_jit_ret_pc c"
proof -
  have "cpu_jit_ret_pc (snd (sm83_service_interrupts c)) = cpu_jit_ret_pc c"
    by (simp add: sm83_service_interrupts_def Let_def split: option.split)
  then show "cpu_jit_ret_pc (snd (sm83_step c)) = cpu_jit_ret_pc c"
    by (simp add: sm83_step_def Let_def case_prod_beta ei_promote_def)
  show "cpu_jit_ret_pc (jit_exec c) = cpu_jit_ret_pc c"
    by (simp add: jit_exec_def low_add_def case_prod_beta)
qed

lemma ret_does: "block_does m ops c c' \<Longrightarrow> cpu_jit_ret_pc c' = cpu_jit_ret_pc c"
  by (induction ops arbitrary: c) (auto simp: op_does_def split: if_splits)

section \<open>Prologue and epilogue\<close>

definition prologue_insns :: "insn list" where
  "prologue_insns = [I_L32R 13 (lit_imm entry_offset 0 0), I_S32I 0 13 28, I_L16UI 11 13 10, I_MOVI 12 0]"

definition epilogue_insns :: "nat \<Rightarrow> insn list" where
  "epilogue_insns k = [I_S16I 11 13 10, I_L32I 14 13 16, I_ADD 14 14 12, I_S32I 14 13 16]
     @ [I_L32R 13 (lit_imm entry_offset (k + 4) 0), I_L32I 0 13 28, I_JX 0]"

lemma prologue_codes: "codes 0 prologue prologue_insns"
  by (simp add: prologue_def prologue_insns_def l32r_here_def emit_l32r_at_def lit_imm_def Let_def)

lemma epilogue_codes: "codes k epilogue (epilogue_insns k)"
proof -
  have e: "epilogue = map emit_insn [I_S16I 11 13 10, I_L32I 14 13 16, I_ADD 14 14 12, I_S32I 14 13 16]
    @ [l32r_here entry_offset 13 0] @ map emit_insn [I_L32I 0 13 28, I_JX 0]"
    by (simp add: epilogue_def emit_sync_state_def)
  show ?thesis unfolding e epilogue_insns_def
    by (intro codes_append [where P = "[I_S16I 11 13 10, I_L32I 14 13 16, I_ADD 14 14 12, I_S32I 14 13 16]"] codes_map)
       (simp add: l32r_here_def emit_l32r_at_def lit_imm_def Let_def)
qed

lemma frame_insns_ok: "\<forall>i\<in>set prologue_insns. insn_ok i" "\<forall>i\<in>set (epilogue_insns k). insn_ok i"
  "length prologue_insns = 4" "length (epilogue_insns k) = 7"
  by (simp_all add: prologue_insns_def epilogue_insns_def srange_def)

text \<open>The prologue, from the registers that \<open>enter_block_sim\<close> sets.\<close>

lemma prologue_runs:
  assumes "lay_ok lay ms" "has_lits code len" "code_at P 0 prologue_insns" "a 0 = 0"
  shows "\<exists>a'. goes (block_env lay ms code len) lay 148 P 0 (a, c) 4 (a', c\<lparr>cpu_jit_ret_pc := 0\<rparr>) 4
    \<and> a' 13 = 0xC0DE0000 \<and> synced (a', c\<lparr>cpu_jit_ret_pc := 0\<rparr>) = c\<lparr>cpu_jit_ret_pc := 0\<rparr>"
proof -
  let ?lit = "block_lit code len"
  have lit: "?lit 0 = 0xC0DE0000"
    using assms(2) [unfolded has_lits_def, THEN spec, of ADDR_CPU_BASE] by (simp add: host_helper_addr_def)
  note la = lit_addr_148 [of 0 0]
  obtain a' where a': "gseq lay ?lit 148 0 prologue_insns (a, c) = (a', c\<lparr>cpu_jit_ret_pc := 0\<rparr>)" "a' 13 = 0xC0DE0000" "a' 12 = 0"
      "a' 11 = ucast (cpu_pc c)" "gseq_ok lay ?lit 148 0 prologue_insns (a, c)"
    using la lit assms(4) by (simp add: prologue_insns_def gst_cpu32 [OF assms(1)])
  then show ?thesis
    using goes_seq [OF assms(1,3) a'(5), unfolded a'(1)] by (intro exI [of _ a']) (simp add: frame_insns_ok synced_def)
qed

lemma epilogue_runs:
  assumes "lay_ok lay ms" "has_lits code len" "code_at P k (epilogue_insns k)" "fst S 13 = 0xC0DE0000" "k \<le> 30000"
    "cpu_jit_ret_pc (snd S) = 0"
  shows "\<exists>a'. goes (block_env lay ms code len) lay 148 P k S (k + 6) (a', synced S) 6 \<and> a' 0 = 0"
proof -
  obtain a g where S: "S = (a, g)" by (cases S)
  let ?lit = "block_lit code len" and ?Q = "[I_S16I 11 13 10, I_L32I 14 13 16, I_ADD 14 14 12, I_S32I 14 13 16]
     @ [I_L32R 13 (lit_imm entry_offset (k + 4) 0), I_L32I 0 13 28]"
  have lit: "?lit 0 = 0xC0DE0000"
    using assms(2) [unfolded has_lits_def, THEN spec, of ADDR_CPU_BASE] by (simp add: host_helper_addr_def)
  have n: "k + 4 = Suc (Suc (Suc (Suc k)))" by simp
  note la = lit_addr_148 [of "k + 4" 0, unfolded n]
  obtain a' where a': "gseq lay ?lit 148 k ?Q (a, g) = (a', synced S)" "a' 0 = 0" "gseq_ok lay ?lit 148 k ?Q (a, g)"
    using la assms(4-6) lit by (simp add: S gst_cpu16 [OF assms(1)] gst_cpu32 [OF assms(1)] synced_def low_add_def n)
  have at: "code_at P k ?Q" using assms(3) by (simp add: epilogue_insns_def)
  from goes_seq [OF assms(1) at a'(3), unfolded a'(1)] a'(2) show ?thesis by (intro exI [of _ a']) (simp add: S eval_nat_numeral)
qed

section \<open>Emitting a block\<close>

lemma block_total_is:
  assumes "n \<le> 32"
  shows "unat (block_total n) = 280 + 96 * n" "unat (block_total n - entry_offset) = 132 + 96 * n"
proof -
  show "unat (block_total n) = 280 + 96 * n"
  proof -
    have "\<forall>n\<in>set [0..<33]. unat (block_total n) = 280 + 96 * n"
      by (simp add: upt_rec block_total_def LITERAL_POOL_BYTES_def PROLOGUE_EPILOGUE_BYTES_def BYTES_PER_OP_def LITERAL_COUNT_def
          MAX_EXTRA_LITERALS_def align_up_4_def)
    then show ?thesis using assms by simp
  qed
  then show "unat (block_total n - entry_offset) = 132 + 96 * n"
    by (simp add: entry_offset_148 unat_sub word_le_nat_alt)
qed

lemma holds_init:
  assumes "4 dvd unat cap" "unat cap + 8 \<le> 2 ^ 32"
  shows "holds [] (xt_init buf cap)" "emit_room (xt_init buf cap) = unat cap"
  using assms by (simp_all add: holds_def xt_init_def emit_ok_def emitted_def emit_room_def)

lemma load32_store32: "q + 4 \<le> p \<or> p + 4 \<le> q \<Longrightarrow> load32 (store32 p w f) q = load32 f q" "load32 (store32 p w f) p = w"
proof -
  show "load32 (store32 p w f) p = w" by (rule load32_of) (auto simp: store32_def)
  show "load32 (store32 p w f) q = load32 f q" if "q + 4 \<le> p \<or> p + 4 \<le> q"
    using that by (auto simp: load32_def store32_def)
qed

lemma pool_init_ok:
  "pool_ok \<lparr>lit_base = pool_init host_helper_addr mem, next_off = LITERAL_COUNT * 4, limit = LITERAL_COUNT * 4 + MAX_EXTRA_LITERALS * 4\<rparr>"
proof -
  have "load32 (pool_init host_helper_addr mem) (unat (lit_off l)) = host_helper_addr l" for l
    by (cases l) (simp_all add: pool_init_def literal_ids_def load32_store32)
  then show ?thesis by (simp add: pool_ok_def LITERAL_COUNT_def MAX_EXTRA_LITERALS_def)
qed

definition frame :: "insn list \<Rightarrow> insn list" where
  "frame Q = prologue_insns @ Q @ epilogue_insns (4 + length Q)"

lemma block_emitted:
  fixes mem
  assumes "lay_ok lay ms" "length ops \<le> 32" "\<forall>p\<in>set ops. snd p = mmu_read8 m (fst p) \<and> covered_op m (fst p) (snd p)"
    "\<forall>p\<in>set (butlast ops). \<not> sm83_terminates_block (snd p)" "\<not> is_dec_a_loop m ops" "\<not> is_io_poll_halt m ops"
  defines "g \<equiv> emit_block lay host_helper_addr m ops mem (block_total (length ops))"
  shows "\<exists>Q. holds (frame Q) (g_e g) \<and> length Q \<le> 32 * length ops \<and> pool_ok (g_L g)
     \<and> (\<forall>code len. pool_read code len (g_L g) \<longrightarrow> body_runs lay ms code len 4 Q m ops)"
proof -
  let ?n = "length ops" and ?I = "block_ctx lay host_helper_addr m ops"
  let ?L = "\<lparr>lit_base = pool_init host_helper_addr mem, next_off = LITERAL_COUNT * 4, limit = LITERAL_COUNT * 4 + MAX_EXTRA_LITERALS * 4\<rparr>"
  define e0 where "e0 = xt_init (\<lambda>i. mem (unat entry_offset + i)) (block_total ?n - entry_offset)"
  define g0 where "g0 = \<lparr>g_e = emits prologue e0, g_L = ?L, g_back_edge = False\<rparr>"
  note bt = block_total_is(2) [OF assms(2)]
  have h0: "holds [] e0" "emit_room e0 = 132 + 96 * ?n"
    unfolding e0_def using bt assms(2) by (simp_all add: holds_init)
  have p: "grown [] prologue_insns e0 (g_e g0)"
    unfolding g0_def gen.select_convs
    by (rule grown_emits [OF h0(1)]) (use prologue_codes h0 frame_insns_ok in simp_all)
  have r0: "emit_room (g_e g0) = 120 + 96 * ?n" using p h0(2) by (simp add: grown_def frame_insns_ok)
  have c: "ctx_ok lay m ?I"
    using assms(6) by (simp add: ctx_ok_def block_ctx_def host_helper_addr_def)
  have "\<exists>Q. grown prologue_insns Q (g_e g0) (g_e (emit_body ?I ops g0)) \<and> length Q \<le> 32 * length ops \<and> pool_ok (g_L (emit_body ?I ops g0))
     \<and> pool_ext (g_L g0) (g_L (emit_body ?I ops g0))
     \<and> (\<forall>code len. pool_read code len (g_L (emit_body ?I ops g0)) \<longrightarrow> body_runs lay ms code len (length prologue_insns) Q m ops)"
    using grown_holds [OF p] r0 pool_init_ok [of mem] assms(2)
    by (intro body_emitted [OF assms(1) c assms(3,4)]) (simp_all add: g0_def frame_insns_ok)
  then obtain Q where Q: "grown prologue_insns Q (g_e g0) (g_e (emit_body ?I ops g0))" "length Q \<le> 32 * length ops"
    "pool_ok (g_L (emit_body ?I ops g0))"
    "\<And>code len. pool_read code len (g_L (emit_body ?I ops g0)) \<Longrightarrow> body_runs lay ms code len 4 Q m ops"
    unfolding frame_insns_ok(3) by blast
  have g: "g = gen_emits epilogue (emit_body ?I ops g0)"
    using assms(5) by (simp add: g_def emit_block_def Let_def g0_def e0_def)
  have "3 * length (epilogue_insns (4 + length Q)) \<le> emit_room (g_e (emit_body ?I ops g0))"
    using Q(1,2) r0 by (simp add: grown_def frame_insns_ok)
  then have "grown (prologue_insns @ Q) (epilogue_insns (4 + length Q)) (g_e (emit_body ?I ops g0)) (g_e g)"
    using grown_emits [OF grown_holds [OF Q(1)], of epilogue "epilogue_insns (4 + length Q)"] epilogue_codes frame_insns_ok
    by (simp add: g gen_emits_def)
  then have "holds (frame Q) (g_e g)" by (simp add: grown_def frame_def)
  moreover have "g_L g = g_L (emit_body ?I ops g0)" by (simp add: g gen_emits_def)
  ultimately show ?thesis using Q(2-4) by auto
qed

section \<open>Running a block\<close>

lemma walk_props:
  "p \<in> set (fst (walk m n pc)) \<Longrightarrow> snd p = mmu_read8 m (fst p)"
  "p \<in> set (butlast (fst (walk m n pc))) \<Longrightarrow> \<not> sm83_terminates_block (snd p)"
  "length (fst (walk m n pc)) \<le> n"
proof -
  show "p \<in> set (fst (walk m n pc)) \<Longrightarrow> snd p = mmu_read8 m (fst p)"
    by (induction n arbitrary: pc) (auto simp: Let_def case_prod_beta split: if_splits)
  show "p \<in> set (butlast (fst (walk m n pc))) \<Longrightarrow> \<not> sm83_terminates_block (snd p)"
    by (induction n arbitrary: pc) (auto simp: Let_def case_prod_beta split: if_splits)
  show "length (fst (walk m n pc)) \<le> n"
    by (induction n arbitrary: pc) (auto simp: Let_def case_prod_beta split: if_splits)
qed

lemma goes_returns:
  assumes "goes E lay en P k S k' S' n" "loaded en P x" "at_insn en k x" "view lay x = S" "k' < length P" "P ! k' = I_JX 0" "fst S' 0 = 0"
    "n < N"
  shows "sim_status (sim_run E N x) = XT_SIM_RETURNED \<and> view lay (sim_run E N x) = S'"
proof -
  obtain k where k: "k \<le> n" "loaded en P (sim_run E k x)" "at_insn en k' (sim_run E k x)" "view lay (sim_run E k x) = S'"
    using assms(1-4) unfolding goes_def by blast
  have "sim_a (sim_run E k x) 0 = 0" using k(4) assms(7) by (auto simp: view_def)
  note r = run_jx_0 [OF k(2,3) assms(5,6) this, of E]
  have "N = (k + 1) + (N - (k + 1))" using k(1) assms(8) by simp
  then have "sim_run E N x = sim_run E (N - (k + 1)) (sim_run E 1 (sim_run E k x))" by (metis sim_run_add)
  then have "sim_run E N x = sim_run E 1 (sim_run E k x)" using r sim_run_stopped [of "sim_run E 1 (sim_run E k x)" E] by simp
  with r k(4) show ?thesis by simp
qed

text \<open>A block, its buffer flushed, in memory from the address 0 on.\<close>

definition flushed :: "gen \<Rightarrow> gen" where
  "flushed g = g\<lparr>g_e := xt_flush_pending (g_e g)\<rparr>"

definition actual_size :: "gen \<Rightarrow> u32" where
  "actual_size g = (entry_offset + xt_len (g_e g) + 7) AND NOT 7"

lemma actual_size_bounds:
  assumes "unat (xt_len (g_e g)) \<le> 10000"
  shows "148 + unat (xt_len (g_e g)) \<le> unat (actual_size g)" "unat (actual_size g) \<le> 155 + unat (xt_len (g_e g))"
proof -
  have n: "NOT 7 = (NOT (mask 3) :: u32)" by (simp add: mask_eq_exp_minus_1)
  have u: "unat (entry_offset + xt_len (g_e g) + 7) = 155 + unat (xt_len (g_e g))"
    using assms by (simp add: entry_offset_148 unat_word_ariths)
  have "unat (w AND NOT (mask 3)) = unat w - unat w mod 8" for w :: u32
  proof -
    have "(w AND NOT (mask 3)) + (w AND mask 3) = (w AND NOT (mask 3)) OR (w AND mask 3)"
      by (rule disjunctive_add) (auto simp: bit_simps)
    also have "\<dots> = w" by (rule bit_word_eqI) (auto simp: bit_simps)
    finally have "w AND NOT (mask 3) = w - take_bit 3 w" by (simp add: eq_diff_eq take_bit_eq_mask)
    then show ?thesis by (simp add: take_bit_eq_mod unat_sub unat_mod word_le_nat_alt)
  qed
  then have "unat (actual_size g) = 155 + unat (xt_len (g_e g)) - (155 + unat (xt_len (g_e g))) mod 8"
    unfolding actual_size_def n u [symmetric] by blast
  moreover have "(155 + unat (xt_len (g_e g))) mod 8 < 8" by simp
  ultimately show "148 + unat (xt_len (g_e g)) \<le> unat (actual_size g)" "unat (actual_size g) \<le> 155 + unat (xt_len (g_e g))"
    by linarith+
qed

lemma framed_returns:
  assumes "lay_ok lay ms" "holds (frame Q) (g_e g)" "length Q \<le> 1024" "pool_ok (g_L g)"
    "\<And>code len. pool_read code len (g_L g) \<Longrightarrow> runs lay ms code len 148 4 Q A B"
    "\<forall>i<unat (actual_size g). code i = block_mem (flushed g) i"
    "\<And>a. a 13 = 0xC0DE0000 \<Longrightarrow> synced (a, c\<lparr>cpu_jit_ret_pc := 0\<rparr>) = c\<lparr>cpu_jit_ret_pc := 0\<rparr> \<Longrightarrow> A (a, c\<lparr>cpu_jit_ret_pc := 0\<rparr>)"
    "\<And>S S'. synced S = c\<lparr>cpu_jit_ret_pc := 0\<rparr> \<Longrightarrow> B S S' \<Longrightarrow> fst S' 13 = 0xC0DE0000 \<and> cpu_jit_ret_pc (snd S') = 0"
  obtains S S' where "sim_status (enter_run lay ms code (actual_size g) entry_offset c) = XT_SIM_RETURNED"
    "guest lay (enter_run lay ms code (actual_size g) entry_offset c) = synced S'" "synced S = c\<lparr>cpu_jit_ret_pc := 0\<rparr>" "B S S'"
proof -
  let ?P = "frame Q" and ?len = "actual_size g" and ?c0 = "c\<lparr>cpu_jit_ret_pc := 0\<rparr>" and ?k = "4 + length Q"
  define x where "x = enter_state lay code ?len entry_offset c"
  have l: "length ?P = 11 + length Q" "unat (xt_len (g_e g)) = 3 * length ?P" "length Q \<le> 1024"
    using holds_len(1) [OF assms(2)] assms(3) by (simp_all add: frame_def frame_insns_ok)
  have sz: "148 + 3 * length ?P \<le> unat ?len" "unat ?len \<le> 155 + 3 * length ?P"
    using actual_size_bounds [of g] l by simp_all
  have code: "code i = lit_base (g_L g) i" if "i < 148" for i
    using assms(6) that sz by (simp add: block_mem_def flushed_def entry_offset_148)
  have pr: "pool_read code ?len (g_L g)"
    using assms(4) code sz by (simp add: pool_read_def pool_ok_def)
  note hl = pool_has_lits [OF assms(4) pr]
  have bytes: "code (148 + i) = code_bytes ?P ! i" if "i < 3 * length ?P" for i
  proof -
    have "code (148 + i) = xt_buf (xt_flush_pending (g_e g)) i"
      using assms(6) that sz by (simp add: block_mem_def flushed_def entry_offset_148)
    moreover have "code_bytes ?P ! i = emitted (g_e g) ! i" using assms(2) by (simp add: holds_def)
    ultimately show ?thesis using that l(2) by (simp add: flush_emitted)
  qed
  have ld: "loaded 148 ?P x"
    using assms(2) bytes sz l by (simp add: loaded_def x_def enter_state_def Let_def xt_sim_init_def holds_def)
  have at: "at_insn 148 0 x" "view lay x = (sim_a x, c)" "sim_a x 0 = 0"
    using host_get_put [OF assms(1)]
    by (simp_all add: at_insn_def x_def enter_state_def Let_def xt_sim_init_def view_def guest_def addr_of_def entry_offset_148)
  have ca: "code_at ?P 0 prologue_insns" "code_at ?P 4 Q" "code_at ?P ?k (epilogue_insns ?k)"
    using code_at_self(3) [of ?P] by (simp_all add: frame_def frame_insns_ok)
  obtain a' where 1: "goes (block_env lay ms code ?len) lay 148 ?P 0 (sim_a x, c) 4 (a', ?c0) 4" "a' 13 = 0xC0DE0000" "synced (a', ?c0) = ?c0"
    using prologue_runs [where a = "sim_a x" and c = c, OF assms(1) hl ca(1) at(3)] by blast
  obtain S where 2: "goes (block_env lay ms code ?len) lay 148 ?P 4 (a', ?c0) ?k S (length Q)" "B (a', ?c0) S"
    using assms(5) [OF pr] ca(2) assms(7) [OF 1(2,3)] unfolding runs_def by blast
  note S = assms(8) [OF 1(3) 2(2)]
  obtain a'' where 3: "goes (block_env lay ms code ?len) lay 148 ?P ?k S (?k + 6) (a'', synced S) 6" "a'' 0 = 0"
    using epilogue_runs [OF assms(1) hl ca(3), of S] S l(3) by auto
  note g = goes_trans [OF goes_trans [OF 1(1) 2(1)] 3(1)]
  have j: "?k + 6 < length ?P" "?P ! (?k + 6) = I_JX 0"
    by (simp_all add: frame_def frame_insns_ok nth_append epilogue_insns_def)
  have e: "enter_run lay ms code ?len entry_offset c = sim_run (block_env lay ms code ?len) 0x100000 x"
    by (simp add: enter_run_def xt_sim_run_def x_def)
  from goes_returns [OF g ld at(1,2) j, of "0x100000"] 3(2) l(3)
  have "sim_status (sim_run (block_env lay ms code ?len) 0x100000 x) = XT_SIM_RETURNED"
    "view lay (sim_run (block_env lay ms code ?len) 0x100000 x) = (a'', synced S)" by simp_all
  then show ?thesis by (intro that [OF _ _ 1(3) 2(2)]) (simp_all add: e view_def)
qed

lemma block_runs:
  fixes mem
  assumes "lay_ok lay ms" "length ops \<le> 32" "\<forall>p\<in>set ops. snd p = mmu_read8 m (fst p) \<and> covered_op m (fst p) (snd p)"
    "\<forall>p\<in>set (butlast ops). \<not> sm83_terminates_block (snd p)" "\<not> is_dec_a_loop m ops" "\<not> is_io_poll_halt m ops"
  defines "g \<equiv> emit_block lay host_helper_addr m ops mem (block_total (length ops))"
  assumes "\<forall>i<unat (actual_size g). code i = block_mem (flushed g) i" "follows m ops (c\<lparr>cpu_jit_ret_pc := 0\<rparr>)"
  shows "sim_status (enter_run lay ms code (actual_size g) entry_offset c) = XT_SIM_RETURNED
    \<and> block_does m ops (c\<lparr>cpu_jit_ret_pc := 0\<rparr>) (guest lay (enter_run lay ms code (actual_size g) entry_offset c))"
proof -
  obtain Q where Q: "holds (frame Q) (g_e g)" "length Q \<le> 32 * length ops" "pool_ok (g_L g)"
    "\<And>code len. pool_read code len (g_L g) \<Longrightarrow> body_runs lay ms code len 4 Q m ops"
    using block_emitted [OF assms(1-6), of mem] unfolding g_def by blast
  have l: "length Q \<le> 1024" using Q(2) assms(2) by simp
  have r: "cpu_jit_ret_pc g = 0" if "block_does m ops (c\<lparr>cpu_jit_ret_pc := 0\<rparr>) (synced (a, g))" for a g
    using ret_does [OF that] by simp
  obtain S S' where "sim_status (enter_run lay ms code (actual_size g) entry_offset c) = XT_SIM_RETURNED"
    "guest lay (enter_run lay ms code (actual_size g) entry_offset c) = synced S'" "synced S = c\<lparr>cpu_jit_ret_pc := 0\<rparr>"
    "fst S' 13 = 0xC0DE0000" "block_does m ops (synced S) (synced S')"
    by (rule framed_returns [OF assms(1) Q(1) l Q(3,4) [unfolded body_runs_def] assms(8), where c = c])
      (use assms(9) r in auto)
  then show ?thesis by simp
qed

lemma frame_fits:
  assumes "holds (frame Q) (g_e g)" "length Q \<le> 32 * n" "n \<le> 32"
  shows "\<not> xt_overflow (g_e g)" "unat (actual_size g) \<le> unat (block_total n)"
proof -
  show "\<not> xt_overflow (g_e g)" using assms(1) by (simp add: holds_def)
  have "unat (xt_len (g_e g)) = 33 + 3 * length Q"
    using holds_len(1) [OF assms(1)] by (simp add: frame_def frame_insns_ok)
  then show "unat (actual_size g) \<le> unat (block_total n)"
    using actual_size_bounds(2) [of g] block_total_is(1) [OF assms(3)] assms(2,3) by simp
qed

end
