(* ===== verification/Codegen_Free.thy ===== *)
theory Codegen_Free
  imports Codegen_Frame
begin

text \<open>
  Blocks of instructions that touch no memory: the interpreter leaves the memory alone on them and moves on
  to the next instruction of the block, so nothing has to be assumed about the path taken.
\<close>

section \<open>Blocks that touch no memory\<close>

lemma inc_dec_mmu: "r AND 7 \<noteq> 6 \<Longrightarrow> cpu_mmu (inc_r r s) = cpu_mmu s" "r AND 7 \<noteq> 6 \<Longrightarrow> cpu_mmu (dec_r r s) = cpu_mmu s"
  "r AND 7 \<noteq> 6 \<Longrightarrow> cpu_mmu (ld_r_n8 r s) = cpu_mmu s"
  by (simp_all add: inc_r_def dec_r_def ld_r_n8_def reg8_write_mmu Let_def case_prod_beta)

lemma exec_ranges:
  "0x40 \<le> op \<Longrightarrow> op \<le> 0x7F \<Longrightarrow> snd (exec_op op s) = exec_40 op s"
  "0x80 \<le> op \<Longrightarrow> op \<le> 0xBF \<Longrightarrow> snd (exec_op op s) = exec_80 op s"
proof -
  show "snd (exec_op op s) = exec_40 op s" if "0x40 \<le> op" "op \<le> 0x7F"
  proof -
    have "\<not> op < 0x20" "\<not> op < 0x40" "op < 0x80" using that by (simp_all add: word_le_nat_alt word_less_nat_alt)
    then show ?thesis by (simp add: exec_op_def Let_def)
  qed
  show "snd (exec_op op s) = exec_80 op s" if "0x80 \<le> op" "op \<le> 0xBF"
  proof -
    have "\<not> op < 0x20" "\<not> op < 0x40" "\<not> op < 0x80" "op < 0xC0" using that by (simp_all add: word_le_nat_alt word_less_nat_alt)
    then show ?thesis by (simp add: exec_op_def Let_def)
  qed
qed

lemma exec_plain_mmu:
  assumes "plain_op m pc op \<or> cond_op op" "op = 0xCB \<longrightarrow> mmu_read8 (cpu_mmu s) (cpu_pc s) = mmu_read8 m (pc + 1)"
  shows "cpu_mmu (snd (exec_op op s)) = cpu_mmu s"
proof -
  consider "op \<in> {0x00, 0x2F, 0x37, 0x3F, 0x07, 0x0F, 0x17, 0x1F, 0x76, 0x18, 0xC3, 0xE9}"
    | (ld8) "op \<in> {0x06, 0x0E, 0x16, 0x1E, 0x26, 0x2E, 0x3E}" | (ld16) "op \<in> {0x01, 0x11, 0x21, 0x31}"
    | (inc8) "op \<in> {0x04, 0x0C, 0x14, 0x1C, 0x24, 0x2C, 0x3C, 0x05, 0x0D, 0x15, 0x1D, 0x25, 0x2D, 0x3D}"
    | (inc16) "op \<in> {0x03, 0x13, 0x23, 0x33, 0x0B, 0x1B, 0x2B, 0x3B}" | (addhl) "op \<in> {0x09, 0x19, 0x29, 0x39}"
    | (alu8) "op \<in> {0xC6, 0xCE, 0xD6, 0xDE, 0xE6, 0xEE, 0xF6, 0xFE}"
    | (cc) "op \<in> {0x20, 0x28, 0x30, 0x38} \<or> op \<in> {0xC2, 0xCA, 0xD2, 0xDA}"
    | (ldrr) "0x40 \<le> op" "op \<le> 0x7F" "op AND 7 \<noteq> 6" "drop_bit 3 op AND 7 \<noteq> 6"
    | (alur) "0x80 \<le> op" "op \<le> 0xBF" "op AND 7 \<noteq> 6"
    | (cb) "op = 0xCB" "mmu_read8 m (pc + 1) AND 7 \<noteq> 6"
    using assms(1) unfolding plain_op_def cond_op_def by blast
  then show ?thesis
  proof cases
    case ldrr
    then show ?thesis by (auto simp: exec_ranges exec_40_def Let_def reg8_write_mmu)
  next
    case alur
    then show ?thesis by (simp add: exec_ranges exec_80_def)
  next
    case cb
    then show ?thesis using assms(2)
      by (simp add: exec_op_def exec_cb_def fetch8_def rd8_def Let_def case_prod_beta reg8_write_mmu)
  next
    case cc
    then show ?thesis by (elim disjE insertE emptyE; simp add: exec_op_def exec_20_def exec_c0_def Let_def case_prod_beta)
  qed (elim insertE emptyE; simp add: exec_op_def exec_00_def exec_20_def exec_40_def exec_80_def exec_c0_def Let_def case_prod_beta inc_dec_mmu)+
qed

lemma jit_exec_plain:
  assumes "at_op m pc c" "op = mmu_read8 m pc" "plain_op m pc op \<or> cond_op op"
  shows "cpu_mmu (jit_exec c) = cpu_mmu c" "flags_ok (jit_exec c)"
    "\<not> sm83_terminates_block op \<Longrightarrow> cpu_pc (jit_exec c) = pc + ucast (op_length (sm83_decode op))"
proof -
  note r = at_op_reads [OF assms(1)]
  have f: "flags_ok c" using assms(1) by (simp add: at_op_def)
  have e: "fetch8 c = (op, c\<lparr>cpu_pc := pc + 1\<rparr>)" using r assms(2) by (simp add: fetch8_def rd8_def)
  show "cpu_mmu (jit_exec c) = cpu_mmu c"
    using exec_plain_mmu [OF assms(3), of "c\<lparr>cpu_pc := pc + 1\<rparr>"] r by (simp add: jit_exec_def e case_prod_beta low_add_def)
  show "flags_ok (jit_exec c)"
    using exec_op_ok [of "c\<lparr>cpu_pc := pc + 1\<rparr>" op] f by (simp add: jit_exec_def e case_prod_beta low_add_def flags_ok_def)
  show "cpu_pc (jit_exec c) = pc + ucast (op_length (sm83_decode op))" if "\<not> sm83_terminates_block op"
    using exec_op_pc [OF that, of "c\<lparr>cpu_pc := pc + 1\<rparr>"] by (simp add: jit_exec_def e case_prod_beta low_add_def)
qed

definition memory_free :: "mmu \<Rightarrow> (u16 \<times> u8) list \<Rightarrow> bool" where
  "memory_free m ops \<longleftrightarrow> (\<forall>p\<in>set ops. plain_op m (fst p) (snd p) \<or> cond_op (snd p))"

lemma free_does:
  "memory_free m ops \<Longrightarrow> block_does m ops c c' \<longleftrightarrow> c' = (jit_exec ^^ length ops) c"
proof (induction ops arbitrary: c)
  case (Cons p ops)
  then show ?case by (simp add: memory_free_def op_does_def funpow_swap1)
qed simp

lemma free_follows:
  assumes "memory_free m (fst (walk m n pc))" "cpu_pc c = pc" "flags_ok c" "cpu_mmu c = m"
  shows "follows m (fst (walk m n pc)) c"
  using assms
proof (induction n arbitrary: pc c)
  case (Suc n)
  define op where "op = mmu_read8 m pc"
  have a: "at_op m pc c" using Suc.prems by (simp add: at_op_def)
  have p: "plain_op m pc op \<or> cond_op op"
    using Suc.prems(1) by (auto simp: memory_free_def op_def Let_def case_prod_beta split: if_splits)
  note j = jit_exec_plain [OF a op_def p]
  show ?case
  proof (cases "sm83_terminates_block op \<or> ppu_io_write m pc op")
    case True
    then show ?thesis using a by (simp add: op_def Let_def)
  next
    case False
    have "follows m (fst (walk m n (pc + ucast (op_length (sm83_decode op))))) (jit_exec c)"
      using False j Suc.prems by (intro Suc.IH) (auto simp: memory_free_def op_def Let_def case_prod_beta)
    then show ?thesis using False a p by (simp add: op_def Let_def case_prod_beta op_does_def)
  qed
qed simp

end
