(* ===== verification/Codegen_Loop.thy ===== *)
theory Codegen_Loop
  imports Codegen_Free
begin

text \<open>
  The delay loop DEC A; JR NZ that \<open>is_dec_a_loop\<close> recognises (src/jit/codegen.c): the constant-time code that
  \<open>emit_dec_a_loop\<close> puts in its place does what the rounds of the loop do.
\<close>

section \<open>The delay loop: DEC A; JR NZ\<close>

definition dec_a_insns :: "nat \<Rightarrow> insn list" where
  "dec_a_insns k = [I_L8UI 2 13 1, I_L8UI 3 13 0, I_MOVI 5 0x10, I_AND 4 3 5, I_MOVI 5 0xC0, I_OR 4 4 5, I_S8I 4 13 0]
     @ [I_BEQZ 2 (rel_to (k + 7) (k + 11))] @ [I_SLLI 5 2 4, I_ADDI 5 5 (-4)] @ [I_J (rel_to (k + 10) (k + 13))]
     @ [I_MOVI 5 1023, I_SLLI 5 5 2] @ [I_ADD 12 12 5, I_MOVI 5 0, I_S8I 5 13 1, I_ADDI 11 11 3]"

text \<open>Leaving the loop: what it has cost, with A, F and PC as the last round leaves them.\<close>

definition dec_a_exit :: "cpu_state \<Rightarrow> cpu_state" where
  "dec_a_exit c = low_add (if cpu_a c = 0 then 4092 else 16 * ucast (cpu_a c) - 4)
     (c\<lparr>cpu_a := 0, cpu_f := (cpu_f c AND 0x10) OR 0xC0, cpu_pc := cpu_pc c + 3\<rparr>)"

lemma dec_a_grown:
  assumes "holds P e" "100 \<le> emit_room e"
  shows "grown P (dec_a_insns (length P)) e (emit_dec_a_loop e)"
proof -
  let ?k = "length P"
  let ?A = "[I_L8UI 2 13 1, I_L8UI 3 13 0, I_MOVI 5 0x10, I_AND 4 3 5, I_MOVI 5 0xC0, I_OR 4 4 5, I_S8I 4 13 0]"
  let ?B = "[I_SLLI 5 2 4, I_ADDI 5 5 (-4)]" and ?C = "[I_MOVI 5 1023, I_SLLI 5 5 2]"
  let ?D = "[I_ADD 12 12 5, I_MOVI 5 0, I_S8I 5 13 1, I_ADDI 11 11 3] :: insn list"
  define b where "b = rel_to (?k + 7) (?k + 11)"
  define j where "j = rel_to (?k + 10) (?k + 13)"
  define e1 where "e1 = emits (map emit_insn ?A) e"
  define e2 where "e2 = emits (map emit_insn [I_BEQZ 2 4]) e1"
  define e3 where "e3 = emits (map emit_insn ?B) e2"
  define e4 where "e4 = emits (map emit_insn [I_J 4]) e3"
  define e5 where "e5 = patch_branch_to (xt_len e1) (xt_len e4) e4"
  define e6 where "e6 = emits (map emit_insn ?C) e5"
  define e7 where "e7 = patch_j_to (xt_len e3) (xt_len e6) e6"
  note step = grown_emits [OF _ codes_map]
  have g1: "grown P ?A e e1" unfolding e1_def by (rule step) (use assms in \<open>auto simp: srange_def\<close>)
  have g2: "grown P (?A @ [I_BEQZ 2 4]) e e2"
    by (rule grown_trans [OF g1], unfold e2_def, rule step [OF grown_holds [OF g1]]) (use g1 assms(2) in \<open>auto simp: grown_def srange_def\<close>)
  have g3: "grown P ((?A @ [I_BEQZ 2 4]) @ ?B) e e3"
    by (rule grown_trans [OF g2], unfold e3_def, rule step [OF grown_holds [OF g2]]) (use g2 assms(2) in \<open>auto simp: grown_def srange_def\<close>)
  have g4: "grown P (((?A @ [I_BEQZ 2 4]) @ ?B) @ [I_J 4]) e e4"
    by (rule grown_trans [OF g3], unfold e4_def, rule step [OF grown_holds [OF g3]]) (use g3 assms(2) in \<open>auto simp: grown_def srange_def\<close>)
  have l: "xt_len e1 = of_nat (3 * (?k + 7))" "xt_len e3 = of_nat (3 * (?k + 10))" "xt_len e4 = of_nat (3 * (?k + 11))"
    using grown_len [OF g1] grown_len [OF g3] grown_len [OF g4] by (simp_all add: algebra_simps)
  have ok: "insn_ok (I_BEQZ 2 b)" "insn_ok (I_J j)"
    unfolding b_def j_def by (intro rel_ok; simp)+
  have g5: "grown P (?A @ [I_BEQZ 2 b] @ ?B @ [I_J 4]) e e5"
    using grown_patch_branch [OF g4, of 7 2 4 "I_BEQZ 2 b" b "?k + 11"] ok(1) unfolding e5_def l
    by (simp add: b_def nth_append numeral_nat)
  have g6: "grown P ((?A @ [I_BEQZ 2 b] @ ?B @ [I_J 4]) @ ?C) e e6"
    by (rule grown_trans [OF g5], unfold e6_def, rule step [OF grown_holds [OF g5]]) (use g5 assms(2) in \<open>auto simp: grown_def srange_def\<close>)
  have l6: "xt_len e6 = of_nat (3 * (?k + 13))" using grown_len [OF g6] by (simp add: algebra_simps)
  have g7: "grown P (?A @ [I_BEQZ 2 b] @ ?B @ [I_J j] @ ?C) e e7"
    using grown_patch_j [OF g6, of 10 4 "?k + 13"] ok(2) unfolding e7_def l l6
    by (simp add: j_def nth_append numeral_nat)
  have "grown P ((?A @ [I_BEQZ 2 b] @ ?B @ [I_J j] @ ?C) @ ?D) e (emits (map emit_insn ?D) e7)"
    by (rule grown_trans [OF g7], rule step [OF grown_holds [OF g7]]) (use g7 assms(2) in \<open>auto simp: grown_def srange_def\<close>)
  moreover have "emits (map emit_insn ?D) e7 = emit_dec_a_loop e"
    by (simp add: emit_dec_a_loop_def Let_def e7_def e6_def e5_def e4_def e3_def e2_def e1_def)
  ultimately show ?thesis by (simp add: dec_a_insns_def b_def j_def)
qed

lemma ucast_zero: "(ucast (x :: u8) :: u32) = 0 \<longleftrightarrow> x = 0"
  by (metis ucast_up_down(1) unsigned_0)

lemma dec_a_runs:
  assumes "lay_ok lay ms"
  shows "runs lay ms code len en k (dec_a_insns k) (\<lambda>S. fst S 13 = 0xC0DE0000)
     (\<lambda>S S'. fst S' 13 = 0xC0DE0000 \<and> synced S' = dec_a_exit (synced S))"
proof (rule runsI)
  fix P and S :: gstate assume c: "code_at P k (dec_a_insns k)" and p: "fst S 13 = 0xC0DE0000"
  obtain a g where S: "S = (a, g)" by (cases S)
  let ?E = "block_env lay ms code len" and ?lit = "block_lit code len"
  let ?A = "[I_L8UI 2 13 1, I_L8UI 3 13 0, I_MOVI 5 0x10, I_AND 4 3 5, I_MOVI 5 0xC0, I_OR 4 4 5, I_S8I 4 13 0]"
  let ?B = "[I_SLLI 5 2 4, I_ADDI 5 5 (-4)]" and ?C = "[I_MOVI 5 1023, I_SLLI 5 5 2]"
  let ?D = "[I_ADD 12 12 5, I_MOVI 5 0, I_S8I 5 13 1, I_ADDI 11 11 3] :: insn list"
  let ?g1 = "g\<lparr>cpu_f := (cpu_f g AND 0x10) OR 0xC0\<rparr>" and ?n = "if cpu_a g = 0 then 4092 else 16 * ucast (cpu_a g) - 4 :: u32"
  have n: "k + 7 = Suc (Suc (Suc (Suc (Suc (Suc (Suc k))))))" by simp
  have at: "code_at P k ?A" "k + 7 < length P" "P ! (k + 7) = I_BEQZ 2 (rel_to (k + 7) (k + 11))" "code_at P (k + 8) ?B"
    "k + 10 < length P" "P ! (k + 10) = I_J (rel_to (k + 10) (k + 13))" "code_at P (k + 11) ?C" "code_at P (k + 13) ?D"
    using c unfolding dec_a_insns_def code_at_append by (simp_all add: numeral_eq_Suc)
  have f: "ucast (ucast (cpu_f g) AND (0x10 :: u32) OR 0xC0) = (cpu_f g AND 0x10) OR 0xC0"
    by (rule bit_word_eqI) (auto simp: bit_simps)
  obtain a1 where a1: "gseq lay ?lit en k ?A S = (a1, ?g1)" "a1 2 = ucast (cpu_a g)" "a1 13 = 0xC0DE0000" "a1 12 = a 12" "a1 11 = a 11"
    "gseq_ok lay ?lit en k ?A S"
    using p f by (simp add: S gst_cpu [OF assms(1)])
  have 1: "goes ?E lay en P k S (k + 7) (a1, ?g1) 7"
    using goes_seq [OF assms(1) at(1) a1(6), unfolded a1(1)] by (simp add: n eval_nat_numeral)
  have z: "a1 (unat (2 :: u8)) = 0 \<longleftrightarrow> cpu_a g = 0"
    by (simp add: a1(2) ucast_zero)
  have s8: "Suc (k + 7) = k + 8" by simp
  have 2: "goes ?E lay en P (k + 7) (a1, ?g1) (if cpu_a g = 0 then k + 11 else k + 8) (a1, ?g1) 1"
    using goes_beqz [OF at(2,3), of ?E lay en "(a1, ?g1)", unfolded s8] z by simp
  have 3: "\<exists>a2. goes ?E lay en P (if cpu_a g = 0 then k + 11 else k + 8) (a1, ?g1) (k + 13) (a2, ?g1) 3 \<and> a2 5 = ?n \<and> a2 13 = 0xC0DE0000 \<and> a2 12 = a 12 \<and> a2 11 = a 11"
  proof (cases "cpu_a g = 0")
    case True
    have g: "gseq_ok lay ?lit en (k + 11) ?C (a1, ?g1)" "gseq lay ?lit en (k + 11) ?C (a1, ?g1) = (a1(5 := 4092), ?g1)"
      "k + 11 + length ?C = k + 13" "length ?C = 2" by simp_all
    from goes_seq [OF assms(1) at(7) g(1), unfolded g(2) g(3), unfolded g(4)]
    have "goes ?E lay en P (k + 11) (a1, ?g1) (k + 13) (a1(5 := 4092), ?g1) 2" .
    then have "goes ?E lay en P (k + 11) (a1, ?g1) (k + 13) (a1(5 := 4092), ?g1) 3" by (rule goes_mono) simp
    then show ?thesis using True a1 by (intro exI [of _ "a1(5 := 4092)"]) simp
  next
    case False
    let ?v = "16 * ucast (cpu_a g) - 4 :: u32"
    have g: "gseq_ok lay ?lit en (k + 8) ?B (a1, ?g1)" "gseq lay ?lit en (k + 8) ?B (a1, ?g1) = (a1(5 := ?v), ?g1)"
      "k + 8 + length ?B = k + 10" "length ?B = 2"
      using a1(2) by (simp_all add: push_bit_eq_mult mult.commute)
    from goes_seq [OF assms(1) at(4) g(1), unfolded g(2) g(3), unfolded g(4)]
    have "goes ?E lay en P (k + 8) (a1, ?g1) (k + 10) (a1(5 := ?v), ?g1) 2" .
    then have "goes ?E lay en P (k + 8) (a1, ?g1) (k + 13) (a1(5 := ?v), ?g1) (2 + 1)" by (rule goes_trans [OF _ goes_j [OF at(5,6)]])
    then show ?thesis using False a1 by (intro exI [of _ "a1(5 := ?v)"]) simp
  qed
  then obtain a2 where a2: "goes ?E lay en P (if cpu_a g = 0 then k + 11 else k + 8) (a1, ?g1) (k + 13) (a2, ?g1) 3" "a2 5 = ?n" "a2 13 = 0xC0DE0000"
    "a2 12 = a 12" "a2 11 = a 11" by blast
  obtain a3 where a3: "gseq lay ?lit en (k + 13) ?D (a2, ?g1) = (a3, ?g1\<lparr>cpu_a := 0\<rparr>)" "a3 13 = 0xC0DE0000" "a3 12 = a 12 + ?n" "a3 11 = a 11 + 3"
    "gseq_ok lay ?lit en (k + 13) ?D (a2, ?g1)"
    using a2(2-5) by (simp add: gst_cpu [OF assms(1)])
  have 4: "goes ?E lay en P (k + 13) (a2, ?g1) (k + 17) (a3, ?g1\<lparr>cpu_a := 0\<rparr>) 4"
    using goes_seq [OF assms(1) at(8) a3(5), unfolded a3(1)] by (simp add: eval_nat_numeral)
  have l: "length (dec_a_insns k) = 17" by (simp add: dec_a_insns_def)
  have "goes ?E lay en P k S (k + 17) (a3, ?g1\<lparr>cpu_a := 0\<rparr>) 17"
    using goes_mono [OF goes_trans [OF goes_trans [OF goes_trans [OF 1 2] a2(1)] 4], of 17] by simp
  moreover have "synced (a3, ?g1\<lparr>cpu_a := 0\<rparr>) = dec_a_exit (synced S)"
    by (simp add: S synced_def dec_a_exit_def a3 low_add_def ucast_add_u16 add.assoc)
  ultimately show "\<exists>S'. goes ?E lay en P k S (k + length (dec_a_insns k)) S' (length (dec_a_insns k))
      \<and> fst S' 13 = 0xC0DE0000 \<and> synced S' = dec_a_exit (synced S)"
    using a3(2) unfolding l by (intro exI [of _ "(a3, ?g1\<lparr>cpu_a := 0\<rparr>)"]) simp
qed

lemma length_dec_a: "length (dec_a_insns k) = 17"
  by (simp add: dec_a_insns_def)

section \<open>The loop as the interpreter runs it\<close>

definition at_dec_a :: "cpu_state \<Rightarrow> bool" where
  "at_dec_a c \<longleftrightarrow> flags_ok c \<and> rd8 (cpu_pc c) c = 0x3D \<and> rd8 (cpu_pc c + 1) c = 0x20 \<and> rd8 (cpu_pc c + 2) c = 0xFD"

definition dec_f :: "cpu_state \<Rightarrow> u8" where
  "dec_f c = (cpu_f c AND FLAG_C) OR (if cpu_a c - 1 = 0 then FLAG_Z else 0) OR FLAG_N OR (if cpu_a c AND 0xF = 0 then FLAG_H else 0)"

lemma dec_a_round:
  assumes "at_dec_a c"
  shows "jit_exec (jit_exec c) =
    (if cpu_a c = 1 then low_add 12 (c\<lparr>cpu_a := 0, cpu_f := (cpu_f c AND 0x10) OR 0xC0, cpu_pc := cpu_pc c + 3\<rparr>)
     else low_add 16 (c\<lparr>cpu_a := cpu_a c - 1, cpu_f := dec_f c\<rparr>))"
proof -
  let ?d = "low_add 4 (c\<lparr>cpu_pc := cpu_pc c + 1, cpu_f := dec_f c, cpu_a := cpu_a c - 1\<rparr>)"
  have d: "jit_exec c = ?d"
    using assms
    by (simp add: at_dec_a_def jit_exec_def fetch8_def rd8_def exec_op_def exec_20_def timed_def op_info_def dec_r_def alu_dec8_def
        reg8_read_def reg8_write_def dec_f_def Let_def)
  have a: "at_op (cpu_mmu c) (cpu_pc c + 1) ?d" "mmu_read8 (cpu_mmu c) (cpu_pc c + 1) = 0x20"
      "mmu_read8 (cpu_mmu c) (cpu_pc c + 1 + 1) = 0xFD"
    using assms by (simp_all add: at_dec_a_def at_op_def rd8_def low_add_def flags_ok_def dec_f_def add.assoc)
      (simp_all add: bit.conj_disj_distrib2 and.assoc)
  have z: "dec_f c AND FLAG_Z = 0 \<longleftrightarrow> cpu_a c \<noteq> 1"
    by (auto simp: dec_f_def bit.conj_disj_distrib2 and.assoc eq_diff_eq)
  have f: "cpu_a c = 1 \<Longrightarrow> dec_f c = (cpu_f c AND 0x10) OR 0xC0" by (simp add: dec_f_def)
  have pc: "cpu_pc c + 1 + 2 + scast (0xFD :: u8) = cpu_pc c" "cpu_pc c + 1 + 2 = cpu_pc c + 3" by simp_all
  have df: "cpu_f ?d = dec_f c" by (simp add: low_add_def)
  have "jit_exec ?d = (if dec_f c AND FLAG_Z = 0 then low_add 12 (?d\<lparr>cpu_pc := cpu_pc c\<rparr>) else low_add 8 (?d\<lparr>cpu_pc := cpu_pc c + 3\<rparr>))"
    using jit_exec_jr_cc [OF _ a(1,2), unfolded a(3) pc df] by simp
  also have "\<dots> = (if cpu_a c = 1 then low_add 8 (?d\<lparr>cpu_pc := cpu_pc c + 3\<rparr>) else low_add 12 (?d\<lparr>cpu_pc := cpu_pc c\<rparr>))"
    using z by simp
  also have "\<dots> = (if cpu_a c = 1 then low_add 12 (c\<lparr>cpu_a := 0, cpu_f := (cpu_f c AND 0x10) OR 0xC0, cpu_pc := cpu_pc c + 3\<rparr>)
     else low_add 16 (c\<lparr>cpu_a := cpu_a c - 1, cpu_f := dec_f c\<rparr>))"
    using f by (auto simp: low_add_def add.commute intro!: cpu_state.equality)
  finally show ?thesis unfolding d .
qed

lemma dec_a_rounds:
  assumes "at_dec_a c" "cpu_a c = of_nat n" "1 \<le> n" "n \<le> 256"
  shows "(jit_exec ^^ (2 * n)) c = low_add (of_nat (16 * n - 4)) (c\<lparr>cpu_a := 0, cpu_f := (cpu_f c AND 0x10) OR 0xC0, cpu_pc := cpu_pc c + 3\<rparr>)"
  using assms(3,1,2,4)
proof (induction n arbitrary: c rule: nat_induct_at_least)
  case base
  then show ?case using dec_a_round [OF base(1)] by (simp add: numeral_2_eq_2)
next
  case (Suc n)
  have n1: "cpu_a c \<noteq> 1" "cpu_a c - 1 = of_nat n"
  proof -
    show "cpu_a c - 1 = of_nat n" using Suc.prems(2) by simp
    then have "unat (cpu_a c - 1) = n" using Suc.prems(3) by (simp add: unat_of_nat)
    then show "cpu_a c \<noteq> 1" using Suc.hyps by auto
  qed
  let ?d = "low_add 16 (c\<lparr>cpu_a := cpu_a c - 1, cpu_f := dec_f c\<rparr>)"
  have d: "jit_exec (jit_exec c) = ?d" using dec_a_round [OF Suc.prems(1)] n1 by simp
  have f: "dec_f c AND 0x10 = cpu_f c AND 0x10" "dec_f c AND 0xF = 0"
    by (simp_all add: dec_f_def bit.conj_disj_distrib2 and.assoc)
  then have "at_dec_a ?d" using Suc.prems(1) by (simp add: at_dec_a_def low_add_def flags_ok_def rd8_def)
  then have "(jit_exec ^^ (2 * n)) ?d = low_add (of_nat (16 * n - 4)) (?d\<lparr>cpu_a := 0, cpu_f := (cpu_f c AND 0x10) OR 0xC0, cpu_pc := cpu_pc c + 3\<rparr>)"
    using Suc.IH [of ?d] Suc.prems f(1) n1(2) by (simp add: low_add_def)
  moreover have "?d\<lparr>cpu_a := 0, cpu_f := (cpu_f c AND 0x10) OR 0xC0, cpu_pc := cpu_pc c + 3\<rparr>
      = low_add 16 (c\<lparr>cpu_a := 0, cpu_f := (cpu_f c AND 0x10) OR 0xC0, cpu_pc := cpu_pc c + 3\<rparr>)"
    by (simp add: low_add_def) 
  moreover have "(jit_exec ^^ (2 * Suc n)) c = (jit_exec ^^ (2 * n)) (jit_exec (jit_exec c))"
    by (simp add: funpow_swap1)
  moreover have "16 * Suc n - 4 = 16 * n - 4 + 16" using Suc.hyps by simp
  ultimately show ?case using d by (simp add: add.commute)
qed


lemma dec_a_exit_rounds:
  assumes "at_dec_a c"
  shows "dec_a_exit c = (jit_exec ^^ (2 * (if cpu_a c = 0 then 256 else unat (cpu_a c)))) c"
proof (cases "cpu_a c = 0")
  case True
  then show ?thesis using dec_a_rounds [OF assms, of 256] by (simp add: dec_a_exit_def)
next
  case False
  then have n: "1 \<le> unat (cpu_a c)" "unat (cpu_a c) \<le> 256"
    using less_imp_le [OF unat_u8 [of "cpu_a c"]] by (simp_all add: unat_gt_0 Suc_le_eq)
  have "(of_nat (16 * unat (cpu_a c) - 4) :: u32) = 16 * ucast (cpu_a c) - 4"
    using n by (simp add: of_nat_diff)
  then show ?thesis using dec_a_rounds [OF assms _ n] False by (simp add: dec_a_exit_def)
qed

section \<open>The block of the loop\<close>

lemma dec_a_emitted:
  fixes mem
  assumes "lay_ok lay ms" "is_dec_a_loop m ops"
  defines "g \<equiv> emit_block lay host_helper_addr m ops mem (block_total (length ops))"
  shows "holds (frame (dec_a_insns 4)) (g_e g)" "pool_ok (g_L g)"
proof -
  let ?n = "length ops" and ?Q = "dec_a_insns 4"
  let ?L = "\<lparr>lit_base = pool_init host_helper_addr mem, next_off = LITERAL_COUNT * 4, limit = LITERAL_COUNT * 4 + MAX_EXTRA_LITERALS * 4\<rparr>"
  have n: "?n = 2" using assms(2) by (simp add: is_dec_a_loop_def)
  define e0 where "e0 = xt_init (\<lambda>i. mem (unat entry_offset + i)) (block_total ?n - entry_offset)"
  note bt = block_total_is(2) [of 2]
  have h0: "holds [] e0" "emit_room e0 = 324"
    unfolding e0_def n using bt by (simp_all add: holds_init)
  have p: "grown [] prologue_insns e0 (emits prologue e0)"
    by (rule grown_emits [OF h0(1)]) (use prologue_codes h0 frame_insns_ok in simp_all)
  have "grown prologue_insns ?Q (emits prologue e0) (emit_dec_a_loop (emits prologue e0))"
    using dec_a_grown [of prologue_insns "emits prologue e0"] p h0(2) by (simp add: grown_def frame_insns_ok)
  note q = grown_trans [OF p, of ?Q, simplified, OF this]
  have g: "g = \<lparr>g_e = emits epilogue (emit_dec_a_loop (emits prologue e0)), g_L = ?L, g_back_edge = False\<rparr>"
    using assms(2) by (simp add: g_def emit_block_def Let_def e0_def gen_emits_def)
  have "grown (prologue_insns @ ?Q) (epilogue_insns (4 + length ?Q)) (emit_dec_a_loop (emits prologue e0)) (g_e g)"
    unfolding g gen.select_convs
    by (rule grown_emits) (use grown_holds [OF q] epilogue_codes frame_insns_ok q h0(2) length_dec_a in \<open>simp_all add: grown_def\<close>)
  then show "holds (frame ?Q) (g_e g)" by (simp add: grown_def frame_def)
  show "pool_ok (g_L g)" unfolding g using pool_init_ok by simp
qed

lemma dec_a_block_runs:
  fixes mem
  assumes "lay_ok lay ms" "is_dec_a_loop m ops"
  defines "g \<equiv> emit_block lay host_helper_addr m ops mem (block_total (length ops))"
  assumes "\<forall>i<unat (actual_size g). code i = block_mem (flushed g) i"
  shows "sim_status (enter_run lay ms code (actual_size g) entry_offset c) = XT_SIM_RETURNED
    \<and> guest lay (enter_run lay ms code (actual_size g) entry_offset c) = dec_a_exit (c\<lparr>cpu_jit_ret_pc := 0\<rparr>)"
proof -
  note h = dec_a_emitted [OF assms(1,2), of mem, folded g_def]
  have l: "length (dec_a_insns 4) \<le> 1024" by (simp add: length_dec_a)
  obtain S S' where "sim_status (enter_run lay ms code (actual_size g) entry_offset c) = XT_SIM_RETURNED"
    "guest lay (enter_run lay ms code (actual_size g) entry_offset c) = synced S'" "synced S = c\<lparr>cpu_jit_ret_pc := 0\<rparr>"
    "fst S' 13 = 0xC0DE0000" "synced S' = dec_a_exit (synced S)"
  proof (rule framed_returns [OF assms(1) h(1) l h(2) dec_a_runs [OF assms(1)] assms(4), where c = c])
    fix S S' :: gstate assume "synced S = c\<lparr>cpu_jit_ret_pc := 0\<rparr>" "fst S' 13 = 0xC0DE0000 \<and> synced S' = dec_a_exit (synced S)"
    then show "fst S' 13 = 0xC0DE0000 \<and> cpu_jit_ret_pc (snd S') = 0"
      using synced_sel(3) [of S'] by (simp add: dec_a_exit_def low_add_def)
  qed auto
  then show ?thesis by simp
qed

end
