(* ===== verification/Codegen_Correct.thy ===== *)
theory Codegen_Correct
  imports Codegen_Loop Codecache_List
begin

text \<open>
  Compiled blocks against the interpreter: blocks that touch no memory, compiled into the arena by
  \<open>gbjit_compile_block\<close> (src/jit/codegen.c) and entered by \<open>enter_block_sim\<close> (src/jit/dispatcher.c).
\<close>

section \<open>The instructions a block runs\<close>

text \<open>The number of guest instructions that a run of the block executes.\<close>

definition block_steps :: "mmu \<Rightarrow> (u16 \<times> u8) list \<Rightarrow> cpu_state \<Rightarrow> nat" where
  "block_steps m ops c =
     (if is_dec_a_loop m ops then 2 * (if cpu_a c = 0 then 256 else unat (cpu_a c)) else length ops)"

lemma dec_a_walk:
  assumes "is_dec_a_loop m (fst (walk m n pc))"
  shows "mmu_read8 m pc = 0x3D" "mmu_read8 m (pc + 1) = 0x20" "mmu_read8 m (pc + 2) = 0xFD"
proof -
  have t: "\<not> sm83_terminates_block 0x3D" by (simp add: sm83_terminates_block_def op_info_def)
  have l: "op_length (sm83_decode 0x3D) = 1" by (simp add: op_info_def)
  have l2: "length (fst (walk m n pc)) = 2" using assms by (simp add: is_dec_a_loop_def)
  then obtain k where n: "n = Suc k" by (cases n) auto
  have o: "mmu_read8 m pc = 0x3D"
    using assms unfolding n is_dec_a_loop_def by (simp add: Let_def case_prod_beta split: if_splits)
  then have w: "fst (walk m n pc) = (pc, 0x3D) # fst (walk m k (pc + 1))"
    unfolding n using t l by (simp add: Let_def case_prod_beta ppu_io_write_def)
  then obtain j where k: "k = Suc j" using l2 by (cases k) auto
  have f: "fst (walk m k (pc + 1)) ! 0 = (pc + 1, mmu_read8 m (pc + 1))" unfolding k by (simp add: Let_def case_prod_beta)
  show "mmu_read8 m pc = 0x3D" "mmu_read8 m (pc + 1) = 0x20" "mmu_read8 m (pc + 2) = 0xFD"
    using assms o f unfolding is_dec_a_loop_def w by (simp_all add: add.assoc)
qed

lemma free_not_poll: "memory_free m ops \<Longrightarrow> \<not> is_io_poll_halt m ops"
proof
  assume a: "memory_free m ops" "is_io_poll_halt m ops"
  then have "ops ! 0 \<in> set ops" "snd (ops ! 0) = 0xF0" by (auto simp: is_io_poll_halt_def)
  with a(1) show False by (auto simp: memory_free_def plain_op_def cond_op_def word_le_nat_alt)
qed

lemma free_block_runs:
  fixes mem c pc lay
  defines "m \<equiv> cpu_mmu c"
  defines "ops \<equiv> fst (walk m MAX_OPS_PER_BLOCK pc)"
  defines "g \<equiv> emit_block lay host_helper_addr m ops mem (block_total (length ops))"
  assumes "lay_ok lay ms" "memory_free m ops"
  shows "\<not> xt_overflow (g_e g)" "unat (actual_size g) \<le> unat (block_total (length ops))"
    "\<lbrakk>cpu_pc c = pc; flags_ok c; \<forall>i<unat (actual_size g). code i = block_mem (flushed g) i\<rbrakk> \<Longrightarrow>
     sim_status (enter_run lay ms code (actual_size g) entry_offset c) = XT_SIM_RETURNED
     \<and> guest lay (enter_run lay ms code (actual_size g) entry_offset c) = (jit_exec ^^ block_steps m ops c) (c\<lparr>cpu_jit_ret_pc := 0\<rparr>)"
proof -
  have l: "length ops \<le> 32" using walk_props(3) [of m MAX_OPS_PER_BLOCK pc] by (simp add: ops_def MAX_OPS_PER_BLOCK_def)
  have s: "\<forall>p\<in>set ops. snd p = mmu_read8 m (fst p) \<and> covered_op m (fst p) (snd p)"
    using assms(5) walk_props(1) [of _ m MAX_OPS_PER_BLOCK pc] by (auto simp: ops_def memory_free_def covered_op_def)
  have t: "\<forall>p\<in>set (butlast ops). \<not> sm83_terminates_block (snd p)"
    using walk_props(2) [of _ m MAX_OPS_PER_BLOCK pc] by (auto simp: ops_def)
  note poll = free_not_poll [OF assms(5)]
  have "\<exists>Q. holds (frame Q) (g_e g) \<and> length Q \<le> 32 * length ops"
  proof (cases "is_dec_a_loop m ops")
    case True
    then have "length ops = 2" by (simp add: is_dec_a_loop_def)
    then show ?thesis using dec_a_emitted(1) [OF assms(4) True, of mem] length_dec_a [of 4] unfolding g_def by force
  next
    case False
    then show ?thesis using block_emitted [OF assms(4) l s t _ poll, of mem] unfolding g_def by blast
  qed
  then show "\<not> xt_overflow (g_e g)" "unat (actual_size g) \<le> unat (block_total (length ops))"
    using frame_fits [OF _ _ l] by blast+
  assume a: "cpu_pc c = pc" "flags_ok c" "\<forall>i<unat (actual_size g). code i = block_mem (flushed g) i"
  show "sim_status (enter_run lay ms code (actual_size g) entry_offset c) = XT_SIM_RETURNED
    \<and> guest lay (enter_run lay ms code (actual_size g) entry_offset c) = (jit_exec ^^ block_steps m ops c) (c\<lparr>cpu_jit_ret_pc := 0\<rparr>)"
  proof (cases "is_dec_a_loop m ops")
    case True
    have "at_dec_a (c\<lparr>cpu_jit_ret_pc := 0\<rparr>)"
      using dec_a_walk [OF True [unfolded ops_def]] a(1,2) by (simp add: at_dec_a_def rd8_def m_def flags_ok_def)
    then show ?thesis
      using dec_a_block_runs [OF assms(4) True a(3) [unfolded g_def], of c] True
      by (simp add: g_def dec_a_exit_rounds block_steps_def)
  next
    case False
    have f: "follows m ops (c\<lparr>cpu_jit_ret_pc := 0\<rparr>)"
      using free_follows [of m MAX_OPS_PER_BLOCK pc "c\<lparr>cpu_jit_ret_pc := 0\<rparr>"] assms(5) a(1,2) by (simp add: ops_def m_def flags_ok_def)
    from block_runs [OF assms(4) l s t False poll a(3) [unfolded g_def] f] free_does [OF assms(5)] False
    show ?thesis by (simp add: g_def block_steps_def)
  qed
qed

section \<open>Through the arena\<close>

lemma arena_round:
  assumes "8 dvd unat base" "unat base + i < 2 ^ 32"
  shows "arena_from base (arena_put base mem w) i = mem i"
proof -
  define a where "a = base + of_nat i"
  have ua: "unat a = unat base + i" using assms(2) by (simp add: a_def unat_word_ariths unat_of_nat)
  have "4 dvd unat base" using assms(1) by (rule dvd_trans [rotated]) simp
  then obtain q where q: "unat base = 4 * q" by blast
  have al: "unat (a AND NOT 3) = unat a - unat a mod 4" by (rule unat_and_not_3)
  have lo: "unat (a AND 3) = unat a mod 4" by (rule unat_and_3)
  have m: "(unat base + i) mod 4 = i mod 4" unfolding q by (rule mod_mult_self4)
  have d: "unat base + i - (unat base + i) mod 4 = unat base + (i - i mod 4)"
    unfolding m by (rule Nat.diff_add_assoc) (rule mod_less_eq_dividend)
  have le: "base \<le> a AND NOT 3" unfolding word_le_nat_alt al ua d by simp
  have z: "(a AND NOT 3) AND 3 = 0" by (rule bit_word_eqI) (auto simp: bit_simps)
  have "unat ((a AND NOT 3) - base) = i - i mod 4"
    unfolding unat_sub [OF le] al ua d by simp
  then have "arena_put base mem w (a AND NOT 3) = load32 mem (i - i mod 4)"
    using le z by (simp add: arena_put_def)
  then have "arena_from base (arena_put base mem w) i = byte_of (load32 mem (i - i mod 4)) (i mod 4)"
    unfolding arena_from_def Let_def a_def [symmetric] lo ua m by simp
  then show ?thesis by simp
qed


lemma compile_bump:
  assumes "gbjit_compile_block 0 lay helper_addr new_block pc d = Some (Some b, d')"
  defines "ops \<equiv> fst (walk (d_mmu d) MAX_OPS_PER_BLOCK pc)"
  obtains mem base where "base = cc_align (cc_used d)" "\<not> cc_cap d < base + block_total (length ops)"
    "let g = emit_block lay helper_addr (d_mmu d) ops mem (block_total (length ops))
     in d_cpu d' = d_cpu d \<and> blk_code (d_blk d' b) = base \<and> code_size (d_blk d' b) = actual_size g
        \<and> entry_off (d_blk d' b) = entry_offset \<and> cc_words d' = arena_put base (block_mem (flushed g)) (cc_words d)"
proof -
  define base where "base = cc_align (cc_used d)"
  define mem where "mem = (\<lambda>i. if i < unat (block_total (length ops)) then 0
     else arena_from base (cc_words (d\<lparr>cc_used := base + block_total (length ops)\<rparr>)) i)"
  obtain cur where w: "walk (d_mmu d) MAX_OPS_PER_BLOCK pc = (ops, cur)" by (cases "walk (d_mmu d) MAX_OPS_PER_BLOCK pc") (simp add: ops_def)
  have a: "\<not> cc_cap d < base + block_total (length ops)"
    using assms(1) by (auto simp: gbjit_compile_block_def Let_def w cc_alloc_def bump_alloc_def base_def)
  let ?R = "block_total (length ops)"
  define g where "g = emit_block lay helper_addr (d_mmu d) ops mem ?R"
  have al: "cc_alloc 0 ?R d = Some (Some base, d\<lparr>cc_used := base + ?R\<rparr>)"
    using a by (simp add: cc_alloc_def bump_alloc_def Let_def flip: base_def)
  note c = assms(1) [unfolded gbjit_compile_block_def Let_def w, simplified, unfolded al, simplified, folded mem_def, folded g_def]
  have ov: "\<not> xt_overflow (g_e g)"
    using c by (auto simp: cc_release_def split: if_splits)
  show ?thesis
  proof (rule that [OF base_def a, of mem], unfold Let_def g_def [symmetric])
    show "d_cpu d' = d_cpu d \<and> blk_code (d_blk d' b) = base \<and> code_size (d_blk d' b) = actual_size g
        \<and> entry_off (d_blk d' b) = entry_offset \<and> cc_words d' = arena_put base (block_mem (flushed g)) (cc_words d)"
      using c ov
      by (auto simp: cc_trim_def bump_trim_def cc_release_def codecache_finalize_def put_block_def flushed_def actual_size_def
          make_block_def set_blk_def case_prod_beta split: option.splits)
  qed
qed

text \<open>Compiling a block and entering it: what the interpreter's instructions do, in one go.\<close>

lemma enter_compiled:
  assumes "lay_ok lay ms" "gbjit_compile_block 0 lay host_helper_addr new_block pc d = Some (Some b, d')" "unat (cc_used d) \<le> unat (cc_cap d)" "unat (cc_cap d) < 2 ^ 31"
    "memory_free (d_mmu d) (fst (walk (d_mmu d) MAX_OPS_PER_BLOCK pc))" "cpu_pc (d_cpu d) = pc" "flags_ok (d_cpu d)"
  shows "enter_block_sim lay ms b d' = (jit_exec ^^ block_steps (d_mmu d) (fst (walk (d_mmu d) MAX_OPS_PER_BLOCK pc)) (d_cpu d))
    ((d_cpu d)\<lparr>cpu_jit_ret_pc := 0\<rparr>)"
proof -
  define ops where "ops = fst (walk (d_mmu d) MAX_OPS_PER_BLOCK pc)"
  obtain mem base where c: "base = cc_align (cc_used d)" "\<not> cc_cap d < base + block_total (length ops)"
    "let g = emit_block lay host_helper_addr (d_mmu d) ops mem (block_total (length ops))
     in d_cpu d' = d_cpu d \<and> blk_code (d_blk d' b) = base \<and> code_size (d_blk d' b) = actual_size g
        \<and> entry_off (d_blk d' b) = entry_offset \<and> cc_words d' = arena_put base (block_mem (flushed g)) (cc_words d)"
    using compile_bump [OF assms(2)] unfolding ops_def by blast
  define g where "g = emit_block lay host_helper_addr (d_mmu d) ops mem (block_total (length ops))"
  note d' = c(3) [unfolded Let_def, folded g_def]
  define c where "c = d_cpu d"
  note r = free_block_runs [OF assms(1), where c = c and pc = pc and mem = mem, folded ops_def, unfolded c_def, folded ops_def g_def, OF assms(5) [folded ops_def]]
  have l: "length ops \<le> 32" using walk_props(3) [of "d_mmu d" MAX_OPS_PER_BLOCK pc] by (simp add: ops_def MAX_OPS_PER_BLOCK_def)
  have sz: "unat (actual_size g) \<le> 3352" using r(2) block_total_is(1) [OF l] l by simp
  have base: "8 dvd unat base" "unat base < 2 ^ 31 + 8"
    using cc_align_unat [of "cc_used d"] cc_align_ge [of "cc_used d"] assms(3,4) by (simp_all add: c(1))
  have "arena_from base (cc_words d') i = block_mem (flushed g) i" if "i < unat (actual_size g)" for i
    using arena_round [OF base(1)] base(2) sz that d' by simp
  with r(3) [OF assms(6,7), of "arena_from base (cc_words d')"] d'
  show ?thesis by (simp add: enter_block_sim_def Let_def guest_def flip: ops_def)
qed

lemma compile_bump_ok:
  fixes d :: dispatcher and pc
  defines "ops \<equiv> fst (walk (d_mmu d) MAX_OPS_PER_BLOCK pc)" and "base \<equiv> cc_align (cc_used d)"
  assumes "\<not> cc_cap d < base + block_total (length ops)" "\<And>d. new_block d = Some b"
    "\<And>mem. \<not> xt_overflow (g_e (emit_block lay helper_addr (d_mmu d) ops mem (block_total (length ops))))"
  shows "\<exists>d'. gbjit_compile_block 0 lay helper_addr new_block pc d = Some (Some b, d')"
proof -
  obtain cur where w: "walk (d_mmu d) MAX_OPS_PER_BLOCK pc = (ops, cur)"
    by (cases "walk (d_mmu d) MAX_OPS_PER_BLOCK pc") (simp add: ops_def)
  have al: "cc_alloc 0 (block_total (length ops)) d = Some (Some base, d\<lparr>cc_used := base + block_total (length ops)\<rparr>)"
    using assms(3) by (simp add: cc_alloc_def bump_alloc_def Let_def base_def)
  have "cc_trim 0 x y z D = Some (bump_trim x y z D)" for x y z D by (simp add: cc_trim_def)
  with al assms(4,5) show ?thesis
    by (simp add: gbjit_compile_block_def Let_def w)
qed

end
