(* ===== verification/Block_Props.thy ===== *)
theory Block_Props
  imports Codegen_Correct Coherence
begin

text \<open>
  The properties of compiled blocks, with a small machine for their witnesses: what the code of a block does in the
  simulator, against the instructions of the interpreter.
\<close>

section \<open>A machine with three bytes of code\<close>

definition some_layout :: mmu_layout where
  "some_layout = \<lparr>off_wram = 0x100, off_hram = 0x2200, off_io = 0x2300, off_page_state = 0x2400\<rparr>"

lemma some_layout_ok: "lay_ok some_layout 0x2600"
  by (simp add: lay_ok_def some_layout_def WRAM_SIZE_def OAM_SIZE_def HRAM_SIZE_def IO_SIZE_def PAGE_COUNT_def)

text \<open>A machine with three bytes of code at address 0, and an arena of 4096 bytes.\<close>

definition coded :: "u8 \<Rightarrow> u8 \<Rightarrow> u8 \<Rightarrow> cpu_state" where
  "coded x y z = static_cpu\<lparr>cpu_mmu := static_mmu\<lparr>rom := (\<lambda>_. 0)(0 := x, 1 := y, 2 := z)\<rparr>\<rparr>"

lemma coded_reads [simp]:
  "mmu_read8 (cpu_mmu (coded x y z)) 0 = x" "mmu_read8 (cpu_mmu (coded x y z)) 1 = y" "mmu_read8 (cpu_mmu (coded x y z)) 2 = z"
  "cpu_pc (coded x y z) = 0" "flags_ok (coded x y z)" "cpu_a (coded x y z) = 0" "cpu_f (coded x y z) = 0"
  by (simp_all add: coded_def static_cpu_def static_mmu_def mmu_read8_def Let_def flags_ok_def)

definition small_arena :: "cpu_state \<Rightarrow> dispatcher" where
  "small_arena c = (zero_dispatcher c)\<lparr>cc_cap := 4096\<rparr>"

lemma small_arena_sel [simp]: "d_cpu (small_arena c) = c" "cc_used (small_arena c) = 0" "cc_cap (small_arena c) = 4096"
  by (simp_all add: small_arena_def zero_dispatcher_def)

lemma coded_walk:
  "fst (walk (cpu_mmu (coded 0x3C 0x18 0xFD)) MAX_OPS_PER_BLOCK 0) = [(0, 0x3C), (1, 0x18)]"
proof -
  have n: "MAX_OPS_PER_BLOCK = Suc (Suc 30)" by (simp add: MAX_OPS_PER_BLOCK_def)
  show ?thesis unfolding n walk.simps
    by (simp add: Let_def case_prod_beta ppu_io_write_def sm83_terminates_block_def op_info_def)
qed

section \<open>Compiled blocks and the interpreter\<close>

text \<open>C3: compiled blocks refine the interpreter, for blocks made of these instructions, in any order and number up to
  the limit of 32: NOP, HALT, LD between 8-bit registers, LD of an 8-bit or 16-bit immediate into a register, INC and
  DEC of 8-bit and 16-bit registers, ADD HL, the 8-bit arithmetic and logic on registers and immediates, the rotates of
  A, CPL, SCF, CCF, the CB instructions on registers, JR, JP and JP HL, conditional JR and JP
  (\<open>memory_free\<close>: everything that is inlined without a memory access). Blocks with any other instruction are outside:
  those that access memory, and those that are left to the interpreter, such as DAA, DI, EI, LD SP,HL, ADD SP,e and
  LD HL,SP+e. The build is the one with the bump allocator (GBJIT_JIT_EVICT 0); the arena is below 2 GiB and has room
  for the block's reservation, and the block structure can be allocated. Then \<open>gbjit_compile_block\<close> succeeds (the
  emission does not overflow), and entering the compiled block with the CPU at its start leaves exactly the CPU state
  that the interpreter's instructions leave one after the other (fetch, execute, count cycles in the low half of the
  counter; return address cleared): all instructions of the block, or all rounds of a recognised delay loop.\<close>

theorem compiled_block_correct:
  assumes "lay_ok lay ms" "\<forall>d. new_block d = Some b"
    "unat (cc_used d) \<le> unat (cc_cap d)" "unat (cc_cap d) < 2 ^ 31"
    "ops = fst (walk (d_mmu d) MAX_OPS_PER_BLOCK (cpu_pc (d_cpu d)))"
    "cc_align (cc_used d) + block_total (length ops) \<le> cc_cap d"
    "memory_free (d_mmu d) ops" "flags_ok (d_cpu d)"
  shows "\<exists>d'. gbjit_compile_block 0 lay host_helper_addr new_block (cpu_pc (d_cpu d)) d = Some (Some b, d')
    \<and> enter_block_sim lay ms b d' = (jit_exec ^^ block_steps (d_mmu d) ops (d_cpu d)) ((d_cpu d)\<lparr>cpu_jit_ret_pc := 0\<rparr>)"
proof -
  have "\<exists>d'. gbjit_compile_block 0 lay host_helper_addr new_block (cpu_pc (d_cpu d)) d = Some (Some b, d')"
    using assms(2,6,7) free_block_runs(1) [OF assms(1), of "d_cpu d" "cpu_pc (d_cpu d)"]
    unfolding assms(5) by (intro compile_bump_ok) (auto simp: not_less)
  then obtain d' where d': "gbjit_compile_block 0 lay host_helper_addr new_block (cpu_pc (d_cpu d)) d = Some (Some b, d')" ..
  show ?thesis
    using d' enter_compiled [OF assms(1) d' assms(3,4) assms(7) [unfolded assms(5)] refl assms(8)] unfolding assms(5) by blast
qed

theorem compiled_block_correct_witness:
  "\<exists>d'. gbjit_compile_block 0 some_layout host_helper_addr (\<lambda>_. Some 0) 0 (small_arena (coded 0x3C 0x18 0xFD)) = Some (Some 0, d')
    \<and> cpu_a (enter_block_sim some_layout 0x2600 0 d') = 1 \<and> cpu_pc (enter_block_sim some_layout 0x2600 0 d') = 0"
proof -
  let ?c = "coded 0x3C 0x18 0xFD"
  have r: "cc_align 0 + block_total (Suc (Suc 0)) \<le> (4096 :: u32)"
    using block_total_is(1) [of "Suc (Suc 0)"] by (simp add: cc_align_def CC_ALIGN_def word_le_nat_alt)
  have "\<exists>d'. gbjit_compile_block 0 some_layout host_helper_addr (\<lambda>_. Some 0) (cpu_pc (d_cpu (small_arena ?c))) (small_arena ?c) = Some (Some 0, d')
    \<and> enter_block_sim some_layout 0x2600 0 d' = (jit_exec ^^ block_steps (d_mmu (small_arena ?c)) [(0, 0x3C), (1, 0x18)] (d_cpu (small_arena ?c)))
      ((d_cpu (small_arena ?c))\<lparr>cpu_jit_ret_pc := 0\<rparr>)"
    by (rule compiled_block_correct [OF some_layout_ok])
      (use coded_walk r in \<open>simp_all add: memory_free_def plain_op_def\<close>)
  moreover have "cpu_a (jit_exec (jit_exec (?c\<lparr>cpu_jit_ret_pc := 0\<rparr>))) = 1" "cpu_pc (jit_exec (jit_exec (?c\<lparr>cpu_jit_ret_pc := 0\<rparr>))) = 0"
    by (simp_all add: jit_exec_def fetch8_def rd8_def exec_op_def exec_20_def exec_00_def timed_def op_info_def inc_r_def alu_inc8_def
        reg8_read_def reg8_write_def Let_def low_add_def)
  ultimately show ?thesis
    by (auto simp: block_steps_def is_dec_a_loop_def)
qed

text \<open>C4: blocks in which, besides the inlined instructions that access no memory (NOP, HALT, LD, INC, DEC,
  arithmetic, logic, rotates and CB on registers and immediates, JR, JP, JP HL, conditional JR and JP), those without an
  inliner may occur (\<open>helper_op\<close>: LD (BC)/(DE),A and back, LD (a16),SP, INC and DEC (HL),
  the CB instructions on (HL), STOP, DAA, DI, EI, LD SP,HL, ADD SP,e, LD HL,SP+e, conditional CALL and RET, RETI,
  LDH (C),A and back, the undefined opcodes; LDH (n8),A outside HRAM, LDH A,(FF00), LDH A,(FFFF), LD (a16),A and
  LD A,(a16) outside WRAM and HRAM), which become calls of \<open>sm83_step\<close>. Not covered are the inlined memory accesses,
  the delay loop DEC A; JR NZ,-3, and the idle-poll block LDH A,(n8); AND A or OR A; JR Z,-5 with n8 at least 80, whose
  code sets \<open>cpu_halted\<close>. For every such block, built anywhere in memory: the emitted code runs to the return to the
  dispatcher, within the simulator's step limit, and does what the instructions do one after the other (the inlined ones
  as the interpreter's fetch and execute, the others as whole \<open>sm83_step\<close>s), provided that control follows the block
  (\<open>follows\<close>): before each of its instructions the PC is at it and memory still holds its bytes. That
  excludes a helper call diverted by an interrupt, a jump that the helper takes in mid-block, and self-modification.\<close>

theorem block_follows_interpreter:
  assumes "lay_ok lay ms" "ops = fst (walk m MAX_OPS_PER_BLOCK pc)" "\<forall>p\<in>set ops. covered_op m (fst p) (snd p)"
    "\<not> is_dec_a_loop m ops" "\<not> is_io_poll_halt m ops"
    "g = emit_block lay host_helper_addr m ops mem (block_total (length ops))"
    "\<forall>i<unat (actual_size g). code i = block_mem (flushed g) i" "follows m ops (c\<lparr>cpu_jit_ret_pc := 0\<rparr>)"
  shows "let x = enter_run lay ms code (actual_size g) entry_offset c
    in sim_status x = XT_SIM_RETURNED \<and> block_does m ops (c\<lparr>cpu_jit_ret_pc := 0\<rparr>) (host_get lay (sim_host x) (sim_user x))"
proof -
  have o: "length ops \<le> 32" "\<forall>p\<in>set ops. snd p = mmu_read8 m (fst p) \<and> covered_op m (fst p) (snd p)"
    "\<forall>p\<in>set (butlast ops). \<not> sm83_terminates_block (snd p)"
    using walk_props(1,2) [of _ m MAX_OPS_PER_BLOCK pc] walk_props(3) [of m MAX_OPS_PER_BLOCK pc] assms(3) unfolding assms(2) by (auto simp: MAX_OPS_PER_BLOCK_def)
  show ?thesis
    using block_runs [OF assms(1) o assms(4,5), of mem code c] assms(7,8) unfolding assms(6) by (simp add: Let_def guest_def)
qed

lemma coded_walk_daa:
  "fst (walk (cpu_mmu (coded 0x27 0x18 0xFD)) MAX_OPS_PER_BLOCK 0) = [(0, 0x27), (1, 0x18)]"
proof -
  have n: "MAX_OPS_PER_BLOCK = Suc (Suc 30)" by (simp add: MAX_OPS_PER_BLOCK_def)
  show ?thesis unfolding n walk.simps
    by (simp add: Let_def case_prod_beta ppu_io_write_def sm83_terminates_block_def op_info_def)
qed

lemma all_below_3: "(\<forall>i<3. P i) \<longleftrightarrow> P 0 \<and> P 1 \<and> P (2 :: nat)"
  by (auto simp: numeral_3_eq_3 numeral_2_eq_2 less_Suc_eq)

lemma coded_step_daa:
  "at_op (cpu_mmu (coded 0x27 0x18 0xFD)) 1 (snd (sm83_step (coded 0x27 0x18 0xFD\<lparr>cpu_jit_ret_pc := 0\<rparr>)))"
proof -
  let ?c = "coded 0x27 0x18 0xFD\<lparr>cpu_jit_ret_pc := 0\<rparr>"
  have rd: "mmu_read8 (ppu_tick 0 (cpu_mmu ?c)) a = mmu_read8 (cpu_mmu ?c) a" if "a < 0x8000" for a
    using that by (simp add: mmu_read8_def Let_def word_less_nat_alt word_le_nat_alt rom_off_def)
  have z: "cpu_cycles ?c = 0" "ie (cpu_mmu ?c) = 0" "cpu_halted ?c = 0" "cpu_ime_pending ?c = 0"
    by (simp_all add: coded_def static_cpu_def static_mmu_def)
  let ?d = "service_entry ?c"
  have d: "cpu_mmu ?d = ppu_tick 0 (cpu_mmu ?c)" "cpu_halted ?d = 0" "cpu_pc ?d = 0" "rd8 0 ?d = 0x27" "cpu_cycles ?d = 0"
    using z rd [of 0] by (simp_all add: service_entry_def Let_def rd8_def)
  have e: "exec_op 0x27 s = (4, op_daa s)" for s
    by (simp add: exec_op_def exec_20_def timed_def op_info_def)
  have s: "snd (sm83_step ?c) = (op_daa (?d\<lparr>cpu_pc := 1\<rparr>))\<lparr>cpu_cycles := 4\<rparr>"
    using z d by (simp add: sm83_step_def Let_def quiet_service fetch8_def e ei_promote_def)
  have f: "flags_ok (snd (sm83_step ?c))" by (rule step_flags_ok) (use coded_reads(5) in \<open>simp add: flags_ok_def\<close>)
  show ?thesis
    unfolding at_op_def using f rd d by (simp add: s all_below_3)
qed

theorem block_follows_interpreter_witness:
  "let m = cpu_mmu (coded 0x27 0x18 0xFD); g = emit_block some_layout host_helper_addr m [(0, 0x27), (1, 0x18)] (\<lambda>_. 0) (block_total 2);
       x = enter_run some_layout 0x2600 (block_mem (flushed g)) (actual_size g) entry_offset (coded 0x27 0x18 0xFD)
   in sim_status x = XT_SIM_RETURNED \<and> block_does m [(0, 0x27), (1, 0x18)] (coded 0x27 0x18 0xFD\<lparr>cpu_jit_ret_pc := 0\<rparr>)
        (host_get some_layout (sim_host x) (sim_user x))"
proof -
  let ?m = "cpu_mmu (coded 0x27 0x18 0xFD)" and ?ops = "[(0, 0x27), (1, 0x18)] :: (u16 \<times> u8) list"
  let ?g = "emit_block some_layout host_helper_addr ?m ?ops (\<lambda>_. 0) (block_total (length ?ops))"
  have "at_op ?m 0 (coded 0x27 0x18 0xFD\<lparr>cpu_jit_ret_pc := 0\<rparr>)" by (simp add: at_op_def flags_ok_def [of "coded x y z\<lparr>cpu_jit_ret_pc := 0\<rparr>" for x y z])
  then have f: "follows ?m ?ops (coded 0x27 0x18 0xFD\<lparr>cpu_jit_ret_pc := 0\<rparr>)"
    using coded_step_daa by (simp add: op_does_def plain_op_def cond_op_def word_le_nat_alt)
  have o: "\<forall>p\<in>set ?ops. covered_op ?m (fst p) (snd p)" "\<not> is_dec_a_loop ?m ?ops" "\<not> is_io_poll_halt ?m ?ops"
    by (simp_all add: covered_op_def helper_op_def plain_op_def is_dec_a_loop_def is_io_poll_halt_def)
  have b: "block_total (length ?ops) = block_total 2" by (simp only: list.size) (simp add: numeral_2_eq_2)
  show ?thesis
    using block_follows_interpreter [where g = ?g and mem = "\<lambda>_. 0" and code = "block_mem (flushed ?g)", OF some_layout_ok coded_walk_daa [symmetric] o refl _ f]
    unfolding b Let_def by blast
qed


text \<open>C9: the delay loop. The constant-time code emitted for DEC A; JR NZ,-3 returns with exactly the state that the
  rounds of the loop reach one instruction at a time, A or 256 of them; so 16 A - 4 cycles, or 4092 for A = 0.\<close>

theorem delay_loop_equiv:
  assumes "lay_ok lay ms" "ops = fst (walk (cpu_mmu c) MAX_OPS_PER_BLOCK (cpu_pc c))" "is_dec_a_loop (cpu_mmu c) ops" "flags_ok c"
    "g = emit_block lay host_helper_addr (cpu_mmu c) ops mem (block_total (length ops))"
    "\<forall>i<unat (actual_size g). code i = block_mem (flushed g) i"
  shows "let x = enter_run lay ms code (actual_size g) entry_offset c; n = if cpu_a c = 0 then 256 else unat (cpu_a c)
    in sim_status x = XT_SIM_RETURNED \<and> host_get lay (sim_host x) (sim_user x) = (jit_exec ^^ (2 * n)) (c\<lparr>cpu_jit_ret_pc := 0\<rparr>)
      \<and> host_get lay (sim_host x) (sim_user x) = low_add (of_nat (16 * n - 4))
         (c\<lparr>cpu_jit_ret_pc := 0, cpu_a := 0, cpu_f := (cpu_f c AND FLAG_C) OR (FLAG_Z OR FLAG_N), cpu_pc := cpu_pc c + 3\<rparr>)"
proof -
  have a: "at_dec_a (c\<lparr>cpu_jit_ret_pc := 0\<rparr>)"
    using dec_a_walk [OF assms(3) [unfolded assms(2)]] assms(4) by (simp add: at_dec_a_def rd8_def flags_ok_def)
  define n where "n = (if cpu_a c = 0 then 256 else unat (cpu_a c))"
  have "cpu_a c = of_nat n" "1 \<le> n" "n \<le> 256"
    using less_imp_le [OF unat_u8 [of "cpu_a c"]] by (auto simp: n_def unat_gt_0 Suc_le_eq)
  then have r: "(jit_exec ^^ (2 * n)) (c\<lparr>cpu_jit_ret_pc := 0\<rparr>) = low_add (of_nat (16 * n - 4))
      (c\<lparr>cpu_jit_ret_pc := 0, cpu_a := 0, cpu_f := (cpu_f c AND 0x10) OR 0xC0, cpu_pc := cpu_pc c + 3\<rparr>)"
    using dec_a_rounds [OF a, of n] by simp
  have e: "dec_a_exit (c\<lparr>cpu_jit_ret_pc := 0\<rparr>) = (jit_exec ^^ (2 * n)) (c\<lparr>cpu_jit_ret_pc := 0\<rparr>)"
    using dec_a_exit_rounds [OF a] by (simp add: n_def cong: if_cong)
  have f: "FLAG_Z OR FLAG_N = 0xC0" by simp
  show ?thesis
    unfolding Let_def n_def [symmetric] f
    using dec_a_block_runs [OF assms(1,3) assms(6) [unfolded assms(5)], of c] e r unfolding assms(5) guest_def by (simp only: simp_thms)
qed


lemma coded_walk_delay:
  "fst (walk (cpu_mmu (coded 0x3D 0x20 0xFD)) MAX_OPS_PER_BLOCK 0) = [(0, 0x3D), (1, 0x20)]"
proof -
  have n: "MAX_OPS_PER_BLOCK = Suc (Suc 30)" by (simp add: MAX_OPS_PER_BLOCK_def)
  show ?thesis unfolding n walk.simps
    by (simp add: Let_def case_prod_beta ppu_io_write_def sm83_terminates_block_def op_info_def)
qed

theorem delay_loop_equiv_witness:
  "let c = coded 0x3D 0x20 0xFD; ops = [(0, 0x3D), (1, 0x20)];
       g = emit_block some_layout host_helper_addr (cpu_mmu c) ops (\<lambda>_. 0) (block_total (length ops));
       x = enter_run some_layout 0x2600 (block_mem (flushed g)) (actual_size g) entry_offset c
   in sim_status x = XT_SIM_RETURNED \<and> cpu_pc (host_get some_layout (sim_host x) (sim_user x)) = 3
      \<and> host_get some_layout (sim_host x) (sim_user x) = (jit_exec ^^ 512) (c\<lparr>cpu_jit_ret_pc := 0\<rparr>)"
proof -
  let ?c = "coded 0x3D 0x20 0xFD" and ?ops = "[(0, 0x3D), (1, 0x20)] :: (u16 \<times> u8) list"
  let ?g = "emit_block some_layout host_helper_addr (cpu_mmu ?c) ?ops (\<lambda>_. 0) (block_total (length ?ops))"
  have w: "?ops = fst (walk (cpu_mmu ?c) MAX_OPS_PER_BLOCK (cpu_pc ?c))" using coded_walk_delay by simp
  have l: "is_dec_a_loop (cpu_mmu ?c) ?ops" by (simp add: is_dec_a_loop_def)
  have n: "(if cpu_a ?c = 0 then 256 else unat (cpu_a ?c)) = 256" "2 * 256 = (512 :: nat)" by simp_all
  let ?x = "enter_run some_layout 0x2600 (block_mem (flushed ?g)) (actual_size ?g) entry_offset ?c"
  have t: "sim_status ?x = XT_SIM_RETURNED" "host_get some_layout (sim_host ?x) (sim_user ?x) = (jit_exec ^^ 512) (?c\<lparr>cpu_jit_ret_pc := 0\<rparr>)"
    "host_get some_layout (sim_host ?x) (sim_user ?x) = low_add (of_nat (16 * 256 - 4))
       (?c\<lparr>cpu_jit_ret_pc := 0, cpu_a := 0, cpu_f := (cpu_f ?c AND FLAG_C) OR (FLAG_Z OR FLAG_N), cpu_pc := cpu_pc ?c + 3\<rparr>)"
    using delay_loop_equiv [where g = ?g and mem = "\<lambda>_. 0" and code = "block_mem (flushed ?g)", OF some_layout_ok w l coded_reads(5) refl,
      unfolded n(1), unfolded Let_def n(2)] by blast+
  have "cpu_pc (host_get some_layout (sim_host ?x) (sim_user ?x)) = 3" unfolding t(3) by (simp add: low_add_def)
  with t(1,2) show ?thesis unfolding Let_def by blast
qed

end
