(* ===== verification/Loop_Props.thy ===== *)
theory Loop_Props
  imports Block_Props Dispatch_Props
begin

text \<open>
  The run loop with the code generator of src/jit/codegen.c: \<open>gbjit_compile_block\<close> meets the contract \<open>compiler_ok\<close>
  that the loop's lemmas ask for, so that they hold of the program's own compiler.
\<close>

section \<open>The compiler's effect on the dispatcher\<close>

lemma bump_more: "bump_alloc n d = (r, d') \<Longrightarrow> codecache.more d' = codecache.more d"
  by (auto simp: bump_alloc_def Let_def split: if_splits)

lemma put_block_more: "codecache.more (put_block base g d) = codecache.more d"
  by (simp add: put_block_def)

lemma bump_trim_more: "codecache.more (bump_trim b a r d) = codecache.more d"
  by (simp add: bump_trim_def)

lemma make_block_new: "gb_pc_start (make_block m pc ops cur base n) = pc" "predicted_next (make_block m pc ops cur base n) = (\<lambda>_. None)"
  by (simp_all add: make_block_def Let_def case_prod_beta)

lemma compile_more:
  "\<exists>r d'. gbjit_compile_block 0 lay helper new_block pc d = Some (r, d')
    \<and> (\<exists>c. codecache.more c = codecache.more d
      \<and> (r = None \<and> d' = c \<or> (\<exists>b B. new_block c = Some b \<and> r = Some b \<and> gb_pc_start B = pc \<and> predicted_next B = (\<lambda>_. None)
           \<and> d' = c\<lparr>d_blk := (d_blk c)(b := B), d_live := (d_live c)(b := True)\<rparr>)))"
proof -
  define ops where "ops = fst (walk (d_mmu d) MAX_OPS_PER_BLOCK pc)"
  define cur where "cur = snd (walk (d_mmu d) MAX_OPS_PER_BLOCK pc)"
  have w: "walk (d_mmu d) MAX_OPS_PER_BLOCK pc = (ops, cur)" by (simp add: ops_def cur_def)
  define n where "n = block_total (length ops)"
  obtain r e where r: "bump_alloc n d = (r, e)" by (cases "bump_alloc n d")
  note e = bump_more [OF r]
  show ?thesis
  proof (cases r)
    case None
    with r e w show ?thesis by (simp add: gbjit_compile_block_def cc_alloc_def n_def [symmetric])
  next
    case (Some base)
    define g where "g = emit_block lay helper (d_mmu d) ops (\<lambda>i. if i < unat n then 0 else arena_from base (cc_words e) i) n"
    show ?thesis
    proof (cases "xt_overflow (g_e g)")
      case True
      with Some r e w show ?thesis
        by (simp add: gbjit_compile_block_def cc_alloc_def cc_release_def n_def [symmetric] g_def [symmetric] put_block_more)
    next
      case False
      define h where "h = g\<lparr>g_e := xt_flush_pending (g_e g)\<rparr>"
      define a where "a = (entry_offset + xt_len (g_e h) + 7) AND NOT 7"
      define c where "c = bump_trim base a n (put_block base h e)"
      have c: "codecache.more c = codecache.more d" using e by (simp add: c_def bump_trim_more put_block_more)
      have "gbjit_compile_block 0 lay helper new_block pc d = (case new_block c of None \<Rightarrow> Some (None, c)
        | Some b \<Rightarrow> Some (Some b, (set_blk b (make_block (d_mmu d) pc ops cur base a) c)\<lparr>d_live := (d_live c)(b := True)\<rparr>))"
        using False Some r w
        by (simp add: gbjit_compile_block_def cc_alloc_def cc_release_def cc_trim_def codecache_finalize_def n_def [symmetric]
            g_def [symmetric] c_def a_def h_def set_blk_def Let_def split: option.split)
      then show ?thesis using c make_block_new
        by (cases "new_block c") (force simp: set_blk_def)+
    qed
  qed
qed

text \<open>\<open>calloc\<close> returns memory that is not in use.\<close>

definition gives_fresh :: "(dispatcher \<Rightarrow> bref option) \<Rightarrow> bool" where
  "gives_fresh new_block \<longleftrightarrow> (\<forall>d b. new_block d = Some b \<longrightarrow> \<not> d_live d b)"

lemma compile_block_ok:
  assumes "gives_fresh new_block"
  shows "compiler_ok (gbjit_compile_block 0 lay helper new_block)"
  unfolding compiler_ok_def
proof (intro allI impI)
  fix pc d assume a: "table_inv None d \<and> find_block d pc = None"
  obtain r d' c where c: "gbjit_compile_block 0 lay helper new_block pc d = Some (r, d')" "codecache.more c = codecache.more d"
    "r = None \<and> d' = c \<or> (\<exists>b B. new_block c = Some b \<and> r = Some b \<and> gb_pc_start B = pc \<and> predicted_next B = (\<lambda>_. None)
       \<and> d' = c\<lparr>d_blk := (d_blk c)(b := B), d_live := (d_live c)(b := True)\<rparr>)"
    using compile_more [of lay helper new_block pc d] by blast
  note m = more_eq [OF c(2)] more_table [OF c(2)]
  have fc: "find_block c pc = None" using a m(2,4) by (simp add: find_block_def)
  have tc: "table_inv None c" using a m(14) by blast
  from c(3) have "table_inv None d' \<and> tbl d' = tbl d \<and> run_prev d' = run_prev d
      \<and> d_cpu d' = d_cpu d \<and> no_cache d' = no_cache d
      \<and> (\<forall>x\<in>tbl d. gb_pc_start (d_blk d' x) = gb_pc_start (d_blk d x))
      \<and> (\<forall>b. r = Some b \<longrightarrow> fresh_block b d' \<and> gb_pc_start (d_blk d' b) = pc)"
  proof (elim disjE exE conjE)
    assume "r = None" "d' = c"
    then show ?thesis using tc m by simp
  next
    fix b B assume b: "new_block c = Some b" "r = Some b" "gb_pc_start B = pc" "predicted_next B = (\<lambda>_. None)"
      "d' = c\<lparr>d_blk := (d_blk c)(b := B), d_live := (d_live c)(b := True)\<rparr>"
    have nb: "b \<notin> tbl c"
    proof
      assume "b \<in> tbl c"
      then obtain i where "i < 1024" "b \<in> set (buckets c i)" by (auto simp: tbl_def)
      then have "d_live c b" using tc by (auto simp: table_inv_def buckets_ok_def)
      with assms b(1) show False by (auto simp: gives_fresh_def)
    qed
    note add = add_unused_block [OF nb, of B]
    have "fresh_block b d'" unfolding b(5) by (rule add_block_fresh [OF nb tc]) (use fc b in simp_all)
    moreover have "tbl d' = tbl d" "table_inv None d'" unfolding b(5) using add(1) add(2) [OF tc] m(13) by auto
    moreover have "\<forall>x\<in>tbl d. gb_pc_start (d_blk d' x) = gb_pc_start (d_blk d x)" using nb m(2,13) by (auto simp: b(5))
    ultimately show ?thesis using b(2,3) m by (simp add: b(5))
  qed
  with c(1) show "\<exists>r d'. gbjit_compile_block 0 lay helper new_block pc d = Some (r, d') \<and> table_inv None d' \<and> tbl d' = tbl d
      \<and> run_prev d' = run_prev d \<and> d_cpu d' = d_cpu d \<and> no_cache d' = no_cache d
      \<and> (\<forall>x\<in>tbl d. gb_pc_start (d_blk d' x) = gb_pc_start (d_blk d x))
      \<and> (\<forall>b. r = Some b \<longrightarrow> fresh_block b d' \<and> gb_pc_start (d_blk d' b) = pc)" by blast
qed

section \<open>The property\<close>

text \<open>C2: one iteration of the run loop with the program's own compiler, in the build with the bump allocator
  (GBJIT_JIT_EVICT 0) and with caching on. The block table is consistent at the start and the previous block is
  absent or cached (\<open>loop_inv\<close>, which includes \<open>no_cache\<close> unset); \<open>calloc\<close> hands out memory that is not in use, or
  fails; the cycle limit is at least 4 below 2^64. Then the iteration, whatever path it takes (clean-up, interrupt,
  HALT, EI delay, interpreter, predicted or hashed block, compilation with or without emptying the cache, prefetch,
  self-loop, chaining), returns and keeps \<open>loop_inv\<close>; and it never enters a block through a stale pointer: for any
  way \<open>f\<close> of running a block, the outcome is that of every \<open>g\<close> which agrees with \<open>f\<close> on the live, cached blocks that
  start at the current PC.\<close>

theorem dispatch_iteration_safe:
  assumes "gives_fresh new_block" "loop_inv d" "unat until + 4 < 2 ^ 64" "agree_on_valid f g"
  shows "\<exists>on d'. run_iter (gbjit_compile_block 0 lay helper_addr new_block) f n 0 until d = Some (on, d') \<and> loop_inv d'
    \<and> run_iter (gbjit_compile_block 0 lay helper_addr new_block) g n 0 until d = Some (on, d')"
  using run_iter_safe [OF compile_block_ok [OF assms(1)] assms(2-4), of lay helper_addr n] by (auto simp: iter_result_def)

text \<open>Blocks entered through the simulator, with room for one block on the host heap.\<close>

theorem dispatch_iteration_safe_witness:
  "\<exists>on d'. run_iter (gbjit_compile_block 0 some_layout host_helper_addr (\<lambda>d. if d_live d 0 then None else Some 0))
     (enter_block_sim some_layout 0x2600) 4 0 100 (small_arena (coded 0x3C 0x18 0xFD)) = Some (on, d') \<and> loop_inv d'"
proof -
  let ?d = "small_arena (coded 0x3C 0x18 0xFD)"
  have "loop_inv ?d" using empty_table [of ?d] by (simp add: loop_inv_def small_arena_def zero_dispatcher_def)
  moreover have "gives_fresh (\<lambda>d. if d_live d 0 then None else Some 0)" by (simp add: gives_fresh_def)
  moreover have "agree_on_valid (enter_block_sim some_layout 0x2600) (enter_block_sim some_layout 0x2600)" by (simp add: agree_on_valid_def)
  ultimately show ?thesis
    using dispatch_iteration_safe [of "\<lambda>d. if d_live d 0 then None else Some 0" ?d 100 _ _ some_layout host_helper_addr 4] by fastforce
qed

end
