(* ===== verification/Spec2Isabelle.thy ===== *)
theory Spec2Isabelle
  imports Prelude Interfaces Mmu_State Ppu_Render Ppu Ppu_Frame Mmu Mmu_Laws Decoder Cpu Interp
    Interp_Step Interp_Run Daa Render_Laws Ppu_Laws Mmu_Safety Emit Xt_Sim Emit_Laws Xt_Insn Xt_Program
    Codecache Codecache_List Codecache_Laws Block Dispatcher Dispatcher_Laws Dispatch_Run Coherence Dispatch_Laws
    Dispatch_Props Codegen_Block Codegen_Emit Codegen_Patch Enter_Block
    Guest_View Codegen_Exec Codegen_Sem Codegen_Sem_Alu Codegen_Sem_Flow Codegen_Plain Codegen_Grow
    Codegen_Step Codegen_Run Codegen_Frame Codegen_Free Codegen_Loop Codegen_Correct Block_Props Loop_Props
begin

text \<open>
  A Game Boy emulator that translates SM83 code to Xtensa machine code. This library models the parts under src/core
  and src/jit and proves what makes them correct; each theory opens with a text on what it holds.

  The program. \<open>cpu_state\<close> (core/cpu_state.h) holds the registers and points to \<open>struct mmu\<close> (core/memory.h), which
  holds the memories, the cartridge's bank registers, the PPU, the timer and the flags by which code that changes is
  noticed. The interpreter (core/sm83_interp.c) executes one instruction; it calls the memory unit (core/memory.c), and
  that calls the PPU and timer (core/ppu.c) for the accesses that need them up to date. The dispatcher
  (jit/dispatcher.c) runs the guest by blocks: it keeps compiled blocks in a hash table, drops those whose source has
  changed, follows predicted successors, and has the code generator (jit/codegen.c) compile what is missing into an
  arena that the code cache (jit/codecache.c) manages. The code generator writes through the encoder
  (jit/emit_xtensa.c); emitted code calls the interpreter for what is not inlined. On the host a block runs in a small
  Xtensa simulator (jit/xtensa_sim.c).

  Theories and code.
  \<^item> core/memory.c, memory.h: \<open>Mmu_State\<close> (\<open>struct mmu\<close> as a record), \<open>Mmu\<close> (one definition for each function);
    \<open>Mmu_Laws\<close>, \<open>Mmu_Safety\<close>: read after write, no access outside the arrays, cartridge loading, DMA, and that a
    write which changes code is noticed.
  \<^item> core/ppu.c: \<open>Ppu_Render\<close> (a scanline: background by tables or pixel by pixel, window, sprites), \<open>Ppu\<close> (modes,
    LY, STAT, next event, timer), \<open>Ppu_Frame\<close> (what they leave alone); \<open>Render_Laws\<close>: a line against a pixel-wise
    specification; \<open>Ppu_Laws\<close>: timing of a line, closed form of the timer, and that calling either
    less often is not observable.
  \<^item> core/sm83_decoder.c, sm83_interp.c, cpu_state.h: \<open>Decoder\<close>, \<open>Cpu\<close>, \<open>Interp\<close>; \<open>Interp_Step\<close>, \<open>Interp_Run\<close>:
    cycles, flags, program counter, interrupts, EI delay, the reachable states, termination of \<open>sm83_run_until\<close>;
    \<open>Daa\<close>: decimal arithmetic.
  \<^item> jit/emit_xtensa.c: \<open>Emit\<close>; \<open>Emit_Laws\<close>: the buffer as a sink of bytes. jit/xtensa_sim.c: \<open>Xt_Sim\<close>. \<open>Xt_Insn\<close>,
    \<open>Xt_Program\<close>: every encoder against the simulator's decoder, for the operands in range, and for whole programs.
  \<^item> jit/codecache.c: \<open>Codecache\<close> (coldness free list, ring, bump allocator); \<open>Codecache_List\<close> relates the headers in
    the arena to a list of spans; \<open>Codecache_Laws\<close>: blocks are disjoint, the exact condition for success, round trip.
  \<^item> jit/dispatcher.c: \<open>Block\<close> (data), \<open>Dispatcher\<close> (table, pages, eviction, invalidation), \<open>Dispatch_Run\<close> (run loop),
    \<open>Enter_Block\<close> (\<open>enter_block_sim\<close> and its callbacks); \<open>Dispatcher_Laws\<close>: the invariant \<open>table_inv\<close> and that every
    operation keeps it; \<open>Coherence\<close>: the cache against guest memory; \<open>Dispatch_Laws\<close>, \<open>Dispatch_Props\<close>: the loop,
    the predictor, eviction and invalidation.
  \<^item> jit/codegen.c: \<open>Codegen\<close>, \<open>Codegen_Ops\<close>, \<open>Codegen_Alu\<close>, \<open>Codegen_Flow\<close> (pool, patching, the inliner of each
    opcode), \<open>Codegen_Block\<close> (walk, patterns, \<open>gbjit_compile_block\<close>). Their proofs go up in layers: \<open>Codegen_Emit\<close>,
    \<open>Codegen_Patch\<close>, \<open>Codegen_Grow\<close> (the buffer as a list of instructions, patched branches), \<open>Guest_View\<close>,
    \<open>Codegen_Exec\<close> (what running it does to the guest), \<open>Codegen_Sem\<close>, \<open>Codegen_Sem_Alu\<close>, \<open>Codegen_Sem_Flow\<close>,
    \<open>Codegen_Plain\<close>, \<open>Codegen_Step\<close> (each inlined opcode against the interpreter), \<open>Codegen_Run\<close>, \<open>Codegen_Frame\<close>,
    \<open>Codegen_Free\<close>, \<open>Codegen_Loop\<close>, \<open>Codegen_Correct\<close> (bodies, whole blocks, the delay loop).
  \<^item> \<open>Block_Props\<close>: compiled blocks refine the interpreter; \<open>Loop_Props\<close>: the run loop with the real compiler.
  \<^item> \<open>Prelude\<close>: types and lemmas on words and lists; \<open>Interfaces\<close>: the locales between components (a byte bus, a byte
    sink, an allocator, a clocked machine, a divisible clock), interpreted on the model where it provides them.

  Bounds and fuel. Integers are words of their C width. Loops are recursions with a termination proof, or partial
  functions into \<open>option\<close> (\<open>None\<close> is not returning) for walks of the free list, eviction, the HALT loop and the run
  loop; returning is proved of those the properties use. The simulator's run has the fuel of the code, 0x100000 steps; a
  block has at most 32 instructions of at most 96 bytes each for the covered ones, and each emitted
  instruction runs at most once, so that the fuel suffices.

  Parameters stand for what is outside: the host allocator (\<open>alloc\<close>, \<open>new_block\<close>), the offsets of the fields of
  \<open>struct mmu\<close> (\<open>lay\<close>, with \<open>lay_ok\<close>), the literals' addresses and the executor of a block. \<open>evict\<close> is the macro
  GBJIT_JIT_EVICT; the properties of the compiler and the loop are for 0, the bump allocator.

  What is weaker than one might think. Inlined loads and stores, stack operations, CALL, RET, and \<open>is_io_poll_halt\<close> are
  modelled but not proved against the interpreter; the inlined PUSH, CALL, RST and LD (HL+/-),A do not
  mark the page they write to, and coherence does not speak of them. Code in the echo area and blocks that run over
  FFFF are not protected against changes. \<open>jit_exec\<close> is the instruction part of \<open>sm83_step\<close> with the low half of the
  cycle counter, as emitted code keeps it. In the simulator's memory a block's code is a copy, so a store into the code
  region would not change it; the covered blocks make none.

  Not modelled: the PPU thread, boards and ports (I/O), the allocation of the executable arena and the device's
  assembly trampoline, the probes and \<open>detect_back_edge_target\<close> of DEBUG builds, statistics counters, and the
  tools, tests and benchmarks. Assertions of the encoder are off, as in the release build; its ranges are hypotheses.

  What the modelling showed to be wrong is stated where it is proved: the lost DI after EI (\<open>Interp_Run\<close>), line 153
  (\<open>Ppu_Laws\<close>), the stale shade table for BGP = FF (\<open>Render_Laws\<close>), reads without a ROM (\<open>Mmu_Safety\<close>), the wrap in the
  bump allocator (\<open>Codecache_Laws\<close>), wrapped blocks and the eviction of a block just built (\<open>Dispatch_Props\<close>), code in the
  echo area (\<open>Coherence\<close>), raw words after unaligned code and the fetch at the end of the address space (\<open>Xt_Program\<close>).
\<close>

end
